(* ===== verification/VM_Prelude.thy ===== *)
theory VM_Prelude
  imports Main "HOL-Library.Word"
begin

text \<open>
  Shared vocabulary of the development.

  The virtual machine is modelled for its 64-bit configuration (\<open>FACTOR_64\<close>):
  \<open>cell\<close> is \<open>uintptr_t\<close> and \<open>fixnum\<close> is \<open>intptr_t\<close> (\<open>vm/layouts.hpp\<close>).
  A \<open>cell\<close> is a 64-bit word. A \<open>fixnum\<close> is kept as an \<open>int\<close>, and every assignment
  whose right-hand side could leave the 64-bit range is wrapped by \<open>fx\<close>, the two's
  complement reduction, so that overflow is visible in the model: since \<open>+\<close>, \<open>-\<close> and
  \<open>*\<close> commute with the reduction, one wrap around an expression is the same as a wrap
  after each of its operations. \<open>fx2\<close> is the same reduction for the 128-bit
  \<open>bignum_twodigit_type\<close>.
\<close>

unbundle bit_operations_syntax

type_synonym cell = "64 word"
type_synonym fixnum = int
type_synonym twodigit = int

text \<open>The errors the virtual machine raises to the language (\<open>vm/errors.hpp\<close>).\<close>

datatype vm_error_type =
    ERROR_EXPIRED
  | ERROR_IO
  | ERROR_UNUSED
  | ERROR_TYPE
  | ERROR_DIVIDE_BY_ZERO
  | ERROR_SIGNAL
  | ERROR_ARRAY_SIZE
  | ERROR_OUT_OF_FIXNUM_RANGE
  | ERROR_FFI
  | ERROR_UNDEFINED_SYMBOL
  | ERROR_DATASTACK_UNDERFLOW
  | ERROR_DATASTACK_OVERFLOW
  | ERROR_RETAINSTACK_UNDERFLOW
  | ERROR_RETAINSTACK_OVERFLOW
  | ERROR_CALLSTACK_UNDERFLOW
  | ERROR_CALLSTACK_OVERFLOW
  | ERROR_MEMORY
  | ERROR_FP_TRAP
  | ERROR_INTERRUPT
  | ERROR_CALLBACK_SPACE_OVERFLOW

text \<open>An outcome: \<open>None\<close> an abort of the process, \<open>Inl\<close> an error raised, \<open>Inr\<close> a result.\<close>

type_synonym 'a outcome = "(vm_error_type + 'a) option"

definition fx :: "int \<Rightarrow> fixnum" where
  "fx x = signed_take_bit 63 x"

definition fx2 :: "int \<Rightarrow> twodigit" where
  "fx2 x = signed_take_bit 127 x"

named_theorems fx_simps "removal of the wrap-around where the value is in range"

lemma fx_id [fx_simps]: "- (2 ^ 63) \<le> x \<Longrightarrow> x < 2 ^ 63 \<Longrightarrow> fx x = x"
  by (simp add: fx_def signed_take_bit_int_eq_self)

lemma fx2_id [fx_simps]: "- (2 ^ 127) \<le> x \<Longrightarrow> x < 2 ^ 127 \<Longrightarrow> fx2 x = x"
  by (simp add: fx2_def signed_take_bit_int_eq_self)

lemma fx_range: "- (2 ^ 63) \<le> fx x" "fx x < 2 ^ 63"
  unfolding fx_def
  by (rule signed_take_bit_int_greater_eq_minus_exp, rule signed_take_bit_int_less_exp)

lemma fx_fx [simp]: "fx (fx x) = fx x"
  by (simp add: fx_def)

lemma fx_zero [simp]: "fx 0 = 0"
  by (simp add: fx_def)

subsection \<open>Bit operations on integers read as arithmetic\<close>

text \<open>The source builds numbers by shifting and by bitwise-or of disjoint fields.\<close>

lemma and_mask_mod: "(x::int) AND (2 ^ n - 1) = x mod 2 ^ n"
  by (simp add: take_bit_eq_mod flip: mask_eq_exp_minus_1 take_bit_eq_mask)

lemma or_disjoint_add:
  fixes x y :: int
  assumes "0 \<le> y" and "y < 2 ^ n"
  shows "push_bit n x OR y = x * 2 ^ n + y"
proof -
  have "push_bit n x AND y = 0"
  proof (rule bit_eqI)
    fix k
    show "bit (push_bit n x AND y) k \<longleftrightarrow> bit (0::int) k"
    proof (cases "k < n")
      case True
      then show ?thesis by (simp add: bit_and_iff bit_push_bit_iff)
    next
      case False
      have "y = take_bit n y" using assms by (simp add: take_bit_int_eq_self)
      then have "\<not> bit y k" using False by (metis bit_take_bit_iff)
      then show ?thesis by (simp add: bit_and_iff)
    qed
  qed
  then have "push_bit n x OR y = push_bit n x + y"
    by (simp add: disjunctive_add bit_eq_iff bit_and_iff)
  then show ?thesis by (simp add: push_bit_eq_mult)
qed

subsection \<open>Words read as numbers\<close>

lemma sint_fx: "sint (word_of_int k :: cell) = fx k"
  by (simp add: fx_def sint_sbintrunc')

lemma fx_word [simp]: "word_of_int (fx k) = (word_of_int k :: cell)"
  by (rule bit_word_eqI) (simp add: fx_def bit_simps min_absorb2)

lemma unat_and_mask: "unat (x AND mask n) = unat x mod 2 ^ n" for x :: "'a::len word"
  unfolding take_bit_eq_mask [symmetric] unsigned_take_bit_eq take_bit_nat_def ..

lemma and_not_mask: "x AND NOT (mask n) = push_bit n (drop_bit n x)" for x :: "'a::len word"
  by (rule bit_word_eqI) (auto simp: bit_simps)

lemma unat_and_not_mask: "unat (x AND NOT (mask n)) = unat x div 2 ^ n * 2 ^ n" for x :: "'a::len word"
proof -
  have "unat x div 2 ^ n * 2 ^ n \<le> unat x" by simp
  also have "\<dots> < 2 ^ LENGTH('a)" by (rule unsigned_less)
  finally show ?thesis
    unfolding and_not_mask unsigned_push_bit_eq unat_drop_bit_eq drop_bit_nat_def push_bit_nat_def
    by (simp add: take_bit_nat_eq_self)
qed

lemma unat_less_64 [simp]: "unat (x :: cell) < 18446744073709551616"
  using unsigned_less [of x] by simp

lemma unat_add_exact: "unat x + unat y < 2 ^ 64 \<Longrightarrow> unat (x + y) = unat x + unat y" for x y :: cell
  by (simp add: unat_word_ariths)

lemma unat_sub_exact: "y \<le> x \<Longrightarrow> unat (x - y) = unat x - unat y" for x y :: cell
  by (simp add: unat_sub)

lemma unat_mult_exact: "unat x * unat y < 2 ^ 64 \<Longrightarrow> unat (x * y) = unat x * unat y" for x y :: cell
  by (simp add: unat_word_ariths)

lemma unat_add_le: "unat x + unat y \<le> unat z \<Longrightarrow> unat (x + y) = unat x + unat y" for x y z :: cell
proof -
  assume "unat x + unat y \<le> unat z"
  also have "\<dots> < 2 ^ 64" by simp
  finally show ?thesis by (rule unat_add_exact)
qed

end
