(* ===== verification/Bignum_Rep.thy ===== *)
theory Bignum_Rep
  imports VM_Prelude
begin

text \<open>
  Representation of arbitrary-precision integers (\<open>vm/bignumint.hpp\<close>, the \<open>bignum\<close>
  object of \<open>vm/layouts.hpp\<close>, and the allocation and copying helpers of
  \<open>vm/bignum.cpp\<close>).

  A bignum object is an array of cells whose element 0 is the sign and whose other
  elements are the digits, least significant first, in radix \<open>2 ^ 62\<close>. The model keeps
  the sign as a \<open>bool\<close> and the digits as a list of \<open>fixnum\<close>s; \<open>bignum_data\<close> is the
  array as the code sees it. The abstraction function is \<open>bignum_val\<close> and the
  representation invariant \<open>bignum_wf\<close>: digits in range, no leading zero digit, and no
  negative zero.
\<close>

subsection \<open>Constants and half-digit macros\<close>

definition BIGNUM_DIGIT_LENGTH :: nat where
  "BIGNUM_DIGIT_LENGTH = 8 * 8 - 2"

definition BIGNUM_HALF_DIGIT_LENGTH :: nat where
  "BIGNUM_HALF_DIGIT_LENGTH = BIGNUM_DIGIT_LENGTH div 2"

definition BIGNUM_RADIX :: fixnum where
  "BIGNUM_RADIX = push_bit BIGNUM_DIGIT_LENGTH 1"

definition BIGNUM_RADIX_ROOT :: fixnum where
  "BIGNUM_RADIX_ROOT = push_bit BIGNUM_HALF_DIGIT_LENGTH 1"

definition BIGNUM_DIGIT_MASK :: fixnum where
  "BIGNUM_DIGIT_MASK = BIGNUM_RADIX - 1"

definition BIGNUM_HALF_DIGIT_MASK :: fixnum where
  "BIGNUM_HALF_DIGIT_MASK = BIGNUM_RADIX_ROOT - 1"

definition HD_LOW :: "fixnum \<Rightarrow> fixnum" where
  "HD_LOW digit = digit AND BIGNUM_HALF_DIGIT_MASK"

definition HD_HIGH :: "fixnum \<Rightarrow> fixnum" where
  "HD_HIGH digit = drop_bit BIGNUM_HALF_DIGIT_LENGTH digit"

definition HD_CONS :: "fixnum \<Rightarrow> fixnum \<Rightarrow> fixnum" where
  "HD_CONS high low = fx (push_bit BIGNUM_HALF_DIGIT_LENGTH high) OR low"

definition BIGNUM_BITS_TO_DIGITS :: "nat \<Rightarrow> nat" where
  "BIGNUM_BITS_TO_DIGITS n = (n + (BIGNUM_DIGIT_LENGTH - 1)) div BIGNUM_DIGIT_LENGTH"

subsection \<open>The object\<close>

record bignum =
  negative_p :: bool
  digits :: "fixnum list"

definition mk_bignum :: "bool \<Rightarrow> fixnum list \<Rightarrow> bignum" where
  "mk_bignum neg ds = \<lparr>negative_p = neg, digits = ds\<rparr>"

definition bignum_data :: "bignum \<Rightarrow> fixnum list" where
  "bignum_data bn = (if negative_p bn then 1 else 0) # digits bn"

definition BIGNUM_LENGTH :: "bignum \<Rightarrow> nat" where
  "BIGNUM_LENGTH bn = length (digits bn)"

definition BIGNUM_ZERO_P :: "bignum \<Rightarrow> bool" where
  "BIGNUM_ZERO_P bn \<longleftrightarrow> BIGNUM_LENGTH bn = 0"

definition BIGNUM_REF :: "bignum \<Rightarrow> nat \<Rightarrow> fixnum" where
  "BIGNUM_REF bn i = digits bn ! i"

definition BIGNUM_ZERO :: bignum where
  "BIGNUM_ZERO = mk_bignum False []"

definition BIGNUM_ONE :: "bool \<Rightarrow> bignum" where
  "BIGNUM_ONE neg_p = mk_bignum neg_p [1]"

text \<open>
  The C++ functions allocate the result with \<open>allot_bignum\<close>, whose digits are whatever
  the fresh memory holds, and then store every digit. The model constructs the object
  from the list of stored digits; the one function that leaves a digit unwritten and then
  cuts it off (\<open>bignum_add_unsigned\<close>) takes the unknown content as a parameter.
\<close>

definition allot_bignum_zeroed :: "nat \<Rightarrow> bool \<Rightarrow> bignum" where
  "allot_bignum_zeroed len neg = mk_bignum neg (replicate len 0)"

definition bignum_shorten_length :: "bignum \<Rightarrow> nat \<Rightarrow> bignum" where
  "bignum_shorten_length bn len =
     (if len < BIGNUM_LENGTH bn
      then mk_bignum (len \<noteq> 0 \<and> negative_p bn) (take len (digits bn))
      else bn)"

text \<open>
  The scan of \<open>bignum_trim\<close> runs down the data array with \<open>start\<close> at index 1. Its
  guard is \<open>start <= scan\<close>, so on an all-zero bignum the last read is the sign cell at
  index 0; whatever it holds the scan then stops at index 0.
\<close>

fun trim_scan :: "fixnum list \<Rightarrow> nat \<Rightarrow> nat" where
  "trim_scan data 0 = 0"
| "trim_scan data (Suc scan) = (if data ! scan = 0 then trim_scan data scan else scan)"

definition bignum_trim :: "bignum \<Rightarrow> bignum" where
  "bignum_trim bn =
     (let scan = trim_scan (bignum_data bn) (BIGNUM_LENGTH bn + 1) + 1;
          len = scan - 1
      in if scan < BIGNUM_LENGTH bn + 1
         then mk_bignum (len \<noteq> 0 \<and> negative_p bn) (take len (digits bn))
         else bn)"

definition bignum_new_sign :: "bignum \<Rightarrow> bool \<Rightarrow> bignum" where
  "bignum_new_sign x neg = mk_bignum neg (digits x)"

definition bignum_maybe_new_sign :: "bignum \<Rightarrow> bool \<Rightarrow> bignum" where
  "bignum_maybe_new_sign x neg =
     (if (if negative_p x then neg else \<not> neg) then x else bignum_new_sign x neg)"

definition bignum_destructive_copy :: "bignum \<Rightarrow> bignum \<Rightarrow> bignum" where
  "bignum_destructive_copy source target =
     target\<lparr>digits := digits source @ drop (BIGNUM_LENGTH source) (digits target)\<rparr>"

definition bignum_digit_to_bignum :: "fixnum \<Rightarrow> bool \<Rightarrow> bignum" where
  "bignum_digit_to_bignum digit neg =
     (if digit = 0 then BIGNUM_ZERO else mk_bignum neg [digit])"

subsection \<open>Abstraction function and representation invariant\<close>

fun digits_val :: "fixnum list \<Rightarrow> int" where
  "digits_val [] = 0"
| "digits_val (d # ds) = d + BIGNUM_RADIX * digits_val ds"

definition digit_ok :: "fixnum \<Rightarrow> bool" where
  "digit_ok d \<longleftrightarrow> 0 \<le> d \<and> d < BIGNUM_RADIX"

definition digits_ok :: "fixnum list \<Rightarrow> bool" where
  "digits_ok ds \<longleftrightarrow> list_all digit_ok ds"

definition signed_val :: "bool \<Rightarrow> int \<Rightarrow> int" where
  "signed_val neg m = (if neg then - m else m)"

definition bignum_val :: "bignum \<Rightarrow> int" where
  "bignum_val bn = signed_val (negative_p bn) (digits_val (digits bn))"

definition bignum_wf :: "bignum \<Rightarrow> bool" where
  "bignum_wf bn \<longleftrightarrow> digits_ok (digits bn) \<and>
     (if digits bn = [] then \<not> negative_p bn else last (digits bn) \<noteq> 0)"


subsection \<open>Arithmetic of the constants and macros\<close>

named_theorems bignum_num "the constants as numerals, for linear arithmetic"

lemma digit_length [simp]: "BIGNUM_DIGIT_LENGTH = 62" "BIGNUM_HALF_DIGIT_LENGTH = 31"
  by (simp_all add: BIGNUM_DIGIT_LENGTH_def BIGNUM_HALF_DIGIT_LENGTH_def)

lemma radix_num [bignum_num]: "BIGNUM_RADIX = 4611686018427387904"
  by (simp add: BIGNUM_RADIX_def push_bit_eq_mult)

lemma root_num [bignum_num]: "BIGNUM_RADIX_ROOT = 2147483648"
  by (simp add: BIGNUM_RADIX_ROOT_def push_bit_eq_mult)

lemma radix_exp: "BIGNUM_RADIX = 2 ^ 62"
  by (simp add: bignum_num)

lemma root_exp: "BIGNUM_RADIX_ROOT = 2 ^ 31"
  by (simp add: bignum_num)

lemma radix_root: "BIGNUM_RADIX = BIGNUM_RADIX_ROOT * BIGNUM_RADIX_ROOT"
  by (simp add: bignum_num)

lemma radix_pos [simp]: "0 < BIGNUM_RADIX" "0 < BIGNUM_RADIX_ROOT" "1 < BIGNUM_RADIX"
  "BIGNUM_RADIX \<noteq> 0" "BIGNUM_RADIX_ROOT \<noteq> 0" "0 \<le> BIGNUM_RADIX" "0 \<le> BIGNUM_RADIX_ROOT" "1 \<le> BIGNUM_RADIX"
  by (simp_all add: bignum_num)

lemma HD_LOW_mod: "HD_LOW x = x mod BIGNUM_RADIX_ROOT"
  by (simp add: HD_LOW_def BIGNUM_HALF_DIGIT_MASK_def root_exp and_mask_mod del: power_numeral)

lemma HD_HIGH_div: "HD_HIGH x = x div BIGNUM_RADIX_ROOT"
  by (simp add: HD_HIGH_def drop_bit_eq_div bignum_num)

lemma HD_CONS_add [fx_simps]:
  assumes "0 \<le> l" "l < BIGNUM_RADIX_ROOT" "- (2 * BIGNUM_RADIX_ROOT) \<le> h" "h < 2 * BIGNUM_RADIX_ROOT"
  shows "HD_CONS h l = h * BIGNUM_RADIX_ROOT + l"
proof -
  have "fx (push_bit 31 h) = push_bit 31 h"
    using assms by (intro fx_id) (simp_all add: push_bit_eq_mult bignum_num)
  moreover have "push_bit 31 h OR l = h * 2 ^ 31 + l"
    using assms by (intro or_disjoint_add) (simp_all add: bignum_num)
  ultimately show ?thesis by (simp add: HD_CONS_def bignum_num)
qed

lemma HD_split: "x = HD_HIGH x * BIGNUM_RADIX_ROOT + HD_LOW x"
  by (simp add: HD_LOW_mod HD_HIGH_div)

lemma HD_LOW_bounds [simp]: "0 \<le> HD_LOW x" "HD_LOW x < BIGNUM_RADIX_ROOT"
  by (simp_all add: HD_LOW_mod)

lemma HD_HIGH_nonneg: "0 \<le> x \<Longrightarrow> 0 \<le> HD_HIGH x"
  by (simp add: HD_HIGH_div pos_imp_zdiv_nonneg_iff)

lemma HD_HIGH_less: "x < k * BIGNUM_RADIX_ROOT \<Longrightarrow> HD_HIGH x < k"
proof (rule ccontr)
  assume x: "x < k * BIGNUM_RADIX_ROOT" and "\<not> HD_HIGH x < k"
  then have "k * BIGNUM_RADIX_ROOT \<le> HD_HIGH x * BIGNUM_RADIX_ROOT"
    by (intro mult_right_mono) simp_all
  with x HD_split [of x] HD_LOW_bounds(1) [of x] show False by linarith
qed

lemma HD_HIGH_digit: "digit_ok d \<Longrightarrow> 0 \<le> HD_HIGH d \<and> HD_HIGH d < BIGNUM_RADIX_ROOT"
  by (simp add: digit_ok_def HD_HIGH_nonneg HD_HIGH_less flip: radix_root)

subsection \<open>Values of digit lists\<close>

lemma digits_ok_simps [simp]:
  "digits_ok []" "digits_ok (d # ds) \<longleftrightarrow> digit_ok d \<and> digits_ok ds"
  "digits_ok (xs @ ys) \<longleftrightarrow> digits_ok xs \<and> digits_ok ys"
  by (simp_all add: digits_ok_def)

lemma digits_ok_take [simp]: "digits_ok ds \<Longrightarrow> digits_ok (take n ds)"
  and digits_ok_drop [simp]: "digits_ok ds \<Longrightarrow> digits_ok (drop n ds)"
  by (auto simp: digits_ok_def list_all_iff dest: in_set_takeD in_set_dropD)

lemma digits_ok_nth: "digits_ok ds \<Longrightarrow> i < length ds \<Longrightarrow> digit_ok (ds ! i)"
  by (simp add: digits_ok_def list_all_length)

lemma digits_ok_replicate [simp]: "digits_ok (replicate n 0)"
  by (simp add: digits_ok_def digit_ok_def list_all_length)

lemma digits_val_append:
  "digits_val (xs @ ys) = digits_val xs + BIGNUM_RADIX ^ length xs * digits_val ys"
  by (induction xs) (simp_all add: algebra_simps)

lemma digits_val_replicate [simp]: "digits_val (replicate n 0) = 0"
  by (induction n) simp_all

lemma digits_val_nonneg: "digits_ok ds \<Longrightarrow> 0 \<le> digits_val ds"
  by (induction ds) (simp_all add: digit_ok_def)

lemma digits_val_less: "digits_ok ds \<Longrightarrow> digits_val ds < BIGNUM_RADIX ^ length ds"
proof (induction ds)
  case Nil
  then show ?case by simp
next
  case (Cons d ds)
  then have "d < BIGNUM_RADIX" and "digits_val ds + 1 \<le> BIGNUM_RADIX ^ length ds"
    by (auto simp: digit_ok_def)
  then have "BIGNUM_RADIX * (digits_val ds + 1) \<le> BIGNUM_RADIX * BIGNUM_RADIX ^ length ds"
    by (intro mult_left_mono) simp_all
  with \<open>d < BIGNUM_RADIX\<close> show ?case by (simp add: algebra_simps)
qed

lemma digits_val_ge:
  assumes "digits_ok ds" "ds \<noteq> []" "last ds \<noteq> 0"
  shows "BIGNUM_RADIX ^ (length ds - 1) \<le> digits_val ds"
proof -
  obtain xs d where ds: "ds = xs @ [d]" using assms(2) by (cases ds rule: rev_cases) auto
  with assms have "1 \<le> d" and "0 \<le> digits_val xs"
    by (auto simp: digit_ok_def digits_val_nonneg)
  have "BIGNUM_RADIX ^ length xs * 1 \<le> BIGNUM_RADIX ^ length xs * d"
    using \<open>1 \<le> d\<close> by (intro mult_left_mono) simp_all
  moreover have "digits_val ds = digits_val xs + BIGNUM_RADIX ^ length xs * d"
    by (simp add: ds digits_val_append)
  moreover have "length ds - 1 = length xs" by (simp add: ds)
  ultimately show ?thesis using \<open>0 \<le> digits_val xs\<close> by (metis add_increasing mult.right_neutral)
qed

lemma digits_val_pos: "digits_ok ds \<Longrightarrow> ds \<noteq> [] \<Longrightarrow> last ds \<noteq> 0 \<Longrightarrow> 0 < digits_val ds"
  using digits_val_ge [of ds] zero_less_power [OF radix_pos(1), of "length ds - 1"] by linarith

lemma digits_val_inject:
  "digits_ok xs \<Longrightarrow> digits_ok ys \<Longrightarrow> length xs = length ys \<Longrightarrow>
   digits_val xs = digits_val ys \<longleftrightarrow> xs = ys"
proof (induction xs arbitrary: ys)
  case Nil
  then show ?case by simp
next
  case (Cons x xs)
  then obtain y zs where ys: "ys = y # zs" by (cases ys) auto
  have xy: "0 \<le> x" "x < BIGNUM_RADIX" "0 \<le> y" "y < BIGNUM_RADIX"
    using Cons.prems ys by (auto simp: digit_ok_def)
  have "x = y \<and> digits_val xs = digits_val zs"
    if eq: "x + BIGNUM_RADIX * digits_val xs = y + BIGNUM_RADIX * digits_val zs"
  proof -
    from eq have "(x + BIGNUM_RADIX * digits_val xs) mod BIGNUM_RADIX
        = (y + BIGNUM_RADIX * digits_val zs) mod BIGNUM_RADIX" by simp
    with xy have "x = y" by simp
    with eq show ?thesis by simp
  qed
  with Cons ys show ?case by auto
qed

lemma digits_val_eq_0: "digits_ok ds \<Longrightarrow> digits_val ds = 0 \<longleftrightarrow> ds = replicate (length ds) 0"
  using digits_val_inject [of ds "replicate (length ds) 0"] by simp

subsection \<open>Objects\<close>

lemma mk_bignum_simps [simp]:
  "negative_p (mk_bignum neg ds) = neg" "digits (mk_bignum neg ds) = ds"
  by (simp_all add: mk_bignum_def)

lemma bignum_val_mk [simp]: "bignum_val (mk_bignum neg ds) = signed_val neg (digits_val ds)"
  by (simp add: bignum_val_def)

lemma bignum_const_val [simp]:
  "bignum_val BIGNUM_ZERO = 0" "bignum_val (BIGNUM_ONE neg) = signed_val neg 1"
  by (simp_all add: BIGNUM_ZERO_def BIGNUM_ONE_def signed_val_def)

lemma bignum_const_wf [simp]: "bignum_wf BIGNUM_ZERO" "bignum_wf (BIGNUM_ONE neg)"
  by (simp_all add: BIGNUM_ZERO_def BIGNUM_ONE_def bignum_wf_def digit_ok_def)

lemma bignum_wf_digits: "bignum_wf bn \<Longrightarrow> digits_ok (digits bn)"
  by (simp add: bignum_wf_def)

lemma bignum_wf_mk:
  "digits_ok ds \<Longrightarrow> ds \<noteq> [] \<Longrightarrow> last ds \<noteq> 0 \<Longrightarrow> bignum_wf (mk_bignum neg ds)"
  by (simp add: bignum_wf_def)

lemma bignum_wf_pos: "bignum_wf bn \<Longrightarrow> \<not> BIGNUM_ZERO_P bn \<Longrightarrow> 0 < digits_val (digits bn)"
  by (auto simp: bignum_wf_def BIGNUM_ZERO_P_def BIGNUM_LENGTH_def digits_val_pos split: if_splits)

lemma bignum_zero_p_val: "bignum_wf bn \<Longrightarrow> BIGNUM_ZERO_P bn \<longleftrightarrow> bignum_val bn = 0"
  by (cases "BIGNUM_ZERO_P bn", use bignum_wf_pos [of bn] in
      \<open>auto simp: BIGNUM_ZERO_P_def BIGNUM_LENGTH_def bignum_val_def signed_val_def\<close>)

lemma bignum_negative_val: "bignum_wf bn \<Longrightarrow> negative_p bn \<longleftrightarrow> bignum_val bn < 0"
  using digits_val_nonneg [of "digits bn"] digits_val_pos [of "digits bn"]
  by (auto simp: bignum_val_def signed_val_def bignum_wf_def split: if_splits)

lemma bignum_abs_val: "bignum_wf bn \<Longrightarrow> digits_val (digits bn) = \<bar>bignum_val bn\<bar>"
  using digits_val_nonneg [of "digits bn"] by (simp add: bignum_val_def signed_val_def bignum_wf_def)

lemma bignum_length_val:
  assumes "bignum_wf bn"
  shows "\<bar>bignum_val bn\<bar> < BIGNUM_RADIX ^ BIGNUM_LENGTH bn"
    and "bignum_val bn \<noteq> 0 \<Longrightarrow> BIGNUM_RADIX ^ (BIGNUM_LENGTH bn - 1) \<le> \<bar>bignum_val bn\<bar>"
proof -
  from assms have ok: "digits_ok (digits bn)" by (simp add: bignum_wf_def)
  show "\<bar>bignum_val bn\<bar> < BIGNUM_RADIX ^ BIGNUM_LENGTH bn"
    using digits_val_less [OF ok] by (simp add: BIGNUM_LENGTH_def bignum_abs_val [OF assms])
  assume "bignum_val bn \<noteq> 0"
  then have "digits bn \<noteq> []" by (auto simp: bignum_val_def signed_val_def split: if_splits)
  then show "BIGNUM_RADIX ^ (BIGNUM_LENGTH bn - 1) \<le> \<bar>bignum_val bn\<bar>"
    using assms digits_val_ge [OF ok]
    by (simp add: BIGNUM_LENGTH_def bignum_wf_def flip: bignum_abs_val)
qed

lemma trim_scan_digits:
  "n \<le> length ds \<Longrightarrow> trim_scan (s # ds) (Suc n) = length (dropWhile (\<lambda>d. d = 0) (rev (take n ds)))"
proof (induction n)
  case 0
  then show ?case by simp
next
  case (Suc n)
  then show ?case by (simp add: take_Suc_conv_app_nth)
qed

definition strip_zeros :: "fixnum list \<Rightarrow> fixnum list" where
  "strip_zeros ds = rev (dropWhile (\<lambda>d. d = 0) (rev ds))"

lemma strip_zeros_take: "strip_zeros ds = take (length (strip_zeros ds)) ds"
proof -
  have "ds = strip_zeros ds @ rev (takeWhile (\<lambda>d. d = 0) (rev ds))"
    unfolding strip_zeros_def by (metis rev_append rev_rev_ident takeWhile_dropWhile_id)
  then show ?thesis by (metis append_eq_conv_conj)
qed

lemma strip_zeros_last: "strip_zeros ds \<noteq> [] \<Longrightarrow> last (strip_zeros ds) \<noteq> 0"
  using hd_dropWhile [of "\<lambda>d. d = 0" "rev ds"] by (simp add: strip_zeros_def last_rev del: dropWhile_eq_Nil_conv)

lemma strip_zeros_id: "ds \<noteq> [] \<Longrightarrow> last ds \<noteq> 0 \<Longrightarrow> strip_zeros ds = ds"
  by (cases ds rule: rev_cases) (simp_all add: strip_zeros_def)

lemma strip_zeros_length: "length (strip_zeros ds) \<le> length ds"
  using length_dropWhile_le [of "\<lambda>d. d = 0" "rev ds"] by (simp add: strip_zeros_def)

lemma strip_zeros_val [simp]: "digits_val (strip_zeros ds) = digits_val ds"
  by (induction ds rule: rev_induct) (simp_all add: strip_zeros_def digits_val_append)

lemma strip_zeros_ok [simp]: "digits_ok ds \<Longrightarrow> digits_ok (strip_zeros ds)"
  by (metis strip_zeros_take digits_ok_take)

lemma bignum_trim_strip:
  "bignum_trim bn =
     (if length (strip_zeros (digits bn)) < length (digits bn)
      then mk_bignum (strip_zeros (digits bn) \<noteq> [] \<and> negative_p bn) (strip_zeros (digits bn))
      else bn)"
proof -
  have scan: "trim_scan (bignum_data bn) (Suc (length (digits bn))) = length (strip_zeros (digits bn))"
    by (simp add: bignum_data_def trim_scan_digits strip_zeros_def del: trim_scan.simps)
  show ?thesis
    using strip_zeros_take [of "digits bn"]
    by (auto simp: bignum_trim_def scan BIGNUM_LENGTH_def Let_def simp del: trim_scan.simps)
qed

lemma bignum_trim_val [simp]: "bignum_val (bignum_trim bn) = bignum_val bn"
  using strip_zeros_val [of "digits bn"]
  by (auto simp: bignum_trim_strip bignum_val_def signed_val_def simp del: strip_zeros_val)

lemma bignum_trim_wf:
  assumes "digits_ok (digits bn)" "digits bn = [] \<Longrightarrow> \<not> negative_p bn"
  shows "bignum_wf (bignum_trim bn)"
proof (cases "length (strip_zeros (digits bn)) < length (digits bn)")
  case True
  then show ?thesis
    using assms strip_zeros_last [of "digits bn"] by (auto simp: bignum_trim_strip bignum_wf_def)
next
  case False
  then have "strip_zeros (digits bn) = digits bn"
    using strip_zeros_take [of "digits bn"] by simp
  then show ?thesis
    using assms False strip_zeros_last [of "digits bn"] by (auto simp: bignum_trim_strip bignum_wf_def)
qed

lemma bignum_new_sign_val [simp]:
  "bignum_val (bignum_new_sign x neg) = signed_val neg (digits_val (digits x))"
  "bignum_val (bignum_maybe_new_sign x neg) = signed_val neg (digits_val (digits x))"
  by (auto simp: bignum_new_sign_def bignum_maybe_new_sign_def bignum_val_def)

lemma bignum_new_sign_wf:
  assumes "bignum_wf x" "\<not> BIGNUM_ZERO_P x"
  shows "bignum_wf (bignum_new_sign x neg)" "bignum_wf (bignum_maybe_new_sign x neg)"
  using assms
  by (auto simp: bignum_new_sign_def bignum_maybe_new_sign_def bignum_wf_def
      BIGNUM_ZERO_P_def BIGNUM_LENGTH_def)

lemma bignum_digit_to_bignum_ok:
  assumes "digit_ok d"
  shows "bignum_wf (bignum_digit_to_bignum d neg)"
    and "bignum_val (bignum_digit_to_bignum d neg) = signed_val neg d"
  using assms by (auto simp: bignum_digit_to_bignum_def BIGNUM_ZERO_def bignum_wf_def signed_val_def)

text \<open>The representation is canonical: well-formed bignums with equal values are equal.\<close>

lemma bignum_canonical:
  assumes "bignum_wf x" "bignum_wf y" "bignum_val x = bignum_val y"
  shows "x = y"
proof -
  have "BIGNUM_LENGTH x = BIGNUM_LENGTH y"
  proof (rule ccontr)
    assume "BIGNUM_LENGTH x \<noteq> BIGNUM_LENGTH y"
    have False if "bignum_wf u" "bignum_wf w" "bignum_val u = bignum_val w"
      "BIGNUM_LENGTH u < BIGNUM_LENGTH w" for u w
    proof -
      have "\<not> BIGNUM_ZERO_P w" using that by (simp add: BIGNUM_ZERO_P_def)
      then have "bignum_val w \<noteq> 0" using bignum_zero_p_val that by blast
      then have "BIGNUM_RADIX ^ (BIGNUM_LENGTH w - 1) < BIGNUM_RADIX ^ BIGNUM_LENGTH u"
        using bignum_length_val that by (metis order_le_less_trans)
      then show False using that by (simp add: power_strict_increasing_iff)
    qed
    with assms \<open>BIGNUM_LENGTH x \<noteq> BIGNUM_LENGTH y\<close> show False by (metis nat_neq_iff)
  qed
  moreover have "digits_val (digits x) = digits_val (digits y)"
    using assms by (simp add: bignum_abs_val)
  ultimately have "digits x = digits y"
    using assms digits_val_inject by (simp add: BIGNUM_LENGTH_def bignum_wf_def)
  moreover have "negative_p x = negative_p y"
    using assms by (simp add: bignum_negative_val)
  ultimately show ?thesis by simp
qed

subsection \<open>Operations that refine an integer function\<close>

text \<open>
  The interface every binary bignum operation offers to its callers: on well-formed
  operands inside the domain of the integer function it returns a well-formed object whose
  value is the function's. Because the representation is canonical, the laws of the integer
  function then hold of the objects themselves.
\<close>

locale bignum_binop =
  fixes bop :: "bignum \<Rightarrow> bignum \<Rightarrow> bignum option"
    and f :: "int \<Rightarrow> int \<Rightarrow> int"
    and dom_p :: "int \<Rightarrow> int \<Rightarrow> bool"
  assumes refines: "bignum_wf x \<Longrightarrow> bignum_wf y \<Longrightarrow> dom_p (bignum_val x) (bignum_val y) \<Longrightarrow>
    \<exists>r. bop x y = Some r \<and> bignum_wf r \<and> bignum_val r = f (bignum_val x) (bignum_val y)"
begin

lemma bop_eqI:
  assumes "bignum_wf x" "bignum_wf y" "dom_p (bignum_val x) (bignum_val y)"
    and "bignum_wf r" "bignum_val r = f (bignum_val x) (bignum_val y)"
  shows "bop x y = Some r"
proof -
  obtain r' where r': "bop x y = Some r'" "bignum_wf r'"
    "bignum_val r' = f (bignum_val x) (bignum_val y)"
    using refines [OF assms(1-3)] by blast
  then have "r' = r" using assms(4,5) by (intro bignum_canonical) simp_all
  with r' show ?thesis by simp
qed

lemma bop_cong:
  assumes "bignum_wf x" "bignum_wf y" "dom_p (bignum_val x) (bignum_val y)"
    and "bignum_wf x'" "bignum_wf y'" "dom_p (bignum_val x') (bignum_val y')"
    and "f (bignum_val x) (bignum_val y) = f (bignum_val x') (bignum_val y')"
  shows "bop x y = bop x' y'"
proof -
  obtain r where r: "bop x y = Some r" "bignum_wf r" "bignum_val r = f (bignum_val x) (bignum_val y)"
    using refines [OF assms(1-3)] by blast
  then show ?thesis using bop_eqI [OF assms(4-6), of r] assms(7) by simp
qed

lemma bop_commute:
  assumes "\<And>a b. f a b = f b a" "bignum_wf x" "bignum_wf y"
    "dom_p (bignum_val x) (bignum_val y)" "dom_p (bignum_val y) (bignum_val x)"
  shows "bop x y = bop y x"
  using assms(2,3,4,3,2,5) by (rule bop_cong [OF _ _ _ _ _ _ assms(1)])

lemma bop_assoc:
  assumes "\<And>a b c. f (f a b) c = f a (f b c)" "\<And>a b. dom_p a b"
    "bignum_wf x" "bignum_wf y" "bignum_wf z"
  shows "Option.bind (bop x y) (\<lambda>r. bop r z) = Option.bind (bop y z) (\<lambda>r. bop x r)"
proof -
  obtain r where r: "bop x y = Some r" "bignum_wf r" "bignum_val r = f (bignum_val x) (bignum_val y)"
    using refines [OF assms(3,4,2)] by blast
  obtain s where s: "bop y z = Some s" "bignum_wf s" "bignum_val s = f (bignum_val y) (bignum_val z)"
    using refines [OF assms(4,5,2)] by blast
  have "bop r z = bop x s"
    using r(2) assms(5,2,3) s(2) assms(2) by (rule bop_cong) (simp add: r(3) s(3) assms(1))
  then show ?thesis by (simp add: r s)
qed

end

end
