(* ===== verification/Bignum_Add.thy ===== *)
theory Bignum_Add
  imports Bignum_Rep
begin

text \<open>
  Comparison, addition and subtraction of bignums (\<open>vm/bignum.cpp\<close>).

  Pointer loops over digit arrays are recursions over the digit lists. A loop that scans
  from the most significant end recurses over the reversed lists. Where one array can run
  out before the loop ends, which the length test before the loop excludes, the remaining
  equation of the recursion stops.
\<close>

datatype bignum_comparison =
  BIGNUM_COMPARISON_EQUAL | BIGNUM_COMPARISON_LESS | BIGNUM_COMPARISON_GREATER

subsection \<open>Comparison\<close>

fun equal_scan :: "fixnum list \<Rightarrow> fixnum list \<Rightarrow> bool" where
  "equal_scan (x # xs) (y # ys) = (if x \<noteq> y then False else equal_scan xs ys)"
| "equal_scan _ _ = True"

definition bignum_equal_p_unsigned :: "bignum \<Rightarrow> bignum \<Rightarrow> bool" where
  "bignum_equal_p_unsigned x y =
     (if BIGNUM_LENGTH x \<noteq> BIGNUM_LENGTH y then False else equal_scan (digits x) (digits y))"

fun compare_scan :: "fixnum list \<Rightarrow> fixnum list \<Rightarrow> bignum_comparison" where
  "compare_scan (digit_x # xs) (digit_y # ys) =
     (if digit_x < digit_y then BIGNUM_COMPARISON_LESS
      else if digit_x > digit_y then BIGNUM_COMPARISON_GREATER
      else compare_scan xs ys)"
| "compare_scan _ _ = BIGNUM_COMPARISON_EQUAL"

definition bignum_compare_unsigned :: "bignum \<Rightarrow> bignum \<Rightarrow> bignum_comparison" where
  "bignum_compare_unsigned x y =
     (if BIGNUM_LENGTH x < BIGNUM_LENGTH y then BIGNUM_COMPARISON_LESS
      else if BIGNUM_LENGTH x > BIGNUM_LENGTH y then BIGNUM_COMPARISON_GREATER
      else compare_scan (rev (digits x)) (rev (digits y)))"

definition bignum_equal_p :: "bignum \<Rightarrow> bignum \<Rightarrow> bool" where
  "bignum_equal_p x y =
     (if BIGNUM_ZERO_P x then BIGNUM_ZERO_P y
      else \<not> BIGNUM_ZERO_P y \<and>
        (if negative_p x then negative_p y else \<not> negative_p y) \<and>
        bignum_equal_p_unsigned x y)"

definition bignum_compare :: "bignum \<Rightarrow> bignum \<Rightarrow> bignum_comparison" where
  "bignum_compare x y =
     (if BIGNUM_ZERO_P x then
        (if BIGNUM_ZERO_P y then BIGNUM_COMPARISON_EQUAL
         else if negative_p y then BIGNUM_COMPARISON_GREATER
         else BIGNUM_COMPARISON_LESS)
      else if BIGNUM_ZERO_P y then
        (if negative_p x then BIGNUM_COMPARISON_LESS else BIGNUM_COMPARISON_GREATER)
      else if negative_p x then
        (if negative_p y then bignum_compare_unsigned y x else BIGNUM_COMPARISON_LESS)
      else
        (if negative_p y then BIGNUM_COMPARISON_GREATER else bignum_compare_unsigned x y))"

subsection \<open>Addition\<close>

text \<open>The loop over the shorter operand: the digits written, the carry, the rest of \<open>x\<close>.\<close>

fun add_scan ::
  "fixnum list \<Rightarrow> fixnum list \<Rightarrow> fixnum \<Rightarrow> fixnum list \<times> fixnum \<times> fixnum list" where
  "add_scan (x # xs) (y # ys) carry =
     (let sum = fx (x + y + carry) in
      if sum < BIGNUM_RADIX
      then (case add_scan xs ys 0 of (r, c, rest) \<Rightarrow> (sum # r, c, rest))
      else (case add_scan xs ys 1 of (r, c, rest) \<Rightarrow> (fx (sum - BIGNUM_RADIX) # r, c, rest)))"
| "add_scan xs _ carry = ([], carry, xs)"

text \<open>
  The loop that carries into the rest of \<open>x\<close> (entered with carry 1) and the copying loop
  after its \<open>break\<close>.
\<close>

fun add_carry_scan :: "fixnum list \<Rightarrow> fixnum list \<times> fixnum" where
  "add_carry_scan [] = ([], 1)"
| "add_carry_scan (x # xs) =
     (let sum = fx (x + 1) in
      if sum < BIGNUM_RADIX then (sum # xs, 0)
      else (case add_carry_scan xs of (r, c) \<Rightarrow> (fx (sum - BIGNUM_RADIX) # r, c)))"

text \<open>
  The result array has one digit more than \<open>x\<close>; without a final carry its last digit is
  never written, holds the unknown \<open>u\<close>, and is cut off.
\<close>

definition bignum_add_unsigned :: "fixnum \<Rightarrow> bignum \<Rightarrow> bignum \<Rightarrow> bool \<Rightarrow> bignum" where
  "bignum_add_unsigned u x' y' neg =
     (let (x, y) = (if BIGNUM_LENGTH y' > BIGNUM_LENGTH x' then (y', x') else (x', y'));
          (r, carry, rest) = add_scan (digits x) (digits y) 0;
          (r', carry') = (if carry \<noteq> 0 then add_carry_scan rest else (rest, carry))
      in if carry' \<noteq> 0 then mk_bignum neg (r @ r' @ [1])
         else bignum_shorten_length (mk_bignum neg (r @ r' @ [u])) (BIGNUM_LENGTH x))"

subsection \<open>Subtraction\<close>

fun subtract_scan ::
  "fixnum list \<Rightarrow> fixnum list \<Rightarrow> fixnum \<Rightarrow> fixnum list \<times> fixnum \<times> fixnum list" where
  "subtract_scan (x # xs) (y # ys) borrow =
     (let difference = fx ((x - y) - borrow) in
      if difference < 0
      then (case subtract_scan xs ys 1 of (r, b, rest) \<Rightarrow> (fx (difference + BIGNUM_RADIX) # r, b, rest))
      else (case subtract_scan xs ys 0 of (r, b, rest) \<Rightarrow> (difference # r, b, rest)))"
| "subtract_scan xs _ borrow = ([], borrow, xs)"

fun subtract_borrow_scan :: "fixnum list \<Rightarrow> fixnum \<Rightarrow> fixnum list \<times> fixnum" where
  "subtract_borrow_scan [] borrow = ([], borrow)"
| "subtract_borrow_scan (x # xs) borrow =
     (let difference = fx (x - borrow) in
      if difference < 0
      then (case subtract_borrow_scan xs borrow of (r, b) \<Rightarrow> (fx (difference + BIGNUM_RADIX) # r, b))
      else (difference # xs, 0))"

text \<open>\<open>BIGNUM_ASSERT (borrow == 0)\<close> calls \<open>abort\<close>; the model returns \<open>None\<close> there.\<close>

definition subtract_digits :: "bignum \<Rightarrow> bignum \<Rightarrow> bool \<Rightarrow> bignum option" where
  "subtract_digits x y neg =
     (let (r, borrow, rest) = subtract_scan (digits x) (digits y) 0;
          (r', borrow') = (if borrow \<noteq> 0 then subtract_borrow_scan rest borrow else (rest, borrow))
      in if borrow' = 0 then Some (bignum_trim (mk_bignum neg (r @ r'))) else None)"

definition bignum_subtract_unsigned :: "bignum \<Rightarrow> bignum \<Rightarrow> bignum option" where
  "bignum_subtract_unsigned x y =
     (case bignum_compare_unsigned x y of
        BIGNUM_COMPARISON_EQUAL \<Rightarrow> Some BIGNUM_ZERO
      | BIGNUM_COMPARISON_LESS \<Rightarrow> subtract_digits y x True
      | BIGNUM_COMPARISON_GREATER \<Rightarrow> subtract_digits x y False)"

subsection \<open>Signed operations\<close>

definition bignum_add :: "fixnum \<Rightarrow> bignum \<Rightarrow> bignum \<Rightarrow> bignum option" where
  "bignum_add u x y =
     (if BIGNUM_ZERO_P x then Some y
      else if BIGNUM_ZERO_P y then Some x
      else if negative_p x then
        (if negative_p y then Some (bignum_add_unsigned u x y True)
         else bignum_subtract_unsigned y x)
      else
        (if negative_p y then bignum_subtract_unsigned x y
         else Some (bignum_add_unsigned u x y False)))"

definition bignum_subtract :: "fixnum \<Rightarrow> bignum \<Rightarrow> bignum \<Rightarrow> bignum option" where
  "bignum_subtract u x y =
     (if BIGNUM_ZERO_P x then
        (if BIGNUM_ZERO_P y then Some y else Some (bignum_new_sign y (\<not> negative_p y)))
      else if BIGNUM_ZERO_P y then Some x
      else if negative_p x then
        (if negative_p y then bignum_subtract_unsigned y x
         else Some (bignum_add_unsigned u x y True))
      else
        (if negative_p y then Some (bignum_add_unsigned u x y False)
         else bignum_subtract_unsigned x y))"

subsection \<open>Comparison is comparison of values\<close>

lemma equal_scan_eq: "length xs = length ys \<Longrightarrow> equal_scan xs ys \<longleftrightarrow> xs = ys"
  by (induction xs ys rule: list_induct2) auto

lemma bignum_equal_p_iff:
  "bignum_wf x \<Longrightarrow> bignum_wf y \<Longrightarrow> bignum_equal_p x y \<longleftrightarrow> x = y"
  by (auto simp: bignum_equal_p_def bignum_equal_p_unsigned_def equal_scan_eq BIGNUM_ZERO_P_def
      BIGNUM_LENGTH_def bignum_wf_def split: if_splits)

definition compare_int :: "int \<Rightarrow> int \<Rightarrow> bignum_comparison" where
  "compare_int a b =
     (if a < b then BIGNUM_COMPARISON_LESS
      else if a > b then BIGNUM_COMPARISON_GREATER
      else BIGNUM_COMPARISON_EQUAL)"

lemma compare_scan_val:
  assumes "length xs = length ys" "digits_ok xs" "digits_ok ys"
  shows "compare_scan (rev xs) (rev ys) = compare_int (digits_val xs) (digits_val ys)"
  using assms
proof (induction xs arbitrary: ys rule: rev_induct)
  case Nil
  then show ?case by (simp add: compare_int_def)
next
  case (snoc x xs)
  then obtain y zs where ys: "ys = zs @ [y]" by (cases ys rule: rev_cases) auto
  let ?B = "BIGNUM_RADIX ^ length xs"
  have len: "length zs = length xs" using snoc.prems ys by simp
  have less: "digits_val us + ?B * a < digits_val ws + ?B * b"
    if "a < b" "digits_ok us" "digits_ok ws" "length us = length xs" for us ws a b
  proof -
    have "digits_val us < ?B" "0 \<le> digits_val ws"
      using that digits_val_less digits_val_nonneg by (metis, blast)
    moreover have "?B * (a + 1) \<le> ?B * b"
      using that by (intro mult_left_mono) auto
    ultimately show ?thesis by (simp add: algebra_simps)
  qed
  show ?case
    using snoc ys len less [of x y xs zs] less [of y x zs xs]
    by (auto simp: digits_val_append compare_int_def)
qed

lemma bignum_length_less_val:
  assumes "bignum_wf x" "bignum_wf y" "BIGNUM_LENGTH x < BIGNUM_LENGTH y"
  shows "\<bar>bignum_val x\<bar> < \<bar>bignum_val y\<bar>"
proof -
  have "bignum_val y \<noteq> 0" using assms bignum_zero_p_val [of y] by (simp add: BIGNUM_ZERO_P_def)
  then have "BIGNUM_RADIX ^ (BIGNUM_LENGTH y - 1) \<le> \<bar>bignum_val y\<bar>"
    using assms bignum_length_val by blast
  moreover have "BIGNUM_RADIX ^ BIGNUM_LENGTH x \<le> BIGNUM_RADIX ^ (BIGNUM_LENGTH y - 1)"
    using assms radix_pos(3) by (intro power_increasing) linarith+
  ultimately show ?thesis using assms bignum_length_val(1) [of x] by linarith
qed

lemma bignum_compare_unsigned_val:
  assumes "bignum_wf x" "bignum_wf y"
  shows "bignum_compare_unsigned x y = compare_int \<bar>bignum_val x\<bar> \<bar>bignum_val y\<bar>"
  using assms bignum_length_less_val [of x y] bignum_length_less_val [of y x]
    compare_scan_val [of "digits x" "digits y"]
  by (auto simp: bignum_compare_unsigned_def compare_int_def BIGNUM_LENGTH_def bignum_wf_digits
      bignum_abs_val)

lemma bignum_compare_val:
  assumes "bignum_wf x" "bignum_wf y"
  shows "bignum_compare x y = compare_int (bignum_val x) (bignum_val y)"
  using assms by (auto simp: bignum_compare_def bignum_compare_unsigned_val compare_int_def
      bignum_zero_p_val bignum_negative_val)

subsection \<open>Addition and subtraction of magnitudes\<close>

declare add_scan.simps(1) [simp del] add_carry_scan.simps(2) [simp del]
  subtract_scan.simps(1) [simp del] subtract_borrow_scan.simps(2) [simp del]

lemma add_scan_Cons:
  assumes "digit_ok x" "digit_ok y" "c = 0 \<or> c = 1"
  shows "add_scan (x # xs) (y # ys) c =
    (if x + y + c < BIGNUM_RADIX
     then (case add_scan xs ys 0 of (r, c', rest) \<Rightarrow> ((x + y + c) # r, c', rest))
     else (case add_scan xs ys 1 of (r, c', rest) \<Rightarrow> ((x + y + c - BIGNUM_RADIX) # r, c', rest)))"
proof -
  have "fx (x + y + c) = x + y + c" "fx (x + y + c - BIGNUM_RADIX) = x + y + c - BIGNUM_RADIX"
    using assms by (auto intro!: fx_id simp: bignum_num digit_ok_def)
  then show ?thesis by (simp add: add_scan.simps Let_def)
qed

lemma add_scan_val:
  assumes "add_scan xs ys c0 = (r, c, rest)" "digits_ok xs" "digits_ok ys"
    "length ys \<le> length xs" "c0 = 0 \<or> c0 = 1"
  shows "digits_ok r \<and> (c = 0 \<or> c = 1) \<and> length r = length ys \<and> rest = drop (length ys) xs \<and>
    digits_val (take (length ys) xs) + digits_val ys + c0 =
      digits_val r + BIGNUM_RADIX ^ length ys * c"
  using assms
proof (induction ys arbitrary: xs c0 r)
  case Nil
  then show ?case by auto
next
  case (Cons y ys)
  then obtain x zs where xs: "xs = x # zs" by (cases xs) auto
  define c1 :: int where "c1 = (if x + y + c0 < BIGNUM_RADIX then 0 else 1)"
  obtain r' where r': "add_scan zs ys c1 = (r', c, rest)" and
    r: "r = (x + y + c0 - BIGNUM_RADIX * c1) # r'"
    using Cons.prems by (auto simp: xs add_scan_Cons c1_def split: if_splits prod.splits)
  have ih: "digits_ok r' \<and> (c = 0 \<or> c = 1) \<and> length r' = length ys \<and> rest = drop (length ys) zs"
    "digits_val (take (length ys) zs) + digits_val ys + c1 = digits_val r' + BIGNUM_RADIX ^ length ys * c"
    using Cons.IH [OF r'] Cons.prems by (auto simp: xs c1_def)
  have "digit_ok (x + y + c0 - BIGNUM_RADIX * c1)"
    using Cons.prems by (auto simp: xs c1_def digit_ok_def)
  moreover have "BIGNUM_RADIX * (digits_val (take (length ys) zs) + digits_val ys + c1) =
      BIGNUM_RADIX * (digits_val r' + BIGNUM_RADIX ^ length ys * c)"
    by (simp add: ih(2))
  ultimately show ?case using ih(1) by (simp add: xs r algebra_simps)
qed


lemma add_carry_scan_val:
  assumes "digits_ok xs" "add_carry_scan xs = (r, c)"
  shows "digits_ok r \<and> (c = 0 \<or> c = 1) \<and> length r = length xs \<and>
    digits_val xs + 1 = digits_val r + BIGNUM_RADIX ^ length xs * c"
  using assms
proof (induction xs arbitrary: r)
  case Nil
  then show ?case by auto
next
  case (Cons x xs)
  have s: "fx (x + 1) = x + 1" "fx (x + 1 - BIGNUM_RADIX) = x + 1 - BIGNUM_RADIX"
    using Cons.prems by (auto intro!: fx_id simp: bignum_num digit_ok_def)
  show ?case
  proof (cases "x + 1 < BIGNUM_RADIX")
    case True
    then show ?thesis using Cons.prems by (auto simp: add_carry_scan.simps s digit_ok_def)
  next
    case False
    then obtain r' where r': "add_carry_scan xs = (r', c)" "r = 0 # r'" "x + 1 = BIGNUM_RADIX"
      using Cons.prems by (auto simp: add_carry_scan.simps s Let_def digit_ok_def split: prod.splits)
    have ih: "digits_ok r' \<and> (c = 0 \<or> c = 1) \<and> length r' = length xs"
      "digits_val xs + 1 = digits_val r' + BIGNUM_RADIX ^ length xs * c"
      using Cons.IH [OF _ r'(1)] Cons.prems by auto
    have "BIGNUM_RADIX * (digits_val xs + 1) = BIGNUM_RADIX * (digits_val r' + BIGNUM_RADIX ^ length xs * c)"
      by (simp add: ih(2))
    moreover have "x = BIGNUM_RADIX - 1" using r' by simp
    ultimately show ?thesis using ih(1) r' by (simp add: algebra_simps digit_ok_def)
  qed
qed

lemma digits_val_take_drop:
  "n \<le> length xs \<Longrightarrow>
   digits_val xs = digits_val (take n xs) + BIGNUM_RADIX ^ n * digits_val (drop n xs)"
  using digits_val_append [of "take n xs" "drop n xs"] by (simp add: min_def)

lemma digits_last_nonzero:
  assumes "digits_ok ds" "BIGNUM_RADIX ^ n \<le> digits_val ds" "length ds = Suc n"
  shows "last ds \<noteq> 0"
proof
  assume "last ds = 0"
  moreover obtain xs d where ds: "ds = xs @ [d]" using assms by (cases ds rule: rev_cases) auto
  ultimately have "digits_val ds = digits_val xs" by (simp add: digits_val_append)
  also have "\<dots> < BIGNUM_RADIX ^ n" using assms ds digits_val_less [of xs] by simp
  finally show False using assms by simp
qed

lemma bignum_add_digits:
  assumes x: "bignum_wf x" "\<not> BIGNUM_ZERO_P x" and y: "bignum_wf y"
    and len: "BIGNUM_LENGTH y \<le> BIGNUM_LENGTH x"
    and scan: "add_scan (digits x) (digits y) 0 = (r, c, rest)"
    and carry: "(if c \<noteq> 0 then add_carry_scan rest else (rest, c)) = (r', c')"
  shows "digits_ok (r @ r') \<and> length (r @ r') = BIGNUM_LENGTH x \<and> (c' = 0 \<or> c' = 1) \<and>
    \<bar>bignum_val x\<bar> + \<bar>bignum_val y\<bar> = digits_val (r @ r') + BIGNUM_RADIX ^ BIGNUM_LENGTH x * c'"
proof -
  let ?n = "length (digits y)" let ?m = "length (digits x)"
  have ok: "digits_ok (digits x)" "digits_ok (digits y)" using x y by (simp_all add: bignum_wf_digits)
  have le: "?n \<le> ?m" using len by (simp add: BIGNUM_LENGTH_def)
  have 1: "digits_ok r \<and> (c = 0 \<or> c = 1) \<and> length r = ?n \<and> rest = drop ?n (digits x)"
    "digits_val (take ?n (digits x)) + digits_val (digits y) = digits_val r + BIGNUM_RADIX ^ ?n * c"
    using add_scan_val [OF scan ok le] by simp_all
  have 2: "digits_ok r' \<and> (c' = 0 \<or> c' = 1) \<and> length r' = ?m - ?n"
    "digits_val rest + c = digits_val r' + BIGNUM_RADIX ^ (?m - ?n) * c'"
    using carry 1(1) ok add_carry_scan_val [of rest r' c'] by (auto split: if_splits)
  have "digits_val (digits x) + digits_val (digits y)
      = digits_val r + BIGNUM_RADIX ^ ?n * (digits_val rest + c)"
    using digits_val_take_drop [OF le] 1 by (simp add: algebra_simps)
  also have "\<dots> = digits_val r + BIGNUM_RADIX ^ ?n * digits_val r' + (BIGNUM_RADIX ^ ?n * BIGNUM_RADIX ^ (?m - ?n)) * c'"
    unfolding 2(2) by (simp add: algebra_simps)
  also have "\<dots> = digits_val (r @ r') + BIGNUM_RADIX ^ ?m * c'"
    using 1(1) le by (simp add: digits_val_append flip: power_add)
  finally show ?thesis
    using 1(1) 2(1) le x y by (simp add: bignum_abs_val BIGNUM_LENGTH_def)
qed

lemma bignum_add_unsigned_val:
  assumes x: "bignum_wf x" "\<not> BIGNUM_ZERO_P x" and y: "bignum_wf y" "\<not> BIGNUM_ZERO_P y"
  shows "bignum_wf (bignum_add_unsigned u x y neg)"
    and "bignum_val (bignum_add_unsigned u x y neg) = signed_val neg (\<bar>bignum_val x\<bar> + \<bar>bignum_val y\<bar>)"
proof -
  define a b where "a = (if BIGNUM_LENGTH y > BIGNUM_LENGTH x then y else x)"
    and "b = (if BIGNUM_LENGTH y > BIGNUM_LENGTH x then x else y)"
  have ab: "bignum_wf a" "\<not> BIGNUM_ZERO_P a" "bignum_wf b" "BIGNUM_LENGTH b \<le> BIGNUM_LENGTH a"
    "\<bar>bignum_val x\<bar> + \<bar>bignum_val y\<bar> = \<bar>bignum_val a\<bar> + \<bar>bignum_val b\<bar>"
    using x y by (auto simp: a_def b_def)
  obtain r c rest where scan: "add_scan (digits a) (digits b) 0 = (r, c, rest)"
    by (cases "add_scan (digits a) (digits b) 0") auto
  obtain r' c' where carry: "(if c \<noteq> 0 then add_carry_scan rest else (rest, c)) = (r', c')"
    by (cases "if c \<noteq> 0 then add_carry_scan rest else (rest, c)") auto
  note d = bignum_add_digits [OF ab(1-4) scan carry]
  have "(if BIGNUM_LENGTH y > BIGNUM_LENGTH x then (y, x) else (x, y)) = (a, b)"
    by (simp add: a_def b_def)
  then have res: "bignum_add_unsigned u x y neg =
      (if c' \<noteq> 0 then mk_bignum neg (r @ r' @ [1]) else mk_bignum neg (r @ r'))"
    using d ab(2) scan carry
    by (auto simp: bignum_add_unsigned_def Let_def bignum_shorten_length_def BIGNUM_LENGTH_def BIGNUM_ZERO_P_def)
  have "last (r @ r') \<noteq> 0" if "c' = 0"
  proof (rule digits_last_nonzero [where n = "BIGNUM_LENGTH a - 1"])
    show "digits_ok (r @ r')" "length (r @ r') = Suc (BIGNUM_LENGTH a - 1)"
      using d ab(2) by (auto simp: BIGNUM_ZERO_P_def)
    show "BIGNUM_RADIX ^ (BIGNUM_LENGTH a - 1) \<le> digits_val (r @ r')"
      using bignum_length_val(2) [OF ab(1)] bignum_zero_p_val [OF ab(1)] ab(2) d that by fastforce
  qed
  moreover have "r @ r' \<noteq> []" using d ab(2) by (auto simp: BIGNUM_ZERO_P_def)
  ultimately show "bignum_wf (bignum_add_unsigned u x y neg)"
    unfolding res using d by (auto intro!: bignum_wf_mk simp: digit_ok_def)
  have "bignum_val (bignum_add_unsigned u x y neg) =
      signed_val neg (digits_val (r @ r') + BIGNUM_RADIX ^ BIGNUM_LENGTH a * c')"
    unfolding res using d by (auto simp: digits_val_append algebra_simps simp flip: power_add)
  then show "bignum_val (bignum_add_unsigned u x y neg) = signed_val neg (\<bar>bignum_val x\<bar> + \<bar>bignum_val y\<bar>)"
    using d ab(5) by simp
qed


lemma subtract_scan_Cons:
  assumes "digit_ok x" "digit_ok y" "b = 0 \<or> b = 1"
  shows "subtract_scan (x # xs) (y # ys) b =
    (if x - y - b < 0
     then (case subtract_scan xs ys 1 of (r, b', rest) \<Rightarrow> ((x - y - b + BIGNUM_RADIX) # r, b', rest))
     else (case subtract_scan xs ys 0 of (r, b', rest) \<Rightarrow> ((x - y - b) # r, b', rest)))"
proof -
  have "fx (x - y - b) = x - y - b" "fx (x - y - b + BIGNUM_RADIX) = x - y - b + BIGNUM_RADIX"
    using assms by (auto intro!: fx_id simp: bignum_num digit_ok_def)
  then show ?thesis by (simp add: subtract_scan.simps Let_def)
qed

lemma subtract_scan_val:
  assumes "subtract_scan xs ys b0 = (r, b, rest)" "digits_ok xs" "digits_ok ys"
    "length ys \<le> length xs" "b0 = 0 \<or> b0 = 1"
  shows "digits_ok r \<and> (b = 0 \<or> b = 1) \<and> length r = length ys \<and> rest = drop (length ys) xs \<and>
    digits_val (take (length ys) xs) - digits_val ys - b0 =
      digits_val r - BIGNUM_RADIX ^ length ys * b"
  using assms
proof (induction ys arbitrary: xs b0 r)
  case Nil
  then show ?case by auto
next
  case (Cons y ys)
  then obtain x zs where xs: "xs = x # zs" by (cases xs) auto
  define b1 :: int where "b1 = (if x - y - b0 < 0 then 1 else 0)"
  obtain r' where r': "subtract_scan zs ys b1 = (r', b, rest)" and
    r: "r = (x - y - b0 + BIGNUM_RADIX * b1) # r'"
    using Cons.prems by (auto simp: xs subtract_scan_Cons b1_def split: if_splits prod.splits)
  have ih: "digits_ok r' \<and> (b = 0 \<or> b = 1) \<and> length r' = length ys \<and> rest = drop (length ys) zs"
    "digits_val (take (length ys) zs) - digits_val ys - b1 = digits_val r' - BIGNUM_RADIX ^ length ys * b"
    using Cons.IH [OF r'] Cons.prems by (auto simp: xs b1_def)
  have "digit_ok (x - y - b0 + BIGNUM_RADIX * b1)"
    using Cons.prems by (auto simp: xs b1_def digit_ok_def)
  moreover have "BIGNUM_RADIX * (digits_val (take (length ys) zs) - digits_val ys - b1) =
      BIGNUM_RADIX * (digits_val r' - BIGNUM_RADIX ^ length ys * b)"
    by (simp add: ih(2))
  ultimately show ?case using ih(1) by (simp add: xs r algebra_simps)
qed

lemma subtract_borrow_scan_val:
  assumes "digits_ok xs" "subtract_borrow_scan xs 1 = (r, b)"
  shows "digits_ok r \<and> (b = 0 \<or> b = 1) \<and> length r = length xs \<and>
    digits_val xs - 1 = digits_val r - BIGNUM_RADIX ^ length xs * b"
  using assms
proof (induction xs arbitrary: r)
  case Nil
  then show ?case by auto
next
  case (Cons x xs)
  have s: "fx (x - 1) = x - 1" "fx (x - 1 + BIGNUM_RADIX) = x - 1 + BIGNUM_RADIX"
    using Cons.prems by (auto intro!: fx_id simp: bignum_num digit_ok_def)
  show ?case
  proof (cases "x - 1 < 0")
    case False
    then show ?thesis using Cons.prems by (auto simp: subtract_borrow_scan.simps s digit_ok_def)
  next
    case True
    then have x: "x = 0" using Cons.prems by (simp add: digit_ok_def)
    then obtain r' where r': "subtract_borrow_scan xs 1 = (r', b)" "r = (BIGNUM_RADIX - 1) # r'"
      using Cons.prems s by (auto simp: subtract_borrow_scan.simps Let_def split: prod.splits)
    have ih: "digits_ok r' \<and> (b = 0 \<or> b = 1) \<and> length r' = length xs"
      "digits_val xs - 1 = digits_val r' - BIGNUM_RADIX ^ length xs * b"
      using Cons.IH [OF _ r'(1)] Cons.prems by auto
    have "BIGNUM_RADIX * (digits_val xs - 1) = BIGNUM_RADIX * (digits_val r' - BIGNUM_RADIX ^ length xs * b)"
      by (simp add: ih(2))
    then show ?thesis using ih(1) r' x by (simp add: algebra_simps digit_ok_def)
  qed
qed

lemma subtract_digits_val:
  assumes x: "bignum_wf x" and y: "bignum_wf y" and less: "\<bar>bignum_val y\<bar> < \<bar>bignum_val x\<bar>"
  shows "\<exists>r. subtract_digits x y neg = Some r \<and> bignum_wf r \<and>
    bignum_val r = signed_val neg (\<bar>bignum_val x\<bar> - \<bar>bignum_val y\<bar>)"
proof -
  let ?n = "length (digits y)" let ?m = "length (digits x)"
  have ok: "digits_ok (digits x)" "digits_ok (digits y)" using x y by (simp_all add: bignum_wf_digits)
  have le: "?n \<le> ?m" using bignum_length_less_val [OF x y] less by (fastforce simp: BIGNUM_LENGTH_def)
  obtain r b rest where scan: "subtract_scan (digits x) (digits y) 0 = (r, b, rest)"
    by (cases "subtract_scan (digits x) (digits y) 0") auto
  obtain r' b' where borrow: "(if b \<noteq> 0 then subtract_borrow_scan rest b else (rest, b)) = (r', b')"
    by (cases "if b \<noteq> 0 then subtract_borrow_scan rest b else (rest, b)") auto
  have 1: "digits_ok r \<and> (b = 0 \<or> b = 1) \<and> length r = ?n \<and> rest = drop ?n (digits x)"
    "digits_val (take ?n (digits x)) - digits_val (digits y) = digits_val r - BIGNUM_RADIX ^ ?n * b"
    using subtract_scan_val [OF scan ok le] by simp_all
  have 2: "digits_ok r' \<and> (b' = 0 \<or> b' = 1) \<and> length r' = ?m - ?n"
    "digits_val rest - b = digits_val r' - BIGNUM_RADIX ^ (?m - ?n) * b'"
    using borrow 1(1) ok subtract_borrow_scan_val [of rest r' b'] by (auto split: if_splits)
  have "digits_val (digits x) - digits_val (digits y)
      = digits_val r + BIGNUM_RADIX ^ ?n * (digits_val rest - b)"
    using digits_val_take_drop [OF le] 1 by (simp add: algebra_simps)
  also have "\<dots> = digits_val r + BIGNUM_RADIX ^ ?n * digits_val r' - (BIGNUM_RADIX ^ ?n * BIGNUM_RADIX ^ (?m - ?n)) * b'"
    unfolding 2(2) by (simp add: algebra_simps)
  also have "\<dots> = digits_val (r @ r') - BIGNUM_RADIX ^ ?m * b'"
    using 1(1) le by (simp add: digits_val_append flip: power_add)
  finally have eq: "\<bar>bignum_val x\<bar> - \<bar>bignum_val y\<bar> = digits_val (r @ r') - BIGNUM_RADIX ^ ?m * b'"
    using x y by (simp add: bignum_abs_val)
  have "digits_val (r @ r') < BIGNUM_RADIX ^ ?m"
    using digits_val_less [of "r @ r'"] 1(1) 2(1) le by simp
  then have b': "b' = 0" using eq less 2(1) by auto
  have ne: "digits x \<noteq> []" using less bignum_zero_p_val [OF x] by (auto simp: BIGNUM_ZERO_P_def BIGNUM_LENGTH_def)
  have "r @ r' \<noteq> []" using 1(1) 2(1) le ne by auto
  then have "bignum_wf (bignum_trim (mk_bignum neg (r @ r')))"
    using 1(1) 2(1) by (intro bignum_trim_wf) auto
  moreover have "subtract_digits x y neg = Some (bignum_trim (mk_bignum neg (r @ r')))"
    using scan borrow b' by (simp add: subtract_digits_def)
  ultimately show ?thesis using eq b' by simp
qed

lemma bignum_subtract_unsigned_val:
  assumes "bignum_wf x" "bignum_wf y"
  shows "\<exists>r. bignum_subtract_unsigned x y = Some r \<and> bignum_wf r \<and>
    bignum_val r = \<bar>bignum_val x\<bar> - \<bar>bignum_val y\<bar>"
proof (cases "\<bar>bignum_val x\<bar>" "\<bar>bignum_val y\<bar>" rule: linorder_cases)
  case less
  then show ?thesis using assms subtract_digits_val [of y x True]
    by (simp add: bignum_subtract_unsigned_def bignum_compare_unsigned_val compare_int_def signed_val_def)
next
  case equal
  then show ?thesis using assms
    by (simp add: bignum_subtract_unsigned_def bignum_compare_unsigned_val compare_int_def)
next
  case greater
  then show ?thesis using assms subtract_digits_val [of x y False]
    by (simp add: bignum_subtract_unsigned_def bignum_compare_unsigned_val compare_int_def signed_val_def)
qed

lemma bignum_signs:
  assumes "bignum_wf x"
  obtains "BIGNUM_ZERO_P x" "bignum_val x = 0"
  | "\<not> BIGNUM_ZERO_P x" "negative_p x" "bignum_val x < 0" "\<bar>bignum_val x\<bar> = - bignum_val x"
  | "\<not> BIGNUM_ZERO_P x" "\<not> negative_p x" "0 < bignum_val x" "\<bar>bignum_val x\<bar> = bignum_val x"
proof (cases "bignum_val x" "0::int" rule: linorder_cases)
  case less
  then show thesis using that(2) bignum_negative_val [OF assms] bignum_zero_p_val [OF assms] by simp
next
  case equal
  then show thesis using that(1) bignum_zero_p_val [OF assms] by simp
next
  case greater
  then show thesis using that(3) bignum_negative_val [OF assms] bignum_zero_p_val [OF assms] by simp
qed

lemma bignum_add_val:
  assumes x: "bignum_wf x" and y: "bignum_wf y"
  shows "\<exists>r. bignum_add u x y = Some r \<and> bignum_wf r \<and> bignum_val r = bignum_val x + bignum_val y"
proof (rule bignum_signs [OF x]; rule bignum_signs [OF y])
qed (use x y bignum_subtract_unsigned_val [OF x y] bignum_subtract_unsigned_val [OF y x]
    bignum_add_unsigned_val [OF x _ y] in \<open>simp_all add: bignum_add_def signed_val_def add.commute\<close>)

lemma bignum_subtract_val:
  assumes x: "bignum_wf x" and y: "bignum_wf y"
  shows "\<exists>r. bignum_subtract u x y = Some r \<and> bignum_wf r \<and> bignum_val r = bignum_val x - bignum_val y"
proof (rule bignum_signs [OF x]; rule bignum_signs [OF y])
qed (use x y bignum_subtract_unsigned_val [OF x y] bignum_subtract_unsigned_val [OF y x]
    bignum_add_unsigned_val [OF x _ y] bignum_new_sign_wf(1) [OF y] bignum_abs_val [OF y] in
    \<open>simp_all add: bignum_subtract_def signed_val_def\<close>)

text \<open>The two operations as instances of the interface, for any uninitialised content \<open>u\<close>.\<close>

interpretation bignum_add: bignum_binop "bignum_add u" "(+)" "\<lambda>_ _. True" for u
  by unfold_locales (rule bignum_add_val)

interpretation bignum_subtract: bignum_binop "bignum_subtract u" "(-)" "\<lambda>_ _. True" for u
  by unfold_locales (rule bignum_subtract_val)

lemma bignum_add_uninitialised:
  "bignum_wf x \<Longrightarrow> bignum_wf y \<Longrightarrow> bignum_add u x y = bignum_add u' x y"
proof -
  assume wf: "bignum_wf x" "bignum_wf y"
  then obtain r where "bignum_add u x y = Some r" "bignum_wf r"
    "bignum_val r = bignum_val x + bignum_val y"
    using bignum_add.refines by blast
  moreover from this have "bignum_add u' x y = Some r" using wf by (intro bignum_add.bop_eqI) simp_all
  ultimately show ?thesis by simp
qed

end
