(* ===== verification/Bignum_Mul.thy ===== *)
theory Bignum_Mul
  imports Bignum_Add
begin

text \<open>
  Multiplication of bignums (\<open>vm/bignum.cpp\<close>): the schoolbook product on half digits,
  the product with a factor below the root of the radix, and the squaring routine on
  128-bit double digits that \<open>bignum_multiply\<close> takes when both arguments are the same
  object.

  A failed \<open>BIGNUM_ASSERT\<close> calls \<open>abort\<close>, and a store past the end of the result array
  is undefined; both are \<open>None\<close> in the model, so a theorem that an operation returns
  \<open>Some\<close> says that neither happens.
\<close>

subsection \<open>Schoolbook product\<close>

text \<open>
  One row: \<open>rs\<close> is the part of the result array from \<open>start_r\<close> on, updated in place.
  The macros of the source let \<open>product_high\<close> share its variable with \<open>carry\<close>.
\<close>

fun multiply_scan :: "fixnum \<Rightarrow> fixnum \<Rightarrow> fixnum list \<Rightarrow> fixnum list \<Rightarrow> fixnum \<Rightarrow> fixnum list" where
  "multiply_scan x_digit_low x_digit_high (y_digit # ys) (r # rs) carry =
     (let y_digit_low = HD_LOW y_digit;
          y_digit_high = HD_HIGH y_digit;
          product_low = fx (r + x_digit_low * y_digit_low + HD_LOW carry);
          product_high = fx (x_digit_high * y_digit_low + x_digit_low * y_digit_high +
            HD_HIGH product_low + HD_HIGH carry)
      in HD_CONS (HD_LOW product_high) (HD_LOW product_low) #
         multiply_scan x_digit_low x_digit_high ys rs
           (fx (x_digit_high * y_digit_high + HD_HIGH product_high)))"
| "multiply_scan x_digit_low x_digit_high [] (r # rs) carry = fx (r + carry) # rs"
| "multiply_scan x_digit_low x_digit_high ys [] carry = []"

fun multiply_rows :: "fixnum list \<Rightarrow> fixnum list \<Rightarrow> fixnum list \<Rightarrow> fixnum list" where
  "multiply_rows [] ys rs = rs"
| "multiply_rows (x_digit # xs) ys rs =
     (case multiply_scan (HD_LOW x_digit) (HD_HIGH x_digit) ys rs 0 of
        [] \<Rightarrow> []
      | r # rs' \<Rightarrow> r # multiply_rows xs ys rs')"

definition bignum_multiply_unsigned :: "bignum \<Rightarrow> bignum \<Rightarrow> bool \<Rightarrow> bignum" where
  "bignum_multiply_unsigned x' y' neg =
     (let (x, y) = (if BIGNUM_LENGTH y' > BIGNUM_LENGTH x' then (y', x') else (x', y'));
          r = allot_bignum_zeroed (BIGNUM_LENGTH x + BIGNUM_LENGTH y) neg
      in bignum_trim (r\<lparr>digits := multiply_rows (digits x) (digits y) (digits r)\<rparr>))"

subsection \<open>Product with a half digit\<close>

fun scale_up_scan :: "fixnum \<Rightarrow> fixnum list \<Rightarrow> fixnum \<Rightarrow> fixnum list \<times> fixnum" where
  "scale_up_scan factor [] carry = ([], carry)"
| "scale_up_scan factor (two_digits # ds) carry =
     (let product_low = fx (factor * HD_LOW two_digits + HD_LOW carry);
          product_high = fx (factor * HD_HIGH two_digits + HD_HIGH product_low + HD_HIGH carry);
          (rs, c) = scale_up_scan factor ds (HD_HIGH product_high)
      in (HD_CONS (HD_LOW product_high) (HD_LOW product_low) # rs, c))"

definition bignum_destructive_scale_up :: "bignum \<Rightarrow> fixnum \<Rightarrow> bignum option" where
  "bignum_destructive_scale_up bn factor =
     (if 1 < factor \<and> factor < BIGNUM_RADIX_ROOT then
        (let (ds, carry) = scale_up_scan factor (digits bn) 0
         in if carry = 0 then Some (bn\<lparr>digits := ds\<rparr>) else None)
      else None)"

fun destructive_add_scan :: "fixnum list \<Rightarrow> fixnum \<Rightarrow> fixnum list option" where
  "destructive_add_scan [] n = None"
| "destructive_add_scan (d # ds) n =
     (let digit = fx (d + n) in
      if digit < BIGNUM_RADIX then Some (digit # ds)
      else map_option (\<lambda>rs. fx (digit - BIGNUM_RADIX) # rs) (destructive_add_scan ds 1))"

definition bignum_destructive_add :: "bignum \<Rightarrow> fixnum \<Rightarrow> bignum option" where
  "bignum_destructive_add bn n =
     map_option (\<lambda>ds. bn\<lparr>digits := ds\<rparr>) (destructive_add_scan (digits bn) n)"

definition bignum_multiply_unsigned_small_factor :: "bignum \<Rightarrow> fixnum \<Rightarrow> bool \<Rightarrow> bignum option" where
  "bignum_multiply_unsigned_small_factor x y neg =
     map_option bignum_trim
       (bignum_destructive_scale_up (mk_bignum neg (digits x @ [0])) y)"

subsection \<open>Squaring\<close>

text \<open>
  \<open>square_carry2\<close> and \<open>square_carry1\<close> are the two conditional stores after the inner
  loop, \<open>square_scan\<close> the inner loop over the digits above \<open>f\<close>, \<open>square_row\<close> one
  iteration of the outer loop on the part of the result from index \<open>2 i\<close> on.
\<close>

definition square_carry2 :: "fixnum list \<Rightarrow> twodigit \<Rightarrow> fixnum list option" where
  "square_carry2 zs carry =
     (if drop_bit BIGNUM_DIGIT_LENGTH carry = 0 then
        (if carry \<noteq> 0
         then (case zs of [] \<Rightarrow> None | z # zs' \<Rightarrow> Some (fx (z + (carry AND BIGNUM_DIGIT_MASK)) # zs'))
         else Some zs)
      else None)"

definition square_carry1 :: "fixnum list \<Rightarrow> twodigit \<Rightarrow> fixnum list option" where
  "square_carry1 zs carry =
     (if carry \<noteq> 0 then
        (case zs of
           [] \<Rightarrow> None
         | z # zs' \<Rightarrow>
             (let c = fx2 (carry + z)
              in map_option (\<lambda>rs. (c AND BIGNUM_DIGIT_MASK) # rs)
                   (square_carry2 zs' (drop_bit BIGNUM_DIGIT_LENGTH c))))
      else square_carry2 zs carry)"

fun square_scan :: "fixnum list \<Rightarrow> fixnum list \<Rightarrow> twodigit \<Rightarrow> twodigit \<Rightarrow> fixnum list option" where
  "square_scan [] zs f carry = square_carry1 zs carry"
| "square_scan (p # ps) [] f carry = None"
| "square_scan (p # ps) (z # zs) f carry =
     (let c = fx2 (carry + (z + p * f));
          carry' = drop_bit BIGNUM_DIGIT_LENGTH c
      in if carry' \<le> fx (push_bit 1 BIGNUM_DIGIT_MASK)
         then map_option (\<lambda>rs. (c AND BIGNUM_DIGIT_MASK) # rs) (square_scan ps zs f carry')
         else None)"

definition square_row :: "fixnum \<Rightarrow> fixnum list \<Rightarrow> fixnum list \<Rightarrow> fixnum list option" where
  "square_row f px zs =
     (case zs of
        [] \<Rightarrow> None
      | z # zs' \<Rightarrow>
          (let c = fx2 (z + f * f);
               carry = drop_bit BIGNUM_DIGIT_LENGTH c
           in if carry \<le> BIGNUM_DIGIT_MASK
              then map_option (\<lambda>rs. (c AND BIGNUM_DIGIT_MASK) # rs)
                     (square_scan px zs' (fx2 (push_bit 1 f)) carry)
              else None))"

fun square_rows :: "fixnum list \<Rightarrow> fixnum list \<Rightarrow> fixnum list option" where
  "square_rows [] zs = Some zs"
| "square_rows (f # px) zs =
     (case square_row f px zs of
        Some (a # b # zs') \<Rightarrow> map_option (\<lambda>rs. a # b # rs) (square_rows px zs')
      | _ \<Rightarrow> None)"

definition bignum_square :: "bignum \<Rightarrow> bignum option" where
  "bignum_square x =
     (let z = allot_bignum_zeroed (BIGNUM_LENGTH x + BIGNUM_LENGTH x) False
      in map_option (\<lambda>ds. bignum_trim (z\<lparr>digits := ds\<rparr>)) (square_rows (digits x) (digits z)))"

subsection \<open>Signed multiplication\<close>

text \<open>\<open>same\<close> is the outcome of the pointer comparison \<open>x == y\<close>.\<close>

definition bignum_multiply :: "bool \<Rightarrow> bignum \<Rightarrow> bignum \<Rightarrow> bignum option" where
  "bignum_multiply same x y =
     (if same then bignum_square x
      else
        (let neg = (if negative_p x then \<not> negative_p y else negative_p y) in
         if BIGNUM_ZERO_P x then Some x
         else if BIGNUM_ZERO_P y then Some y
         else if BIGNUM_LENGTH x = 1 \<and> BIGNUM_REF x 0 = 1 then Some (bignum_maybe_new_sign y neg)
         else if BIGNUM_LENGTH x = 1 \<and> BIGNUM_REF x 0 < BIGNUM_RADIX_ROOT
           then bignum_multiply_unsigned_small_factor y (BIGNUM_REF x 0) neg
         else if BIGNUM_LENGTH y = 1 \<and> BIGNUM_REF y 0 = 1 then Some (bignum_maybe_new_sign x neg)
         else if BIGNUM_LENGTH y = 1 \<and> BIGNUM_REF y 0 < BIGNUM_RADIX_ROOT
           then bignum_multiply_unsigned_small_factor x (BIGNUM_REF y 0) neg
         else Some (bignum_multiply_unsigned x y neg)))"

subsection \<open>One digit of a product\<close>

lemma half_mult_bounds:
  assumes "0 \<le> a" "a < BIGNUM_RADIX_ROOT" "0 \<le> b" "b < BIGNUM_RADIX_ROOT"
  shows "0 \<le> a * b" "a * b \<le> (BIGNUM_RADIX_ROOT - 1) * (BIGNUM_RADIX_ROOT - 1)"
  using assms by (simp, intro mult_mono) simp_all

lemma HD_HIGH_double:
  assumes "0 \<le> x" "x < (2 * BIGNUM_RADIX_ROOT) * BIGNUM_RADIX_ROOT"
  shows "0 \<le> HD_HIGH x" "HD_HIGH x < 2 * BIGNUM_RADIX_ROOT"
  using assms HD_HIGH_less [of x "2 * BIGNUM_RADIX_ROOT"] by (simp_all add: HD_HIGH_nonneg)

text \<open>
  The double-length product of two digits, split at the half digits: the low and the high
  partial sums stay below the bounds the source's comment gives, so nothing wraps, and
  digit and carry are the two halves of the exact result.
\<close>

lemma half_digit_product:
  fixes r xl xh y carry :: int
  assumes r: "digit_ok r" and y: "digit_ok y" and c: "digit_ok carry"
    and x: "0 \<le> xl" "xl < BIGNUM_RADIX_ROOT" "0 \<le> xh" "xh < BIGNUM_RADIX_ROOT"
  defines "pl \<equiv> fx (r + xl * HD_LOW y + HD_LOW carry)"
  defines "ph \<equiv> fx (xh * HD_LOW y + xl * HD_HIGH y + HD_HIGH pl + HD_HIGH carry)"
  defines "c' \<equiv> fx (xh * HD_HIGH y + HD_HIGH ph)"
  defines "d \<equiv> HD_CONS (HD_LOW ph) (HD_LOW pl)"
  shows "digit_ok d" and "digit_ok c'"
    and "d + BIGNUM_RADIX * c' = r + (xh * BIGNUM_RADIX_ROOT + xl) * y + carry"
proof -
  note yh = HD_HIGH_digit [OF y] and ch = HD_HIGH_digit [OF c]
  note b = half_mult_bounds [OF x(1,2) HD_LOW_bounds, of y] half_mult_bounds [OF x(3,4) HD_LOW_bounds, of y]
    half_mult_bounds [OF x(1,2) conjunct1 [OF yh] conjunct2 [OF yh]]
    half_mult_bounds [OF x(3,4) conjunct1 [OF yh] conjunct2 [OF yh]]
  note lo = HD_LOW_bounds [of carry] HD_LOW_bounds [of pl] HD_LOW_bounds [of ph]
  have pl: "pl = r + xl * HD_LOW y + HD_LOW carry"
    unfolding pl_def by (rule fx_id) (use b lo r in \<open>simp_all add: bignum_num digit_ok_def del: HD_LOW_bounds\<close>)
  have "0 \<le> pl" "pl < (2 * BIGNUM_RADIX_ROOT) * BIGNUM_RADIX_ROOT"
    using pl b lo r by (simp_all add: bignum_num digit_ok_def del: HD_LOW_bounds)
  note plh = HD_HIGH_double [OF this]
  have ph: "ph = xh * HD_LOW y + xl * HD_HIGH y + HD_HIGH pl + HD_HIGH carry"
    unfolding ph_def by (rule fx_id) (use b plh ch in \<open>simp_all add: bignum_num digit_ok_def del: HD_LOW_bounds\<close>)
  have phb: "0 \<le> ph" using ph b plh ch by linarith
  have "ph < (2 * BIGNUM_RADIX_ROOT) * BIGNUM_RADIX_ROOT"
    using ph b plh ch by (simp add: bignum_num)
  note phh = HD_HIGH_double [OF phb this]
  have c': "c' = xh * HD_HIGH y + HD_HIGH ph"
    unfolding c'_def by (rule fx_id) (use b phh in \<open>simp_all add: bignum_num\<close>)
  have d: "d = HD_LOW ph * BIGNUM_RADIX_ROOT + HD_LOW pl"
    unfolding d_def by (rule HD_CONS_add) (use lo in \<open>simp_all add: bignum_num del: HD_LOW_bounds\<close>)
  show "digit_ok d" using d lo by (simp add: digit_ok_def bignum_num del: HD_LOW_bounds)
  have "d + BIGNUM_RADIX * c' = HD_LOW pl + BIGNUM_RADIX_ROOT * (HD_LOW ph + BIGNUM_RADIX_ROOT * HD_HIGH ph)
      + BIGNUM_RADIX_ROOT * BIGNUM_RADIX_ROOT * (xh * HD_HIGH y)"
    by (simp add: d c' radix_root algebra_simps)
  also have "\<dots> = (HD_LOW pl + BIGNUM_RADIX_ROOT * HD_HIGH pl) + BIGNUM_RADIX_ROOT * (xh * HD_LOW y + xl * HD_HIGH y + HD_HIGH carry)
      + BIGNUM_RADIX_ROOT * BIGNUM_RADIX_ROOT * (xh * HD_HIGH y)"
    using HD_split [of ph] by (simp add: ph algebra_simps)
  also have "\<dots> = r + (xh * BIGNUM_RADIX_ROOT + xl) * (HD_HIGH y * BIGNUM_RADIX_ROOT + HD_LOW y)
      + (HD_HIGH carry * BIGNUM_RADIX_ROOT + HD_LOW carry)"
    using HD_split [of pl] by (simp add: pl algebra_simps)
  finally show total: "d + BIGNUM_RADIX * c' = r + (xh * BIGNUM_RADIX_ROOT + xl) * y + carry"
    by (simp flip: HD_split)
  have "(xh * BIGNUM_RADIX_ROOT + xl) * y \<le> (BIGNUM_RADIX - 1) * (BIGNUM_RADIX - 1)"
    by (rule mult_mono) (use x y in \<open>simp_all add: digit_ok_def bignum_num\<close>)
  with total r c \<open>digit_ok d\<close> have "BIGNUM_RADIX * c' < BIGNUM_RADIX * BIGNUM_RADIX"
    by (simp add: digit_ok_def bignum_num)
  then show "digit_ok c'" using c' b phh by (simp add: digit_ok_def)
qed

subsection \<open>Schoolbook product\<close>

declare multiply_scan.simps(1) [simp del]

lemma multiply_scan_Cons:
  assumes "digit_ok x" "digit_ok y" "digit_ok r" "digit_ok c"
  shows "\<exists>d c'. multiply_scan (HD_LOW x) (HD_HIGH x) (y # ys) (r # rs) c =
           d # multiply_scan (HD_LOW x) (HD_HIGH x) ys rs c' \<and>
         digit_ok d \<and> digit_ok c' \<and> d + BIGNUM_RADIX * c' = r + x * y + c"
proof -
  note xh = HD_HIGH_digit [OF assms(1)]
  note half_digit_product [OF assms(3,2,4) HD_LOW_bounds [of x] conjunct1 [OF xh] conjunct2 [OF xh]]
  then show ?thesis
    unfolding multiply_scan.simps(1) Let_def HD_split [of x, symmetric] by blast
qed

lemma multiply_scan_val:
  assumes "digit_ok x" "digits_ok ys" "digits_ok rs" "digit_ok c"
    and "length ys < length rs" "rs ! length ys = 0"
  shows "\<exists>res. multiply_scan (HD_LOW x) (HD_HIGH x) ys rs c = res \<and> digits_ok res \<and>
    length res = length rs \<and> drop (Suc (length ys)) res = drop (Suc (length ys)) rs \<and>
    digits_val res = digits_val rs + x * digits_val ys + c"
  using assms(2-)
proof (induction ys arbitrary: rs c)
  case Nil
  then obtain rs' where "rs = 0 # rs'" by (cases rs) auto
  with Nil show ?case by (simp add: fx_id digit_ok_def bignum_num)
next
  case (Cons y ys)
  then obtain r rs' where rs: "rs = r # rs'" by (cases rs) auto
  with Cons.prems have ok: "digit_ok y" "digits_ok ys" "digit_ok r" "digits_ok rs'"
    "length ys < length rs'" "rs' ! length ys = 0" by auto
  obtain d c' where step: "multiply_scan (HD_LOW x) (HD_HIGH x) (y # ys) (r # rs') c =
      d # multiply_scan (HD_LOW x) (HD_HIGH x) ys rs' c'" "digit_ok d" "digit_ok c'"
      "d + BIGNUM_RADIX * c' = r + x * y + c"
    using multiply_scan_Cons [OF assms(1) ok(1,3) Cons.prems(3)] by blast
  obtain res where ih: "multiply_scan (HD_LOW x) (HD_HIGH x) ys rs' c' = res" "digits_ok res"
      "length res = length rs'" "drop (Suc (length ys)) res = drop (Suc (length ys)) rs'"
      "digits_val res = digits_val rs' + x * digits_val ys + c'"
    using Cons.IH [OF ok(2,4) step(3) ok(5,6)] by blast
  have "d + BIGNUM_RADIX * digits_val res = r + BIGNUM_RADIX * digits_val rs' +
      x * (y + BIGNUM_RADIX * digits_val ys) + c"
    using step(4) by (simp add: ih(5) algebra_simps)
  then show ?case using step(2) ih by (simp add: rs step(1))
qed

lemma multiply_rows_val:
  assumes "digits_ok xs" "digits_ok ys" "digits_ok rs" "length rs = length xs + length ys"
    and "drop (length ys) rs = replicate (length xs) 0"
  shows "digits_ok (multiply_rows xs ys rs) \<and>
    digits_val (multiply_rows xs ys rs) = digits_val rs + digits_val xs * digits_val ys"
  using assms
proof (induction xs arbitrary: rs)
  case Nil
  then show ?case by simp
next
  case (Cons x xs)
  have z: "rs ! length ys = 0"
    using Cons.prems(4,5) nth_drop [of "length ys" rs 0] by simp
  obtain res where res: "multiply_scan (HD_LOW x) (HD_HIGH x) ys rs 0 = res" "digits_ok res"
      "length res = length rs" "drop (Suc (length ys)) res = drop (Suc (length ys)) rs"
      "digits_val res = digits_val rs + x * digits_val ys + 0"
    using multiply_scan_val [of x ys rs 0] Cons.prems z by (auto simp: digit_ok_def)
  obtain r rs' where r: "res = r # rs'" using res(3) Cons.prems(4) by (cases res) auto
  have "drop (length ys) rs' = replicate (length xs) 0"
    using res(4) Cons.prems(5) by (simp add: r flip: drop_drop) (simp add: drop_Suc tl_drop [symmetric])
  then have ih: "digits_ok (multiply_rows xs ys rs')"
      "digits_val (multiply_rows xs ys rs') = digits_val rs' + digits_val xs * digits_val ys"
    using Cons.IH [of rs'] Cons.prems res(2,3) by (simp_all add: r)
  have "r + BIGNUM_RADIX * digits_val (multiply_rows xs ys rs') =
      digits_val rs + (x + BIGNUM_RADIX * digits_val xs) * digits_val ys"
    using res(5) by (simp add: ih(2) r algebra_simps)
  then show ?case using res(1,2) ih(1) by (simp add: r)
qed

lemma mk_bignum_update [simp]: "(mk_bignum neg ds)\<lparr>digits := ds'\<rparr> = mk_bignum neg ds'"
  by (simp add: mk_bignum_def)

lemma bignum_trim_mk_wf: "digits_ok ds \<Longrightarrow> ds \<noteq> [] \<or> \<not> neg \<Longrightarrow> bignum_wf (bignum_trim (mk_bignum neg ds))"
  by (rule bignum_trim_wf) auto

subsection \<open>Product with a half digit\<close>

lemma fx_HD_HIGH: "fx (HD_HIGH (fx x)) = HD_HIGH (fx x)"
  using fx_range [of x] by (intro fx_id) (simp_all add: HD_HIGH_div bignum_num)

lemma carry_out_zero:
  fixes k c r :: int
  assumes "r + k * c < k" "0 \<le> r" "0 \<le> c" "0 < k"
  shows "c = 0"
proof (rule ccontr)
  assume "c \<noteq> 0"
  with assms have "k * 1 \<le> k * c" by (intro mult_left_mono) simp_all
  with assms show False by simp
qed

declare scale_up_scan.simps(2) [simp del]

lemma scale_up_scan_Cons:
  assumes "0 \<le> factor" "factor < BIGNUM_RADIX_ROOT" "digit_ok d" "digit_ok c"
  shows "\<exists>d' c'. scale_up_scan factor (d # ds) c =
           (d' # fst (scale_up_scan factor ds c'), snd (scale_up_scan factor ds c')) \<and>
         digit_ok d' \<and> digit_ok c' \<and> d' + BIGNUM_RADIX * c' = factor * d + c"
proof -
  have "digit_ok 0" by (simp add: digit_ok_def)
  note half_digit_product [OF this assms(3,4,1,2), of 0, simplified, unfolded fx_HD_HIGH]
  then show ?thesis
    unfolding scale_up_scan.simps(2) Let_def case_prod_unfold by blast
qed

lemma scale_up_scan_val:
  assumes "0 \<le> factor" "factor < BIGNUM_RADIX_ROOT" "digits_ok ds" "digit_ok c"
    and "scale_up_scan factor ds c = (rs, c')"
  shows "digits_ok rs \<and> digit_ok c' \<and> length rs = length ds \<and>
    digits_val rs + BIGNUM_RADIX ^ length ds * c' = factor * digits_val ds + c"
  using assms(3-)
proof (induction ds arbitrary: c rs)
  case Nil
  then show ?case by simp
next
  case (Cons d ds)
  then have ok: "digit_ok d" "digits_ok ds" by auto
  obtain d' c1 where step: "scale_up_scan factor (d # ds) c =
        (d' # fst (scale_up_scan factor ds c1), snd (scale_up_scan factor ds c1))"
      "digit_ok d'" "digit_ok c1" "d' + BIGNUM_RADIX * c1 = factor * d + c"
    using scale_up_scan_Cons [OF assms(1,2) ok(1) Cons.prems(2)] by blast
  obtain rs' where rs': "scale_up_scan factor ds c1 = (rs', c')" "rs = d' # rs'"
    using step(1) Cons.prems(3) by (cases "scale_up_scan factor ds c1") auto
  have ih: "digits_ok rs'" "digit_ok c'" "length rs' = length ds"
      "digits_val rs' + BIGNUM_RADIX ^ length ds * c' = factor * digits_val ds + c1"
    using Cons.IH [OF ok(2) step(3) rs'(1)] by blast+
  have "BIGNUM_RADIX * (digits_val rs' + BIGNUM_RADIX ^ length ds * c') =
      BIGNUM_RADIX * (factor * digits_val ds + c1)" by (simp add: ih(4))
  then show ?case using ih(1-3) step(2,4) by (simp add: rs'(2) algebra_simps)
qed

lemma bignum_destructive_scale_up_val:
  assumes "1 < factor" "factor < BIGNUM_RADIX_ROOT" "digits_ok (digits bn)"
    and "factor * digits_val (digits bn) < BIGNUM_RADIX ^ BIGNUM_LENGTH bn"
  shows "\<exists>ds. bignum_destructive_scale_up bn factor = Some (bn\<lparr>digits := ds\<rparr>) \<and> digits_ok ds \<and>
    length ds = BIGNUM_LENGTH bn \<and> digits_val ds = factor * digits_val (digits bn)"
proof -
  obtain ds c where scan: "scale_up_scan factor (digits bn) 0 = (ds, c)"
    by (cases "scale_up_scan factor (digits bn) 0") auto
  have v: "digits_ok ds" "digit_ok c" "length ds = BIGNUM_LENGTH bn"
      "digits_val ds + BIGNUM_RADIX ^ BIGNUM_LENGTH bn * c = factor * digits_val (digits bn)"
    using scale_up_scan_val [OF _ assms(2,3) _ scan] assms(1)
    by (simp_all add: BIGNUM_LENGTH_def digit_ok_def)
  then have "c = 0"
    using assms(4) digits_val_nonneg [OF v(1)]
      carry_out_zero [of "digits_val ds" "BIGNUM_RADIX ^ BIGNUM_LENGTH bn" c] by (simp add: digit_ok_def)
  then show ?thesis
    using assms(1,2) v by (auto simp: bignum_destructive_scale_up_def scan)
qed

lemma half_digit_product_fits:
  assumes "0 \<le> y" "y < BIGNUM_RADIX_ROOT" "digits_ok ds"
  shows "y * digits_val ds < BIGNUM_RADIX ^ length ds * BIGNUM_RADIX"
proof -
  have "y * digits_val ds \<le> BIGNUM_RADIX_ROOT * digits_val ds"
    using assms digits_val_nonneg by (intro mult_right_mono) auto
  also have "\<dots> < BIGNUM_RADIX_ROOT * BIGNUM_RADIX ^ length ds"
    using digits_val_less [OF assms(3)] by simp
  also have "\<dots> \<le> BIGNUM_RADIX * BIGNUM_RADIX ^ length ds"
    by (intro mult_right_mono) (simp_all add: bignum_num)
  finally show ?thesis by (simp add: mult.commute)
qed

lemma bignum_multiply_unsigned_small_factor_val:
  assumes "1 < y" "y < BIGNUM_RADIX_ROOT" "digits_ok (digits x)"
  shows "\<exists>r. bignum_multiply_unsigned_small_factor x y neg = Some r \<and> bignum_wf r \<and>
    bignum_val r = signed_val neg (digits_val (digits x) * y)"
proof -
  let ?p = "mk_bignum neg (digits x @ [0])"
  have ok: "digits_ok (digits ?p)" using assms(3) by (simp add: digit_ok_def)
  have "y * digits_val (digits ?p) < BIGNUM_RADIX ^ BIGNUM_LENGTH ?p"
    using half_digit_product_fits [OF _ assms(2,3)] assms(1)
    by (simp add: digits_val_append BIGNUM_LENGTH_def mult.commute)
  from bignum_destructive_scale_up_val [OF assms(1,2) ok this] obtain ds
    where ds: "bignum_destructive_scale_up ?p y = Some (?p\<lparr>digits := ds\<rparr>)" "digits_ok ds"
      "length ds = BIGNUM_LENGTH ?p" "digits_val ds = y * digits_val (digits ?p)" by blast
  then show ?thesis
    by (auto simp: bignum_multiply_unsigned_small_factor_def BIGNUM_LENGTH_def
      digits_val_append mult.commute intro: bignum_trim_mk_wf)
qed

lemma destructive_add_scan_val:
  assumes "digits_ok ds" "0 \<le> n" "n \<le> BIGNUM_RADIX" "ds \<noteq> [] \<or> 0 < n" "digits_val ds + n < BIGNUM_RADIX ^ length ds"
  shows "\<exists>rs. destructive_add_scan ds n = Some rs \<and> digits_ok rs \<and> length rs = length ds \<and>
    digits_val rs = digits_val ds + n"
  using assms
proof (induction ds arbitrary: n)
  case Nil
  then show ?case by simp
next
  case (Cons d ds)
  have d: "fx (d + n) = d + n" "0 \<le> d" "d < BIGNUM_RADIX"
    using Cons.prems by (simp_all add: fx_id digit_ok_def bignum_num)
  show ?case
  proof (cases "d + n < BIGNUM_RADIX")
    case True
    then show ?thesis using d Cons.prems by (simp add: digit_ok_def)
  next
    case False
    have sub: "fx (d + n - BIGNUM_RADIX) = d + n - BIGNUM_RADIX"
      using d Cons.prems by (intro fx_id) (simp_all add: bignum_num)
    have "BIGNUM_RADIX * (digits_val ds + 1) < BIGNUM_RADIX * BIGNUM_RADIX ^ length ds"
      using False Cons.prems(5) by (simp add: algebra_simps)
    then have "digits_val ds + 1 < BIGNUM_RADIX ^ length ds" by simp
    with Cons.IH [of 1] Cons.prems obtain rs where "destructive_add_scan ds 1 = Some rs"
      "digits_ok rs" "length rs = length ds" "digits_val rs = digits_val ds + 1" by auto
    then show ?thesis
      using d(1) False sub Cons.prems d by (simp add: Let_def digit_ok_def algebra_simps)
  qed
qed

lemma bignum_destructive_add_val:
  assumes "digits_ok (digits bn)" "digit_ok n" "\<not> BIGNUM_ZERO_P bn"
    and "digits_val (digits bn) + n < BIGNUM_RADIX ^ BIGNUM_LENGTH bn"
  shows "\<exists>ds. bignum_destructive_add bn n = Some (bn\<lparr>digits := ds\<rparr>) \<and> digits_ok ds \<and>
    length ds = BIGNUM_LENGTH bn \<and> digits_val ds = digits_val (digits bn) + n"
  using destructive_add_scan_val [OF assms(1), of n] assms(2-)
  by (auto simp: BIGNUM_ZERO_P_def bignum_destructive_add_def BIGNUM_LENGTH_def digit_ok_def)

subsection \<open>Squaring\<close>

lemma digit_mask_mod: "c AND BIGNUM_DIGIT_MASK = c mod BIGNUM_RADIX"
  by (simp add: BIGNUM_DIGIT_MASK_def radix_exp and_mask_mod del: power_numeral)

lemma digit_shift_div: "drop_bit 62 c = c div BIGNUM_RADIX"
  by (simp add: drop_bit_eq_div bignum_num)

lemma div_mod_digit:
  "digit_ok (c mod BIGNUM_RADIX)" "c mod BIGNUM_RADIX + BIGNUM_RADIX * (c div BIGNUM_RADIX) = c"
  by (simp_all add: digit_ok_def)

lemma digit_div_le: "BIGNUM_RADIX * (c div BIGNUM_RADIX) \<le> c"
  by (simp add: bignum_num)

lemma square_carry2_val:
  assumes "digits_ok zs" "0 \<le> carry" "carry \<le> 2" "carry + digits_val zs < BIGNUM_RADIX ^ length zs"
    and "zs \<noteq> [] \<Longrightarrow> hd zs = 0"
  shows "\<exists>rs. square_carry2 zs carry = Some rs \<and> digits_ok rs \<and> length rs = length zs \<and>
    drop 1 rs = drop 1 zs \<and> digits_val rs = digits_val zs + carry"
proof (cases "carry = 0")
  case True
  then show ?thesis using assms(1) by (simp add: square_carry2_def)
next
  case False
  with assms(2,4) have "zs \<noteq> []" by auto
  with assms(5) obtain zs' where zs: "zs = 0 # zs'" by (cases zs) auto
  have "drop_bit 62 carry = 0" "carry AND BIGNUM_DIGIT_MASK = carry" "fx carry = carry"
    using assms(2,3) by (simp_all add: digit_mask_mod digit_shift_div fx_id bignum_num)
  then show ?thesis using False assms(1-3) by (simp add: square_carry2_def zs digit_ok_def bignum_num)
qed

lemma square_carry1_val:
  assumes "digits_ok zs" "0 \<le> carry" "carry \<le> 2 * (BIGNUM_RADIX - 1)"
    and "carry + digits_val zs < BIGNUM_RADIX ^ length zs" "1 < length zs \<Longrightarrow> zs ! 1 = 0"
  shows "\<exists>rs. square_carry1 zs carry = Some rs \<and> digits_ok rs \<and> length rs = length zs \<and>
    drop 2 rs = drop 2 zs \<and> digits_val rs = digits_val zs + carry"
proof (cases "carry = 0")
  case True
  then show ?thesis using assms(1) by (simp add: square_carry1_def square_carry2_def)
next
  case False
  with assms(2,4) obtain z zs' where zs: "zs = z # zs'" by (cases zs) auto
  let ?c = "carry + z"
  have z: "0 \<le> z" "z < BIGNUM_RADIX" using assms(1) by (simp_all add: zs digit_ok_def)
  have c: "fx2 ?c = ?c" using assms(2,3) z by (intro fx2_id) (simp_all add: bignum_num)
  have k: "0 \<le> ?c div BIGNUM_RADIX" "?c div BIGNUM_RADIX \<le> 2"
    using assms(2,3) z by (simp_all add: bignum_num)
  have "BIGNUM_RADIX * (?c div BIGNUM_RADIX + digits_val zs') < BIGNUM_RADIX * BIGNUM_RADIX ^ length zs'"
    using assms(4) digit_div_le [of ?c] by (simp add: zs distrib_left)
  then have "?c div BIGNUM_RADIX + digits_val zs' < BIGNUM_RADIX ^ length zs'" by simp
  moreover have "zs' \<noteq> [] \<Longrightarrow> hd zs' = 0" using assms(5) by (simp add: zs hd_conv_nth)
  ultimately obtain rs where "square_carry2 zs' (?c div BIGNUM_RADIX) = Some rs" "digits_ok rs"
      "length rs = length zs'" "drop 1 rs = drop 1 zs'"
      "digits_val rs = digits_val zs' + ?c div BIGNUM_RADIX"
    using square_carry2_val [of zs' "?c div BIGNUM_RADIX"] assms(1) k by (auto simp: zs)
  then show ?thesis
    using False c div_mod_digit [of ?c]
    by (simp add: square_carry1_def zs Let_def digit_mask_mod digit_shift_div distrib_left numeral_2_eq_2)
qed

declare square_scan.simps(3) [simp del]

lemma square_scan_Cons:
  assumes "digit_ok p" "digit_ok z" "0 \<le> f" "f \<le> 2 * (BIGNUM_RADIX - 1)"
    and "0 \<le> carry" "carry \<le> 2 * (BIGNUM_RADIX - 1)"
  shows "\<exists>d k. square_scan (p # ps) (z # zs) f carry = map_option ((#) d) (square_scan ps zs f k) \<and>
    digit_ok d \<and> 0 \<le> k \<and> k \<le> 2 * (BIGNUM_RADIX - 1) \<and> d + BIGNUM_RADIX * k = carry + z + p * f"
proof -
  let ?c = "carry + (z + p * f)"
  have "p * f \<le> (BIGNUM_RADIX - 1) * (2 * (BIGNUM_RADIX - 1))"
    using assms by (intro mult_mono) (simp_all add: digit_ok_def)
  moreover have "0 \<le> p * f" using assms by (simp add: digit_ok_def)
  ultimately have c: "0 \<le> ?c" "?c \<le> (2 * BIGNUM_RADIX - 1) * BIGNUM_RADIX - 1"
    using assms by (simp_all add: digit_ok_def bignum_num)
  then have "fx2 ?c = ?c" by (intro fx2_id) (simp_all add: bignum_num)
  moreover have k: "0 \<le> ?c div BIGNUM_RADIX" "?c div BIGNUM_RADIX \<le> 2 * (BIGNUM_RADIX - 1)"
    using c by (simp_all add: bignum_num)
  moreover have "fx (push_bit 1 BIGNUM_DIGIT_MASK) = 2 * (BIGNUM_RADIX - 1)"
    by (simp add: fx_id BIGNUM_DIGIT_MASK_def push_bit_eq_mult bignum_num)
  ultimately have "square_scan (p # ps) (z # zs) f carry =
      map_option ((#) (?c mod BIGNUM_RADIX)) (square_scan ps zs f (?c div BIGNUM_RADIX))"
    by (simp add: square_scan.simps(3) Let_def digit_mask_mod digit_shift_div)
  then show ?thesis using k div_mod_digit [of ?c] by (metis add.assoc)
qed

lemma square_scan_val:
  assumes "digits_ok ps" "digits_ok zs" "0 \<le> f" "f \<le> 2 * (BIGNUM_RADIX - 1)"
    and "0 \<le> carry" "carry \<le> 2 * (BIGNUM_RADIX - 1)" "length ps \<le> length zs"
    and "carry + f * digits_val ps + digits_val zs < BIGNUM_RADIX ^ length zs"
    and "length ps + 1 < length zs \<Longrightarrow> zs ! (length ps + 1) = 0"
  shows "\<exists>rs. square_scan ps zs f carry = Some rs \<and> digits_ok rs \<and> length rs = length zs \<and>
    drop (length ps + 2) rs = drop (length ps + 2) zs \<and>
    digits_val rs = digits_val zs + f * digits_val ps + carry"
  using assms(1,2,5-)
proof (induction ps arbitrary: zs carry)
  case Nil
  then show ?case using square_carry1_val [of zs carry] by (simp add: numeral_2_eq_2)
next
  case (Cons p ps)
  then obtain z zs' where zs: "zs = z # zs'" by (cases zs) auto
  with Cons.prems have ok: "digit_ok p" "digits_ok ps" "digit_ok z" "digits_ok zs'" by auto
  obtain d k where step: "square_scan (p # ps) (z # zs') f carry = map_option ((#) d) (square_scan ps zs' f k)"
      "digit_ok d" "0 \<le> k" "k \<le> 2 * (BIGNUM_RADIX - 1)" "d + BIGNUM_RADIX * k = carry + z + p * f"
    using square_scan_Cons [OF ok(1,3) assms(3,4) Cons.prems(3,4)] by blast
  have "BIGNUM_RADIX * (k + f * digits_val ps + digits_val zs') < BIGNUM_RADIX * BIGNUM_RADIX ^ length zs'"
    using Cons.prems(6) step(2,5) by (simp add: zs digit_ok_def algebra_simps)
  then have bound: "k + f * digits_val ps + digits_val zs' < BIGNUM_RADIX ^ length zs'" by simp
  obtain rs where rs: "square_scan ps zs' f k = Some rs" "digits_ok rs" "length rs = length zs'"
      "drop (length ps + 2) rs = drop (length ps + 2) zs'"
      "digits_val rs = digits_val zs' + f * digits_val ps + k"
    using Cons.IH [OF ok(2,4) step(3,4) _ bound] Cons.prems(5,7) by (auto simp: zs)
  have "d + BIGNUM_RADIX * digits_val rs = z + BIGNUM_RADIX * digits_val zs' +
      f * (p + BIGNUM_RADIX * digits_val ps) + carry"
    using step(5) by (simp add: rs(5) algebra_simps)
  then show ?case using rs step(1,2) by (simp add: zs)
qed

lemma square_row_val:
  assumes f: "digit_ok f" and px: "digits_ok px" and zs: "digits_ok zs" "length px < length zs"
    and bound: "digits_val zs + f * f + 2 * f * BIGNUM_RADIX * digits_val px < BIGNUM_RADIX ^ length zs"
    and zero: "length px + 2 < length zs \<Longrightarrow> zs ! (length px + 2) = 0"
  shows "\<exists>rs. square_row f px zs = Some rs \<and> digits_ok rs \<and> length rs = length zs \<and>
    drop (length px + 3) rs = drop (length px + 3) zs \<and>
    digits_val rs = digits_val zs + f * f + 2 * f * BIGNUM_RADIX * digits_val px"
proof -
  obtain z zs' where z: "zs = z # zs'" using zs(2) by (cases zs) auto
  let ?c = "z + f * f"
  have "f * f \<le> (BIGNUM_RADIX - 1) * (BIGNUM_RADIX - 1)"
    using f by (intro mult_mono) (simp_all add: digit_ok_def)
  moreover have "0 \<le> f * f" by simp
  ultimately have c: "0 \<le> ?c" "?c \<le> (BIGNUM_RADIX - 1) * BIGNUM_RADIX"
    using zs(1) by (simp_all add: z digit_ok_def bignum_num)
  then have fx: "fx2 ?c = ?c" by (intro fx2_id) (simp_all add: bignum_num)
  have k: "0 \<le> ?c div BIGNUM_RADIX" "?c div BIGNUM_RADIX \<le> BIGNUM_RADIX - 1"
    using c by (simp_all add: bignum_num)
  have f2: "fx2 (push_bit 1 f) = 2 * f"
    using f by (simp add: fx2_id push_bit_eq_mult digit_ok_def bignum_num)
  have "BIGNUM_RADIX * (?c div BIGNUM_RADIX + 2 * f * digits_val px + digits_val zs') <
      BIGNUM_RADIX * BIGNUM_RADIX ^ length zs'"
    using bound digit_div_le [of ?c] by (simp add: z algebra_simps)
  then have b: "?c div BIGNUM_RADIX + 2 * f * digits_val px + digits_val zs' < BIGNUM_RADIX ^ length zs'"
    by simp
  obtain rs where rs: "square_scan px zs' (2 * f) (?c div BIGNUM_RADIX) = Some rs" "digits_ok rs"
      "length rs = length zs'" "drop (length px + 2) rs = drop (length px + 2) zs'"
      "digits_val rs = digits_val zs' + 2 * f * digits_val px + ?c div BIGNUM_RADIX"
    using square_scan_val [OF px _ _ _ _ _ _ b] f zs zero k by (auto simp: z digit_ok_def)
  have "?c mod BIGNUM_RADIX + BIGNUM_RADIX * digits_val rs =
      z + BIGNUM_RADIX * digits_val zs' + f * f + 2 * f * BIGNUM_RADIX * digits_val px"
    using div_mod_digit(2) [of ?c] by (simp add: rs(5) algebra_simps)
  then show ?thesis
    using rs(1-4) k div_mod_digit(1) [of ?c] unfolding square_row_def z list.case Let_def f2 fx
    by (simp add: digit_mask_mod digit_shift_div numeral_3_eq_3) (simp add: BIGNUM_DIGIT_MASK_def)
qed

lemma square_rows_val:
  assumes "digits_ok xs" "digits_ok zs" "length zs = 2 * length xs"
    and "\<forall>i. length xs < i \<and> i < length zs \<longrightarrow> zs ! i = 0"
    and "digits_val zs + digits_val xs * digits_val xs < BIGNUM_RADIX ^ length zs"
  shows "\<exists>rs. square_rows xs zs = Some rs \<and> digits_ok rs \<and> length rs = length zs \<and>
    digits_val rs = digits_val zs + digits_val xs * digits_val xs"
  using assms
proof (induction xs arbitrary: zs)
  case Nil
  then show ?case by simp
next
  case (Cons f px)
  let ?V = "digits_val px"
  have ok: "digit_ok f" "digits_ok px" using Cons.prems(1) by auto
  have "0 \<le> BIGNUM_RADIX * (BIGNUM_RADIX * (?V * ?V))" by simp
  moreover have "digits_val zs + f * f + 2 * f * BIGNUM_RADIX * ?V +
      BIGNUM_RADIX * (BIGNUM_RADIX * (?V * ?V)) < BIGNUM_RADIX ^ length zs"
    using Cons.prems(5) by (simp add: algebra_simps)
  ultimately have bound: "digits_val zs + f * f + 2 * f * BIGNUM_RADIX * ?V < BIGNUM_RADIX ^ length zs"
    by linarith
  obtain rs where rs: "square_row f px zs = Some rs" "digits_ok rs" "length rs = length zs"
      "drop (length px + 3) rs = drop (length px + 3) zs"
      "digits_val rs = digits_val zs + f * f + 2 * f * BIGNUM_RADIX * ?V"
    using square_row_val [OF ok Cons.prems(2) _ bound] Cons.prems(3,4) by auto
  obtain a b zs' where z: "rs = a # b # zs'"
    using rs(3) Cons.prems(3) by (cases rs; cases "tl rs") auto
  have "0 \<le> a" "0 \<le> BIGNUM_RADIX * b" using rs(2) by (simp_all add: z digit_ok_def)
  moreover have "a + BIGNUM_RADIX * b + BIGNUM_RADIX * (BIGNUM_RADIX * (digits_val zs' + ?V * ?V)) <
      BIGNUM_RADIX * (BIGNUM_RADIX * BIGNUM_RADIX ^ length zs')"
    using Cons.prems(5) rs(5) unfolding rs(3) [symmetric] by (simp add: z algebra_simps)
  ultimately have "BIGNUM_RADIX * (BIGNUM_RADIX * (digits_val zs' + ?V * ?V)) <
      BIGNUM_RADIX * (BIGNUM_RADIX * BIGNUM_RADIX ^ length zs')" by linarith
  then have bound': "digits_val zs' + ?V * ?V < BIGNUM_RADIX ^ length zs'" by simp
  have zero: "zs' ! i = 0" if "length px < i" "i < length zs'" for i
  proof -
    have "drop (length px + 3) rs ! (i - length px - 1) = drop (length px + 3) zs ! (i - length px - 1)"
      by (simp only: rs(4))
    with that rs(3) Cons.prems(4) show ?thesis by (simp add: z)
  qed
  obtain rs' where rs': "square_rows px zs' = Some rs'" "digits_ok rs'"
      "length rs' = length zs'" "digits_val rs' = digits_val zs' + ?V * ?V"
    using Cons.IH [OF ok(2) _ _ _ bound'] rs(2,3) Cons.prems(3) zero by (auto simp: z)
  then show ?case
    using rs z by (simp add: algebra_simps)
qed

lemma bignum_square_val:
  assumes "bignum_wf x"
  shows "\<exists>r. bignum_square x = Some r \<and> bignum_wf r \<and> bignum_val r = bignum_val x * bignum_val x"
proof -
  let ?n = "BIGNUM_LENGTH x"
  have ok: "digits_ok (digits x)" using assms by (rule bignum_wf_digits)
  have "digits_val (digits x) * digits_val (digits x) < BIGNUM_RADIX ^ ?n * BIGNUM_RADIX ^ ?n"
    using digits_val_less [OF ok] digits_val_nonneg [OF ok] by (intro mult_strict_mono') (simp_all add: BIGNUM_LENGTH_def)
  then obtain rs where "square_rows (digits x) (replicate (?n + ?n) 0) = Some rs" "digits_ok rs"
      "length rs = ?n + ?n" "digits_val rs = digits_val (digits x) * digits_val (digits x)"
    using square_rows_val [OF ok, of "replicate (?n + ?n) 0"] by (auto simp: BIGNUM_LENGTH_def power_add)
  then show ?thesis
    by (auto simp: bignum_square_def allot_bignum_zeroed_def bignum_abs_val [OF assms] signed_val_def
        intro: bignum_trim_mk_wf)
qed

subsection \<open>Signed multiplication\<close>

lemma bignum_multiply_unsigned_val:
  assumes "bignum_wf x" "bignum_wf y" "\<not> BIGNUM_ZERO_P x" "\<not> BIGNUM_ZERO_P y"
  shows "bignum_wf (bignum_multiply_unsigned x y neg)"
    and "bignum_val (bignum_multiply_unsigned x y neg) = signed_val neg (\<bar>bignum_val x\<bar> * \<bar>bignum_val y\<bar>)"
proof -
  have rows: "digits_ok (multiply_rows (digits a) (digits b) (replicate (BIGNUM_LENGTH a + BIGNUM_LENGTH b) 0)) \<and>
      digits_val (multiply_rows (digits a) (digits b) (replicate (BIGNUM_LENGTH a + BIGNUM_LENGTH b) 0)) =
        \<bar>bignum_val a\<bar> * \<bar>bignum_val b\<bar>" if "bignum_wf a" "bignum_wf b" for a b
    using multiply_rows_val [OF bignum_wf_digits [OF that(1)] bignum_wf_digits [OF that(2)],
        of "replicate (BIGNUM_LENGTH a + BIGNUM_LENGTH b) 0"] that
    by (simp add: BIGNUM_LENGTH_def bignum_abs_val)
  have nonempty: "ds \<noteq> []" if "digits_val ds = \<bar>bignum_val x\<bar> * \<bar>bignum_val y\<bar>" for ds
    using that assms by (auto simp: bignum_zero_p_val)
  show "bignum_wf (bignum_multiply_unsigned x y neg)"
    and "bignum_val (bignum_multiply_unsigned x y neg) = signed_val neg (\<bar>bignum_val x\<bar> * \<bar>bignum_val y\<bar>)"
    using rows [OF assms(1,2)] rows [OF assms(2,1)] nonempty
    by (auto simp: bignum_multiply_unsigned_def Let_def allot_bignum_zeroed_def mult.commute
        intro!: bignum_trim_mk_wf)
qed

lemma bignum_sign_product:
  assumes "bignum_wf x" "bignum_wf y"
  shows "signed_val (if negative_p x then \<not> negative_p y else negative_p y) (\<bar>bignum_val x\<bar> * \<bar>bignum_val y\<bar>) =
    bignum_val x * bignum_val y"
  unfolding bignum_negative_val [OF assms(1)] bignum_negative_val [OF assms(2)]
  by (simp add: signed_val_def abs_if)

lemma bignum_single_digit:
  assumes "bignum_wf x" "BIGNUM_LENGTH x = 1"
  shows "\<bar>bignum_val x\<bar> = BIGNUM_REF x 0" "0 < BIGNUM_REF x 0" "BIGNUM_REF x 0 < BIGNUM_RADIX"
proof -
  obtain d where d: "digits x = [d]" using assms(2) by (auto simp: BIGNUM_LENGTH_def length_Suc_conv)
  with assms(1) show "\<bar>bignum_val x\<bar> = BIGNUM_REF x 0" "0 < BIGNUM_REF x 0" "BIGNUM_REF x 0 < BIGNUM_RADIX"
    by (auto simp: bignum_wf_def BIGNUM_REF_def digit_ok_def simp flip: bignum_abs_val)
qed

lemma bignum_multiply_val:
  assumes x: "bignum_wf x" and y: "bignum_wf y" and same: "same \<Longrightarrow> x = y"
  shows "\<exists>r. bignum_multiply same x y = Some r \<and> bignum_wf r \<and> bignum_val r = bignum_val x * bignum_val y"
proof -
  define neg where "neg = (if negative_p x then \<not> negative_p y else negative_p y)"
  have sign: "bignum_val x * bignum_val y = signed_val neg (\<bar>bignum_val x\<bar> * \<bar>bignum_val y\<bar>)"
    unfolding neg_def by (rule bignum_sign_product [OF x y, symmetric])
  have small: "\<exists>r. bignum_multiply_unsigned_small_factor a (BIGNUM_REF b 0) neg = Some r \<and> bignum_wf r \<and>
      bignum_val r = signed_val neg (\<bar>bignum_val a\<bar> * \<bar>bignum_val b\<bar>)"
    if "bignum_wf a" "bignum_wf b" "BIGNUM_LENGTH b = 1" "BIGNUM_REF b 0 \<noteq> 1"
      "BIGNUM_REF b 0 < BIGNUM_RADIX_ROOT" for a b
    using bignum_multiply_unsigned_small_factor_val [of "BIGNUM_REF b 0" a neg] that
      bignum_single_digit [OF that(2,3)] by (simp add: bignum_wf_digits bignum_abs_val)
  have one: "bignum_wf (bignum_maybe_new_sign a neg) \<and>
      bignum_val (bignum_maybe_new_sign a neg) = signed_val neg (\<bar>bignum_val a\<bar> * \<bar>bignum_val b\<bar>)"
    if "bignum_wf a" "bignum_wf b" "\<not> BIGNUM_ZERO_P a" "BIGNUM_LENGTH b = 1" "BIGNUM_REF b 0 = 1" for a b
    using that bignum_single_digit [OF that(2,4)]
    by (simp add: bignum_new_sign_wf bignum_new_sign_val bignum_abs_val)
  consider "same" | "\<not> same" "BIGNUM_ZERO_P x" | "\<not> same" "\<not> BIGNUM_ZERO_P x" "BIGNUM_ZERO_P y"
    | "\<not> same" "\<not> BIGNUM_ZERO_P x" "\<not> BIGNUM_ZERO_P y" by blast
  then show ?thesis
  proof cases
    case 1
    then show ?thesis using bignum_square_val [OF x] same by (simp add: bignum_multiply_def)
  next
    case 2
    then show ?thesis using x bignum_zero_p_val [OF x] by (simp add: bignum_multiply_def Let_def)
  next
    case 3
    then show ?thesis using y bignum_zero_p_val [OF y] by (simp add: bignum_multiply_def Let_def)
  next
    case 4
    then show ?thesis
      using one [OF y x] one [OF x y] small [OF y x] small [OF x y]
        bignum_multiply_unsigned_val [OF x y, of neg]
      unfolding sign bignum_multiply_def Let_def neg_def [symmetric] by (simp add: mult.commute)
  qed
qed

text \<open>Multiplication as an instance of the shared contract, with distinct argument objects.\<close>

interpretation bignum_multiply: bignum_binop "bignum_multiply False" "(*)" "\<lambda>_ _. True"
  by unfold_locales (rule bignum_multiply_val, simp_all)

end
