(* ===== verification/Bignum_Digit_Div.thy ===== *)
theory Bignum_Digit_Div
  imports Bignum_Mul "HOL-Library.Signed_Division" "HOL-Library.Monad_Syntax"
begin

text \<open>
  Division of bignums by a single digit (\<open>vm/bignum.cpp\<close>): \<open>bignum_digit_divide\<close>, which
  divides two digits by a normalised digit with Knuth's algorithm on half digits, the
  shifts that normalise and restore operands, and the divisions by a denominator below
  the root of the radix (small) or of one digit (medium).

  C++ division truncates, so \<open>/\<close> and \<open>%\<close> are \<open>sdiv\<close> and \<open>smod\<close>. The loops that
  correct a guess or count a shift do not end on every machine integer; they are
  \<open>partial_function\<close>s, and the lemmas show that they return on the arguments they get.
\<close>

subsection \<open>Two digits by one digit\<close>

partial_function (option) digit_guess_loop :: "fixnum \<Rightarrow> fixnum \<Rightarrow> fixnum \<Rightarrow> fixnum \<Rightarrow> fixnum option" where
  "digit_guess_loop v1 v2 guess comparand =
     (if fx (guess * v2) > comparand then
        (if fx (comparand + fx (push_bit BIGNUM_HALF_DIGIT_LENGTH v1)) \<ge> BIGNUM_RADIX
         then Some (fx (guess - 1))
         else digit_guess_loop v1 v2 (fx (guess - 1))
                (fx (comparand + fx (push_bit BIGNUM_HALF_DIGIT_LENGTH v1))))
      else Some guess)"

definition BDDS_MULSUB :: "fixnum \<Rightarrow> fixnum \<Rightarrow> fixnum \<Rightarrow> fixnum \<Rightarrow> fixnum \<times> fixnum" where
  "BDDS_MULSUB guess vn un carry_in =
     (let product = fx (vn * guess + carry_in);
          diff = fx (un - HD_LOW product)
      in if diff < 0 then (fx (diff + BIGNUM_RADIX_ROOT), fx (HD_HIGH product + 1))
         else (diff, HD_HIGH product))"

definition BDDS_ADD :: "fixnum \<Rightarrow> fixnum \<Rightarrow> fixnum \<Rightarrow> fixnum \<times> fixnum" where
  "BDDS_ADD vn un carry_in =
     (let sum = fx (vn + un + carry_in)
      in if sum < BIGNUM_RADIX_ROOT then (sum, 0) else (fx (sum - BIGNUM_RADIX_ROOT), 1))"

text \<open>
  The result is the quotient digit and the updated \<open>u[0]\<close>, \<open>u[1]\<close>, \<open>u[2]\<close>. When the
  subtraction goes below zero the source adds \<open>BIGNUM_RADIX\<close>, not its root, to \<open>u[0]\<close>;
  no caller reads \<open>u[0]\<close> afterwards.
\<close>

definition bignum_digit_divide_subtract ::
  "fixnum \<Rightarrow> fixnum \<Rightarrow> fixnum \<Rightarrow> fixnum \<times> fixnum \<times> fixnum \<Rightarrow> fixnum \<times> fixnum \<times> fixnum \<times> fixnum" where
  "bignum_digit_divide_subtract v1 v2 guess u =
     (let (u0, u1, u2) = u;
          (u2', carry) = BDDS_MULSUB guess v2 u2 0;
          (u1', carry') = BDDS_MULSUB guess v1 u1 carry;
          diff = fx (u0 - carry')
      in if carry' = 0 then (guess, u0, u1', u2')
         else if diff < 0 then
           (let u0' = fx (diff + BIGNUM_RADIX);
                (u2'', c) = BDDS_ADD v2 u2' 0;
                (u1'', c') = BDDS_ADD v1 u1' c
            in (fx (guess - 1), if c' = 1 then fx (u0' + 1) else u0', u1'', u2''))
         else (guess, diff, u1', u2'))"

definition BDD_STEP :: "fixnum \<Rightarrow> fixnum \<Rightarrow> fixnum \<times> fixnum \<times> fixnum \<Rightarrow>
    (fixnum \<times> fixnum \<times> fixnum \<times> fixnum) option" where
  "BDD_STEP v1 v2 u =
     (let (uj, u1, u2) = u;
          uj_uj1 = HD_CONS uj u1;
          (guess, comparand) =
            (if uj \<noteq> v1 then (uj_uj1 sdiv v1, HD_CONS (uj_uj1 smod v1) u2)
             else (BIGNUM_RADIX_ROOT - 1, HD_CONS (fx (u1 + v1)) u2))
      in map_option (\<lambda>g. bignum_digit_divide_subtract v1 v2 g u)
           (digit_guess_loop v1 v2 guess comparand))"

text \<open>The result is the pair of the returned remainder and the quotient stored through \<open>q\<close>.\<close>

definition bignum_digit_divide :: "fixnum \<Rightarrow> fixnum \<Rightarrow> fixnum \<Rightarrow> (fixnum \<times> fixnum) option" where
  "bignum_digit_divide uh ul v =
     (if uh = 0 \<and> ul < v then Some (ul, 0)
      else if uh = 0 \<and> ul = v then Some (0, 1)
      else do {
        (q1, _, u1, u2) \<leftarrow> BDD_STEP (HD_HIGH v) (HD_LOW v) (HD_HIGH uh, HD_LOW uh, HD_HIGH ul);
        (q2, _, u2', u3) \<leftarrow> BDD_STEP (HD_HIGH v) (HD_LOW v) (u1, u2, HD_LOW ul);
        Some (HD_CONS u2' u3, HD_CONS q1 q2)
      })"

subsection \<open>Fresh objects\<close>

text \<open>\<open>mem\<close> is the unknown content of the fresh memory, by digit index.\<close>

definition allot_bignum :: "(nat \<Rightarrow> fixnum) \<Rightarrow> nat \<Rightarrow> bool \<Rightarrow> bignum" where
  "allot_bignum mem len neg = mk_bignum neg (map mem [0..<len])"

subsection \<open>Normalisation\<close>

partial_function (option) normalization_shift :: "fixnum \<Rightarrow> nat \<Rightarrow> (fixnum \<times> nat) option" where
  "normalization_shift v1 shift =
     (if v1 < BIGNUM_RADIX sdiv 2 then normalization_shift (fx (push_bit 1 v1)) (shift + 1)
      else Some (v1, shift))"

fun normalization_scan :: "nat \<Rightarrow> fixnum list \<Rightarrow> fixnum \<Rightarrow> fixnum list \<times> fixnum" where
  "normalization_scan shift_left [] carry = ([], carry)"
| "normalization_scan shift_left (digit # ds) carry =
     (let shift_right = BIGNUM_DIGIT_LENGTH - shift_left;
          mask = fx (push_bit shift_right 1 - 1);
          (rs, c) = normalization_scan shift_left ds (drop_bit shift_right digit)
      in ((fx (push_bit shift_left (digit AND mask)) OR carry) # rs, c))"

definition bignum_destructive_normalization :: "bignum \<Rightarrow> bignum \<Rightarrow> nat \<Rightarrow> bignum option" where
  "bignum_destructive_normalization source target shift_left =
     (let (ds, carry) = normalization_scan shift_left (digits source) 0 in
      if BIGNUM_LENGTH source < BIGNUM_LENGTH target
      then Some (target\<lparr>digits := ds @ carry # drop (BIGNUM_LENGTH source + 1) (digits target)\<rparr>)
      else if carry = 0 then Some (target\<lparr>digits := ds\<rparr>) else None)"

text \<open>The scan runs from the most significant digit down, on the reversed digits.\<close>

fun unnormalization_scan :: "nat \<Rightarrow> fixnum list \<Rightarrow> fixnum \<Rightarrow> fixnum list \<times> fixnum" where
  "unnormalization_scan shift_right [] carry = ([], carry)"
| "unnormalization_scan shift_right (digit # ds) carry =
     (let shift_left = BIGNUM_DIGIT_LENGTH - shift_right;
          mask = fx (push_bit shift_right 1 - 1);
          (rs, c) = unnormalization_scan shift_right ds (fx (push_bit shift_left (digit AND mask)))
      in ((drop_bit shift_right digit OR carry) # rs, c))"

definition bignum_destructive_unnormalization :: "bignum \<Rightarrow> nat \<Rightarrow> bignum option" where
  "bignum_destructive_unnormalization bn shift_right =
     (let (ds, carry) = unnormalization_scan shift_right (rev (digits bn)) 0
      in if carry = 0 then Some (bn\<lparr>digits := rev ds\<rparr>) else None)"

subsection \<open>Small and medium denominators\<close>

fun scale_down_scan :: "fixnum \<Rightarrow> fixnum list \<Rightarrow> fixnum \<Rightarrow> fixnum list \<times> fixnum" where
  "scale_down_scan denominator [] remainder = ([], remainder)"
| "scale_down_scan denominator (two_digits # ds) remainder =
     (let numerator = HD_CONS remainder (HD_HIGH two_digits);
          quotient_high = numerator sdiv denominator;
          numerator' = HD_CONS (numerator smod denominator) (HD_LOW two_digits);
          (rs, r) = scale_down_scan denominator ds (numerator' smod denominator)
      in (HD_CONS quotient_high (numerator' sdiv denominator) # rs, r))"

definition bignum_destructive_scale_down :: "bignum \<Rightarrow> fixnum \<Rightarrow> (bignum \<times> fixnum) option" where
  "bignum_destructive_scale_down bn denominator =
     (if 1 < denominator \<and> denominator < BIGNUM_RADIX_ROOT then
        (let (ds, r) = scale_down_scan denominator (rev (digits bn)) 0
         in Some (bn\<lparr>digits := rev ds\<rparr>, r))
      else None)"

text \<open>
  The out-parameters \<open>quotient\<close> and \<open>remainder\<close> may be null; the model always returns
  both, and \<open>None\<close> stands for the remainder that was not asked for.
\<close>

definition bignum_divide_unsigned_small_denominator ::
  "bignum \<Rightarrow> fixnum \<Rightarrow> bool \<Rightarrow> bool \<Rightarrow> bool \<Rightarrow> (bignum \<times> bignum option) option" where
  "bignum_divide_unsigned_small_denominator numerator denominator want_r q_neg r_neg =
     map_option (\<lambda>(q, r). (bignum_trim q, if want_r then Some (bignum_digit_to_bignum r r_neg) else None))
       (bignum_destructive_scale_down (bignum_new_sign numerator q_neg) denominator)"

fun remainder_scan :: "fixnum \<Rightarrow> fixnum list \<Rightarrow> fixnum \<Rightarrow> fixnum" where
  "remainder_scan d [] r = r"
| "remainder_scan d (two_digits # ds) r =
     remainder_scan d ds
       (HD_CONS (HD_CONS r (HD_HIGH two_digits) smod d) (HD_LOW two_digits) smod d)"

definition bignum_remainder_unsigned_small_denominator :: "bignum \<Rightarrow> fixnum \<Rightarrow> bool \<Rightarrow> bignum option" where
  "bignum_remainder_unsigned_small_denominator n d neg =
     (if 1 < d \<and> d < BIGNUM_RADIX_ROOT
      then Some (bignum_digit_to_bignum (remainder_scan d (rev (digits n)) 0) neg)
      else None)"

fun medium_scan :: "fixnum \<Rightarrow> fixnum list \<Rightarrow> fixnum \<Rightarrow> (fixnum list \<times> fixnum) option" where
  "medium_scan denominator [] r = Some ([], r)"
| "medium_scan denominator (digit # ds) r = do {
     (r', qj) \<leftarrow> bignum_digit_divide r digit denominator;
     (qs, r'') \<leftarrow> medium_scan denominator ds r';
     Some (qj # qs, r'')
   }"

definition bignum_divide_unsigned_medium_denominator ::
  "(nat \<Rightarrow> fixnum) \<Rightarrow> bignum \<Rightarrow> fixnum \<Rightarrow> bool \<Rightarrow> bool \<Rightarrow> bool \<Rightarrow> bool \<Rightarrow>
   (bignum option \<times> bignum option) option" where
  "bignum_divide_unsigned_medium_denominator mem numerator denominator want_q want_r q_neg r_neg = do {
     (denominator', shift) \<leftarrow> normalization_shift denominator 0;
     let length_q = (if shift = 0 then BIGNUM_LENGTH numerator else BIGNUM_LENGTH numerator + 1);
     let q = allot_bignum mem length_q q_neg;
     q' \<leftarrow> (if shift = 0 then Some (bignum_destructive_copy numerator q)
            else bignum_destructive_normalization numerator q shift);
     (ds, r) \<leftarrow> medium_scan denominator' (rev (digits q')) 0;
     let q'' = bignum_trim (q'\<lparr>digits := rev ds\<rparr>);
     let r' = (if shift \<noteq> 0 then drop_bit shift r else r);
     Some (if want_q then Some q'' else None,
           if want_r then Some (bignum_digit_to_bignum r' r_neg) else None)
   }"

subsection \<open>Guessing a quotient digit\<close>

lemma le_div_iff: "0 < V \<Longrightarrow> g \<le> N div V \<longleftrightarrow> g * V \<le> N" for g N V :: int
proof
  assume V: "0 < V" and g: "g \<le> N div V"
  from V g have "g * V \<le> N div V * V" by (intro mult_right_mono) simp_all
  also have "\<dots> \<le> N" using minus_mod_eq_div_mult [of N V] pos_mod_sign [OF V, of N] by linarith
  finally show "g * V \<le> N" .
next
  assume V: "0 < V" and "g * V \<le> N"
  then have "g * V div V \<le> N div V" by (intro zdiv_mono1)
  with V show "g \<le> N div V" by simp
qed

lemma sdiv_smod_pos: "0 \<le> a \<Longrightarrow> 0 \<le> b \<Longrightarrow> a sdiv b = a div b" "0 \<le> a \<Longrightarrow> 0 \<le> b \<Longrightarrow> a smod b = a mod b"
  for a b :: int
  by (simp_all add: signed_divide_int_def smod_mod_positive zsgn_def)

text \<open>
  Let \<open>b\<close> be the base, \<open>N\<close> the leading three digits of the dividend and \<open>V = v1 b + v2\<close>
  the leading two of the divisor. The loop keeps \<open>comparand = N - guess v1 b\<close>, so its
  test \<open>guess v2 > comparand\<close> says \<open>guess V > N\<close>: it counts down to the exact quotient.
\<close>

lemma guess_step:
  fixes N V g c b v1 v2 :: int
  assumes "c = N - g * (v1 * b)" "V = v1 * b + v2" "0 < V"
  shows "g * v2 > c \<longleftrightarrow> N div V < g"
  using le_div_iff [OF assms(3), of g N] by (simp add: assms(1,2) algebra_simps) linarith

lemma guess_upper:
  fixes U u2 v1 v2 b :: int
  assumes "0 < v1" "0 \<le> v2" "0 < b" "0 \<le> U" "0 \<le> u2" "u2 < b"
  shows "(U * b + u2) div (v1 * b + v2) \<le> U div v1"
proof -
  let ?N = "U * b + u2" and ?V = "v1 * b + v2"
  have vb: "0 < v1 * b" using assms by simp
  then have V: "0 < ?V" using assms(2) by linarith
  have "0 \<le> ?N div ?V" using assms V by (simp add: pos_imp_zdiv_nonneg_iff)
  then have "?N div ?V * (v1 * b) \<le> ?N div ?V * ?V"
    using assms(2) by (intro mult_left_mono) simp_all
  also have "\<dots> \<le> ?N" using le_div_iff [OF V, of "?N div ?V" ?N] by simp
  finally have "?N div ?V \<le> ?N div (v1 * b)" using le_div_iff [OF vb] by simp
  also have "\<dots> = ?N div b div v1" using assms by (simp add: zdiv_zmult2_eq mult.commute [of v1])
  also have "?N div b = U" using assms by simp
  finally show ?thesis .
qed

lemma guess_digit:
  fixes u0 u1 v1 v2 b :: int
  assumes "u0 * b + u1 \<le> v1 * b + v2" "u0 \<noteq> v1" "0 \<le> u0" "0 \<le> u1" "u1 < b" "0 < v1" "v2 < b" "0 < b"
  shows "0 \<le> (u0 * b + u1) div v1" "(u0 * b + u1) div v1 < b"
proof -
  have "u0 * b < v1 * b + b" using assms by linarith
  then have "u0 * b < (v1 + 1) * b" by (simp add: algebra_simps)
  then have "u0 < v1" using assms by (simp add: mult_less_cancel_right_pos)
  then have "u0 * b \<le> (v1 - 1) * b" using assms by (intro mult_right_mono) simp_all
  then have "u0 * b + u1 < b * v1" using assms by (simp add: algebra_simps)
  then show "(u0 * b + u1) div v1 < b" using le_div_iff [OF assms(6), of b "u0 * b + u1"] by linarith
  show "0 \<le> (u0 * b + u1) div v1" using assms by (simp add: pos_imp_zdiv_nonneg_iff)
qed

lemma digit_guess_loop_val:
  fixes N :: int
  defines "b \<equiv> BIGNUM_RADIX_ROOT"
  assumes v: "0 < v1" "v1 < b" "0 \<le> v2" "v2 < b" and N: "0 \<le> N"
    and g: "0 \<le> g" "g < b" and c: "c = N - g * (v1 * b)" "0 \<le> c" "c < 2 * b * b"
  shows "digit_guess_loop v1 v2 g c = Some (min g (N div (v1 * b + v2)))"
  using g c
proof (induction "nat g" arbitrary: g c rule: less_induct)
  case less
  let ?V = "v1 * b + v2"
  have "0 < v1 * b" using v by (simp add: b_def)
  then have V: "0 < ?V" using v by linarith
  have vb: "v1 * b \<le> (b - 1) * b" using v by (intro mult_right_mono) simp_all
  have gv: "0 \<le> g * v2" "g * v2 \<le> (b - 1) * (b - 1)"
    using less.prems v by (simp, intro mult_mono) simp_all
  have shift: "fx (push_bit 31 v1) = v1 * b"
    using \<open>0 < v1 * b\<close> vb by (simp add: push_bit_eq_mult fx_id b_def bignum_num)
  have test: "fx (g * v2) > c \<longleftrightarrow> N div ?V < g"
    using gv guess_step [OF less.prems(3) refl V] by (simp add: fx_id b_def bignum_num)
  show ?case
  proof (cases "N div ?V < g")
    case False
    then show ?thesis using test by (subst digit_guess_loop.simps) simp
  next
    case True
    have "0 \<le> N div ?V" using N V by (simp add: pos_imp_zdiv_nonneg_iff)
    with True have g': "fx (g - 1) = g - 1" "0 \<le> g - 1" "g - 1 < b" "nat (g - 1) < nat g"
      using less.prems by (simp_all add: fx_id b_def bignum_num)
    have "c < g * v2" using True guess_step [OF less.prems(3) refl V] by simp
    then have c': "fx (c + v1 * b) = c + v1 * b" "0 \<le> c + v1 * b" "c + v1 * b < 2 * b * b"
      "c + v1 * b = N - (g - 1) * (v1 * b)"
      using gv vb less.prems \<open>0 < v1 * b\<close> by (simp_all add: fx_id b_def bignum_num algebra_simps)
    have "(g - 1) * v2 \<le> (b - 1) * (b - 1)"
      using g' v by (intro mult_mono) simp_all
    then have "g - 1 \<le> N div ?V" if "b * b \<le> c + v1 * b"
      using that guess_step [OF c'(4) refl V] by (simp add: b_def bignum_num)
    moreover have "digit_guess_loop v1 v2 (g - 1) (c + v1 * b) = Some (min (g - 1) (N div ?V))"
      by (rule less.hyps [OF g'(4) g'(2,3) c'(4,2,3)])
    ultimately show ?thesis
      using test True g'(1) c'(1) shift
      by (subst digit_guess_loop.simps) (auto simp: b_def simp flip: radix_root)
  qed
qed

lemma BDDS_MULSUB_val:
  fixes g vn un ci :: int
  defines "b \<equiv> BIGNUM_RADIX_ROOT"
  assumes "0 \<le> g" "g < b" "0 \<le> vn" "vn < b" "0 \<le> un" "un < b" "0 \<le> ci" "ci < b"
  shows "\<exists>un' c. BDDS_MULSUB g vn un ci = (un', c) \<and> 0 \<le> un' \<and> un' < b \<and> 0 \<le> c \<and> c < b \<and>
    un' - b * c = un - vn * g - ci"
proof -
  have p: "0 \<le> vn * g" "vn * g \<le> (b - 1) * (b - 1)" using assms by (simp, intro mult_mono) simp_all
  define product where "product = vn * g + ci"
  have pb: "0 \<le> product" "product < b * b"
    using p assms by (simp_all add: product_def bignum_num)
  then have fxp: "fx product = product" by (simp add: fx_id b_def bignum_num)
  from pb have h: "0 \<le> HD_HIGH product" "HD_HIGH product < b"
    using HD_HIGH_nonneg HD_HIGH_less by (simp_all add: b_def)
  have split: "product = HD_HIGH product * b + HD_LOW product" unfolding b_def by (rule HD_split)
  have low: "0 \<le> HD_LOW product" "HD_LOW product < b" by (simp_all add: b_def)
  have fx: "fx (un - HD_LOW product) = un - HD_LOW product"
    "fx (un - HD_LOW product + b) = un - HD_LOW product + b" "fx (HD_HIGH product + 1) = HD_HIGH product + 1"
    using assms low h by (simp_all add: fx_id bignum_num del: HD_LOW_bounds)
  have eq: "BDDS_MULSUB g vn un ci =
      (if un < HD_LOW product then (un - HD_LOW product + b, HD_HIGH product + 1)
       else (un - HD_LOW product, HD_HIGH product))"
    using fxp fx unfolding BDDS_MULSUB_def product_def [symmetric] b_def by simp
  have total: "vn * g + ci = b * HD_HIGH product + HD_LOW product"
    using split by (simp add: product_def mult.commute)
  obtain un' c where r: "BDDS_MULSUB g vn un ci = (un', c)" "0 \<le> un'" "un' < b" "0 \<le> c"
      "un' - b * c = un - vn * g - ci"
  proof (cases "un < HD_LOW product")
    case True
    then show ?thesis
      using eq low h assms(6) total
      by (intro that [of "un - HD_LOW product + b" "HD_HIGH product + 1"]) (simp_all add: distrib_left)
  next
    case False
    then show ?thesis
      using eq low h assms(7) total
      by (intro that [of "un - HD_LOW product" "HD_HIGH product"]) (simp_all del: HD_LOW_bounds)
  qed
  have "b * c < b * b" using r p assms by (simp add: bignum_num)
  then have "c < b" using b_def by simp
  with r show ?thesis by blast
qed

lemma digit_divide_subtract_val:
  fixes g u0 u1 u2 v1 v2 :: int
  defines "b \<equiv> BIGNUM_RADIX_ROOT"
  defines "N \<equiv> (u0 * b + u1) * b + u2" and "V \<equiv> v1 * b + v2"
  assumes v: "0 < v1" "v1 < b" "0 \<le> v2" "v2 < b"
    and u: "0 \<le> u0" "u0 < b" "0 \<le> u1" "u1 < b" "0 \<le> u2" "u2 < b" and q: "N div V < b"
  shows "\<exists>r1 r2. bignum_digit_divide_subtract v1 v2 (N div V) (u0, u1, u2) = (N div V, 0, r1, r2) \<and>
    0 \<le> r1 \<and> r1 < b \<and> 0 \<le> r2 \<and> r2 < b \<and> r1 * b + r2 = N mod V"
proof -
  let ?g = "N div V"
  have bpos: "0 < b" by (simp add: b_def)
  have "0 < v1 * b" using v bpos by simp
  then have V: "0 < V" using v unfolding V_def by linarith
  have "V \<le> b * b"
    using mult_right_mono [of v1 "b - 1" b] v bpos by (simp add: V_def algebra_simps)
  have "0 \<le> N" using u bpos by (simp add: N_def)
  then have g: "0 \<le> ?g" "?g < b" using V q by (simp_all add: pos_imp_zdiv_nonneg_iff)
  obtain r2 c where s2: "BDDS_MULSUB ?g v2 u2 0 = (r2, c)" "0 \<le> r2" "r2 < b" "0 \<le> c" "c < b"
      "r2 - b * c = u2 - v2 * ?g - 0"
    using BDDS_MULSUB_val [of ?g v2 u2 0] g v u bpos unfolding b_def by blast
  obtain r1 c' where s1: "BDDS_MULSUB ?g v1 u1 c = (r1, c')" "0 \<le> r1" "r1 < b" "0 \<le> c'" "c' < b"
      "r1 - b * c' = u1 - v1 * ?g - c"
    using BDDS_MULSUB_val [of ?g v1 u1 c] g v u s2(4,5) unfolding b_def by fastforce
  have "r1 * b + r2 + b * b * (u0 - c') = N - ?g * V"
    using arg_cong [OF s1(6), of "\<lambda>x. x * b"] s2(6) by (simp add: N_def V_def algebra_simps)
  also have "\<dots> = N mod V" by (simp add: minus_div_mult_eq_mod)
  finally have val: "r1 * b + r2 + b * b * (u0 - c') = N mod V" .
  have "0 \<le> N mod V" "N mod V < b * b"
    using pos_mod_sign [OF V, of N] pos_mod_bound [OF V, of N] \<open>V \<le> b * b\<close> by linarith+
  moreover have "r1 * b \<le> (b - 1) * b" "0 \<le> r1 * b"
    using s1(2,3) bpos by (auto intro: mult_right_mono)
  ultimately have "b * b * (u0 - c') < b * b * 1" "b * b * (- 1) < b * b * (u0 - c')"
    using val s2(2,3) by (simp_all add: algebra_simps)
  moreover have "0 < b * b" using bpos by simp
  ultimately have "u0 - c' < 1" "- 1 < u0 - c'" using mult_less_cancel_left_pos by blast+
  then have "u0 = c'" by linarith
  then show ?thesis
    using s1 s2 val by (auto simp: bignum_digit_divide_subtract_def)
qed

lemma BDD_STEP_val:
  fixes u0 u1 u2 v1 v2 :: int
  defines "b \<equiv> BIGNUM_RADIX_ROOT"
  defines "N \<equiv> (u0 * b + u1) * b + u2" and "V \<equiv> v1 * b + v2"
  assumes v: "0 < v1" "v1 < b" "0 \<le> v2" "v2 < b"
    and u: "0 \<le> u0" "u0 < b" "0 \<le> u1" "u1 < b" "0 \<le> u2" "u2 < b" and top: "u0 * b + u1 < V"
  shows "\<exists>r1 r2. BDD_STEP v1 v2 (u0, u1, u2) = Some (N div V, 0, r1, r2) \<and> N div V < b \<and>
    0 \<le> r1 \<and> r1 < b \<and> 0 \<le> r2 \<and> r2 < b \<and> r1 * b + r2 = N mod V"
proof -
  have bpos: "0 < b" by (simp add: b_def)
  have v1b: "0 < v1 * b" using v bpos by simp
  then have V: "0 < V" using v unfolding V_def by linarith
  have "(u0 * b + u1) * b \<le> (V - 1) * b" using top bpos by (intro mult_right_mono) simp_all
  then have "N < b * V" using u by (simp add: N_def algebra_simps)
  then have q: "N div V < b" using le_div_iff [OF V, of b N] by linarith
  have N: "0 \<le> N" using u bpos by (simp add: N_def)
  have U: "HD_CONS u0 u1 = u0 * b + u1" using u unfolding b_def by (intro HD_CONS_add) simp_all
  have "digit_guess_loop v1 v2 g c = Some (min g (N div V))"
    if "0 \<le> g" "g < b" "c = N - g * (v1 * b)" "0 \<le> c" "c < 2 * b * b" for g c
    using digit_guess_loop_val [of v1 v2 N g c] that v N unfolding b_def V_def by blast
  note loop = this
  have "BDD_STEP v1 v2 (u0, u1, u2) = Some (bignum_digit_divide_subtract v1 v2 (N div V) (u0, u1, u2))"
  proof (cases "u0 = v1")
    case True
    have c: "HD_CONS (fx (u1 + v1)) u2 = (u1 + v1) * b + u2"
      using u v by (simp add: HD_CONS_add fx_id b_def bignum_num)
    have "(u1 + v1) * b \<le> (2 * b - 2) * b" using u v bpos by (intro mult_right_mono) simp_all
    then have "(u1 + v1) * b + u2 < 2 * b * b" using u by (simp add: algebra_simps)
    moreover have "0 \<le> (u1 + v1) * b + u2" using u v bpos by simp
    moreover have "(u1 + v1) * b + u2 = N - (b - 1) * (v1 * b)" by (simp add: N_def True algebra_simps)
    ultimately have "digit_guess_loop v1 v2 (b - 1) ((u1 + v1) * b + u2) = Some (N div V)"
      using loop [of "b - 1"] q bpos by simp
    then show ?thesis using True c by (simp add: BDD_STEP_def Let_def b_def)
  next
    case False
    let ?U = "u0 * b + u1"
    note g = guess_digit [OF less_imp_le [OF top [unfolded V_def]] False u(1,3,4) v(1,4) bpos]
    have m: "0 \<le> ?U mod v1" "?U mod v1 < b"
      using pos_mod_sign [OF v(1), of ?U] pos_mod_bound [OF v(1), of ?U] v(2) by linarith+
    have c: "HD_CONS (?U mod v1) u2 = (?U mod v1) * b + u2"
      using u m by (simp add: HD_CONS_add b_def)
    have "(?U mod v1) * b \<le> (b - 1) * b" using m bpos by (intro mult_right_mono) simp_all
    then have "(?U mod v1) * b + u2 < 1 * (b * b)" using u by (simp add: algebra_simps)
    also have "\<dots> \<le> 2 * (b * b)" using bpos by (intro mult_right_mono) simp_all
    finally have "(?U mod v1) * b + u2 < 2 * b * b" by simp
    moreover have "0 \<le> (?U mod v1) * b + u2" using m u bpos by simp
    moreover have "(?U mod v1) * b + u2 = N - (?U div v1) * (v1 * b)"
      by (simp add: N_def minus_div_mult_eq_mod [symmetric] algebra_simps)
    moreover have "N div V \<le> ?U div v1"
      unfolding N_def V_def by (rule guess_upper) (use u v bpos in simp_all)
    ultimately have "digit_guess_loop v1 v2 (?U div v1) ((?U mod v1) * b + u2) = Some (N div V)"
      using loop [of "?U div v1"] g by (simp add: min_def)
    then show ?thesis using False c U u v bpos by (simp add: BDD_STEP_def Let_def sdiv_smod_pos)
  qed
  then show ?thesis
    using digit_divide_subtract_val [of v1 v2 u0 u1 u2] v u q unfolding b_def N_def V_def by auto
qed

lemma bignum_digit_divide_val:
  fixes uh ul v :: int
  assumes uh: "0 \<le> uh" "uh < v" and ul: "digit_ok ul" and v: "digit_ok v" "BIGNUM_RADIX_ROOT \<le> v"
  defines "U \<equiv> uh * BIGNUM_RADIX + ul"
  shows "bignum_digit_divide uh ul v = Some (U mod v, U div v)"
    and "0 \<le> U div v" "U div v < BIGNUM_RADIX"
proof -
  let ?b = "BIGNUM_RADIX_ROOT" and ?v1 = "HD_HIGH v" and ?v2 = "HD_LOW v"
  have V: "0 < v" using v(2) radix_pos(2) by linarith
  have "?v1 \<noteq> 0"
  proof
    assume "?v1 = 0"
    then have "v = ?v2" using HD_split [of v] by simp
    then show False using v(2) HD_LOW_bounds(2) [of v] by linarith
  qed
  then have v1: "0 < ?v1" "?v1 < ?b" using HD_HIGH_digit [OF v(1)] by linarith+
  have split: "v = ?v1 * ?b + ?v2" "uh = HD_HIGH uh * ?b + HD_LOW uh" "ul = HD_HIGH ul * ?b + HD_LOW ul"
    by (rule HD_split)+
  have "digit_ok uh" using uh v(1) by (simp add: digit_ok_def)
  note h = HD_HIGH_digit [OF this] HD_HIGH_digit [OF ul]
  define N0 where "N0 = uh * ?b + HD_HIGH ul"
  obtain r1 r2 where s0: "BDD_STEP ?v1 ?v2 (HD_HIGH uh, HD_LOW uh, HD_HIGH ul) = Some (N0 div v, 0, r1, r2)"
      "N0 div v < ?b" "0 \<le> r1" "r1 < ?b" "0 \<le> r2" "r2 < ?b" "r1 * ?b + r2 = N0 mod v"
    using BDD_STEP_val [OF v1 HD_LOW_bounds [of v], of "HD_HIGH uh" "HD_LOW uh" "HD_HIGH ul"] h uh
    unfolding split(1,2) [symmetric] N0_def by auto
  define N1 where "N1 = (N0 mod v) * ?b + HD_LOW ul"
  obtain r3 r4 where s1: "BDD_STEP ?v1 ?v2 (r1, r2, HD_LOW ul) = Some (N1 div v, 0, r3, r4)"
      "N1 div v < ?b" "0 \<le> r3" "r3 < ?b" "0 \<le> r4" "r4 < ?b" "r3 * ?b + r4 = N1 mod v"
    using BDD_STEP_val [OF v1 HD_LOW_bounds [of v] s0(3-6), of "HD_LOW ul"] pos_mod_bound [OF V, of N0]
    unfolding split(1) [symmetric] s0(7) N1_def by auto
  have nonneg: "0 \<le> N0 div v" "0 \<le> N1 div v"
    using uh h V pos_mod_sign [OF V, of N0] by (simp_all add: N0_def N1_def pos_imp_zdiv_nonneg_iff)
  have "U = N0 * ?b + HD_LOW ul"
    using split(3) by (simp add: U_def N0_def radix_root algebra_simps)
  also have "\<dots> = (N0 div v * ?b) * v + N1"
    by (simp add: N1_def minus_div_mult_eq_mod [symmetric] algebra_simps)
  finally have U: "U div v = N0 div v * ?b + N1 div v" "U mod v = N1 mod v" using V by simp_all
  have "N0 div v * ?b \<le> (?b - 1) * ?b" using s0(2) by (intro mult_right_mono) simp_all
  then show q: "0 \<le> U div v" "U div v < BIGNUM_RADIX"
    using s1(2) nonneg by (simp_all add: U(1) radix_root algebra_simps)
  have "HD_CONS (N0 div v) (N1 div v) = U div v" "HD_CONS r3 r4 = U mod v"
    using s0(2) s1(2-7) nonneg by (simp_all add: U HD_CONS_add)
  then have steps: "(do {
        (q1, _, u1, u2) \<leftarrow> BDD_STEP ?v1 ?v2 (HD_HIGH uh, HD_LOW uh, HD_HIGH ul);
        (q2, _, u2', u3) \<leftarrow> BDD_STEP ?v1 ?v2 (u1, u2, HD_LOW ul);
        Some (HD_CONS u2' u3, HD_CONS q1 q2)
      }) = Some (U mod v, U div v)"
    by (simp add: s0(1) s1(1))
  show "bignum_digit_divide uh ul v = Some (U mod v, U div v)"
    using steps uh ul V by (auto simp: bignum_digit_divide_def U_def digit_ok_def)
qed

subsection \<open>Normalisation\<close>

lemma normalization_shift_val:
  assumes "0 < v1" "v1 < BIGNUM_RADIX"
  shows "\<exists>s. normalization_shift v1 sh = Some (v1 * 2 ^ s, sh + s) \<and>
    BIGNUM_RADIX div 2 \<le> v1 * 2 ^ s \<and> v1 * 2 ^ s < BIGNUM_RADIX \<and> s < 62"
  using assms
proof (induction "nat (BIGNUM_RADIX - v1)" arbitrary: v1 sh rule: less_induct)
  case less
  show ?case
  proof (cases "v1 < BIGNUM_RADIX div 2")
    case False
    then show ?thesis
      using less.prems by (intro exI [of _ 0]) (subst normalization_shift.simps, simp add: sdiv_smod_pos)
  next
    case True
    then have b: "2 * v1 < BIGNUM_RADIX" "0 < 2 * v1" "nat (BIGNUM_RADIX - 2 * v1) < nat (BIGNUM_RADIX - v1)"
      using less.prems by (auto simp: bignum_num)
    then have dbl: "fx (push_bit 1 v1) = 2 * v1"
      by (simp add: fx_id push_bit_eq_mult bignum_num)
    obtain s where s: "normalization_shift (2 * v1) (sh + 1) = Some (2 * v1 * 2 ^ s, sh + 1 + s)"
        "BIGNUM_RADIX div 2 \<le> 2 * v1 * 2 ^ s" "2 * v1 * 2 ^ s < BIGNUM_RADIX" "s < 62"
      using less.hyps [OF b(3,2,1)] by blast
    have "(1::int) * 2 ^ Suc s \<le> v1 * 2 ^ Suc s" using less.prems by (intro mult_right_mono) simp_all
    also have "v1 * 2 ^ Suc s < 2 ^ 62" using s(3) by (simp add: radix_exp)
    finally have "(2::int) ^ Suc s < 2 ^ 62" by simp
    then have "Suc s < 62" by (simp only: power_strict_increasing_iff [of "2::int"])
    moreover have "normalization_shift v1 sh = normalization_shift (2 * v1) (sh + 1)"
      unfolding dbl [symmetric] using True less.prems by (subst normalization_shift.simps) (simp add: sdiv_smod_pos)
    ultimately show ?thesis using s by (intro exI [of _ "Suc s"]) (simp add: algebra_simps)
  qed
qed

lemma fx_nonneg: "0 \<le> x \<Longrightarrow> x < 2 ^ 63 \<Longrightarrow> fx x = x"
  by (rule fx_id) simp_all

lemma shift_mask: "n \<le> 62 \<Longrightarrow> fx (push_bit n 1 - 1) = 2 ^ n - 1"
proof -
  assume "n \<le> 62"
  then have "(2::int) ^ n \<le> 2 ^ 62" by (intro power_increasing) simp_all
  then have "(2::int) ^ n - 1 < 2 ^ 63" by simp
  moreover have "(0::int) \<le> 2 ^ n - 1" by simp
  ultimately have "fx (2 ^ n - 1) = 2 ^ n - 1" by (intro fx_nonneg)
  then show ?thesis by (simp add: push_bit_eq_mult)
qed

lemma split_radix: "s \<le> 62 \<Longrightarrow> BIGNUM_RADIX = 2 ^ s * 2 ^ (62 - s)"
  by (simp add: radix_exp flip: power_add)

lemma digit_split_bounds:
  assumes "digit_ok d" "s \<le> 62"
  shows "0 \<le> d div 2 ^ (62 - s)" "d div 2 ^ (62 - s) < 2 ^ s"
    "0 \<le> d mod 2 ^ (62 - s) * 2 ^ s" "d mod 2 ^ (62 - s) * 2 ^ s + 2 ^ s \<le> BIGNUM_RADIX"
proof -
  have p: "(0::int) < 2 ^ (62 - s)" by simp
  show "0 \<le> d div 2 ^ (62 - s)" using assms(1) by (simp add: digit_ok_def pos_imp_zdiv_nonneg_iff)
  have "\<not> 2 ^ s * 2 ^ (62 - s) \<le> d" using assms by (simp add: digit_ok_def split_radix)
  then show "d div 2 ^ (62 - s) < 2 ^ s" using le_div_iff [OF p, of "2 ^ s" d] by simp
  show "0 \<le> d mod 2 ^ (62 - s) * 2 ^ s" by simp
  have "(d mod 2 ^ (62 - s) + 1) * 2 ^ s \<le> 2 ^ (62 - s) * 2 ^ s"
    using pos_mod_bound [OF p, of d] by (intro mult_right_mono) (linarith, simp)
  then show "d mod 2 ^ (62 - s) * 2 ^ s + 2 ^ s \<le> BIGNUM_RADIX"
    by (simp add: split_radix [OF assms(2)] algebra_simps)
qed

declare normalization_scan.simps(2) [simp del] unnormalization_scan.simps(2) [simp del]

lemma normalization_scan_Cons:
  assumes "digit_ok d" "s \<le> 62" "0 \<le> c" "c < 2 ^ s"
  shows "normalization_scan s (d # ds) c =
    (let (rs, c') = normalization_scan s ds (d div 2 ^ (62 - s))
     in (((d mod 2 ^ (62 - s)) * 2 ^ s + c) # rs, c'))"
proof -
  note b = digit_split_bounds [OF assms(1,2)]
  have "fx (push_bit s (d mod 2 ^ (62 - s))) = push_bit s (d mod 2 ^ (62 - s))"
    unfolding push_bit_eq_mult
  proof (rule fx_nonneg [OF b(3)])
    have "(0::int) < 2 ^ s" "(2::int) ^ 62 < 2 ^ 63" by simp_all
    with b(4) show "d mod 2 ^ (62 - s) * 2 ^ s < 2 ^ 63" unfolding radix_exp by linarith
  qed
  then show ?thesis
    using or_disjoint_add [OF assms(3,4), of "d mod 2 ^ (62 - s)"] shift_mask [of "62 - s"]
    by (simp add: normalization_scan.simps(2) Let_def and_mask_mod drop_bit_eq_div del: push_bit_and)
qed

lemma normalization_scan_val:
  assumes "digits_ok ds" "s \<le> 62" "0 \<le> c" "c < 2 ^ s" "normalization_scan s ds c = (rs, c')"
  shows "digits_ok rs \<and> length rs = length ds \<and> 0 \<le> c' \<and> c' < 2 ^ s \<and>
    digits_val rs + BIGNUM_RADIX ^ length ds * c' = 2 ^ s * digits_val ds + c"
  using assms(1,3-)
proof (induction ds arbitrary: c rs)
  case Nil
  then show ?case by simp
next
  case (Cons d ds)
  then have d: "digit_ok d" "digits_ok ds" by auto
  note b = digit_split_bounds [OF d(1) assms(2)]
  obtain rs' where rs': "normalization_scan s ds (d div 2 ^ (62 - s)) = (rs', c')"
      "rs = (d mod 2 ^ (62 - s) * 2 ^ s + c) # rs'"
    using Cons.prems(4) normalization_scan_Cons [OF d(1) assms(2) Cons.prems(2,3), of ds]
    by (cases "normalization_scan s ds (d div 2 ^ (62 - s))") auto
  have ih: "digits_ok rs'" "length rs' = length ds" "0 \<le> c'" "c' < 2 ^ s"
      "digits_val rs' + BIGNUM_RADIX ^ length ds * c' = 2 ^ s * digits_val ds + d div 2 ^ (62 - s)"
    using Cons.IH [OF d(2) b(1,2) rs'(1)] by blast+
  have "digit_ok (d mod 2 ^ (62 - s) * 2 ^ s + c)"
    using b(3,4) Cons.prems(2,3) by (simp add: digit_ok_def)
  moreover have "d * 2 ^ s = d mod 2 ^ (62 - s) * 2 ^ s + BIGNUM_RADIX * (d div 2 ^ (62 - s))"
    by (simp add: split_radix [OF assms(2)] minus_div_mult_eq_mod [symmetric] algebra_simps)
  ultimately show ?case
    using ih(1-4) arg_cong [OF ih(5), of "\<lambda>x. BIGNUM_RADIX * x"] by (simp add: rs'(2) algebra_simps)
qed

lemma bignum_destructive_normalization_val:
  assumes "digits_ok (digits src)" "s \<le> 62"
    and "BIGNUM_LENGTH tgt = BIGNUM_LENGTH src + 1 \<or>
      BIGNUM_LENGTH tgt = BIGNUM_LENGTH src \<and>
      2 ^ s * digits_val (digits src) < BIGNUM_RADIX ^ BIGNUM_LENGTH src"
  shows "\<exists>ds. bignum_destructive_normalization src tgt s = Some (tgt\<lparr>digits := ds\<rparr>) \<and> digits_ok ds \<and>
    length ds = BIGNUM_LENGTH tgt \<and> digits_val ds = 2 ^ s * digits_val (digits src) \<and>
    (BIGNUM_LENGTH tgt = BIGNUM_LENGTH src + 1 \<longrightarrow> last ds < 2 ^ s)"
proof -
  obtain ds c where scan: "normalization_scan s (digits src) 0 = (ds, c)"
    by (cases "normalization_scan s (digits src) 0") auto
  have v: "digits_ok ds" "length ds = BIGNUM_LENGTH src" "0 \<le> c" "c < 2 ^ s"
      "digits_val ds + BIGNUM_RADIX ^ BIGNUM_LENGTH src * c = 2 ^ s * digits_val (digits src)"
    using normalization_scan_val [OF assms(1,2) _ _ scan] by (simp_all add: BIGNUM_LENGTH_def)
  from assms(3) show ?thesis
  proof
    assume len: "BIGNUM_LENGTH tgt = BIGNUM_LENGTH src + 1"
    have "(2::int) ^ s \<le> 2 ^ 62" using assms(2) by (intro power_increasing) simp_all
    with v(3,4) have "digit_ok c" unfolding digit_ok_def radix_exp by linarith
    moreover have "drop (BIGNUM_LENGTH src + 1) (digits tgt) = []"
      using len by (simp add: BIGNUM_LENGTH_def)
    ultimately show ?thesis
      using v len by (auto simp: bignum_destructive_normalization_def scan digits_val_append)
  next
    assume len: "BIGNUM_LENGTH tgt = BIGNUM_LENGTH src \<and>
      2 ^ s * digits_val (digits src) < BIGNUM_RADIX ^ BIGNUM_LENGTH src"
    then have "c = 0"
      using v digits_val_nonneg [OF v(1)]
        carry_out_zero [of "digits_val ds" "BIGNUM_RADIX ^ BIGNUM_LENGTH src" c] by simp
    then show ?thesis
      using v len by (auto simp: bignum_destructive_normalization_def scan)
  qed
qed

text \<open>Scans from the most significant digit down: how one step extends the value of the rest.\<close>

lemma long_division_step:
  fixes d q r r1 r2 x :: int
  assumes "q * d + r1 = r * BIGNUM_RADIX + x"
    and "digits_val (rev qs) * d + r2 = digits_val (rev ds) + BIGNUM_RADIX ^ length ds * r1"
    and "length qs = length ds"
  shows "digits_val (rev (q # qs)) * d + r2 =
    digits_val (rev (x # ds)) + BIGNUM_RADIX ^ length (x # ds) * r"
  using arg_cong [OF assms(1), of "\<lambda>z. BIGNUM_RADIX ^ length ds * z"] assms(2,3)
  by (simp add: digits_val_append algebra_simps)

lemma unnormalization_scan_Cons:
  assumes "digit_ok d" "s \<le> 62" "0 \<le> k" "k < 2 ^ s"
  shows "unnormalization_scan s (d # ds) (k * 2 ^ (62 - s)) =
    (let (rs, c') = unnormalization_scan s ds (d mod 2 ^ s * 2 ^ (62 - s))
     in ((d div 2 ^ s + k * 2 ^ (62 - s)) # rs, c'))"
    and "digit_ok (d div 2 ^ s + k * 2 ^ (62 - s))"
proof -
  have s': "62 - (62 - s) = s" "62 - s \<le> 62" using assms(2) by auto
  note b = digit_split_bounds [OF assms(1) s'(2), unfolded s'(1)]
  have "fx (push_bit (62 - s) (d mod 2 ^ s)) = d mod 2 ^ s * 2 ^ (62 - s)"
    unfolding push_bit_eq_mult
  proof (rule fx_nonneg [OF b(3)])
    have "(0::int) < 2 ^ (62 - s)" "(2::int) ^ 62 < 2 ^ 63" by simp_all
    with b(4) show "d mod 2 ^ s * 2 ^ (62 - s) < 2 ^ 63" unfolding radix_exp by linarith
  qed
  moreover have "d div 2 ^ s OR k * 2 ^ (62 - s) = d div 2 ^ s + k * 2 ^ (62 - s)"
    using or_disjoint_add [OF b(1,2), of k] by (simp add: push_bit_eq_mult or.commute add.commute)
  ultimately show "unnormalization_scan s (d # ds) (k * 2 ^ (62 - s)) =
    (let (rs, c') = unnormalization_scan s ds (d mod 2 ^ s * 2 ^ (62 - s))
     in ((d div 2 ^ s + k * 2 ^ (62 - s)) # rs, c'))"
    using shift_mask [OF assms(2)]
    by (simp add: unnormalization_scan.simps(2) Let_def and_mask_mod drop_bit_eq_div del: push_bit_and)
  have "(k + 1) * 2 ^ (62 - s) \<le> 2 ^ s * 2 ^ (62 - s)" using assms(4) by (intro mult_right_mono) simp_all
  then show "digit_ok (d div 2 ^ s + k * 2 ^ (62 - s))"
    using b(1,2) assms(3) unfolding digit_ok_def split_radix [OF assms(2)] by (simp add: algebra_simps)
qed

lemma unnormalization_scan_val:
  assumes "digits_ok ds" "s \<le> 62" "0 \<le> k" "k < 2 ^ s"
    and "unnormalization_scan s ds (k * 2 ^ (62 - s)) = (rs, c)"
  shows "\<exists>k'. digits_ok rs \<and> length rs = length ds \<and> 0 \<le> k' \<and> k' < 2 ^ s \<and> c = k' * 2 ^ (62 - s) \<and>
    digits_val (rev rs) * 2 ^ s + k' = digits_val (rev ds) + BIGNUM_RADIX ^ length ds * k"
  using assms(1,3-)
proof (induction ds arbitrary: k rs)
  case Nil
  then show ?case by auto
next
  case (Cons d ds)
  then have d: "digit_ok d" "digits_ok ds" by auto
  note step = unnormalization_scan_Cons(1) [OF d(1) assms(2) Cons.prems(2,3), of ds]
    unnormalization_scan_Cons(2) [OF d(1) assms(2) Cons.prems(2,3)]
  obtain rs' where rs': "unnormalization_scan s ds (d mod 2 ^ s * 2 ^ (62 - s)) = (rs', c)"
      "rs = (d div 2 ^ s + k * 2 ^ (62 - s)) # rs'"
    using Cons.prems(4) step(1)
    by (cases "unnormalization_scan s ds (d mod 2 ^ s * 2 ^ (62 - s))") auto
  have "0 \<le> d mod 2 ^ s" "d mod 2 ^ s < 2 ^ s" by simp_all
  then obtain k' where ih: "digits_ok rs'" "length rs' = length ds" "0 \<le> k'" "k' < 2 ^ s" "c = k' * 2 ^ (62 - s)"
      "digits_val (rev rs') * 2 ^ s + k' = digits_val (rev ds) + BIGNUM_RADIX ^ length ds * (d mod 2 ^ s)"
    using Cons.IH [OF d(2) _ _ rs'(1)] by blast
  have "(d div 2 ^ s + k * 2 ^ (62 - s)) * 2 ^ s + d mod 2 ^ s = k * BIGNUM_RADIX + d"
    by (simp add: split_radix [OF assms(2)] algebra_simps)
  from long_division_step [OF this ih(6,2)] show ?case
    unfolding rs'(2) using ih(1-5) step(2) by (intro exI [of _ k'] conjI) (assumption | simp)+
qed

lemma bignum_destructive_unnormalization_val:
  assumes "digits_ok (digits bn)" "s \<le> 62" "2 ^ s dvd digits_val (digits bn)"
  shows "\<exists>ds. bignum_destructive_unnormalization bn s = Some (bn\<lparr>digits := ds\<rparr>) \<and> digits_ok ds \<and>
    length ds = BIGNUM_LENGTH bn \<and> digits_val ds * 2 ^ s = digits_val (digits bn)"
proof -
  obtain rs c where scan: "unnormalization_scan s (rev (digits bn)) 0 = (rs, c)"
    by (cases "unnormalization_scan s (rev (digits bn)) 0") auto
  have "digits_ok (rev (digits bn))" using assms(1) by (simp add: digits_ok_def list_all_iff)
  from unnormalization_scan_val [OF this assms(2), of 0] scan obtain k where
    k: "digits_ok rs" "length rs = BIGNUM_LENGTH bn" "0 \<le> k" "k < 2 ^ s" "c = k * 2 ^ (62 - s)"
      "digits_val (rev rs) * 2 ^ s + k = digits_val (digits bn)"
    by (auto simp: BIGNUM_LENGTH_def)
  have "2 ^ s dvd k" using assms(3) k(6) by (metis dvd_add_right_iff dvd_triv_right)
  then have "k = 0" using k(3,4) zdvd_not_zless [of k "2 ^ s"] by linarith
  then show ?thesis
    using k scan by (auto simp: bignum_destructive_unnormalization_def digits_ok_def list_all_iff)
qed

subsection \<open>Small denominators\<close>

declare scale_down_scan.simps(2) [simp del]

lemma scale_down_scan_Cons:
  fixes d r x :: int
  assumes d: "0 < d" "d < BIGNUM_RADIX_ROOT" and r: "0 \<le> r" "r < d" and x: "digit_ok x"
  shows "\<exists>q r1. scale_down_scan d (x # ds) r =
      (q # fst (scale_down_scan d ds r1), snd (scale_down_scan d ds r1)) \<and>
    digit_ok q \<and> 0 \<le> r1 \<and> r1 < d \<and> q * d + r1 = r * BIGNUM_RADIX + x"
proof -
  let ?b = BIGNUM_RADIX_ROOT
  note h = HD_HIGH_digit [OF x] and lo = HD_LOW_bounds [of x]
  have half: "\<exists>n. HD_CONS r' l = n \<and> n = r' * ?b + l \<and> 0 \<le> n div d \<and> n div d < ?b \<and>
      0 \<le> n mod d \<and> n mod d < d \<and> n sdiv d = n div d \<and> n smod d = n mod d"
    if "0 \<le> r'" "r' < d" "0 \<le> l" "l < ?b" for r' l
  proof -
    have "r' * ?b \<le> (d - 1) * ?b" using that by (intro mult_right_mono) simp_all
    then have n: "0 \<le> r' * ?b + l" "r' * ?b + l < ?b * d" using that by (simp_all add: algebra_simps)
    then show ?thesis
      using that d le_div_iff [OF d(1), of ?b "r' * ?b + l"]
      by (simp add: HD_CONS_add sdiv_smod_pos pos_imp_zdiv_nonneg_iff)
  qed
  obtain n1 where n1: "HD_CONS r (HD_HIGH x) = n1" "n1 = r * ?b + HD_HIGH x" "0 \<le> n1 div d" "n1 div d < ?b"
      "0 \<le> n1 mod d" "n1 mod d < d" "n1 sdiv d = n1 div d" "n1 smod d = n1 mod d"
    using half [OF r, of "HD_HIGH x"] h by blast
  obtain n2 where n2: "HD_CONS (n1 mod d) (HD_LOW x) = n2" "n2 = (n1 mod d) * ?b + HD_LOW x"
      "0 \<le> n2 div d" "n2 div d < ?b" "0 \<le> n2 mod d" "n2 mod d < d" "n2 sdiv d = n2 div d" "n2 smod d = n2 mod d"
    using half [OF n1(5,6) lo] by blast
  have q: "HD_CONS (n1 div d) (n2 div d) = n1 div d * ?b + n2 div d"
    using n1(3,4) n2(3,4) by (simp add: HD_CONS_add)
  have "n1 div d * ?b \<le> (?b - 1) * ?b" using n1(4) by (intro mult_right_mono) simp_all
  then have "digit_ok (n1 div d * ?b + n2 div d)"
    using n1(3) n2(3,4) by (simp add: digit_ok_def radix_root algebra_simps)
  moreover have "(n1 div d * ?b + n2 div d) * d + n2 mod d = r * BIGNUM_RADIX + x"
  proof -
    have "(n1 div d * ?b + n2 div d) * d + n2 mod d = n1 div d * d * ?b + n2"
      by (simp add: algebra_simps)
    also have "\<dots> = (n1 div d * d + n1 mod d) * ?b + HD_LOW x" by (simp only: n2(2)) (simp only: algebra_simps)
    also have "\<dots> = n1 * ?b + HD_LOW x" by simp
    finally show ?thesis using HD_split [of x] by (simp add: n1(2) radix_root algebra_simps)
  qed
  ultimately show ?thesis
    using n2(5,6) by (simp add: scale_down_scan.simps(2) Let_def case_prod_unfold n1(1,7,8) n2(1,7,8) q) blast
qed

lemma scale_down_scan_val:
  assumes d: "0 < d" "d < BIGNUM_RADIX_ROOT"
    and "0 \<le> r" "r < d" "digits_ok ds" "scale_down_scan d ds r = (qs, r')"
  shows "digits_ok qs \<and> length qs = length ds \<and> 0 \<le> r' \<and> r' < d \<and>
    digits_val (rev qs) * d + r' = digits_val (rev ds) + BIGNUM_RADIX ^ length ds * r"
  using assms(3-)
proof (induction ds arbitrary: r qs)
  case Nil
  then show ?case by simp
next
  case (Cons x ds)
  then have x: "digit_ok x" "digits_ok ds" by auto
  obtain q r1 where step: "scale_down_scan d (x # ds) r =
        (q # fst (scale_down_scan d ds r1), snd (scale_down_scan d ds r1))"
      "digit_ok q" "0 \<le> r1" "r1 < d" "q * d + r1 = r * BIGNUM_RADIX + x"
    using scale_down_scan_Cons [OF d Cons.prems(1,2) x(1)] by blast
  obtain qs' where qs': "scale_down_scan d ds r1 = (qs', r')" "qs = q # qs'"
    using step(1) Cons.prems(4) by (cases "scale_down_scan d ds r1") auto
  note ih = Cons.IH [OF step(3,4) x(2) qs'(1)]
  from long_division_step [OF step(5)] ih have "digits_val (rev (q # qs')) * d + r' =
      digits_val (rev (x # ds)) + BIGNUM_RADIX ^ length (x # ds) * r" by blast
  then show ?case unfolding qs'(2) using ih step(2) by (intro conjI) (assumption | simp)+
qed

lemma remainder_scan_eq: "remainder_scan d ds r = snd (scale_down_scan d ds r)"
  by (induction ds arbitrary: r) (simp_all add: scale_down_scan.simps(2) Let_def case_prod_unfold)

lemma div_mod_unique:
  fixes n d q r :: int
  assumes "q * d + r = n" "0 \<le> r" "r < d"
  shows "n div d = q" "n mod d = r"
  using assms by (auto simp flip: assms(1))

lemma scale_down_digits:
  assumes "1 < d" "d < BIGNUM_RADIX_ROOT" "digits_ok ds" "scale_down_scan d (rev ds) 0 = (qs, r)"
  shows "digits_ok (rev qs)" "length qs = length ds"
    "digits_val (rev qs) = digits_val ds div d" "r = digits_val ds mod d"
proof -
  have "digits_ok (rev ds)" using assms(3) by (simp add: digits_ok_def)
  then have v: "digits_ok qs" "length qs = length ds" "0 \<le> r" "r < d"
      "digits_val (rev qs) * d + r = digits_val ds"
    using scale_down_scan_val [OF _ assms(2) _ _ _ assms(4)] assms(1) by simp_all
  then show "digits_ok (rev qs)" "length qs = length ds"
    "digits_val (rev qs) = digits_val ds div d" "r = digits_val ds mod d"
    using div_mod_unique [OF v(5,3,4)] by (simp_all add: digits_ok_def)
qed

lemma bignum_divide_unsigned_small_denominator_val:
  assumes "1 < d" "d < BIGNUM_RADIX_ROOT" "bignum_wf n" "\<not> BIGNUM_ZERO_P n"
  shows "\<exists>q. bignum_divide_unsigned_small_denominator n d want_r qn rn =
      Some (q, if want_r then Some (bignum_digit_to_bignum (\<bar>bignum_val n\<bar> mod d) rn) else None) \<and>
    bignum_wf q \<and> bignum_val q = signed_val qn (\<bar>bignum_val n\<bar> div d)"
proof -
  obtain qs r where scan: "scale_down_scan d (rev (digits n)) 0 = (qs, r)"
    by (cases "scale_down_scan d (rev (digits n)) 0") auto
  note v = scale_down_digits [OF assms(1,2) bignum_wf_digits [OF assms(3)] scan,
      unfolded bignum_abs_val [OF assms(3)]]
  have "rev qs \<noteq> []" using assms(4) v(2) by (auto simp: BIGNUM_ZERO_P_def BIGNUM_LENGTH_def)
  then show ?thesis
    using v assms(1,2) bignum_trim_mk_wf [OF v(1)]
    by (simp add: bignum_divide_unsigned_small_denominator_def bignum_destructive_scale_down_def
      bignum_new_sign_def scan)
qed

lemma bignum_remainder_unsigned_small_denominator_val:
  assumes "1 < d" "d < BIGNUM_RADIX_ROOT" "bignum_wf n"
  shows "bignum_remainder_unsigned_small_denominator n d neg =
    Some (bignum_digit_to_bignum (\<bar>bignum_val n\<bar> mod d) neg)"
proof -
  obtain qs r where scan: "scale_down_scan d (rev (digits n)) 0 = (qs, r)"
    by (cases "scale_down_scan d (rev (digits n)) 0") auto
  show ?thesis
    using scale_down_digits(4) [OF assms(1,2) bignum_wf_digits [OF assms(3)] scan] assms
    by (simp add: bignum_remainder_unsigned_small_denominator_def remainder_scan_eq scan bignum_abs_val)
qed

subsection \<open>Denominators of one digit\<close>

lemma medium_scan_val:
  assumes d: "digit_ok d" "BIGNUM_RADIX_ROOT \<le> d" and "0 \<le> r" "r < d" "digits_ok ds"
  shows "\<exists>qs r'. medium_scan d ds r = Some (qs, r') \<and> digits_ok qs \<and> length qs = length ds \<and> 0 \<le> r' \<and> r' < d \<and>
    digits_val (rev qs) * d + r' = digits_val (rev ds) + BIGNUM_RADIX ^ length ds * r"
  using assms(3-)
proof (induction ds arbitrary: r)
  case Nil
  then show ?case by simp
next
  case (Cons x ds)
  then have x: "digit_ok x" "digits_ok ds" by auto
  have pos: "0 < d" using d(2) radix_pos(2) by linarith
  let ?U = "r * BIGNUM_RADIX + x"
  note div = bignum_digit_divide_val [OF Cons.prems(1,2) x(1) d]
  obtain qs r' where ih: "medium_scan d ds (?U mod d) = Some (qs, r')" "digits_ok qs" "length qs = length ds"
      "0 \<le> r'" "r' < d"
      "digits_val (rev qs) * d + r' = digits_val (rev ds) + BIGNUM_RADIX ^ length ds * (?U mod d)"
    using Cons.IH [OF pos_mod_sign [OF pos] pos_mod_bound [OF pos] x(2)] by blast
  have "?U div d * d + ?U mod d = ?U" by simp
  from long_division_step [OF this ih(6,3)] have "digits_val (rev (?U div d # qs)) * d + r' =
      digits_val (rev (x # ds)) + BIGNUM_RADIX ^ length (x # ds) * r" .
  moreover have "medium_scan d (x # ds) r = Some (?U div d # qs, r')" using div(1) ih(1) by simp
  ultimately show ?case
    using ih(2-5) div(2,3) by (intro exI conjI) (assumption | simp add: digit_ok_def)+
qed

lemma digits_ok_rev [simp]: "digits_ok (rev ds) \<longleftrightarrow> digits_ok ds"
  by (simp add: digits_ok_def)

lemma mk_bignum_inject [simp]: "mk_bignum neg ds = mk_bignum neg' ds' \<longleftrightarrow> neg = neg' \<and> ds = ds'"
  by (simp add: mk_bignum_def)

lemma allot_bignum_simps [simp]:
  "BIGNUM_LENGTH (allot_bignum mem len neg) = len" "negative_p (allot_bignum mem len neg) = neg"
  "(allot_bignum mem len neg)\<lparr>digits := ds\<rparr> = mk_bignum neg ds"
  by (simp_all add: allot_bignum_def BIGNUM_LENGTH_def)

lemma bignum_destructive_copy_exact:
  "bignum_destructive_copy n (allot_bignum mem (BIGNUM_LENGTH n) neg) = mk_bignum neg (digits n)"
  "bignum_destructive_copy n (allot_bignum mem (BIGNUM_LENGTH n + 1) neg) = mk_bignum neg (digits n @ [mem (BIGNUM_LENGTH n)])"
  by (simp_all add: bignum_destructive_copy_def allot_bignum_def BIGNUM_LENGTH_def)

lemma scaled_div_mod:
  fixes n d :: int
  shows "(2 ^ s * n) div (d * 2 ^ s) = n div d" "(2 ^ s * n) mod (d * 2 ^ s) = 2 ^ s * (n mod d)"
  by (simp_all add: mult.commute [of d])

lemma medium_numerator:
  assumes "digits_ok (digits n)" "s < 62"
  shows "\<exists>ds. (if s = 0 then Some (bignum_destructive_copy n (allot_bignum mem (BIGNUM_LENGTH n) neg))
      else bignum_destructive_normalization n (allot_bignum mem (BIGNUM_LENGTH n + 1) neg) s) =
      Some (mk_bignum neg ds) \<and> digits_ok ds \<and> BIGNUM_LENGTH n \<le> length ds \<and>
    digits_val ds = 2 ^ s * digits_val (digits n)"
proof (cases "s = 0")
  case True
  then show ?thesis
    using assms(1) by (intro exI [of _ "digits n"], simp add: bignum_destructive_copy_exact(1)) (simp add: BIGNUM_LENGTH_def)
next
  case False
  obtain ds where "bignum_destructive_normalization n (allot_bignum mem (BIGNUM_LENGTH n + 1) neg) s =
      Some (mk_bignum neg ds)" "digits_ok ds" "length ds = BIGNUM_LENGTH n + 1"
      "digits_val ds = 2 ^ s * digits_val (digits n)"
    using bignum_destructive_normalization_val [OF assms(1), of s "allot_bignum mem (BIGNUM_LENGTH n + 1) neg"]
      assms(2) by auto
  then show ?thesis using False by simp
qed

lemma bignum_divide_unsigned_medium_denominator_val:
  assumes d: "digit_ok d" "BIGNUM_RADIX_ROOT \<le> d" and n: "bignum_wf n" "\<not> BIGNUM_ZERO_P n"
  shows "\<exists>q. bignum_divide_unsigned_medium_denominator mem n d want_q want_r qn rn =
      Some (if want_q then Some q else None,
            if want_r then Some (bignum_digit_to_bignum (\<bar>bignum_val n\<bar> mod d) rn) else None) \<and>
    bignum_wf q \<and> bignum_val q = signed_val qn (\<bar>bignum_val n\<bar> div d)"
proof -
  let ?N = "\<bar>bignum_val n\<bar>"
  have pos: "0 < d" "d < BIGNUM_RADIX" using d radix_pos(2) unfolding digit_ok_def by linarith+
  obtain s where s: "normalization_shift d 0 = Some (d * 2 ^ s, s)"
      "BIGNUM_RADIX div 2 \<le> d * 2 ^ s" "d * 2 ^ s < BIGNUM_RADIX" "s < 62"
    using normalization_shift_val [OF pos, of 0] unfolding add_0 by blast
  have v: "digit_ok (d * 2 ^ s)" "BIGNUM_RADIX_ROOT \<le> d * 2 ^ s" "0 < d * 2 ^ s"
    using s(2,3) pos by (simp_all add: digit_ok_def bignum_num)
  obtain ds where ds: "(if s = 0 then Some (bignum_destructive_copy n (allot_bignum mem (BIGNUM_LENGTH n) qn))
      else bignum_destructive_normalization n (allot_bignum mem (BIGNUM_LENGTH n + 1) qn) s) =
      Some (mk_bignum qn ds)" "digits_ok ds" "BIGNUM_LENGTH n \<le> length ds" "digits_val ds = 2 ^ s * ?N"
    using medium_numerator [OF bignum_wf_digits [OF n(1)] s(4)] unfolding bignum_abs_val [OF n(1)] by blast
  obtain qs r where scan: "medium_scan (d * 2 ^ s) (rev ds) 0 = Some (qs, r)" "digits_ok qs"
      "length qs = length ds" "0 \<le> r" "r < d * 2 ^ s" "digits_val (rev qs) * (d * 2 ^ s) + r = 2 ^ s * ?N"
    using medium_scan_val [OF v(1,2) order_refl v(3), of "rev ds"] ds(2)
    unfolding digits_ok_rev length_rev rev_rev_ident ds(4) mult_zero_right add_0_right by blast
  note q = div_mod_unique [OF scan(6,4,5), unfolded scaled_div_mod, symmetric]
  have "(if s \<noteq> 0 then drop_bit s r else r) = ?N mod d" unfolding q(2) by (simp add: drop_bit_eq_div)
  moreover have "bignum_wf (bignum_trim (mk_bignum qn (rev qs)))"
    using scan(2,3) ds(3) n(2) by (intro bignum_trim_mk_wf) (auto simp: BIGNUM_ZERO_P_def)
  ultimately show ?thesis
    using s(1) ds(1) scan(1) q(1)
    by (intro exI [of _ "bignum_trim (mk_bignum qn (rev qs))"], cases "s = 0")
      (simp_all add: bignum_divide_unsigned_medium_denominator_def Let_def)
qed

end
