(* ===== verification/Bignum_Div.thy ===== *)
theory Bignum_Div
  imports Bignum_Digit_Div
begin

text \<open>
  Division of bignums by denominators of two or more digits, and the signed operations
  \<open>bignum_divide\<close>, \<open>bignum_quotient\<close> and \<open>bignum_remainder\<close> (\<open>vm/bignum.cpp\<close>).

  The long division is Knuth's algorithm D. Its inner loop changes a window of the
  dividend in place; the model passes the digits from \<open>u_start\<close> on and returns them
  updated. The quotient digits are stored from the most significant down, so they are
  consed onto the list of those already stored. The result type is an option whose
  \<open>None\<close> is an abort or an access outside an array, around a sum whose left part is the
  error raised to the language.
\<close>

subsection \<open>Guessing a quotient digit\<close>

definition guess_product :: "fixnum \<Rightarrow> fixnum \<Rightarrow> fixnum \<Rightarrow> fixnum \<times> fixnum" where
  "guess_product v2l v2h guess =
     (let gl = HD_LOW guess;
          gh = HD_HIGH guess;
          pl = fx (v2l * gl);
          ph = fx (v2l * gh + v2h * gl + HD_HIGH pl)
      in (fx (v2h * gh + HD_HIGH ph), HD_CONS (HD_LOW ph) (HD_LOW pl)))"

partial_function (option) guess_loop ::
  "fixnum \<Rightarrow> fixnum \<Rightarrow> fixnum \<Rightarrow> fixnum \<Rightarrow> fixnum \<Rightarrow> fixnum \<Rightarrow> fixnum option" where
  "guess_loop v1 v2l v2h cl guess ch =
     (if fst (guess_product v2l v2h guess) < ch \<or>
         ch = fst (guess_product v2l v2h guess) \<and> snd (guess_product v2l v2h guess) \<le> cl
      then Some guess
      else if fx (ch + v1) \<ge> BIGNUM_RADIX then Some (fx (guess - 1))
      else guess_loop v1 v2l v2h cl (fx (guess - 1)) (fx (ch + v1)))"

subsection \<open>Subtracting a multiple of the divisor\<close>

text \<open>Digits written, final carry, and the digits of \<open>u\<close> not reached.\<close>

fun mulsub_scan :: "fixnum \<Rightarrow> fixnum \<Rightarrow> fixnum list \<Rightarrow> fixnum list \<Rightarrow> fixnum \<Rightarrow>
    fixnum list \<times> fixnum \<times> fixnum list" where
  "mulsub_scan gl gh (v # vs) (u # us) carry =
     (let vl = HD_LOW v;
          vh = HD_HIGH v;
          pl = fx (vl * gl + HD_LOW carry);
          ph = fx (vl * gh + vh * gl + HD_HIGH pl + HD_HIGH carry);
          diff = fx (u - HD_CONS (HD_LOW ph) (HD_LOW pl))
      in if diff < 0
         then (case mulsub_scan gl gh vs us (fx (vh * gh + HD_HIGH ph + 1)) of
                 (r, c, rest) \<Rightarrow> (fx (diff + BIGNUM_RADIX) # r, c, rest))
         else (case mulsub_scan gl gh vs us (fx (vh * gh + HD_HIGH ph)) of
                 (r, c, rest) \<Rightarrow> (diff # r, c, rest)))"
| "mulsub_scan gl gh vs us carry = ([], carry, us)"

text \<open>
  The loop that adds the divisor back is the one of \<open>bignum_add_unsigned\<close>, so the model
  shares \<open>add_scan\<close>.
\<close>

definition bignum_divide_subtract ::
  "fixnum list \<Rightarrow> fixnum \<Rightarrow> fixnum list \<Rightarrow> (fixnum \<times> fixnum list) option" where
  "bignum_divide_subtract v guess u =
     (if guess = 0 then Some (0, u)
      else case mulsub_scan (HD_LOW guess) (HD_HIGH guess) v u 0 of (r, carry, rest) \<Rightarrow>
        if carry = 0 then Some (guess, r @ rest)
        else (case rest of
            [] \<Rightarrow> None
          | u_top # us \<Rightarrow>
              (let diff = fx (u_top - carry) in
               if diff < 0 then
                 (let u_top' = fx (diff + BIGNUM_RADIX) in
                  case add_scan r v 0 of (r', c, _) \<Rightarrow>
                    (let sum = fx (u_top' + c);
                         u_top'' = (if c = 1 then (if sum < BIGNUM_RADIX then sum else fx (sum - BIGNUM_RADIX))
                                  else u_top')
                     in Some (fx (guess - 1), r' @ u_top'' # us)))
               else Some (guess, r @ diff # us))))"

subsection \<open>The main loop\<close>

text \<open>
  One iteration works on the digits of \<open>u\<close> from index \<open>k\<close> on; \<open>uj\<close> is the digit at
  \<open>k + length v\<close>.
\<close>

definition divide_step :: "fixnum list \<Rightarrow> nat \<Rightarrow> fixnum list \<Rightarrow> (fixnum \<times> fixnum list) option" where
  "divide_step v k u =
     (let j = k + length v;
          v1 = v ! (length v - 1);
          v2 = v ! (length v - 2);
          uj = u ! j;
          cl = u ! (j - 2)
      in do {
        (ch, guess) \<leftarrow> (if uj \<noteq> v1 then bignum_digit_divide uj (u ! (j - 1)) v1
                       else Some (fx (u ! (j - 1) + v1), BIGNUM_RADIX - 1));
        guess' \<leftarrow> guess_loop v1 (HD_LOW v2) (HD_HIGH v2) cl guess ch;
        (qj, w) \<leftarrow> bignum_divide_subtract v guess' (drop k u);
        Some (qj, take k u @ w)
      })"

fun divide_loop :: "fixnum list \<Rightarrow> nat \<Rightarrow> fixnum list \<Rightarrow> fixnum list \<Rightarrow> (fixnum list \<times> fixnum list) option" where
  "divide_loop v 0 u q = Some (u, q)"
| "divide_loop v (Suc k) u q = do {
     (qj, u') \<leftarrow> divide_step v k u;
     divide_loop v k u' (qj # q)
   }"

text \<open>The updated \<open>u\<close> and, when it is wanted, the filled \<open>q\<close>.\<close>

definition bignum_divide_unsigned_normalized ::
  "bignum \<Rightarrow> bignum \<Rightarrow> bignum option \<Rightarrow> (bignum \<times> bignum option) option" where
  "bignum_divide_unsigned_normalized u v q =
     map_option (\<lambda>(ud, qd). (u\<lparr>digits := ud\<rparr>, map_option (\<lambda>q. q\<lparr>digits := qd\<rparr>) q))
       (divide_loop (digits v) (BIGNUM_LENGTH u - BIGNUM_LENGTH v) (digits u) [])"

definition bignum_divide_unsigned_large_denominator ::
  "(nat \<Rightarrow> fixnum) \<Rightarrow> bignum \<Rightarrow> bignum \<Rightarrow> bool \<Rightarrow> bool \<Rightarrow> bool \<Rightarrow> bool \<Rightarrow> (bignum option \<times> bignum option) option" where
  "bignum_divide_unsigned_large_denominator mem numerator denominator want_q want_r q_neg r_neg =
     (let length_n = BIGNUM_LENGTH numerator + 1;
          length_d = BIGNUM_LENGTH denominator;
          u = allot_bignum mem length_n r_neg;
          q = (if want_q then Some (allot_bignum mem (length_n - length_d) q_neg) else None)
      in if length_d > 1 then do {
        (_, shift) \<leftarrow> normalization_shift (BIGNUM_REF denominator (length_d - 1)) 0;
        (u', q') \<leftarrow>
          (if shift = 0 then do {
             let u1 = bignum_destructive_copy numerator u;
             bignum_divide_unsigned_normalized (u1\<lparr>digits := (digits u1)[length_n - 1 := 0]\<rparr>) denominator q
           } else do {
             u1 \<leftarrow> bignum_destructive_normalization numerator u shift;
             v \<leftarrow> bignum_destructive_normalization denominator (allot_bignum mem length_d False) shift;
             (u2, q2) \<leftarrow> bignum_divide_unsigned_normalized u1 v q;
             u3 \<leftarrow> (if want_r then bignum_destructive_unnormalization u2 shift else Some u2);
             Some (u3, q2)
           });
        Some (map_option bignum_trim q', if want_r then Some (bignum_trim u') else None)
      } else None)"

subsection \<open>Signed division\<close>

definition bignum_divide :: "(nat \<Rightarrow> fixnum) \<Rightarrow> bignum \<Rightarrow> bignum \<Rightarrow> (bignum \<times> bignum) outcome" where
  "bignum_divide mem numerator denominator =
     (if BIGNUM_ZERO_P denominator then Some (Inl ERROR_DIVIDE_BY_ZERO)
      else if BIGNUM_ZERO_P numerator then Some (Inr (numerator, numerator))
      else
        (let r_neg = negative_p numerator;
             q_neg = (if negative_p denominator then \<not> r_neg else r_neg)
         in case bignum_compare_unsigned numerator denominator of
            BIGNUM_COMPARISON_EQUAL \<Rightarrow> Some (Inr (BIGNUM_ONE q_neg, BIGNUM_ZERO))
          | BIGNUM_COMPARISON_LESS \<Rightarrow> Some (Inr (BIGNUM_ZERO, numerator))
          | BIGNUM_COMPARISON_GREATER \<Rightarrow>
              if BIGNUM_LENGTH denominator = 1 then
                (let digit = BIGNUM_REF denominator 0 in
                 if digit = 1 then Some (Inr (bignum_maybe_new_sign numerator q_neg, BIGNUM_ZERO))
                 else if digit < BIGNUM_RADIX_ROOT then do {
                   (q, r) \<leftarrow> bignum_divide_unsigned_small_denominator numerator digit True q_neg r_neg;
                   r' \<leftarrow> r;
                   Some (Inr (q, r'))
                 } else do {
                   (q, r) \<leftarrow> bignum_divide_unsigned_medium_denominator mem numerator digit True True q_neg r_neg;
                   q' \<leftarrow> q; r' \<leftarrow> r;
                   Some (Inr (q', r'))
                 })
              else do {
                (q, r) \<leftarrow> bignum_divide_unsigned_large_denominator mem numerator denominator True True q_neg r_neg;
                q' \<leftarrow> q; r' \<leftarrow> r;
                Some (Inr (q', r'))
              }))"

definition bignum_quotient :: "(nat \<Rightarrow> fixnum) \<Rightarrow> bignum \<Rightarrow> bignum \<Rightarrow> bignum outcome" where
  "bignum_quotient mem numerator denominator =
     (if BIGNUM_ZERO_P denominator then Some (Inl ERROR_DIVIDE_BY_ZERO)
      else if BIGNUM_ZERO_P numerator then Some (Inr numerator)
      else
        (let q_neg = (if negative_p denominator then \<not> negative_p numerator else negative_p numerator)
         in case bignum_compare_unsigned numerator denominator of
            BIGNUM_COMPARISON_EQUAL \<Rightarrow> Some (Inr (BIGNUM_ONE q_neg))
          | BIGNUM_COMPARISON_LESS \<Rightarrow> Some (Inr BIGNUM_ZERO)
          | BIGNUM_COMPARISON_GREATER \<Rightarrow>
              if BIGNUM_LENGTH denominator = 1 then
                (let digit = BIGNUM_REF denominator 0 in
                 if digit = 1 then Some (Inr (bignum_maybe_new_sign numerator q_neg))
                 else if digit < BIGNUM_RADIX_ROOT then do {
                   (q, _) \<leftarrow> bignum_divide_unsigned_small_denominator numerator digit False q_neg False;
                   Some (Inr q)
                 } else do {
                   (q, _) \<leftarrow> bignum_divide_unsigned_medium_denominator mem numerator digit True False q_neg False;
                   q' \<leftarrow> q;
                   Some (Inr q')
                 })
              else do {
                (q, _) \<leftarrow> bignum_divide_unsigned_large_denominator mem numerator denominator True False q_neg False;
                q' \<leftarrow> q;
                Some (Inr q')
              }))"

definition bignum_remainder :: "(nat \<Rightarrow> fixnum) \<Rightarrow> bignum \<Rightarrow> bignum \<Rightarrow> bignum outcome" where
  "bignum_remainder mem numerator denominator =
     (if BIGNUM_ZERO_P denominator then Some (Inl ERROR_DIVIDE_BY_ZERO)
      else if BIGNUM_ZERO_P numerator then Some (Inr numerator)
      else
        (let r_neg = negative_p numerator
         in case bignum_compare_unsigned numerator denominator of
            BIGNUM_COMPARISON_EQUAL \<Rightarrow> Some (Inr BIGNUM_ZERO)
          | BIGNUM_COMPARISON_LESS \<Rightarrow> Some (Inr numerator)
          | BIGNUM_COMPARISON_GREATER \<Rightarrow>
              if BIGNUM_LENGTH denominator = 1 then
                (let digit = BIGNUM_REF denominator 0 in
                 if digit = 1 then Some (Inr BIGNUM_ZERO)
                 else if digit < BIGNUM_RADIX_ROOT
                 then map_option Inr (bignum_remainder_unsigned_small_denominator numerator digit r_neg)
                 else do {
                   (_, r) \<leftarrow> bignum_divide_unsigned_medium_denominator mem numerator digit False True False r_neg;
                   r' \<leftarrow> r;
                   Some (Inr r')
                 })
              else do {
                (_, r) \<leftarrow> bignum_divide_unsigned_large_denominator mem numerator denominator False True False r_neg;
                r' \<leftarrow> r;
                Some (Inr r')
              }))"

subsection \<open>Guessing a quotient digit\<close>

lemma guess_product_val:
  assumes "digit_ok v2" "digit_ok g"
  shows "\<exists>ph pl. guess_product (HD_LOW v2) (HD_HIGH v2) g = (ph, pl) \<and> digit_ok ph \<and> digit_ok pl \<and>
    pl + BIGNUM_RADIX * ph = v2 * g"
proof -
  note xh = HD_HIGH_digit [OF assms(1)]
  have z: "digit_ok 0" "HD_LOW 0 = 0" "HD_HIGH 0 = 0" by (simp_all add: digit_ok_def HD_LOW_mod HD_HIGH_div)
  note half_digit_product [OF z(1) assms(2) z(1) HD_LOW_bounds [of v2] conjunct1 [OF xh] conjunct2 [OF xh],
      unfolded z(2,3) HD_split [of v2, symmetric] add_0 add_0_right]
  then show ?thesis
    unfolding guess_product_def Let_def by (simp add: add.commute [of "HD_HIGH v2 * HD_LOW g"])
qed

lemma lex_product:
  fixes ph pl ch cl :: int
  assumes "digit_ok pl" "digit_ok cl"
  shows "ph < ch \<or> ch = ph \<and> pl \<le> cl \<longleftrightarrow> pl + BIGNUM_RADIX * ph \<le> ch * BIGNUM_RADIX + cl"
proof (cases ph ch rule: linorder_cases)
  case less
  then have "(ph + 1) * BIGNUM_RADIX \<le> ch * BIGNUM_RADIX" by (intro mult_right_mono) simp_all
  then have "pl + BIGNUM_RADIX * ph \<le> ch * BIGNUM_RADIX + cl"
    using assms by (simp add: digit_ok_def algebra_simps)
  with less show ?thesis by simp
next
  case greater
  then have "(ch + 1) * BIGNUM_RADIX \<le> ph * BIGNUM_RADIX" by (intro mult_right_mono) simp_all
  then have "\<not> pl + BIGNUM_RADIX * ph \<le> ch * BIGNUM_RADIX + cl"
    using assms by (simp add: digit_ok_def algebra_simps)
  with greater show ?thesis by simp
qed (simp add: mult.commute)

lemma guess_loop_val:
  fixes N :: int
  assumes v: "0 < v1" "v1 < BIGNUM_RADIX" "digit_ok v2" and N: "0 \<le> N" and cl: "digit_ok cl"
    and g: "digit_ok g" and c: "ch * BIGNUM_RADIX + cl = N - g * (v1 * BIGNUM_RADIX)" "0 \<le> ch" "ch < 2 * BIGNUM_RADIX"
  shows "guess_loop v1 (HD_LOW v2) (HD_HIGH v2) cl g ch = Some (min g (N div (v1 * BIGNUM_RADIX + v2)))"
  using g c
proof (induction "nat g" arbitrary: g ch rule: less_induct)
  case less
  let ?V = "v1 * BIGNUM_RADIX + v2"
  obtain ph pl where p: "guess_product (HD_LOW v2) (HD_HIGH v2) g = (ph, pl)" "digit_ok ph" "digit_ok pl"
      "pl + BIGNUM_RADIX * ph = v2 * g" using guess_product_val [OF v(3) less.prems(1)] by blast
  have "0 < v1 * BIGNUM_RADIX" using v by simp
  then have V: "0 < ?V" using v(3) unfolding digit_ok_def by linarith
  have test: "(ph < ch \<or> ch = ph \<and> pl \<le> cl) \<longleftrightarrow> \<not> N div ?V < g"
    using guess_step [OF less.prems(2) refl V] unfolding lex_product [OF p(3) cl] p(4)
    by (simp add: mult.commute flip: not_less)
  show ?case
  proof (cases "N div ?V < g")
    case False
    then show ?thesis using test by (subst guess_loop.simps) (simp add: p(1))
  next
    case True
    have "0 \<le> N div ?V" using N V by (simp add: pos_imp_zdiv_nonneg_iff)
    with True less.prems(1) have g': "fx (g - 1) = g - 1" "digit_ok (g - 1)" "nat (g - 1) < nat g"
      by (simp_all add: fx_id digit_ok_def bignum_num)
    have "ch \<le> ph" using test True by linarith
    then have c': "fx (ch + v1) = ch + v1" "0 \<le> ch + v1" "ch + v1 < 2 * BIGNUM_RADIX"
      "(ch + v1) * BIGNUM_RADIX + cl = N - (g - 1) * (v1 * BIGNUM_RADIX)"
      using p(2) v less.prems by (simp_all add: fx_id digit_ok_def bignum_num algebra_simps)
    have "g - 1 \<le> N div ?V" if "BIGNUM_RADIX \<le> ch + v1"
    proof -
      have "(g - 1) * v2 \<le> (BIGNUM_RADIX - 1) * (BIGNUM_RADIX - 1)"
        using g'(2) v(3) by (intro mult_mono) (simp_all add: digit_ok_def)
      moreover have "BIGNUM_RADIX * BIGNUM_RADIX \<le> (ch + v1) * BIGNUM_RADIX"
        using that by (intro mult_right_mono) simp_all
      ultimately show ?thesis
        using guess_step [OF c'(4) refl V] cl by (simp add: digit_ok_def bignum_num)
    qed
    moreover have "guess_loop v1 (HD_LOW v2) (HD_HIGH v2) cl (g - 1) (ch + v1) = Some (min (g - 1) (N div ?V))"
      by (rule less.hyps [OF g'(3,2) c'(4,2,3)])
    ultimately show ?thesis
      using test True g'(1) c'(1) by (subst guess_loop.simps) (auto simp: p(1))
  qed
qed

subsection \<open>Subtracting a multiple of the divisor\<close>

lemma fx_add1: "fx (fx x + 1) = fx (x + 1)"
  unfolding fx_def using signed_take_bit_add [of 63 "signed_take_bit 63 x" 1] signed_take_bit_add [of 63 x 1]
  by simp

declare mulsub_scan.simps(1) [simp del]

lemma mulsub_scan_Cons:
  assumes ok: "digit_ok v" "digit_ok u" "digit_ok g" "digit_ok c"
  shows "\<exists>d c'. mulsub_scan (HD_LOW g) (HD_HIGH g) (v # vs) (u # us) c =
      (case mulsub_scan (HD_LOW g) (HD_HIGH g) vs us c' of (r, c2, rest) \<Rightarrow> (d # r, c2, rest)) \<and>
    digit_ok d \<and> digit_ok c' \<and> d - BIGNUM_RADIX * c' = u - g * v - c"
proof -
  note xh = HD_HIGH_digit [OF ok(3)]
  have z: "digit_ok 0" by (simp add: digit_ok_def)
  define pl where "pl = fx (HD_LOW v * HD_LOW g + HD_LOW c)"
  define ph where "ph = fx (HD_LOW v * HD_HIGH g + HD_HIGH v * HD_LOW g + HD_HIGH pl + HD_HIGH c)"
  define p where "p = HD_CONS (HD_LOW ph) (HD_LOW pl)"
  define k where "k = fx (HD_HIGH v * HD_HIGH g + HD_HIGH ph)"
  have "digit_ok p \<and> digit_ok k \<and> p + BIGNUM_RADIX * k = g * v + c"
    using half_digit_product [OF z ok(1,4) HD_LOW_bounds [of g] conjunct1 [OF xh] conjunct2 [OF xh],
      unfolded HD_split [of g, symmetric] add_0]
    unfolding p_def k_def ph_def pl_def by (simp add: mult.commute)
  then have p: "digit_ok p" "digit_ok k" "p + BIGNUM_RADIX * k = g * v + c" by auto
  have fx: "fx (u - p) = u - p" "fx (u - p + BIGNUM_RADIX) = u - p + BIGNUM_RADIX" "fx (k + 1) = k + 1"
    using p ok(2) by (auto intro!: fx_id simp: digit_ok_def bignum_num)
  have k1: "fx (HD_HIGH v * HD_HIGH g + HD_HIGH ph + 1) = k + 1"
    using fx(3) unfolding k_def fx_add1 .
  define d where "d = (if u < p then u - p + BIGNUM_RADIX else u - p)"
  define c' where "c' = (if u < p then k + 1 else k)"
  have d: "digit_ok d" "d - BIGNUM_RADIX * c' = u - g * v - c"
    using p ok(2) by (auto simp: d_def c'_def digit_ok_def algebra_simps)
  have "g * v \<le> (BIGNUM_RADIX - 1) * (BIGNUM_RADIX - 1)"
    using ok by (intro mult_mono) (simp_all add: digit_ok_def)
  with d ok have "BIGNUM_RADIX * c' < BIGNUM_RADIX * BIGNUM_RADIX" by (simp add: digit_ok_def bignum_num)
  then have "digit_ok c'" using p(2) by (auto simp: c'_def digit_ok_def)
  moreover have "mulsub_scan (HD_LOW g) (HD_HIGH g) (v # vs) (u # us) c =
      (case mulsub_scan (HD_LOW g) (HD_HIGH g) vs us c' of (r, c2, rest) \<Rightarrow> (d # r, c2, rest))"
    unfolding mulsub_scan.simps(1) Let_def pl_def [symmetric] ph_def [symmetric] p_def [symmetric]
      k_def [symmetric] k1 fx by (simp add: d_def c'_def)
  ultimately show ?thesis using d by blast
qed

lemma mulsub_scan_val:
  assumes "digit_ok g" "digits_ok vs" "digits_ok us" "length vs \<le> length us" "digit_ok c"
  shows "\<exists>r c'. mulsub_scan (HD_LOW g) (HD_HIGH g) vs us c = (r, c', drop (length vs) us) \<and>
    digits_ok r \<and> digit_ok c' \<and> length r = length vs \<and>
    digits_val r - BIGNUM_RADIX ^ length vs * c' = digits_val (take (length vs) us) - g * digits_val vs - c"
  using assms(2-)
proof (induction vs arbitrary: us c)
  case Nil
  then show ?case by simp
next
  case (Cons v vs)
  then obtain u us' where us: "us = u # us'" by (cases us) auto
  with Cons.prems have ok: "digit_ok v" "digits_ok vs" "digit_ok u" "digits_ok us'" "length vs \<le> length us'"
    by auto
  obtain d c1 where step: "mulsub_scan (HD_LOW g) (HD_HIGH g) (v # vs) (u # us') c =
      (case mulsub_scan (HD_LOW g) (HD_HIGH g) vs us' c1 of (r, c2, rest) \<Rightarrow> (d # r, c2, rest))"
      "digit_ok d" "digit_ok c1" "d - BIGNUM_RADIX * c1 = u - g * v - c"
    using mulsub_scan_Cons [OF ok(1,3) assms(1) Cons.prems(4)] by blast
  obtain r c' where ih: "mulsub_scan (HD_LOW g) (HD_HIGH g) vs us' c1 = (r, c', drop (length vs) us')"
      "digits_ok r" "digit_ok c'" "length r = length vs"
      "digits_val r - BIGNUM_RADIX ^ length vs * c' = digits_val (take (length vs) us') - g * digits_val vs - c1"
    using Cons.IH [OF ok(2,4,5) step(3)] by blast
  show ?case
    using step(1,2,4) ih(1-4) arg_cong [OF ih(5), of "\<lambda>x. BIGNUM_RADIX * x"]
    by (simp add: us algebra_simps)
qed

text \<open>
  A guess that is exact or one too large leaves the remainder in the window: subtracting
  once more than the divisor fits borrows from the digit above the window, and adding
  the divisor back undoes it.
\<close>

lemma scaled_bounds:
  fixes B x k l :: int
  assumes "0 < B" "B * k < B * x" "B * x < B * l"
  shows "k < x" "x < l"
  using assms by simp_all

lemma bignum_divide_subtract_val:
  fixes g :: int
  assumes v: "digits_ok v" and w: "digits_ok w" "length w = length v" and t: "digit_ok t" and g: "digit_ok g"
    and hs: "digits_ok hs" and V: "0 < digits_val v"
  defines "W \<equiv> digits_val w + BIGNUM_RADIX ^ length v * t"
  defines "q \<equiv> W div digits_val v"
  assumes q: "q \<le> g" "g \<le> q + 1"
  shows "\<exists>w'. bignum_divide_subtract v g (w @ t # hs) = Some (q, w' @ 0 # hs) \<and> digits_ok w' \<and>
    length w' = length v \<and> digits_val w' = W mod digits_val v"
proof -
  let ?V = "digits_val v" and ?B = "BIGNUM_RADIX ^ length v"
  have B: "0 < ?B" by simp
  have Vb: "?V < ?B" by (rule digits_val_less [OF v])
  have m: "0 \<le> W mod ?V" "W mod ?V < ?V" using pos_mod_sign [OF V] pos_mod_bound [OF V] by blast+
  have Wq: "W = q * ?V + W mod ?V" by (simp add: q_def)
  have "0 \<le> W" using digits_val_nonneg [OF w(1)] t by (simp add: W_def digit_ok_def)
  then have q0: "0 \<le> q" using V by (simp add: q_def pos_imp_zdiv_nonneg_iff)
  have z: "digit_ok 0" "digits_ok (w @ t # hs)" using w t hs by (simp_all add: digit_ok_def)
  obtain r c where scan: "mulsub_scan (HD_LOW g) (HD_HIGH g) v (w @ t # hs) 0 = (r, c, t # hs)"
      "digits_ok r" "digit_ok c" "length r = length v" "digits_val r - ?B * c = digits_val w - g * ?V"
    using mulsub_scan_val [OF g v z(2) _ z(1)] w(2) by auto
  have rv: "0 \<le> digits_val r" "digits_val r < ?B"
    using digits_val_nonneg [OF scan(2)] digits_val_less [OF scan(2)] by (simp_all add: scan(4))
  have eq: "digits_val r + ?B * (t - c) = W - g * ?V"
    using scan(5) by (simp add: W_def algebra_simps)
  consider "g = 0" | "g \<noteq> 0" "g = q" | "g \<noteq> 0" "g = q + 1" using q by linarith
  then show ?thesis
  proof cases
    case 1
    with q(1) q0 have "q = 0" by simp
    with Wq m Vb have "W < ?B" "W mod ?V = W" by simp_all
    then have "t = 0"
      using t digits_val_nonneg [OF w(1)] carry_out_zero [of "digits_val w" ?B t] by (simp add: W_def digit_ok_def)
    then show ?thesis
      using 1 \<open>q = 0\<close> \<open>W mod ?V = W\<close> w by (simp add: bignum_divide_subtract_def W_def)
  next
    case 2
    have "digits_val r + ?B * (t - c) = W mod ?V" using eq Wq 2(2) by simp
    with m rv Vb have "?B * (- 1) < ?B * (t - c)" "?B * (t - c) < ?B * 1" by linarith+
    from scaled_bounds [OF B this] have "t = c" by linarith
    with \<open>digits_val r + ?B * (t - c) = W mod ?V\<close> show ?thesis
      using 2 scan by (simp add: bignum_divide_subtract_def)
  next
    case 3
    have "g * ?V = q * ?V + ?V" by (simp add: 3(2) distrib_right)
    then have low: "digits_val r + ?B * (t - c) = W mod ?V - ?V" using eq Wq by linarith
    with m rv Vb have "?B * (- 2) < ?B * (t - c)" "?B * (t - c) < ?B * 0" by linarith+
    from scaled_bounds [OF B this] have c: "c = t + 1" by linarith
    with low have r: "digits_val r + ?V = W mod ?V + ?B" by simp
    obtain r' c2 rest where add: "add_scan r v 0 = (r', c2, rest)" by (cases "add_scan r v 0") auto
    have a: "digits_ok r'" "c2 = 0 \<or> c2 = 1" "length r' = length v" "W mod ?V + ?B = digits_val r' + ?B * c2"
      using add_scan_val [OF add scan(2) v] scan(4) r by simp_all
    have "digits_val r' < ?B" using digits_val_less [OF a(1)] by (simp add: a(3))
    with a(2,4) m have "c2 = 1" "digits_val r' = W mod ?V" by auto
    moreover have "fx (t - c) = - 1" "fx (- 1 + BIGNUM_RADIX) = BIGNUM_RADIX - 1" "fx (g - 1) = q" "fx BIGNUM_RADIX = BIGNUM_RADIX"
      using c g 3(2) by (simp_all add: fx_id digit_ok_def bignum_num)
    ultimately show ?thesis
      using 3(1) scan(1) add a(1,3) c t by (simp add: bignum_divide_subtract_def Let_def digit_ok_def)
  qed
qed

subsection \<open>One quotient digit\<close>

text \<open>
  Knuth's estimate: the quotient of the leading digits, cut to a digit, is at least the
  true quotient digit and exceeds it by at most one.
\<close>

lemma quotient_estimate:
  fixes W N V V2 B R vl wl :: int
  assumes B: "0 < B" and vl: "0 \<le> vl" "vl < B" and wl: "0 \<le> wl" "wl < B"
    and W: "W = wl + B * N" "W < R * V" and V: "V = vl + B * V2" "R \<le> V2" and N: "0 \<le> N" and R: "0 < R"
  shows "W div V \<le> min (R - 1) (N div V2)" "min (R - 1) (N div V2) \<le> W div V + 1"
proof -
  have V2: "0 < V2" using V(2) R by linarith
  have "0 < B * V2" using B V2 by simp
  then have Vpos: "0 < V" using vl V(1) by linarith
  have W0: "0 \<le> W" using wl W(1) B N by simp
  have q0: "0 \<le> W div V" using W0 Vpos by (simp add: pos_imp_zdiv_nonneg_iff)
  have "W div V * (B * V2) \<le> W div V * V" using q0 V(1) vl by (intro mult_left_mono) simp_all
  also have "\<dots> \<le> W" using le_div_iff [OF Vpos, of "W div V" W] by simp
  also have "\<dots> < B * (N + 1)" using W(1) wl by (simp add: distrib_left)
  finally have "B * (W div V * V2) < B * (N + 1)" by (simp add: algebra_simps)
  then have "W div V * V2 \<le> N" using B by simp
  then have "W div V \<le> N div V2" using le_div_iff [OF V2] by simp
  moreover have "W div V < R" using le_div_iff [OF Vpos, of R W] W(2) by linarith
  ultimately show "W div V \<le> min (R - 1) (N div V2)" by simp
  define g where "g = min (R - 1) (N div V2)"
  have "g * V2 \<le> N" using le_div_iff [OF V2, of g N] by (simp add: g_def)
  moreover have "g \<le> V2" using V(2) by (simp add: g_def)
  ultimately have lead: "(g - 1) * (V2 + 1) \<le> N" by (simp add: algebra_simps)
  have "(g - 1) * V \<le> W"
  proof (cases "1 \<le> g")
    case True
    have "(g - 1) * V \<le> (g - 1) * (B * (V2 + 1))"
      using True V(1) vl by (intro mult_left_mono) (simp_all add: distrib_left)
    also have "\<dots> = B * ((g - 1) * (V2 + 1))" by (simp add: algebra_simps)
    also have "\<dots> \<le> B * N" using lead B by (intro mult_left_mono) simp_all
    also have "\<dots> \<le> W" using W(1) wl by simp
    finally show ?thesis .
  next
    case False
    then have "(g - 1) * V \<le> 0" using Vpos by (simp add: mult_nonpos_nonneg)
    with W0 show ?thesis by linarith
  qed
  then have "g - 1 \<le> W div V" using le_div_iff [OF Vpos] by simp
  then show "min (R - 1) (N div V2) \<le> W div V + 1" unfolding g_def by linarith
qed

lemma digits_val_snoc2: "digits_val (ds @ [a, b]) =
    digits_val ds + BIGNUM_RADIX ^ length ds * (b * BIGNUM_RADIX + a)"
  by (simp add: digits_val_append algebra_simps)

lemma lead_bound:
  fixes W U V V2 B R vl wl u2 :: int
  assumes B: "0 < B" and R: "0 < R" and low: "0 \<le> wl" "vl < B"
    and W: "W = wl + B * (U * R + u2)" "0 \<le> u2" "W < R * V" and V: "V = vl + B * V2"
  shows "U \<le> V2"
proof -
  have RB: "0 < R * B" using B R by simp
  have "0 \<le> B * u2" using B W(2) by simp
  then have "R * B * U \<le> W" using low(1) unfolding W(1) by (simp add: algebra_simps)
  also have "W < R * (B * (V2 + 1))"
    using W(3) mult_left_mono [OF less_imp_le [OF low(2)] less_imp_le [OF R]] unfolding V distrib_left by linarith
  finally have "R * B * U < R * B * (V2 + 1)" by (simp only: mult.assoc)
  then show ?thesis unfolding mult_less_cancel_left_pos [OF RB] by linarith
qed

text \<open>The guess, before the subtraction: leading digits \<open>t u1 u2\<close> by \<open>v1 v2\<close>.\<close>

lemma leading_guess:
  fixes t u1 u2 v1 v2 :: int
  assumes ok: "digit_ok t" "digit_ok u1" "digit_ok u2" "digit_ok v1" "digit_ok v2"
    and v1: "BIGNUM_RADIX_ROOT \<le> v1" and lead: "t * BIGNUM_RADIX + u1 \<le> v1 * BIGNUM_RADIX + v2"
  defines "N \<equiv> (t * BIGNUM_RADIX + u1) * BIGNUM_RADIX + u2"
  shows "(do {
      (ch, guess) \<leftarrow> (if t \<noteq> v1 then bignum_digit_divide t u1 v1 else Some (fx (u1 + v1), BIGNUM_RADIX - 1));
      guess_loop v1 (HD_LOW v2) (HD_HIGH v2) u2 guess ch
    }) = Some (min (BIGNUM_RADIX - 1) (N div (v1 * BIGNUM_RADIX + v2)))"
proof -
  let ?R = BIGNUM_RADIX and ?U = "t * BIGNUM_RADIX + u1"
  have pos: "0 < v1" using v1 radix_pos(2) by linarith
  have d: "0 \<le> t" "0 \<le> u1" "u1 < ?R" "0 \<le> u2" "u2 < ?R" "v1 < ?R" "0 \<le> v2" "v2 < ?R"
    using ok by (simp_all add: digit_ok_def)
  have N: "0 \<le> N" using d by (simp add: N_def)
  have loop: "guess_loop v1 (HD_LOW v2) (HD_HIGH v2) u2 g ch = Some (min g (N div (v1 * ?R + v2)))"
    if "digit_ok g" "ch * ?R + u2 = N - g * (v1 * ?R)" "0 \<le> ch" "ch < 2 * ?R" for g ch
    by (rule guess_loop_val [OF pos d(6) ok(5) N ok(3) that])
  show ?thesis
  proof (cases "t = v1")
    case True
    have "fx (u1 + v1) = u1 + v1" using d pos by (simp add: fx_id bignum_num)
    moreover have "guess_loop v1 (HD_LOW v2) (HD_HIGH v2) u2 (?R - 1) (u1 + v1) =
        Some (min (?R - 1) (N div (v1 * ?R + v2)))"
      using d pos by (intro loop) (simp_all add: digit_ok_def N_def True algebra_simps)
    ultimately show ?thesis using True by simp
  next
    case False
    note g = guess_digit [OF lead False d(1-3) pos d(8) radix_pos(1)]
    have "t * ?R < (v1 + 1) * ?R" using lead d by (simp add: distrib_right)
    then have tv: "t < v1" using False by simp
    have m: "0 \<le> ?U mod v1" "?U mod v1 < 2 * ?R"
      using pos_mod_sign [OF pos, of ?U] pos_mod_bound [OF pos, of ?U] d(6) by linarith+
    have "?U mod v1 * ?R + u2 = N - ?U div v1 * (v1 * ?R)"
      by (simp add: N_def minus_div_mult_eq_mod [symmetric] algebra_simps)
    then have "guess_loop v1 (HD_LOW v2) (HD_HIGH v2) u2 (?U div v1) (?U mod v1) =
        Some (min (?U div v1) (N div (v1 * ?R + v2)))"
      using g m by (intro loop) (simp_all add: digit_ok_def)
    moreover have "N div (v1 * ?R + v2) \<le> ?U div v1"
      unfolding N_def using d pos by (intro guess_upper) simp_all
    ultimately show ?thesis
      using False g(2) bignum_digit_divide_val(1) [OF d(1) tv ok(2,4) v1] by (simp add: min_def)
  qed
qed

lemma split_last2:
  assumes "2 \<le> length xs"
  shows "xs = take (length xs - 2) xs @ [xs ! (length xs - 2), xs ! (length xs - 1)]"
proof -
  have i: "length xs - 2 < length xs" "length xs - 1 < length xs" "Suc (length xs - 2) = length xs - 1"
    "Suc (length xs - 1) = length xs" using assms by auto
  have "xs = take (length xs - 2) xs @ drop (length xs - 2) xs" by simp
  also have "drop (length xs - 2) xs = [xs ! (length xs - 2), xs ! (length xs - 1)]"
    using Cons_nth_drop_Suc [OF i(1)] Cons_nth_drop_Suc [OF i(2)] by (simp add: i(3,4))
  finally show ?thesis .
qed

lemma digits_val_small:
  assumes "digits_ok ds" "digits_val ds < BIGNUM_RADIX ^ n" "n \<le> length ds"
  shows "digits_val (drop n ds) = 0" "digits_val (take n ds) = digits_val ds"
proof -
  have split: "digits_val ds = digits_val (take n ds) + BIGNUM_RADIX ^ n * digits_val (drop n ds)"
    using digits_val_append [of "take n ds" "drop n ds"] assms(3) by simp
  have ok: "digits_ok (take n ds)" "digits_ok (drop n ds)" using assms(1) by simp_all
  show "digits_val (drop n ds) = 0"
    using carry_out_zero [of "digits_val (take n ds)" "BIGNUM_RADIX ^ n" "digits_val (drop n ds)"]
      digits_val_nonneg [OF ok(1)] digits_val_nonneg [OF ok(2)] assms(2) split by simp
  with split show "digits_val (take n ds) = digits_val ds" by simp
qed

lemma divide_window:
  assumes "k + n < length u" "2 \<le> n"
  shows "\<exists>lo. drop k u = (lo @ [u ! (k + n - 2), u ! (k + n - 1)]) @ u ! (k + n) # drop (Suc (k + n)) u \<and>
    length lo = n - 2"
proof -
  let ?w = "take n (drop k u)"
  have len: "length ?w = n" using assms(1) by simp
  have nth: "?w ! (n - 2) = u ! (k + n - 2)" "?w ! (n - 1) = u ! (k + n - 1)"
    using assms by (simp_all add: nth_drop)
  have "drop k u = ?w @ drop n (drop k u)" by (rule append_take_drop_id [symmetric])
  also have "drop n (drop k u) = u ! (k + n) # drop (Suc (k + n)) u"
    using assms(1) by (simp add: Cons_nth_drop_Suc add.commute)
  finally have "drop k u = ?w @ u ! (k + n) # drop (Suc (k + n)) u" .
  moreover have "?w = take (n - 2) ?w @ [u ! (k + n - 2), u ! (k + n - 1)]"
    using split_last2 [of ?w] assms(2) unfolding len nth by blast
  moreover have "length (take (n - 2) ?w) = n - 2" using len by simp
  ultimately show ?thesis by metis
qed

lemma divide_step_val:
  assumes v: "digits_ok v" "2 \<le> length v" "BIGNUM_RADIX_ROOT \<le> last v"
    and u: "digits_ok u" "k + length v < length u" "digits_val (drop (Suc k) u) < digits_val v"
  defines "W \<equiv> digits_val (drop k u)"
  shows "\<exists>w. divide_step v k u = Some (W div digits_val v, take k u @ w) \<and> digits_ok w \<and>
    length w = length u - k \<and> digits_val w = W mod digits_val v \<and> digit_ok (W div digits_val v)"
proof -
  let ?n = "length v" and ?R = BIGNUM_RADIX and ?V = "digits_val v"
  let ?B = "BIGNUM_RADIX ^ (length v - 2)"
  define t u1 u2 v1 v2 hs where "t = u ! (k + ?n)" and "u1 = u ! (k + ?n - 1)" and "u2 = u ! (k + ?n - 2)"
    and "v1 = v ! (?n - 1)" and "v2 = v ! (?n - 2)" and "hs = drop (Suc (k + ?n)) u"
  obtain lo where lo: "drop k u = (lo @ [u2, u1]) @ t # hs" "length lo = ?n - 2"
    using divide_window [OF u(2) v(2)] unfolding t_def u1_def u2_def hs_def by blast
  define vl where "vl = take (?n - 2) v"
  have vs: "v = vl @ [v2, v1]" "length vl = ?n - 2"
    using split_last2 [OF v(2)] by (simp_all add: vl_def v1_def v2_def)
  have ok: "digits_ok lo" "digit_ok u2" "digit_ok u1" "digit_ok t" "digits_ok hs"
    using digits_ok_drop [OF u(1), of k] unfolding lo(1) by simp_all
  have vok: "digits_ok vl" "digit_ok v2" "digit_ok v1" using v(1) unfolding vs(1) by simp_all
  have v1: "BIGNUM_RADIX_ROOT \<le> v1" using v(3) unfolding vs(1) by simp
  have len: "Suc (Suc (?n - 2)) = ?n" using v(2) by simp
  have hs0: "digits_val hs = 0"
    using digits_val_small(1) [OF digits_ok_drop [OF u(1)], of "Suc k" ?n] u(2,3) digits_val_less [OF v(1)]
    by (simp add: hs_def add.commute)
  have V: "?V = digits_val vl + ?B * (v1 * ?R + v2)"
    unfolding vs(1) digits_val_snoc2 vs(2) [unfolded vs(1)] by simp
  have W: "W = digits_val (lo @ [u2, u1]) + ?R ^ ?n * t"
    unfolding W_def lo(1) digits_val_append by (simp add: hs0 lo(2) len)
  have WN: "W = digits_val lo + ?B * ((t * ?R + u1) * ?R + u2)"
  proof -
    have "?R ^ Suc (Suc (?n - 2)) = ?B * (?R * ?R)" by simp
    then have "?R ^ ?n = ?B * (?R * ?R)" unfolding len .
    then show ?thesis unfolding W digits_val_snoc2 lo(2) by (simp add: algebra_simps)
  qed
  have low: "0 \<le> digits_val lo" "digits_val lo < ?B" "0 \<le> digits_val vl" "digits_val vl < ?B"
    using digits_val_nonneg [OF ok(1)] digits_val_less [OF ok(1)] digits_val_nonneg [OF vok(1)]
      digits_val_less [OF vok(1)] by (simp_all add: lo(2) vs(2))
  have "drop k u = u ! k # drop (Suc k) u" using u(2) by (simp add: Cons_nth_drop_Suc)
  then have Wk: "W = u ! k + ?R * digits_val (drop (Suc k) u)" "digit_ok (u ! k)"
    using digits_ok_drop [OF u(1), of k] by (simp_all add: W_def)
  have "?R * digits_val (drop (Suc k) u) \<le> ?R * (?V - 1)" using u(3) by (intro mult_left_mono) simp_all
  then have WV: "W < ?R * ?V" using Wk by (simp add: digit_ok_def algebra_simps)
  have lead: "t * ?R + u1 \<le> v1 * ?R + v2"
    by (rule lead_bound [OF _ radix_pos(1) low(1,4) WN _ WV V]) (use ok in \<open>simp_all add: digit_ok_def\<close>)
  define g where "g = min (?R - 1) (((t * ?R + u1) * ?R + u2) div (v1 * ?R + v2))"
  obtain ch guess where guess: "(if t \<noteq> v1 then bignum_digit_divide t u1 v1
      else Some (fx (u1 + v1), ?R - 1)) = Some (ch, guess)"
      "guess_loop v1 (HD_LOW v2) (HD_HIGH v2) u2 guess ch = Some g"
    using leading_guess [OF ok(4,3,2) vok(3,2) v1 lead] unfolding g_def [symmetric]
    by (auto simp: bind_eq_Some_conv split: if_splits)
  have "0 \<le> (t * ?R + u1) * ?R + u2" "?R \<le> v1 * ?R + v2"
    using ok vok v1 mult_right_mono [of 1 v1 ?R] radix_pos by (simp_all add: digit_ok_def bignum_num)
  note est = quotient_estimate [OF _ low(3,4) low(1,2) WN WV V this(2,1) radix_pos(1), folded g_def]
  have Vpos: "0 < ?V" using V low(3) vok v1 by (simp add: digit_ok_def bignum_num add_nonneg_pos)
  have q0: "0 \<le> W div ?V" using digits_val_nonneg [OF digits_ok_drop [OF u(1)], of k] Vpos
    by (simp add: W_def pos_imp_zdiv_nonneg_iff)
  have gd: "digit_ok g" "digit_ok (W div ?V)" using est(1) q0 by (simp_all add: g_def digit_ok_def)
  have w: "digits_ok (lo @ [u2, u1])" "length (lo @ [u2, u1]) = ?n" using ok lo(2) len by simp_all
  obtain w' where w': "bignum_divide_subtract v g ((lo @ [u2, u1]) @ t # hs) = Some (W div ?V, w' @ 0 # hs)"
      "digits_ok w'" "length w' = ?n" "digits_val w' = W mod ?V"
    using bignum_divide_subtract_val [OF v(1) w ok(4) gd(1) ok(5) Vpos] est unfolding W [symmetric] by auto
  have "divide_step v k u = Some (W div ?V, take k u @ (w' @ 0 # hs))"
    unfolding divide_step_def Let_def t_def [symmetric] u1_def [symmetric] u2_def [symmetric]
      v1_def [symmetric] v2_def [symmetric] lo(1) guess(1) using guess(2) w'(1) by simp
  moreover have "length (w' @ 0 # hs) = length u - k" using u(2) w'(3) by (simp add: hs_def)
  moreover have "digits_val (w' @ 0 # hs) = W mod ?V" by (simp add: digits_val_append hs0 w'(4))
  moreover have "digits_ok (w' @ 0 # hs)" using w'(2) ok(5) by (simp add: digit_ok_def)
  ultimately show ?thesis using gd(2) by blast
qed

subsection \<open>Long division\<close>

lemma divide_loop_val:
  assumes v: "digits_ok v" "2 \<le> length v" "BIGNUM_RADIX_ROOT \<le> last v"
    and "digits_ok u" "k + length v \<le> length u" "digits_val (drop k u) < digits_val v"
  shows "\<exists>u' qs. divide_loop v k u q = Some (u', qs @ q) \<and> digits_ok u' \<and> length u' = length u \<and>
    digits_ok qs \<and> length qs = k \<and>
    digits_val u = digits_val qs * digits_val v + digits_val u' \<and> digits_val u' < digits_val v"
  using assms(4-)
proof (induction k arbitrary: u q)
  case 0
  then show ?case by simp
next
  case (Suc k)
  let ?V = "digits_val v" and ?W = "digits_val (drop k u)"
  have len: "k + length v < length u" "length (take k u) = k" using Suc.prems(2) v(2) by simp_all
  obtain w where w: "divide_step v k u = Some (?W div ?V, take k u @ w)" "digits_ok w" "length w = length u - k"
      "digits_val w = ?W mod ?V" "digit_ok (?W div ?V)"
    using divide_step_val [OF v Suc.prems(1) len(1) Suc.prems(3)] by blast
  have "0 \<le> digits_val (drop (Suc k) u)" using digits_val_nonneg Suc.prems(1) by simp
  with Suc.prems(3) have V: "0 < ?V" by linarith
  have "digits_ok (take k u @ w)" "k + length v \<le> length (take k u @ w)"
      "digits_val (drop k (take k u @ w)) < ?V"
    using Suc.prems(1) len w(2-4) pos_mod_bound [OF V] by simp_all
  from Suc.IH [OF this, of "?W div ?V # q"] obtain u' qs where
    ih: "divide_loop v k (take k u @ w) (?W div ?V # q) = Some (u', qs @ ?W div ?V # q)" "digits_ok u'"
      "length u' = length (take k u @ w)" "digits_ok qs" "length qs = k"
      "digits_val (take k u @ w) = digits_val qs * ?V + digits_val u'" "digits_val u' < ?V" by blast
  have "digits_val u = digits_val (take k u) + BIGNUM_RADIX ^ k * ?W"
    using digits_val_append [of "take k u" "drop k u"] len(2) by simp
  also have "\<dots> = digits_val (take k u @ w) + BIGNUM_RADIX ^ k * (?W div ?V * ?V)"
    unfolding digits_val_append len(2) w(4) distrib_left [symmetric] add.assoc by (simp add: add.commute)
  finally have "digits_val u = digits_val (qs @ [?W div ?V]) * ?V + digits_val u'"
    using ih(5,6) by (simp add: digits_val_append algebra_simps)
  moreover have "divide_loop v (Suc k) u q = Some (u', (qs @ [?W div ?V]) @ q)" using ih(1) w(1) by simp
  moreover have "length u' = length u" "digits_ok (qs @ [?W div ?V])" "length (qs @ [?W div ?V]) = Suc k"
    using ih(3-5) w(3,5) len by simp_all
  ultimately show ?case using ih(2,7) by blast
qed

text \<open>The precondition: the top digit of \<open>u\<close> is below the top digit of \<open>v\<close>.\<close>

lemma top_digit_less:
  assumes "digits_ok xs" "digits_ok ys" "length xs = length ys" "xs \<noteq> []" "last xs < last ys"
  shows "digits_val xs < digits_val ys"
proof -
  obtain xl x yl y where x: "xs = xl @ [x]" "ys = yl @ [y]" "length xl = length yl"
    using assms(3,4) by (cases xs rule: rev_cases; cases ys rule: rev_cases) auto
  have "digits_val xl < BIGNUM_RADIX ^ length yl" "0 \<le> digits_val yl"
    using assms(1,2) digits_val_less [of xl] digits_val_nonneg [of yl] by (simp_all add: x)
  moreover have "BIGNUM_RADIX ^ length yl * (x + 1) \<le> BIGNUM_RADIX ^ length yl * y"
    using assms(5) by (intro mult_left_mono) (simp_all add: x)
  ultimately show ?thesis by (simp add: x digits_val_append distrib_left)
qed

lemma bignum_divide_unsigned_normalized_val:
  assumes v: "digits_ok (digits v)" "2 \<le> BIGNUM_LENGTH v" "BIGNUM_RADIX_ROOT \<le> last (digits v)"
    and u: "digits_ok (digits u)" "BIGNUM_LENGTH v \<le> BIGNUM_LENGTH u" "last (digits u) < last (digits v)"
  shows "\<exists>ud qd. bignum_divide_unsigned_normalized u v q =
      Some (u\<lparr>digits := ud\<rparr>, map_option (\<lambda>q. q\<lparr>digits := qd\<rparr>) q) \<and>
    digits_ok ud \<and> length ud = BIGNUM_LENGTH u \<and> digits_ok qd \<and> length qd = BIGNUM_LENGTH u - BIGNUM_LENGTH v \<and>
    digits_val qd = digits_val (digits u) div digits_val (digits v) \<and>
    digits_val ud = digits_val (digits u) mod digits_val (digits v)"
proof -
  let ?k = "BIGNUM_LENGTH u - BIGNUM_LENGTH v"
  have len: "?k + length (digits v) \<le> length (digits u)" "2 \<le> length (digits v)"
    using u(2) v(2) by (simp_all add: BIGNUM_LENGTH_def)
  have "digits_val (drop ?k (digits u)) < digits_val (digits v)"
    using v u len by (intro top_digit_less) (auto simp: BIGNUM_LENGTH_def)
  from divide_loop_val [OF v(1) len(2) v(3) u(1) len(1) this, of "[]"] obtain ud qd where
    d: "divide_loop (digits v) ?k (digits u) [] = Some (ud, qd)" "digits_ok ud" "length ud = length (digits u)"
      "digits_ok qd" "length qd = ?k"
      "digits_val qd * digits_val (digits v) + digits_val ud = digits_val (digits u)"
      "digits_val ud < digits_val (digits v)" by auto
  have "bignum_divide_unsigned_normalized u v q = Some (u\<lparr>digits := ud\<rparr>, map_option (\<lambda>q. q\<lparr>digits := qd\<rparr>) q)"
    using d(1) by (simp add: bignum_divide_unsigned_normalized_def)
  moreover have "length ud = BIGNUM_LENGTH u" using d(3) by (simp add: BIGNUM_LENGTH_def)
  ultimately show ?thesis
    using d(2,4,5) div_mod_unique [OF d(6) digits_val_nonneg [OF d(2)] d(7), symmetric] by blast
qed

subsection \<open>Large denominators\<close>

lemma last_digit_bounds:
  assumes "digits_ok ds" "ds \<noteq> []"
  shows "last ds * BIGNUM_RADIX ^ (length ds - 1) \<le> digits_val ds"
    "digits_val ds < (last ds + 1) * BIGNUM_RADIX ^ (length ds - 1)"
proof -
  obtain xs d where ds: "ds = xs @ [d]" using assms(2) by (cases ds rule: rev_cases) auto
  then have "0 \<le> digits_val xs" "digits_val xs < BIGNUM_RADIX ^ length xs"
    using assms(1) digits_val_nonneg digits_val_less by simp_all
  then show "last ds * BIGNUM_RADIX ^ (length ds - 1) \<le> digits_val ds"
    "digits_val ds < (last ds + 1) * BIGNUM_RADIX ^ (length ds - 1)"
    by (simp_all add: ds digits_val_append algebra_simps)
qed

text \<open>The shift makes the top digit of the divisor at least half the radix without overflow.\<close>

lemma normalized_divisor:
  assumes ds: "digits_ok ds" "ds \<noteq> []" and s: "s < 62"
    and top: "BIGNUM_RADIX div 2 \<le> last ds * 2 ^ s" "last ds * 2 ^ s < BIGNUM_RADIX"
  shows "2 ^ s * digits_val ds < BIGNUM_RADIX ^ length ds"
    and "\<lbrakk>digits_ok vs; length vs = length ds; digits_val vs = 2 ^ s * digits_val ds\<rbrakk> \<Longrightarrow>
      BIGNUM_RADIX div 2 \<le> last vs"
proof -
  let ?P = "BIGNUM_RADIX ^ (length ds - 1)"
  note b = last_digit_bounds [OF ds]
  have len: "BIGNUM_RADIX ^ length ds = BIGNUM_RADIX * ?P"
    using ds(2) by (cases ds) simp_all
  have "last ds < 2 ^ (62 - s)"
    using top(2) unfolding split_radix [OF less_imp_le [OF s]] mult.commute [of "2 ^ s"] by simp
  then have "(last ds + 1) * 2 ^ s \<le> 2 ^ (62 - s) * 2 ^ s" by (intro mult_right_mono) simp_all
  then have up: "2 ^ s * (last ds + 1) \<le> BIGNUM_RADIX"
    unfolding split_radix [OF less_imp_le [OF s]] by (simp add: mult.commute)
  have "2 ^ s * digits_val ds < 2 ^ s * ((last ds + 1) * ?P)" using b(2) by simp
  also have "\<dots> \<le> BIGNUM_RADIX * ?P" using up by (simp add: mult.assoc [symmetric] mult_right_mono)
  finally show "2 ^ s * digits_val ds < BIGNUM_RADIX ^ length ds" unfolding len .
  assume vs: "digits_ok vs" "length vs = length ds" "digits_val vs = 2 ^ s * digits_val ds"
  then have "vs \<noteq> []" using ds(2) by auto
  have "BIGNUM_RADIX div 2 * ?P \<le> last ds * 2 ^ s * ?P" using top(1) by (intro mult_right_mono) simp_all
  also have "\<dots> = 2 ^ s * (last ds * ?P)" by (simp add: algebra_simps)
  also have "\<dots> \<le> digits_val vs" unfolding vs(3) using b(1) by (intro mult_left_mono) simp_all
  also have "\<dots> < (last vs + 1) * ?P" using last_digit_bounds(2) [OF vs(1) \<open>vs \<noteq> []\<close>] by (simp add: vs(2))
  finally have "BIGNUM_RADIX div 2 < last vs + 1" by (simp add: mult_less_cancel_right_pos)
  then show "BIGNUM_RADIX div 2 \<le> last vs" by linarith
qed

lemma large_denominator_unshifted:
  fixes mem :: "nat \<Rightarrow> fixnum" and rn :: bool
  assumes n: "bignum_wf n" and d: "bignum_wf d" "2 \<le> BIGNUM_LENGTH d" "BIGNUM_LENGTH d \<le> BIGNUM_LENGTH n"
    and top: "BIGNUM_RADIX div 2 \<le> last (digits d)"
  defines "u \<equiv> bignum_destructive_copy n (allot_bignum mem (BIGNUM_LENGTH n + 1) rn)"
  shows "\<exists>ud qd. bignum_divide_unsigned_normalized (u\<lparr>digits := (digits u)[BIGNUM_LENGTH n := 0]\<rparr>) d q =
      Some (mk_bignum rn ud, map_option (\<lambda>q. q\<lparr>digits := qd\<rparr>) q) \<and> digits_ok ud \<and> ud \<noteq> [] \<and>
    digits_ok qd \<and> qd \<noteq> [] \<and> digits_val qd = \<bar>bignum_val n\<bar> div \<bar>bignum_val d\<bar> \<and>
    digits_val ud = \<bar>bignum_val n\<bar> mod \<bar>bignum_val d\<bar>"
proof -
  let ?u = "mk_bignum rn (digits n @ [0])"
  have u: "u\<lparr>digits := (digits u)[BIGNUM_LENGTH n := 0]\<rparr> = ?u"
    unfolding u_def bignum_destructive_copy_exact(2) by (simp add: BIGNUM_LENGTH_def)
  have v: "digits_ok (digits d)" "BIGNUM_RADIX_ROOT \<le> last (digits d)"
    using d(1) top by (simp_all add: bignum_wf_def bignum_num)
  have len: "BIGNUM_LENGTH ?u = BIGNUM_LENGTH n + 1" by (simp add: BIGNUM_LENGTH_def)
  have "digits_ok (digits ?u)" "BIGNUM_LENGTH d \<le> BIGNUM_LENGTH ?u" "last (digits ?u) < last (digits d)"
    using bignum_wf_digits [OF n] d(3) top len by (simp_all add: digit_ok_def bignum_num)
  from bignum_divide_unsigned_normalized_val [OF v(1) d(2) v(2) this, of q] obtain ud qd where
    r: "bignum_divide_unsigned_normalized ?u d q = Some (?u\<lparr>digits := ud\<rparr>, map_option (\<lambda>q. q\<lparr>digits := qd\<rparr>) q)"
      "digits_ok ud" "length ud = BIGNUM_LENGTH ?u" "digits_ok qd" "length qd = BIGNUM_LENGTH ?u - BIGNUM_LENGTH d"
      "digits_val qd = digits_val (digits ?u) div digits_val (digits d)"
      "digits_val ud = digits_val (digits ?u) mod digits_val (digits d)" by blast
  have "digits_val (digits ?u) = \<bar>bignum_val n\<bar>" by (simp add: digits_val_append bignum_abs_val [OF n])
  moreover have "ud \<noteq> []" "qd \<noteq> []" using r(3,5) len d(3) by auto
  ultimately show ?thesis using r unfolding u bignum_abs_val [OF d(1)] mk_bignum_update by metis
qed

lemma large_denominator_shifted:
  assumes n: "bignum_wf n" and d: "bignum_wf d" "2 \<le> BIGNUM_LENGTH d" "BIGNUM_LENGTH d \<le> BIGNUM_LENGTH n"
    and s: "s < 62" "BIGNUM_RADIX div 2 \<le> last (digits d) * 2 ^ s" "last (digits d) * 2 ^ s < BIGNUM_RADIX"
  shows "\<exists>ud qd. (do {
       u1 \<leftarrow> bignum_destructive_normalization n (allot_bignum mem (BIGNUM_LENGTH n + 1) rn) s;
       v \<leftarrow> bignum_destructive_normalization d (allot_bignum mem (BIGNUM_LENGTH d) False) s;
       (u2, q2) \<leftarrow> bignum_divide_unsigned_normalized u1 v q;
       u3 \<leftarrow> (if want_r then bignum_destructive_unnormalization u2 s else Some u2);
       Some (u3, q2)
     }) = Some (mk_bignum rn ud, map_option (\<lambda>q. q\<lparr>digits := qd\<rparr>) q) \<and> digits_ok ud \<and> ud \<noteq> [] \<and>
    digits_ok qd \<and> qd \<noteq> [] \<and> digits_val qd = \<bar>bignum_val n\<bar> div \<bar>bignum_val d\<bar> \<and>
    (want_r \<longrightarrow> digits_val ud = \<bar>bignum_val n\<bar> mod \<bar>bignum_val d\<bar>)"
proof -
  let ?N = "\<bar>bignum_val n\<bar>" and ?D = "\<bar>bignum_val d\<bar>"
  have ok: "digits_ok (digits n)" "digits_ok (digits d)" "digits d \<noteq> []"
    using n d(1,2) by (auto simp: bignum_wf_def BIGNUM_LENGTH_def)
  note nd = normalized_divisor [OF ok(2,3) s]
  obtain us where us: "bignum_destructive_normalization n (allot_bignum mem (BIGNUM_LENGTH n + 1) rn) s =
      Some (mk_bignum rn us)" "digits_ok us" "length us = BIGNUM_LENGTH n + 1" "digits_val us = 2 ^ s * ?N"
      "last us < 2 ^ s"
    using bignum_destructive_normalization_val [OF ok(1), of s "allot_bignum mem (BIGNUM_LENGTH n + 1) rn"] s(1)
    by (auto simp: bignum_abs_val [OF n])
  obtain vs where vs: "bignum_destructive_normalization d (allot_bignum mem (BIGNUM_LENGTH d) False) s =
      Some (mk_bignum False vs)" "digits_ok vs" "length vs = BIGNUM_LENGTH d" "digits_val vs = 2 ^ s * ?D"
    using bignum_destructive_normalization_val [OF ok(2), of s "allot_bignum mem (BIGNUM_LENGTH d) False"] s(1)
      nd(1) [folded BIGNUM_LENGTH_def] by (auto simp: bignum_abs_val [OF d(1)])
  have top: "BIGNUM_RADIX div 2 \<le> last vs"
    using nd(2) [of vs] vs by (simp add: bignum_abs_val [OF d(1)] BIGNUM_LENGTH_def)
  have "(2::int) ^ s \<le> 2 ^ 61" using s(1) by (intro power_increasing) simp_all
  then have "last us < last vs" using us(5) top by (simp add: bignum_num)
  moreover have "BIGNUM_RADIX_ROOT \<le> last vs" using top by (simp add: bignum_num)
  ultimately obtain ud qd where
    r: "bignum_divide_unsigned_normalized (mk_bignum rn us) (mk_bignum False vs) q =
        Some (mk_bignum rn ud, map_option (\<lambda>q. q\<lparr>digits := qd\<rparr>) q)"
      "digits_ok ud" "length ud = BIGNUM_LENGTH n + 1" "digits_ok qd"
      "length qd = BIGNUM_LENGTH n + 1 - BIGNUM_LENGTH d"
      "digits_val qd = ?N div ?D" "digits_val ud = 2 ^ s * (?N mod ?D)"
    using bignum_divide_unsigned_normalized_val [of "mk_bignum False vs" "mk_bignum rn us" q] us(2-4) vs(2-4) d(2,3)
    by (auto simp: BIGNUM_LENGTH_def scaled_div_mod mult.commute [of "2 ^ s" "\<bar>bignum_val d\<bar>"])
  obtain ud' where un: "bignum_destructive_unnormalization (mk_bignum rn ud) s = Some (mk_bignum rn ud')"
      "digits_ok ud'" "length ud' = length ud" "digits_val ud' * 2 ^ s = 2 ^ s * (?N mod ?D)"
    using bignum_destructive_unnormalization_val [of "mk_bignum rn ud" s] r(2,7) s(1) by (auto simp: BIGNUM_LENGTH_def)
  have "ud \<noteq> []" "qd \<noteq> []" "ud' \<noteq> []" using r(3,5) un(3) d(3) by auto
  then show ?thesis
    using us(1) vs(1) r(1,2,4,6) un
    by (intro exI [of _ "if want_r then ud' else ud", OF exI [of _ qd]]) simp
qed

lemma bignum_divide_unsigned_large_denominator_val:
  assumes n: "bignum_wf n" and d: "bignum_wf d" "2 \<le> BIGNUM_LENGTH d" "BIGNUM_LENGTH d \<le> BIGNUM_LENGTH n"
  shows "\<exists>q r. bignum_divide_unsigned_large_denominator mem n d want_q want_r qn rn =
      Some (if want_q then Some q else None, if want_r then Some r else None) \<and>
    bignum_wf q \<and> bignum_val q = signed_val qn (\<bar>bignum_val n\<bar> div \<bar>bignum_val d\<bar>) \<and>
    (want_r \<longrightarrow> bignum_wf r \<and> bignum_val r = signed_val rn (\<bar>bignum_val n\<bar> mod \<bar>bignum_val d\<bar>))"
proof -
  have ne: "digits d \<noteq> []" using d(2) by (auto simp: BIGNUM_LENGTH_def)
  then have "last (digits d) \<in> set (digits d)" by simp
  then have "digit_ok (last (digits d))"
    using bignum_wf_digits [OF d(1)] by (auto simp: digits_ok_def list_all_iff)
  then have top: "0 < last (digits d)" "last (digits d) < BIGNUM_RADIX"
    using d(1) ne by (auto simp: bignum_wf_def digit_ok_def)
  have ref: "BIGNUM_REF d (BIGNUM_LENGTH d - 1) = last (digits d)"
    using ne by (simp add: BIGNUM_REF_def BIGNUM_LENGTH_def last_conv_nth)
  obtain s where s: "normalization_shift (last (digits d)) 0 = Some (last (digits d) * 2 ^ s, s)"
      "BIGNUM_RADIX div 2 \<le> last (digits d) * 2 ^ s" "last (digits d) * 2 ^ s < BIGNUM_RADIX" "s < 62"
    using normalization_shift_val [OF top, of 0] unfolding add_0 by blast
  define Q where "Q = (if want_q then Some (allot_bignum mem (BIGNUM_LENGTH n + 1 - BIGNUM_LENGTH d) qn) else None)"
  let ?u = "bignum_destructive_copy n (allot_bignum mem (BIGNUM_LENGTH n + 1) rn)"
  let ?inner = "if s = 0 then bignum_divide_unsigned_normalized (?u\<lparr>digits := (digits ?u)[BIGNUM_LENGTH n := 0]\<rparr>) d Q
     else do {
       u1 \<leftarrow> bignum_destructive_normalization n (allot_bignum mem (BIGNUM_LENGTH n + 1) rn) s;
       v \<leftarrow> bignum_destructive_normalization d (allot_bignum mem (BIGNUM_LENGTH d) False) s;
       (u2, q2) \<leftarrow> bignum_divide_unsigned_normalized u1 v Q;
       u3 \<leftarrow> (if want_r then bignum_destructive_unnormalization u2 s else Some u2);
       Some (u3, q2)
     }"
  have body: "bignum_divide_unsigned_large_denominator mem n d want_q want_r qn rn =
      Option.bind ?inner (\<lambda>(u, q). Some (map_option bignum_trim q, if want_r then Some (bignum_trim u) else None))"
    unfolding bignum_divide_unsigned_large_denominator_def Let_def ref s(1) Q_def using d(2) by simp
  obtain ud qd where r: "?inner = Some (mk_bignum rn ud, map_option (\<lambda>q. q\<lparr>digits := qd\<rparr>) Q)"
      "digits_ok ud" "ud \<noteq> []" "digits_ok qd" "qd \<noteq> []" "digits_val qd = \<bar>bignum_val n\<bar> div \<bar>bignum_val d\<bar>"
      "want_r \<longrightarrow> digits_val ud = \<bar>bignum_val n\<bar> mod \<bar>bignum_val d\<bar>"
  proof (cases "s = 0")
    case True
    with s(2) have "BIGNUM_RADIX div 2 \<le> last (digits d)" by simp
    from large_denominator_unshifted [OF n d this, of mem rn Q] True show ?thesis
      using that unfolding if_P [OF True] by blast
  next
    case False
    from large_denominator_shifted [OF n d s(4,2,3), of mem rn Q want_r] show ?thesis
      using that unfolding if_not_P [OF False] by blast
  qed
  have result: "bignum_divide_unsigned_large_denominator mem n d want_q want_r qn rn =
      Some (map_option (\<lambda>q. bignum_trim (q\<lparr>digits := qd\<rparr>)) Q, if want_r then Some (bignum_trim (mk_bignum rn ud)) else None)"
    unfolding body r(1) by (simp add: option.map_comp comp_def)
  have "bignum_wf (bignum_trim (mk_bignum qn qd))" "bignum_wf (bignum_trim (mk_bignum rn ud))"
    using r(2-5) by (simp_all add: bignum_trim_mk_wf)
  then show ?thesis
    using r(6,7) unfolding result Q_def
    by (intro exI [of _ "bignum_trim (mk_bignum qn qd)", OF exI [of _ "bignum_trim (mk_bignum rn ud)"]]) simp
qed

subsection \<open>Signed division\<close>

lemma division_cases:
  assumes n: "bignum_wf n" and d: "bignum_wf d" and nz: "\<not> BIGNUM_ZERO_P n" "\<not> BIGNUM_ZERO_P d"
  obtains (equal) "bignum_compare_unsigned n d = BIGNUM_COMPARISON_EQUAL" "\<bar>bignum_val n\<bar> = \<bar>bignum_val d\<bar>"
  | (less) "bignum_compare_unsigned n d = BIGNUM_COMPARISON_LESS" "\<bar>bignum_val n\<bar> < \<bar>bignum_val d\<bar>"
  | (one) "bignum_compare_unsigned n d = BIGNUM_COMPARISON_GREATER" "BIGNUM_LENGTH d = 1" "BIGNUM_REF d 0 = 1"
      "\<bar>bignum_val d\<bar> = 1"
  | (small) "bignum_compare_unsigned n d = BIGNUM_COMPARISON_GREATER" "BIGNUM_LENGTH d = 1" "1 < BIGNUM_REF d 0"
      "BIGNUM_REF d 0 < BIGNUM_RADIX_ROOT" "\<bar>bignum_val d\<bar> = BIGNUM_REF d 0"
  | (medium) "bignum_compare_unsigned n d = BIGNUM_COMPARISON_GREATER" "BIGNUM_LENGTH d = 1"
      "digit_ok (BIGNUM_REF d 0)" "BIGNUM_RADIX_ROOT \<le> BIGNUM_REF d 0" "\<bar>bignum_val d\<bar> = BIGNUM_REF d 0"
      "1 < BIGNUM_REF d 0"
  | (large) "bignum_compare_unsigned n d = BIGNUM_COMPARISON_GREATER" "BIGNUM_LENGTH d \<noteq> 1"
      "2 \<le> BIGNUM_LENGTH d" "BIGNUM_LENGTH d \<le> BIGNUM_LENGTH n"
proof -
  have cmp: "bignum_compare_unsigned n d = compare_int \<bar>bignum_val n\<bar> \<bar>bignum_val d\<bar>"
    by (rule bignum_compare_unsigned_val [OF n d])
  consider "\<bar>bignum_val n\<bar> = \<bar>bignum_val d\<bar>" | "\<bar>bignum_val n\<bar> < \<bar>bignum_val d\<bar>"
    | "\<bar>bignum_val d\<bar> < \<bar>bignum_val n\<bar>" by linarith
  then show ?thesis
  proof cases
    case 1
    then show ?thesis using cmp equal by (simp add: compare_int_def)
  next
    case 2
    then show ?thesis using cmp less by (simp add: compare_int_def)
  next
    case 3
    then have gt: "bignum_compare_unsigned n d = BIGNUM_COMPARISON_GREATER" using cmp by (simp add: compare_int_def)
    show ?thesis
    proof (cases "BIGNUM_LENGTH d = 1")
      case True
      note dg = bignum_single_digit [OF d True]
      consider "BIGNUM_REF d 0 = 1" | "1 < BIGNUM_REF d 0" "BIGNUM_REF d 0 < BIGNUM_RADIX_ROOT"
        | "BIGNUM_RADIX_ROOT \<le> BIGNUM_REF d 0" using dg(2) by linarith
      then show ?thesis
        using one [OF gt True] small [OF gt True] medium [OF gt True] dg by cases (simp_all add: digit_ok_def bignum_num)
    next
      case False
      have "BIGNUM_LENGTH d \<le> BIGNUM_LENGTH n"
        using bignum_length_less_val [OF n d] 3 by linarith
      moreover have "2 \<le> BIGNUM_LENGTH d" using False nz(2) by (auto simp: BIGNUM_ZERO_P_def)
      ultimately show ?thesis using large [OF gt False] by blast
    qed
  qed
qed

lemma signed_quotient:
  assumes "bignum_wf n" "bignum_wf d"
  shows "signed_val (if negative_p d then \<not> negative_p n else negative_p n) (\<bar>bignum_val n\<bar> div \<bar>bignum_val d\<bar>) =
      bignum_val n sdiv bignum_val d"
    and "signed_val (negative_p n) (\<bar>bignum_val n\<bar> mod \<bar>bignum_val d\<bar>) = bignum_val n smod bignum_val d"
  unfolding bignum_negative_val [OF assms(1)] bignum_negative_val [OF assms(2)]
  by (simp_all add: signed_val_def signed_divide_int_def signed_modulo_int_def sgn_if)

lemma bignum_digit_remainder:
  assumes "bignum_wf n" "digit_ok d" "0 < d"
  shows "bignum_wf (bignum_digit_to_bignum (\<bar>bignum_val n\<bar> mod d) neg)"
    "bignum_val (bignum_digit_to_bignum (\<bar>bignum_val n\<bar> mod d) neg) = signed_val neg (\<bar>bignum_val n\<bar> mod d)"
proof -
  have "digit_ok (\<bar>bignum_val n\<bar> mod d)"
    using assms(2) pos_mod_sign [OF assms(3)] pos_mod_bound [OF assms(3), of "\<bar>bignum_val n\<bar>"]
    by (simp add: digit_ok_def)
  then show "bignum_wf (bignum_digit_to_bignum (\<bar>bignum_val n\<bar> mod d) neg)"
    "bignum_val (bignum_digit_to_bignum (\<bar>bignum_val n\<bar> mod d) neg) = signed_val neg (\<bar>bignum_val n\<bar> mod d)"
    by (simp_all add: bignum_digit_to_bignum_ok)
qed

lemma bignum_divide_val:
  assumes n: "bignum_wf n" and d: "bignum_wf d" and nz: "bignum_val d \<noteq> 0"
  shows "\<exists>q r. bignum_divide mem n d = Some (Inr (q, r)) \<and> bignum_wf q \<and> bignum_wf r \<and>
    bignum_val q = bignum_val n sdiv bignum_val d \<and> bignum_val r = bignum_val n smod bignum_val d"
proof (cases "BIGNUM_ZERO_P n")
  case True
  then show ?thesis
    using n d nz bignum_zero_p_val [OF n] bignum_zero_p_val [OF d] by (simp add: bignum_divide_def)
next
  case False
  have nzd: "\<not> BIGNUM_ZERO_P d" using nz bignum_zero_p_val [OF d] by simp
  let ?qn = "if negative_p d then \<not> negative_p n else negative_p n"
  note sq = signed_quotient [OF n d, symmetric] and simps = False nzd bignum_divide_def Let_def
  show ?thesis
    using n d False nzd
  proof (cases rule: division_cases)
    case equal
    then show ?thesis unfolding sq using nz by (simp add: simps(3,4) False nzd) (simp add: signed_val_def)
  next
    case less
    then show ?thesis unfolding sq using n by (simp add: simps(3,4) False nzd) (simp add: signed_val_def bignum_negative_val)
  next
    case one
    then show ?thesis
      unfolding sq using n False bignum_new_sign_wf [OF n False]
      by (simp add: simps(3,4) nzd bignum_abs_val) (simp add: signed_val_def)
  next
    case small
    then show ?thesis
      unfolding sq
      using bignum_divide_unsigned_small_denominator_val [OF small(3,4) n False, of True ?qn "negative_p n"]
        bignum_digit_remainder [OF n, of "BIGNUM_REF d 0" "negative_p n"]
      by (auto simp: simps(3,4) False nzd digit_ok_def bignum_num)
  next
    case medium
    then show ?thesis
      unfolding sq
      using bignum_divide_unsigned_medium_denominator_val [OF medium(3,4) n False, of mem True True ?qn "negative_p n"]
        bignum_digit_remainder [OF n medium(3), of "negative_p n"] medium
      by (auto simp: simps(3,4) False nzd)
  next
    case large
    then show ?thesis
      unfolding sq
      using bignum_divide_unsigned_large_denominator_val [OF n d large(3,4), of mem True True ?qn "negative_p n"]
      by (auto simp: simps(3,4) False nzd)
  qed
qed

lemma bignum_quotient_val:
  assumes n: "bignum_wf n" and d: "bignum_wf d" and nz: "bignum_val d \<noteq> 0"
  shows "\<exists>q. bignum_quotient mem n d = Some (Inr q) \<and> bignum_wf q \<and>
    bignum_val q = bignum_val n sdiv bignum_val d"
proof (cases "BIGNUM_ZERO_P n")
  case True
  then show ?thesis
    using n d nz bignum_zero_p_val [OF n] bignum_zero_p_val [OF d] by (simp add: bignum_quotient_def)
next
  case False
  have nzd: "\<not> BIGNUM_ZERO_P d" using nz bignum_zero_p_val [OF d] by simp
  let ?qn = "if negative_p d then \<not> negative_p n else negative_p n"
  note sq = signed_quotient [OF n d, symmetric] and def = bignum_quotient_def Let_def
  show ?thesis
    using n d False nzd
  proof (cases rule: division_cases)
    case equal
    then show ?thesis unfolding sq using nz by (simp add: def False nzd)
  next
    case less
    then show ?thesis unfolding sq by (simp add: def False nzd signed_val_def)
  next
    case one
    then show ?thesis
      unfolding sq using n False bignum_new_sign_wf [OF n False] by (simp add: def nzd bignum_abs_val)
  next
    case small
    then show ?thesis
      unfolding sq
      using bignum_divide_unsigned_small_denominator_val [OF small(3,4) n False, of False ?qn False]
      by (auto simp: def False nzd)
  next
    case medium
    then show ?thesis
      unfolding sq
      using bignum_divide_unsigned_medium_denominator_val [OF medium(3,4) n False, of mem True False ?qn False]
      by (auto simp: def False nzd)
  next
    case large
    then show ?thesis
      unfolding sq
      using bignum_divide_unsigned_large_denominator_val [OF n d large(3,4), of mem True False ?qn False]
      by (auto simp: def False nzd)
  qed
qed

lemma bignum_remainder_val:
  assumes n: "bignum_wf n" and d: "bignum_wf d" and nz: "bignum_val d \<noteq> 0"
  shows "\<exists>r. bignum_remainder mem n d = Some (Inr r) \<and> bignum_wf r \<and>
    bignum_val r = bignum_val n smod bignum_val d"
proof (cases "BIGNUM_ZERO_P n")
  case True
  then show ?thesis
    using n d nz bignum_zero_p_val [OF n] bignum_zero_p_val [OF d] by (simp add: bignum_remainder_def)
next
  case False
  have nzd: "\<not> BIGNUM_ZERO_P d" using nz bignum_zero_p_val [OF d] by simp
  note sq = signed_quotient [OF n d, symmetric] and def = bignum_remainder_def Let_def
  show ?thesis
    using n d False nzd
  proof (cases rule: division_cases)
    case equal
    then show ?thesis unfolding sq using nz by (simp add: def False nzd) (simp add: signed_val_def)
  next
    case less
    then show ?thesis
      unfolding sq using n by (simp add: def False nzd) (simp add: signed_val_def bignum_negative_val)
  next
    case one
    then show ?thesis unfolding sq by (simp add: def False nzd) (simp add: signed_val_def)
  next
    case small
    then show ?thesis
      unfolding sq
      using bignum_remainder_unsigned_small_denominator_val [OF small(3,4) n, of "negative_p n"]
        bignum_digit_remainder [OF n, of "BIGNUM_REF d 0" "negative_p n"]
      by (simp add: def False nzd digit_ok_def bignum_num)
  next
    case medium
    then show ?thesis
      unfolding sq
      using bignum_divide_unsigned_medium_denominator_val [OF medium(3,4) n False, of mem False True False "negative_p n"]
        bignum_digit_remainder [OF n medium(3), of "negative_p n"]
      by (auto simp: def False nzd)
  next
    case large
    then show ?thesis
      unfolding sq
      using bignum_divide_unsigned_large_denominator_val [OF n d large(3,4), of mem False True False "negative_p n"]
      by (auto simp: def False nzd)
  qed
qed

text \<open>
  Quotient and remainder as instances of the shared contract: a denominator of zero is
  outside the domain, where both raise \<open>ERROR_DIVIDE_BY_ZERO\<close>.
\<close>

definition returned :: "'a outcome \<Rightarrow> 'a option" where
  "returned r = (case r of Some (Inr x) \<Rightarrow> Some x | _ \<Rightarrow> None)"

interpretation bignum_quotient: bignum_binop "\<lambda>x y. returned (bignum_quotient mem x y)" "(sdiv)" "\<lambda>_ b. b \<noteq> 0" for mem
  by unfold_locales (frule (2) bignum_quotient_val [of _ _ mem], auto simp: returned_def)

interpretation bignum_remainder: bignum_binop "\<lambda>x y. returned (bignum_remainder mem x y)" "(smod)" "\<lambda>_ b. b \<noteq> 0" for mem
  by unfold_locales (frule (2) bignum_remainder_val [of _ _ mem], auto simp: returned_def)

lemma bignum_divide_by_zero:
  "bignum_wf d \<Longrightarrow> bignum_val d = 0 \<Longrightarrow>
   bignum_divide mem n d = Some (Inl ERROR_DIVIDE_BY_ZERO) \<and>
   bignum_quotient mem n d = Some (Inl ERROR_DIVIDE_BY_ZERO) \<and>
   bignum_remainder mem n d = Some (Inl ERROR_DIVIDE_BY_ZERO)"
  by (simp add: bignum_divide_def bignum_quotient_def bignum_remainder_def bignum_zero_p_val)

lemma smod_sign:
  fixes a d :: int
  assumes "d \<noteq> 0"
  shows "a smod d = 0 \<or> sgn (a smod d) = sgn a"
proof (cases "\<bar>a\<bar> mod \<bar>d\<bar> = 0")
  case True
  then show ?thesis unfolding signed_modulo_int_def by simp
next
  case False
  then have "sgn (\<bar>a\<bar> mod \<bar>d\<bar>) = 1"
    using pos_mod_sign [of "\<bar>d\<bar>" "\<bar>a\<bar>"] assms by (simp add: sgn_if del: pos_mod_sign)
  then show ?thesis unfolding signed_modulo_int_def sgn_mult by simp
qed

end
