(* ===== verification/Bignum_Bits.thy ===== *)
theory Bignum_Bits
  imports Bignum_Div
begin

text \<open>
  Bitwise operations, shifts, bit length and bit test on bignums (\<open>vm/bignum.cpp\<close>).

  A bignum is a sign and a magnitude, while the operations are specified on two's
  complement: the code forms the complement of a negative argument digit by digit while
  it scans, and complements a negative result at the end. The specification is \<open>NOT\<close>,
  \<open>AND\<close>, \<open>OR\<close>, \<open>XOR\<close>, multiplication and floor division by powers of two, and
  \<open>bit\<close> on unbounded integers.
\<close>

subsection \<open>Complement\<close>

text \<open>The digits written, and whether the carry is still set at the end.\<close>

fun not_borrow_scan :: "fixnum list \<Rightarrow> fixnum list \<times> bool" where
  "not_borrow_scan [] = ([], True)"
| "not_borrow_scan (x # xs) =
     (if x = 0 then (case not_borrow_scan xs of (ys, carry) \<Rightarrow> ((BIGNUM_RADIX - 1) # ys, carry))
      else (fx (x - 1) # xs, False))"

fun not_carry_scan :: "fixnum list \<Rightarrow> fixnum list \<times> bool" where
  "not_carry_scan [] = ([], True)"
| "not_carry_scan (x # xs) =
     (if x = BIGNUM_RADIX - 1 then (case not_carry_scan xs of (ys, carry) \<Rightarrow> (0 # ys, carry))
      else (fx (x + 1) # xs, False))"

definition bignum_bitwise_not :: "bignum \<Rightarrow> bignum" where
  "bignum_bitwise_not x =
     (let neg = \<not> negative_p x in
      case (if negative_p x then not_borrow_scan (digits x) else not_carry_scan (digits x)) of
        (ys, carry) \<Rightarrow>
          if carry then mk_bignum neg (ys @ [1]) else bignum_trim (mk_bignum neg ys))"

subsection \<open>Shifts\<close>

fun ash_left_scan :: "nat \<Rightarrow> fixnum list \<Rightarrow> fixnum \<Rightarrow> fixnum list" where
  "ash_left_scan bit_offset [] r = [r]"
| "ash_left_scan bit_offset (x # xs) r =
     ((r OR fx (push_bit bit_offset (x AND BIGNUM_DIGIT_MASK))) AND BIGNUM_DIGIT_MASK) #
     ash_left_scan bit_offset xs (drop_bit (BIGNUM_DIGIT_LENGTH - bit_offset) x AND BIGNUM_DIGIT_MASK)"

fun ash_right_scan :: "nat \<Rightarrow> fixnum list \<Rightarrow> fixnum list" where
  "ash_right_scan bit_offset [] = []"
| "ash_right_scan bit_offset [x] = [drop_bit bit_offset (x AND BIGNUM_DIGIT_MASK)]"
| "ash_right_scan bit_offset (x # y # xs) =
     ((drop_bit bit_offset (x AND BIGNUM_DIGIT_MASK) OR
       fx (push_bit (BIGNUM_DIGIT_LENGTH - bit_offset) y)) AND BIGNUM_DIGIT_MASK) #
     ash_right_scan bit_offset (y # xs)"

definition bignum_magnitude_ash :: "bignum \<Rightarrow> fixnum \<Rightarrow> bignum" where
  "bignum_magnitude_ash arg1 n =
     (if BIGNUM_ZERO_P arg1 then arg1
      else if n > 0 then
        (let digit_offset = nat n div BIGNUM_DIGIT_LENGTH;
             bit_offset = nat n mod BIGNUM_DIGIT_LENGTH
         in bignum_trim (mk_bignum (negative_p arg1)
              (replicate digit_offset 0 @ ash_left_scan bit_offset (digits arg1) 0)))
      else if n < 0 \<and> - n \<ge> int (BIGNUM_LENGTH arg1 * BIGNUM_DIGIT_LENGTH)
      then bignum_trim BIGNUM_ZERO
      else if n < 0 then
        (let digit_offset = nat (- n) div BIGNUM_DIGIT_LENGTH;
             bit_offset = nat (- n) mod BIGNUM_DIGIT_LENGTH
         in bignum_trim (mk_bignum (negative_p arg1)
              (ash_right_scan bit_offset (drop digit_offset (digits arg1)))))
      else bignum_trim arg1)"

definition bignum_arithmetic_shift :: "bignum \<Rightarrow> fixnum \<Rightarrow> bignum" where
  "bignum_arithmetic_shift arg1 n =
     (if negative_p arg1 \<and> n < 0
      then bignum_bitwise_not (bignum_magnitude_ash (bignum_bitwise_not arg1) n)
      else bignum_magnitude_ash arg1 n)"

subsection \<open>Binary operations\<close>

datatype bitwise_op = AND_OP | IOR_OP | XOR_OP

fun digit_op :: "bitwise_op \<Rightarrow> fixnum \<Rightarrow> fixnum \<Rightarrow> fixnum" where
  "digit_op AND_OP dgt1 dgt2 = dgt1 AND dgt2"
| "digit_op IOR_OP dgt1 dgt2 = dgt1 OR dgt2"
| "digit_op XOR_OP dgt1 dgt2 = dgt1 XOR dgt2"

definition next_digit :: "fixnum list \<Rightarrow> fixnum" where
  "next_digit scan = (case scan of [] \<Rightarrow> 0 | d # _ \<Rightarrow> d)"

definition complement_digit :: "fixnum \<Rightarrow> fixnum \<Rightarrow> fixnum \<times> fixnum" where
  "complement_digit d carry =
     (let digit = fx ((NOT d AND BIGNUM_DIGIT_MASK) + carry)
      in if digit < BIGNUM_RADIX then (digit, 0) else (fx (digit - BIGNUM_RADIX), 1))"

text \<open>The first argument of the scans is the number of digits still to be written.\<close>

fun pospos_scan :: "bitwise_op \<Rightarrow> nat \<Rightarrow> fixnum list \<Rightarrow> fixnum list \<Rightarrow> fixnum list" where
  "pospos_scan op 0 scan1 scan2 = []"
| "pospos_scan op (Suc n) scan1 scan2 =
     digit_op op (next_digit scan1) (next_digit scan2) # pospos_scan op n (tl scan1) (tl scan2)"

fun posneg_scan :: "bitwise_op \<Rightarrow> nat \<Rightarrow> fixnum list \<Rightarrow> fixnum list \<Rightarrow> fixnum \<Rightarrow> fixnum list" where
  "posneg_scan op 0 scan1 scan2 carry2 = []"
| "posneg_scan op (Suc n) scan1 scan2 carry2 =
     (case complement_digit (next_digit scan2) carry2 of (dgt2, carry2') \<Rightarrow>
        digit_op op (next_digit scan1) dgt2 # posneg_scan op n (tl scan1) (tl scan2) carry2')"

fun negneg_scan :: "bitwise_op \<Rightarrow> nat \<Rightarrow> fixnum list \<Rightarrow> fixnum list \<Rightarrow> fixnum \<Rightarrow> fixnum \<Rightarrow> fixnum list" where
  "negneg_scan op 0 scan1 scan2 carry1 carry2 = []"
| "negneg_scan op (Suc n) scan1 scan2 carry1 carry2 =
     (case complement_digit (next_digit scan1) carry1 of (dgt1, carry1') \<Rightarrow>
      case complement_digit (next_digit scan2) carry2 of (dgt2, carry2') \<Rightarrow>
        digit_op op dgt1 dgt2 # negneg_scan op n (tl scan1) (tl scan2) carry1' carry2')"

fun negate_scan :: "fixnum list \<Rightarrow> fixnum \<Rightarrow> fixnum list" where
  "negate_scan [] carry = []"
| "negate_scan (d # scan) carry =
     (case complement_digit d carry of (digit, carry') \<Rightarrow> digit # negate_scan scan carry')"

definition bignum_negate_magnitude :: "bignum \<Rightarrow> bignum" where
  "bignum_negate_magnitude arg = arg\<lparr>digits := negate_scan (digits arg) 1\<rparr>"

definition bignum_pospos_bitwise_op :: "bitwise_op \<Rightarrow> bignum \<Rightarrow> bignum \<Rightarrow> bignum" where
  "bignum_pospos_bitwise_op op arg1 arg2 =
     (let max_length = (if BIGNUM_LENGTH arg1 > BIGNUM_LENGTH arg2 then BIGNUM_LENGTH arg1
                        else BIGNUM_LENGTH arg2)
      in bignum_trim (mk_bignum False (pospos_scan op max_length (digits arg1) (digits arg2))))"

definition bignum_posneg_bitwise_op :: "bitwise_op \<Rightarrow> bignum \<Rightarrow> bignum \<Rightarrow> bignum" where
  "bignum_posneg_bitwise_op op arg1 arg2 =
     (let neg_p = (op = IOR_OP \<or> op = XOR_OP);
          max_length = (if BIGNUM_LENGTH arg1 > BIGNUM_LENGTH arg2 + 1 then BIGNUM_LENGTH arg1
                        else BIGNUM_LENGTH arg2 + 1);
          result = mk_bignum neg_p (posneg_scan op max_length (digits arg1) (digits arg2) 1)
      in bignum_trim (if neg_p then bignum_negate_magnitude result else result))"

definition bignum_negneg_bitwise_op :: "bitwise_op \<Rightarrow> bignum \<Rightarrow> bignum \<Rightarrow> bignum" where
  "bignum_negneg_bitwise_op op arg1 arg2 =
     (let neg_p = (op = AND_OP \<or> op = IOR_OP);
          max_length = (if BIGNUM_LENGTH arg1 > BIGNUM_LENGTH arg2 then BIGNUM_LENGTH arg1 + 1
                        else BIGNUM_LENGTH arg2 + 1);
          result = mk_bignum neg_p (negneg_scan op max_length (digits arg1) (digits arg2) 1 1)
      in bignum_trim (if neg_p then bignum_negate_magnitude result else result))"

definition bignum_bitwise_and :: "bignum \<Rightarrow> bignum \<Rightarrow> bignum" where
  "bignum_bitwise_and arg1 arg2 =
     (if negative_p arg1
      then (if negative_p arg2 then bignum_negneg_bitwise_op AND_OP arg1 arg2
            else bignum_posneg_bitwise_op AND_OP arg2 arg1)
      else (if negative_p arg2 then bignum_posneg_bitwise_op AND_OP arg1 arg2
            else bignum_pospos_bitwise_op AND_OP arg1 arg2))"

definition bignum_bitwise_ior :: "bignum \<Rightarrow> bignum \<Rightarrow> bignum" where
  "bignum_bitwise_ior arg1 arg2 =
     (if negative_p arg1
      then (if negative_p arg2 then bignum_negneg_bitwise_op IOR_OP arg1 arg2
            else bignum_posneg_bitwise_op IOR_OP arg2 arg1)
      else (if negative_p arg2 then bignum_posneg_bitwise_op IOR_OP arg1 arg2
            else bignum_pospos_bitwise_op IOR_OP arg1 arg2))"

definition bignum_bitwise_xor :: "bignum \<Rightarrow> bignum \<Rightarrow> bignum" where
  "bignum_bitwise_xor arg1 arg2 =
     (if negative_p arg1
      then (if negative_p arg2 then bignum_negneg_bitwise_op XOR_OP arg1 arg2
            else bignum_posneg_bitwise_op XOR_OP arg2 arg1)
      else (if negative_p arg2 then bignum_posneg_bitwise_op XOR_OP arg1 arg2
            else bignum_pospos_bitwise_op XOR_OP arg1 arg2))"

subsection \<open>Bit length and bit test\<close>

partial_function (option) length_loop :: "fixnum \<Rightarrow> fixnum \<Rightarrow> fixnum option" where
  "length_loop digit carry =
     (if digit > 1 then length_loop (drop_bit 1 digit) (fx (carry + 1)) else Some carry)"

text \<open>
  \<open>index\<close> is at least 0: the caller passes a positive number. On zero the source would
  read the sign cell at index -1, which the model does not represent.
\<close>

definition bignum_integer_length :: "bignum \<Rightarrow> bignum option" where
  "bignum_integer_length x =
     (if BIGNUM_ZERO_P x then None
      else
        (let index = int (BIGNUM_LENGTH x) - 1 in do {
           carry \<leftarrow> length_loop (BIGNUM_REF x (BIGNUM_LENGTH x - 1)) 0;
           result \<leftarrow>
             (if index < BIGNUM_RADIX_ROOT
              then Some (mk_bignum False [fx (index * int BIGNUM_DIGIT_LENGTH + carry)])
              else do {
                r \<leftarrow> bignum_destructive_scale_up (mk_bignum False [index, 0]) (int BIGNUM_DIGIT_LENGTH);
                bignum_destructive_add r carry
              });
           Some (bignum_trim result)
         }))"

definition bignum_unsigned_logbitp :: "nat \<Rightarrow> bignum \<Rightarrow> bool" where
  "bignum_unsigned_logbitp shift bn =
     (let index = shift div BIGNUM_DIGIT_LENGTH in
      if index \<ge> BIGNUM_LENGTH bn then False
      else BIGNUM_REF bn index AND push_bit (shift mod BIGNUM_DIGIT_LENGTH) 1 \<noteq> 0)"

definition bignum_logbitp :: "nat \<Rightarrow> bignum \<Rightarrow> bool" where
  "bignum_logbitp shift arg =
     (if negative_p arg then \<not> bignum_unsigned_logbitp shift (bignum_bitwise_not arg)
      else bignum_unsigned_logbitp shift arg)"

subsection \<open>Complement\<close>

lemma not_borrow_scan_val:
  assumes "digits_ok xs" "not_borrow_scan xs = (ys, carry)"
  shows "digits_ok ys \<and> length ys = length xs \<and>
    digits_val ys = digits_val xs - 1 + (if carry then BIGNUM_RADIX ^ length xs else 0)"
  using assms
proof (induction xs arbitrary: ys)
  case Nil
  then show ?case by auto
next
  case (Cons x xs)
  have x: "0 \<le> x" "x < BIGNUM_RADIX" using Cons.prems(1) by (simp_all add: digit_ok_def)
  show ?case
  proof (cases "x = 0")
    case True
    then obtain ys' where ys': "not_borrow_scan xs = (ys', carry)" "ys = (BIGNUM_RADIX - 1) # ys'"
      using Cons.prems(2) by (auto split: prod.splits)
    then have "digits_ok ys'" "length ys' = length xs"
      "digits_val ys' = digits_val xs - 1 + (if carry then BIGNUM_RADIX ^ length xs else 0)"
      using Cons.IH [OF _ ys'(1)] Cons.prems(1) by auto
    then have "digits_ok ys'" "length ys' = length xs" "BIGNUM_RADIX * digits_val ys' =
        BIGNUM_RADIX * (digits_val xs - 1 + (if carry then BIGNUM_RADIX ^ length xs else 0))" by simp_all
    then show ?thesis using True by (cases carry) (simp_all add: ys'(2) digit_ok_def algebra_simps)
  next
    case False
    have "fx (x - 1) = x - 1" using x by (simp add: fx_id bignum_num)
    then show ?thesis using False Cons.prems x by (auto simp: digit_ok_def)
  qed
qed

lemma not_carry_scan_val:
  assumes "digits_ok xs" "not_carry_scan xs = (ys, carry)"
  shows "digits_ok ys \<and> length ys = length xs \<and> (\<not> carry \<longrightarrow> xs \<noteq> []) \<and>
    digits_val ys + (if carry then BIGNUM_RADIX ^ length xs else 0) = digits_val xs + 1"
  using assms
proof (induction xs arbitrary: ys)
  case Nil
  then show ?case by auto
next
  case (Cons x xs)
  have x: "0 \<le> x" "x < BIGNUM_RADIX" using Cons.prems(1) by (simp_all add: digit_ok_def)
  show ?case
  proof (cases "x = BIGNUM_RADIX - 1")
    case True
    then obtain ys' where ys': "not_carry_scan xs = (ys', carry)" "ys = 0 # ys'"
      using Cons.prems(2) by (auto split: prod.splits)
    then have "digits_ok ys'" "length ys' = length xs"
      "digits_val ys' + (if carry then BIGNUM_RADIX ^ length xs else 0) = digits_val xs + 1"
      using Cons.IH [OF _ ys'(1)] Cons.prems(1) by auto
    then have "digits_ok ys'" "length ys' = length xs"
      "BIGNUM_RADIX * (digits_val ys' + (if carry then BIGNUM_RADIX ^ length xs else 0)) =
        BIGNUM_RADIX * (digits_val xs + 1)" by simp_all
    then show ?thesis using True by (cases carry) (simp_all add: ys'(2) digit_ok_def algebra_simps)
  next
    case False
    have "fx (x + 1) = x + 1" using x by (simp add: fx_id bignum_num)
    then show ?thesis using False Cons.prems x by (auto simp: digit_ok_def)
  qed
qed

lemma bignum_bitwise_not_val:
  assumes "bignum_wf x"
  shows "bignum_wf (bignum_bitwise_not x)" "bignum_val (bignum_bitwise_not x) = NOT (bignum_val x)"
proof -
  have ok: "digits_ok (digits x)" using assms by (rule bignum_wf_digits)
  have "bignum_wf (bignum_bitwise_not x) \<and> bignum_val (bignum_bitwise_not x) = NOT (bignum_val x)"
  proof (cases "negative_p x")
    case True
    obtain ys c where ys: "not_borrow_scan (digits x) = (ys, c)" by (cases "not_borrow_scan (digits x)") auto
    note v = not_borrow_scan_val [OF ok ys]
    have "0 < digits_val (digits x)" using True assms
      by (cases "digits x = []") (auto simp: bignum_wf_def digits_val_pos)
    then have "\<not> c" using v digits_val_less [of ys] by auto
    then show ?thesis
      using v ys True by (simp add: bignum_bitwise_not_def bignum_trim_mk_wf)
        (simp add: bignum_val_def signed_val_def not_int_def)
  next
    case False
    obtain ys c where ys: "not_carry_scan (digits x) = (ys, c)" by (cases "not_carry_scan (digits x)") auto
    note v = not_carry_scan_val [OF ok ys]
    have "ys \<noteq> [] \<or> c" using v by auto
    then show ?thesis
      using v ys False
      by (cases c) (simp_all add: bignum_bitwise_not_def bignum_trim_mk_wf bignum_wf_mk digit_ok_def
        digits_val_append bignum_val_def [of x] signed_val_def not_int_def)
  qed
  then show "bignum_wf (bignum_bitwise_not x)" "bignum_val (bignum_bitwise_not x) = NOT (bignum_val x)"
    by blast+
qed

subsection \<open>Shifts\<close>

lemma mask_take_bit: "x AND BIGNUM_DIGIT_MASK = take_bit 62 x"
  by (simp add: digit_mask_mod take_bit_eq_mod bignum_num)

lemma take_bit_fx: "n \<le> 64 \<Longrightarrow> take_bit n (fx x) = take_bit n x"
  unfolding fx_def by (rule take_bit_signed_take_bit) simp

lemma digit_take_bit: "digit_ok x \<Longrightarrow> take_bit 62 x = x"
  by (simp add: digit_ok_def radix_exp take_bit_int_eq_self)

lemma take_bit_shift:
  "s \<le> 62 \<Longrightarrow> take_bit 62 (push_bit s x) = push_bit s (x mod 2 ^ (62 - s))" for x :: int
  unfolding take_bit_push_bit take_bit_eq_mod [of "62 - s"] by simp

lemma ash_left_scan_normalization:
  assumes "s < 62" "digits_ok xs" "0 \<le> r" "r < 2 ^ s"
  shows "ash_left_scan s xs r = (case normalization_scan s xs r of (rs, c) \<Rightarrow> rs @ [c])"
  using assms(2-)
proof (induction xs arbitrary: r)
  case Nil
  then show ?case by simp
next
  case (Cons x xs)
  have s: "s \<le> 62" using assms(1) by simp
  have x: "digit_ok x" "digits_ok xs" using Cons.prems(1) by auto
  note b = digit_split_bounds [OF x(1) s]
  have rd: "digit_ok r"
    using Cons.prems(2,3) power_increasing [of s 62 "2::int"] s unfolding digit_ok_def radix_exp by linarith
  have "(r OR fx (push_bit s (x AND BIGNUM_DIGIT_MASK))) AND BIGNUM_DIGIT_MASK =
      push_bit s (x mod 2 ^ (62 - s)) OR r"
    using digit_take_bit [OF x(1)] digit_take_bit [OF rd] s
    by (simp add: mask_take_bit take_bit_or take_bit_fx take_bit_shift or.commute)
  also have "\<dots> = x mod 2 ^ (62 - s) * 2 ^ s + r" by (rule or_disjoint_add [OF Cons.prems(2,3)])
  finally have digit: "(r OR fx (push_bit s (x AND BIGNUM_DIGIT_MASK))) AND BIGNUM_DIGIT_MASK =
      x mod 2 ^ (62 - s) * 2 ^ s + r" .
  have "digit_ok (x div 2 ^ (62 - s))"
    using b(1,2) power_increasing [of s 62 "2::int"] s unfolding digit_ok_def radix_exp by linarith
  then have "drop_bit (62 - s) x AND BIGNUM_DIGIT_MASK = x div 2 ^ (62 - s)"
    by (simp add: mask_take_bit digit_take_bit drop_bit_eq_div)
  then show ?case
    using Cons.IH [OF x(2) b(1,2)] normalization_scan_Cons [OF x(1) s Cons.prems(2,3), of xs] digit
    by (simp add: case_prod_unfold Let_def)
qed

lemma ash_left_scan_val:
  assumes "s < 62" "digits_ok xs"
  shows "digits_ok (ash_left_scan s xs 0)" "ash_left_scan s xs 0 \<noteq> []"
    "digits_val (ash_left_scan s xs 0) = 2 ^ s * digits_val xs"
proof -
  obtain rs c where scan: "normalization_scan s xs 0 = (rs, c)" by (cases "normalization_scan s xs 0") auto
  have v: "digits_ok rs" "length rs = length xs" "0 \<le> c" "c < 2 ^ s"
      "digits_val rs + BIGNUM_RADIX ^ length xs * c = 2 ^ s * digits_val xs"
    using normalization_scan_val [OF assms(2) _ _ _ scan] assms(1) by simp_all
  have "digit_ok c"
    using v(3,4) power_increasing [of s 62 "2::int"] assms(1) unfolding digit_ok_def radix_exp by linarith
  then show "digits_ok (ash_left_scan s xs 0)" "ash_left_scan s xs 0 \<noteq> []"
    "digits_val (ash_left_scan s xs 0) = 2 ^ s * digits_val xs"
    using v assms ash_left_scan_normalization [OF assms, of 0] scan by (simp_all add: digits_val_append)
qed

lemma ash_right_digit:
  assumes "digit_ok x" "s < 62"
  shows "(drop_bit s (x AND BIGNUM_DIGIT_MASK) OR fx (push_bit (62 - s) y)) AND BIGNUM_DIGIT_MASK =
      x div 2 ^ s + (y mod 2 ^ s) * 2 ^ (62 - s)" (is "?l = _")
    and "digit_ok (x div 2 ^ s + (y mod 2 ^ s) * 2 ^ (62 - s))"
proof -
  have s: "62 - s \<le> 62" "62 - (62 - s) = s" using assms(2) by auto
  note b = digit_split_bounds [OF assms(1) s(1), unfolded s(2)]
  have "digit_ok (x div 2 ^ s)"
    using b(1,2) power_increasing [of "62 - s" 62 "2::int"] unfolding digit_ok_def radix_exp by simp
  then have "?l = push_bit (62 - s) (y mod 2 ^ s) OR x div 2 ^ s"
    using digit_take_bit [OF assms(1)] s
    by (simp add: mask_take_bit take_bit_or take_bit_fx take_bit_shift or.commute digit_take_bit drop_bit_eq_div)
  also have "\<dots> = (y mod 2 ^ s) * 2 ^ (62 - s) + x div 2 ^ s" by (rule or_disjoint_add [OF b(1,2)])
  finally show "?l = x div 2 ^ s + (y mod 2 ^ s) * 2 ^ (62 - s)" by simp
  have "(y mod 2 ^ s + 1) * 2 ^ (62 - s) \<le> 2 ^ s * 2 ^ (62 - s)"
    using pos_mod_bound [of "2 ^ s" y] by (intro mult_right_mono zless_imp_add1_zle) simp_all
  then show "digit_ok (x div 2 ^ s + (y mod 2 ^ s) * 2 ^ (62 - s))"
    using b(1,2) assms(2) unfolding digit_ok_def split_radix [OF less_imp_le [OF assms(2)]]
    by (simp add: algebra_simps)
qed

lemma radix_shift_div:
  fixes x Y :: int
  assumes "s \<le> 62"
  shows "(x + BIGNUM_RADIX * Y) div 2 ^ s =
    x div 2 ^ s + (Y mod 2 ^ s) * 2 ^ (62 - s) + BIGNUM_RADIX * (Y div 2 ^ s)"
proof -
  have "(x + BIGNUM_RADIX * Y) div 2 ^ s = x div 2 ^ s + 2 ^ (62 - s) * Y"
    by (simp add: split_radix [OF assms] mult.assoc)
  also have "2 ^ (62 - s) * Y = 2 ^ (62 - s) * (Y div 2 ^ s * 2 ^ s + Y mod 2 ^ s)"
    by (simp only: div_mult_mod_eq)
  also have "\<dots> = (Y mod 2 ^ s) * 2 ^ (62 - s) + BIGNUM_RADIX * (Y div 2 ^ s)"
    unfolding split_radix [OF assms] by (simp only: algebra_simps)
  finally show ?thesis by simp
qed

lemma ash_right_scan_val:
  assumes "s < 62" "digits_ok xs"
  shows "digits_ok (ash_right_scan s xs) \<and> length (ash_right_scan s xs) = length xs \<and>
    digits_val (ash_right_scan s xs) = digits_val xs div 2 ^ s"
  using assms
proof (induction s xs rule: ash_right_scan.induct)
  case (1 s)
  then show ?case by simp
next
  case (2 s x)
  then have x: "digit_ok x" by simp
  have "digit_ok (x div 2 ^ s)" using ash_right_digit(2) [OF x 2(1), of 0] by simp
  then show ?case by (simp add: mask_take_bit digit_take_bit [OF x] drop_bit_eq_div)
next
  case (3 s x y xs)
  then have x: "digit_ok x" by simp
  have ih: "digits_ok (ash_right_scan s (y # xs))" "length (ash_right_scan s (y # xs)) = length (y # xs)"
      "digits_val (ash_right_scan s (y # xs)) = digits_val (y # xs) div 2 ^ s"
    using 3 by simp_all
  have "digits_val (y # xs) mod 2 ^ s = y mod 2 ^ s"
    using 3(2) unfolding digits_val.simps split_radix [of s, OF less_imp_le [OF 3(2)]] mult.assoc by simp
  then have "digits_val (x # y # xs) div 2 ^ s =
      x div 2 ^ s + (y mod 2 ^ s) * 2 ^ (62 - s) + BIGNUM_RADIX * (digits_val (y # xs) div 2 ^ s)"
    using radix_shift_div [of s x "digits_val (y # xs)"] 3(2) by simp
  then show ?case
    using ih ash_right_digit [OF x 3(2), of y] by (simp del: digits_val.simps(2) add: digits_val.simps(2) [of _ "ash_right_scan _ _"])
qed

lemma radix_power: "BIGNUM_RADIX ^ k = 2 ^ (62 * k)"
  by (simp add: radix_exp power_mult del: power_numeral)

lemma digits_val_drop:
  assumes "digits_ok ds"
  shows "digits_val (drop k ds) = digits_val ds div BIGNUM_RADIX ^ k"
proof (cases "k \<le> length ds")
  case True
  have "digits_val ds = digits_val (drop k ds) * BIGNUM_RADIX ^ k + digits_val (take k ds)"
    using digits_val_append [of "take k ds" "drop k ds"] True by (simp add: mult.commute)
  then show ?thesis
    using div_mod_unique(1) [of "digits_val (drop k ds)" "BIGNUM_RADIX ^ k" "digits_val (take k ds)"]
      digits_val_nonneg [of "take k ds"] digits_val_less [of "take k ds"] assms True by simp
next
  case False
  then have "BIGNUM_RADIX ^ length ds \<le> BIGNUM_RADIX ^ k" by (intro power_increasing) simp_all
  then have "digits_val ds < BIGNUM_RADIX ^ k" using digits_val_less [OF assms] by linarith
  then show ?thesis using False digits_val_nonneg [OF assms] by simp
qed

lemma bignum_magnitude_ash_val:
  assumes "bignum_wf x"
  shows "bignum_wf (bignum_magnitude_ash x n)"
    and "bignum_val (bignum_magnitude_ash x n) =
      (if 0 \<le> n then bignum_val x * 2 ^ nat n
       else signed_val (negative_p x) (\<bar>bignum_val x\<bar> div 2 ^ nat (- n)))"
proof -
  define k where "k = nat \<bar>n\<bar>"
  define q b where "q = k div 62" and "b = k mod 62"
  have ok: "digits_ok (digits x)" using assms by (rule bignum_wf_digits)
  have k: "k = 62 * q + b" and b: "b < 62" by (simp_all add: q_def b_def)
  have pow: "BIGNUM_RADIX ^ q * 2 ^ b = 2 ^ k"
    unfolding radix_power k by (simp only: power_add)
  have nk: "0 < n \<Longrightarrow> nat n = k" "n < 0 \<Longrightarrow> nat (- n) = k" by (simp_all add: k_def)
  have mag: "\<bar>bignum_val x\<bar> = digits_val (digits x)" by (simp add: bignum_abs_val [OF assms])
  consider "BIGNUM_ZERO_P x" | "\<not> BIGNUM_ZERO_P x" "0 < n" | "n < 0" "- n \<ge> int (BIGNUM_LENGTH x * 62)" "\<not> BIGNUM_ZERO_P x"
    | "n < 0" "\<not> - n \<ge> int (BIGNUM_LENGTH x * 62)" "\<not> BIGNUM_ZERO_P x" | "n = 0" "\<not> BIGNUM_ZERO_P x" by linarith
  then have "bignum_wf (bignum_magnitude_ash x n) \<and> bignum_val (bignum_magnitude_ash x n) =
      (if 0 \<le> n then bignum_val x * 2 ^ k else signed_val (negative_p x) (\<bar>bignum_val x\<bar> div 2 ^ k))"
  proof cases
    case 1
    then show ?thesis
      using assms bignum_zero_p_val [OF assms] by (simp add: bignum_magnitude_ash_def signed_val_def)
  next
    case 2
    note v = ash_left_scan_val [OF b ok]
    have "digits_val (replicate q 0 @ ash_left_scan b (digits x) 0) = digits_val (digits x) * 2 ^ k"
      using pow by (simp add: digits_val_append v(3) mult.commute [of "digits_val (digits x)"] mult.assoc flip: pow)
    then show ?thesis
      using 2 v(1,2) nk(1) unfolding bignum_val_def [of x]
      by (simp add: bignum_magnitude_ash_def Let_def bignum_trim_mk_wf flip: q_def b_def) (simp add: signed_val_def)
  next
    case 3
    have "(2::int) ^ (62 * BIGNUM_LENGTH x) \<le> 2 ^ k" using 3 by (intro power_increasing) (simp_all add: k_def)
    then have "\<bar>bignum_val x\<bar> < 2 ^ k" using bignum_length_val(1) [OF assms] unfolding radix_power by linarith
    then show ?thesis
      using 3 by (simp add: bignum_magnitude_ash_def BIGNUM_ZERO_def bignum_trim_mk_wf signed_val_def)
  next
    case 4
    note v = ash_right_scan_val [OF b digits_ok_drop [OF ok], of q]
    have "k < BIGNUM_LENGTH x * 62" using 4(1,2) by (simp add: k_def)
    then have "q < BIGNUM_LENGTH x" unfolding q_def by (rule less_mult_imp_div_less)
    then have "ash_right_scan b (drop q (digits x)) \<noteq> []"
      using v by (auto simp: BIGNUM_LENGTH_def simp flip: length_0_conv)
    moreover have "digits_val (digits x) div BIGNUM_RADIX ^ q div 2 ^ b = digits_val (digits x) div 2 ^ k"
      unfolding pow [symmetric] by (simp add: zdiv_zmult2_eq)
    ultimately show ?thesis
      using 4 v nk(2) unfolding mag
      by (simp add: bignum_magnitude_ash_def Let_def bignum_trim_mk_wf digits_val_drop [OF ok] flip: q_def b_def)
  next
    case 5
    have "bignum_wf (bignum_trim x)" using assms by (intro bignum_trim_wf) (auto simp: bignum_wf_def)
    then show ?thesis using 5 by (simp add: bignum_magnitude_ash_def k_def)
  qed
  then show "bignum_wf (bignum_magnitude_ash x n)"
    and "bignum_val (bignum_magnitude_ash x n) =
      (if 0 \<le> n then bignum_val x * 2 ^ nat n
       else signed_val (negative_p x) (\<bar>bignum_val x\<bar> div 2 ^ nat (- n)))"
    by (simp_all add: k_def)
qed

lemma div_not: "NOT (NOT x div 2 ^ k) = x div 2 ^ k" for x :: int
proof -
  have "drop_bit k (NOT x) = NOT (drop_bit k x)" by (rule bit_eqI) (simp add: bit_drop_bit_eq bit_not_iff)
  then show ?thesis by (simp add: drop_bit_eq_div)
qed

lemma bignum_arithmetic_shift_val:
  assumes "bignum_wf x"
  shows "bignum_wf (bignum_arithmetic_shift x n)"
    and "bignum_val (bignum_arithmetic_shift x n) =
      (if 0 \<le> n then bignum_val x * 2 ^ nat n else bignum_val x div 2 ^ nat (- n))"
proof -
  let ?y = "bignum_bitwise_not x"
  have y: "bignum_wf ?y" "bignum_val ?y = NOT (bignum_val x)" using bignum_bitwise_not_val [OF assms] by blast+
  let ?z = "bignum_magnitude_ash ?y n"
  have z: "bignum_wf ?z" using bignum_magnitude_ash_val(1) [OF y(1)] .
  have neg: "\<not> negative_p ?y" "0 \<le> NOT (bignum_val x)" if "negative_p x"
    using that bignum_negative_val [OF assms] bignum_negative_val [OF y(1)] by (simp_all add: y(2) not_int_def)
  show "bignum_wf (bignum_arithmetic_shift x n)"
    using bignum_magnitude_ash_val(1) [OF assms] bignum_bitwise_not_val(1) [OF z]
    by (simp add: bignum_arithmetic_shift_def)
  show "bignum_val (bignum_arithmetic_shift x n) =
      (if 0 \<le> n then bignum_val x * 2 ^ nat n else bignum_val x div 2 ^ nat (- n))"
  proof (cases "negative_p x \<and> n < 0")
    case True
    then have "bignum_val ?z = NOT (bignum_val x) div 2 ^ nat (- n)"
      using bignum_magnitude_ash_val(2) [OF y(1), of n] neg by (simp add: y(2) signed_val_def)
    then show ?thesis
      using True bignum_bitwise_not_val(2) [OF z] div_not [of "bignum_val x"] by (simp add: bignum_arithmetic_shift_def)
  next
    case False
    then show ?thesis
      using bignum_magnitude_ash_val(2) [OF assms, of n] bignum_negative_val [OF assms]
      by (auto simp: bignum_arithmetic_shift_def signed_val_def)
  qed
qed

subsection \<open>Digits of two's complement\<close>

text \<open>
  The scans read their arguments through two streams of digits: the magnitude padded with
  zeros, and its two's complement. Both are the argument modulo a power of the radix.
\<close>

fun pad :: "nat \<Rightarrow> fixnum list \<Rightarrow> fixnum list" where
  "pad 0 xs = []"
| "pad (Suc n) xs = next_digit xs # pad n (tl xs)"

fun complement_scan :: "nat \<Rightarrow> fixnum list \<Rightarrow> fixnum \<Rightarrow> fixnum list" where
  "complement_scan 0 ys c = []"
| "complement_scan (Suc n) ys c =
     (case complement_digit (next_digit ys) c of (d, c') \<Rightarrow> d # complement_scan n (tl ys) c')"

lemma scan_streams:
  "pospos_scan op n xs ys = map2 (digit_op op) (pad n xs) (pad n ys)"
  "posneg_scan op n xs ys c = map2 (digit_op op) (pad n xs) (complement_scan n ys c)"
  "negneg_scan op n xs ys c1 c2 = map2 (digit_op op) (complement_scan n xs c1) (complement_scan n ys c2)"
  by (induction n arbitrary: xs ys c c1 c2) (simp_all split: prod.split)

lemma negate_scan_stream: "negate_scan ds c = complement_scan (length ds) ds c"
  by (induction ds arbitrary: c) (simp_all add: next_digit_def)

lemma complement_digit_val:
  assumes "digit_ok d" "c = 0 \<or> c = 1"
  shows "\<exists>d' c'. complement_digit d c = (d', c') \<and> digit_ok d' \<and> (c' = 0 \<or> c' = 1) \<and>
    d' + BIGNUM_RADIX * c' = BIGNUM_RADIX - 1 - d + c"
proof -
  have "NOT d AND BIGNUM_DIGIT_MASK = (BIGNUM_RADIX - 1 - d) mod BIGNUM_RADIX"
    unfolding digit_mask_mod not_int_def using mod_add_self2 [of "- d - 1" BIGNUM_RADIX] by (simp add: algebra_simps)
  also have "\<dots> = BIGNUM_RADIX - 1 - d" using assms(1) by (intro mod_pos_pos_trivial) (simp_all add: digit_ok_def)
  finally have d: "NOT d AND BIGNUM_DIGIT_MASK = BIGNUM_RADIX - 1 - d" .
  show ?thesis
    using assms unfolding complement_digit_def d Let_def
    by (auto simp: fx_id digit_ok_def bignum_num)
qed

lemma radix_mod_Suc:
  fixes x v :: int
  assumes "digit_ok x"
  shows "(x + BIGNUM_RADIX * v) mod BIGNUM_RADIX ^ Suc n = x + BIGNUM_RADIX * (v mod BIGNUM_RADIX ^ n)"
proof -
  have "(x + BIGNUM_RADIX * v) div BIGNUM_RADIX = v" "(x + BIGNUM_RADIX * v) mod BIGNUM_RADIX = x"
    using assms by (simp_all add: digit_ok_def)
  then show ?thesis
    using zmod_zmult2_eq [of "BIGNUM_RADIX ^ n" "x + BIGNUM_RADIX * v" BIGNUM_RADIX] by simp
qed

lemma next_digit_val:
  assumes "digits_ok xs"
  shows "digit_ok (next_digit xs)" "digits_ok (tl xs)"
    "digits_val xs = next_digit xs + BIGNUM_RADIX * digits_val (tl xs)"
  using assms by (cases xs; simp add: next_digit_def digit_ok_def)+

lemma pad_val:
  assumes "digits_ok xs"
  shows "digits_ok (pad n xs) \<and> length (pad n xs) = n \<and>
    digits_val (pad n xs) = digits_val xs mod BIGNUM_RADIX ^ n"
  using assms
proof (induction n arbitrary: xs)
  case 0
  then show ?case by simp
next
  case (Suc n)
  note nd = next_digit_val [OF Suc.prems]
  show ?case
    using Suc.IH [OF nd(2)] nd(1) radix_mod_Suc [OF nd(1), of "digits_val (tl xs)" n] by (simp add: nd(3) del: power_Suc)
qed

lemma complement_scan_val:
  assumes "digits_ok ys" "c = 0 \<or> c = 1"
  shows "digits_ok (complement_scan n ys c) \<and> length (complement_scan n ys c) = n \<and>
    digits_val (complement_scan n ys c) = (c - 1 - digits_val ys) mod BIGNUM_RADIX ^ n"
  using assms
proof (induction n arbitrary: ys c)
  case 0
  then show ?case by simp
next
  case (Suc n)
  note nd = next_digit_val [OF Suc.prems(1)]
  obtain d c' where d: "complement_digit (next_digit ys) c = (d, c')" "digit_ok d" "c' = 0 \<or> c' = 1"
      "d + BIGNUM_RADIX * c' = BIGNUM_RADIX - 1 - next_digit ys + c"
    using complement_digit_val [OF nd(1) Suc.prems(2)] by blast
  have "c - 1 - digits_val ys = d + BIGNUM_RADIX * (c' - 1 - digits_val (tl ys))"
    using d(4) by (simp add: nd(3) algebra_simps)
  then show ?case
    using Suc.IH [OF nd(2) d(3)] d(1,2) radix_mod_Suc [OF d(2), of "c' - 1 - digits_val (tl ys)" n]
    by (simp del: power_Suc)
qed

lemma digit_op_ok:
  assumes "digit_ok a" "digit_ok b"
  shows "digit_ok (digit_op op a b)"
  using assms AND_upper1 [of a b] OR_upper [of a 62 b] XOR_upper [of a 62 b]
  by (cases op) (auto simp: digit_ok_def radix_exp)

lemma digit_op_combine:
  fixes A B :: int
  assumes "digit_ok a" "digit_ok b"
  shows "digit_op op (a + BIGNUM_RADIX * A) (b + BIGNUM_RADIX * B) =
    digit_op op a b + BIGNUM_RADIX * digit_op op A B"
proof -
  have comb: "x + BIGNUM_RADIX * X = push_bit 62 X OR x" if "digit_ok x" for x X :: int
    using that or_disjoint_add [of x 62 X] by (simp add: digit_ok_def bignum_num)
  have hi: "\<not> bit x k" if "digit_ok x" "62 \<le> k" for x k
    using that digit_take_bit [OF that(1)] by (metis bit_take_bit_iff not_le)
  show ?thesis
    unfolding comb [OF assms(1)] comb [OF assms(2)] comb [OF digit_op_ok [OF assms]]
    by (cases op; rule bit_eqI)
      (use hi [OF assms(1)] hi [OF assms(2)] in \<open>auto simp: bit_simps not_le\<close>)
qed

lemma map2_digit_op_val:
  assumes "digits_ok xs" "digits_ok ys" "length xs = length ys"
  shows "digits_ok (map2 (digit_op op) xs ys) \<and>
    digits_val (map2 (digit_op op) xs ys) = digit_op op (digits_val xs) (digits_val ys)"
  using assms(3,1,2)
proof (induction xs ys rule: list_induct2)
  case Nil
  then show ?case by (cases op) simp_all
next
  case (Cons x xs y ys)
  then show ?case using digit_op_ok [of x y op] digit_op_combine [of x y op] by simp
qed

lemma digit_op_mod:
  "digit_op op (a mod BIGNUM_RADIX ^ n) (b mod BIGNUM_RADIX ^ n) = digit_op op a b mod BIGNUM_RADIX ^ n"
  unfolding radix_power by (cases op) (simp_all flip: take_bit_eq_mod)

subsection \<open>Binary operations\<close>

lemma digit_op_range:
  fixes a b :: int
  assumes "- (2 ^ k) \<le> a" "a < 2 ^ k" "- (2 ^ k) \<le> b" "b < 2 ^ k"
  shows "- (2 ^ k) \<le> digit_op op a b" "digit_op op a b < 2 ^ k"
proof -
  have fix_iff: "signed_take_bit k z = z \<longleftrightarrow> - (2 ^ k) \<le> z \<and> z < 2 ^ k" for z :: int
    by (metis signed_take_bit_int_eq_self signed_take_bit_int_greater_eq_minus_exp signed_take_bit_int_less_exp)
  have "signed_take_bit k a = a" "signed_take_bit k b = b" using assms fix_iff by blast+
  then have "signed_take_bit k (digit_op op a b) = digit_op op a b"
    by (cases op) (simp_all add: bit_eq_iff bit_simps)
  then show "- (2 ^ k) \<le> digit_op op a b" "digit_op op a b < 2 ^ k" using fix_iff by blast+
qed

lemma digit_op_negative:
  fixes a b :: int
  shows "digit_op op a b < 0 \<longleftrightarrow>
    (case op of AND_OP \<Rightarrow> a < 0 \<and> b < 0 | IOR_OP \<Rightarrow> a < 0 \<or> b < 0 | XOR_OP \<Rightarrow> (a < 0) \<noteq> (b < 0))"
  by (cases op) simp_all

lemma bignum_op_range:
  assumes "bignum_wf x" "bignum_wf y" "BIGNUM_LENGTH x \<le> n" "BIGNUM_LENGTH y \<le> n"
  shows "- (BIGNUM_RADIX ^ n) \<le> digit_op op (bignum_val x) (bignum_val y)"
    "digit_op op (bignum_val x) (bignum_val y) < BIGNUM_RADIX ^ n"
proof -
  have "BIGNUM_RADIX ^ BIGNUM_LENGTH x \<le> BIGNUM_RADIX ^ n" "BIGNUM_RADIX ^ BIGNUM_LENGTH y \<le> BIGNUM_RADIX ^ n"
    using assms(3,4) by (auto intro: power_increasing)
  then have "\<bar>bignum_val x\<bar> < 2 ^ (62 * n)" "\<bar>bignum_val y\<bar> < 2 ^ (62 * n)"
    using bignum_length_val(1) [OF assms(1)] bignum_length_val(1) [OF assms(2)]
    unfolding radix_power by linarith+
  then show "- (BIGNUM_RADIX ^ n) \<le> digit_op op (bignum_val x) (bignum_val y)"
    "digit_op op (bignum_val x) (bignum_val y) < BIGNUM_RADIX ^ n"
    unfolding radix_power by (intro digit_op_range; linarith)+
qed

text \<open>A result array that holds \<open>v\<close> modulo \<open>R ^ n\<close> is turned into \<open>v\<close>.\<close>

lemma bitwise_result_nonneg:
  assumes "digits_ok ds" "length ds = n" "digits_val ds = v mod BIGNUM_RADIX ^ n" "0 \<le> v" "v < BIGNUM_RADIX ^ n"
  shows "bignum_wf (bignum_trim (mk_bignum False ds))" "bignum_val (bignum_trim (mk_bignum False ds)) = v"
  using assms by (simp_all add: bignum_trim_mk_wf signed_val_def)

lemma bitwise_result_negative:
  assumes "digits_ok ds" "length ds = n" "0 < n" "digits_val ds = v mod BIGNUM_RADIX ^ n"
    and "- (BIGNUM_RADIX ^ n) \<le> v" "v < 0"
  shows "bignum_wf (bignum_trim (bignum_negate_magnitude (mk_bignum True ds)))"
    and "bignum_val (bignum_trim (bignum_negate_magnitude (mk_bignum True ds))) =
      (if v = - (BIGNUM_RADIX ^ n) then 0 else v)"
proof -
  let ?r = "negate_scan ds 1"
  have r: "digits_ok ?r" "length ?r = n" "digits_val ?r = (- digits_val ds) mod BIGNUM_RADIX ^ n"
    using complement_scan_val [OF assms(1), of 1 n] assms(2) by (simp_all add: negate_scan_stream)
  have "digits_val ?r = (- v) mod BIGNUM_RADIX ^ n" by (simp add: r(3) assms(4) mod_minus_eq)
  also have "\<dots> = (if v = - (BIGNUM_RADIX ^ n) then 0 else - v)" using assms(5,6) by simp
  finally have val: "digits_val ?r = (if v = - (BIGNUM_RADIX ^ n) then 0 else - v)" .
  show "bignum_wf (bignum_trim (bignum_negate_magnitude (mk_bignum True ds)))"
    using r(1,2) assms(3) by (auto simp: bignum_negate_magnitude_def intro!: bignum_trim_mk_wf)
  show "bignum_val (bignum_trim (bignum_negate_magnitude (mk_bignum True ds))) =
      (if v = - (BIGNUM_RADIX ^ n) then 0 else v)"
    using val by (simp add: bignum_negate_magnitude_def signed_val_def)
qed

lemma pospos_val:
  assumes "bignum_wf x" "bignum_wf y" "\<not> negative_p x" "\<not> negative_p y"
  shows "bignum_wf (bignum_pospos_bitwise_op op x y) \<and>
    bignum_val (bignum_pospos_bitwise_op op x y) = digit_op op (bignum_val x) (bignum_val y)"
proof -
  define n where "n = (if BIGNUM_LENGTH x > BIGNUM_LENGTH y then BIGNUM_LENGTH x else BIGNUM_LENGTH y)"
  have val: "digits_val (digits x) = bignum_val x" "digits_val (digits y) = bignum_val y"
    using assms(3,4) by (simp_all add: bignum_val_def signed_val_def)
  note px = pad_val [OF bignum_wf_digits [OF assms(1)], of n] and py = pad_val [OF bignum_wf_digits [OF assms(2)], of n]
  let ?ds = "pospos_scan op n (digits x) (digits y)"
  have ds: "digits_ok ?ds" "length ?ds = n" "digits_val ?ds = digit_op op (bignum_val x) (bignum_val y) mod BIGNUM_RADIX ^ n"
    using px py map2_digit_op_val [of "pad n (digits x)" "pad n (digits y)" op]
    by (simp_all add: scan_streams digit_op_mod val)
  have "0 \<le> bignum_val x" "0 \<le> bignum_val y"
    using assms bignum_negative_val [OF assms(1)] bignum_negative_val [OF assms(2)] by simp_all
  then have "0 \<le> digit_op op (bignum_val x) (bignum_val y)" by (cases op) simp_all
  moreover have "digit_op op (bignum_val x) (bignum_val y) < BIGNUM_RADIX ^ n"
    by (rule bignum_op_range [OF assms(1,2)]) (simp_all add: n_def)
  ultimately show ?thesis
    using bitwise_result_nonneg [OF ds] by (simp add: bignum_pospos_bitwise_op_def Let_def n_def [symmetric])
qed

lemma negneg_val:
  assumes "bignum_wf x" "bignum_wf y" "negative_p x" "negative_p y"
  shows "bignum_wf (bignum_negneg_bitwise_op op x y) \<and>
    bignum_val (bignum_negneg_bitwise_op op x y) = digit_op op (bignum_val x) (bignum_val y)"
proof -
  define n where "n = (if BIGNUM_LENGTH x > BIGNUM_LENGTH y then BIGNUM_LENGTH x else BIGNUM_LENGTH y)"
  let ?v = "digit_op op (bignum_val x) (bignum_val y)" and ?ds = "negneg_scan op (n + 1) (digits x) (digits y) 1 1"
  have val: "- digits_val (digits x) = bignum_val x" "- digits_val (digits y) = bignum_val y"
    using assms(3,4) by (simp_all add: bignum_val_def signed_val_def)
  have cx: "digits_ok (complement_scan (n + 1) (digits x) 1)" "length (complement_scan (n + 1) (digits x) 1) = n + 1"
      "digits_val (complement_scan (n + 1) (digits x) 1) = bignum_val x mod BIGNUM_RADIX ^ (n + 1)"
    and cy: "digits_ok (complement_scan (n + 1) (digits y) 1)" "length (complement_scan (n + 1) (digits y) 1) = n + 1"
      "digits_val (complement_scan (n + 1) (digits y) 1) = bignum_val y mod BIGNUM_RADIX ^ (n + 1)"
    using complement_scan_val [OF bignum_wf_digits [OF assms(1)], of 1 "n + 1"]
      complement_scan_val [OF bignum_wf_digits [OF assms(2)], of 1 "n + 1"] by (simp_all add: val del: complement_scan.simps power_Suc)
  have ds: "digits_ok ?ds" "length ?ds = n + 1" "digits_val ?ds = ?v mod BIGNUM_RADIX ^ (n + 1)"
    using map2_digit_op_val [OF cx(1) cy(1), of op] cx(2,3) cy(2,3) unfolding scan_streams
    by (simp_all add: digit_op_mod del: complement_scan.simps power_Suc)
  have r: "- (BIGNUM_RADIX ^ n) \<le> ?v" "?v < BIGNUM_RADIX ^ n"
    by (rule bignum_op_range [OF assms(1,2)]; simp add: n_def)+
  have "BIGNUM_RADIX ^ n < BIGNUM_RADIX ^ (n + 1)" by (rule power_strict_increasing) simp_all
  with r have r': "- (BIGNUM_RADIX ^ (n + 1)) < ?v" "?v < BIGNUM_RADIX ^ (n + 1)" by linarith+
  have len: "(if BIGNUM_LENGTH x > BIGNUM_LENGTH y then BIGNUM_LENGTH x + 1 else BIGNUM_LENGTH y + 1) = n + 1"
    by (simp add: n_def)
  have neg: "bignum_val x < 0" "bignum_val y < 0"
    using assms bignum_negative_val [OF assms(1)] bignum_negative_val [OF assms(2)] by simp_all
  show ?thesis
  proof (cases "op = XOR_OP")
    case True
    then have "0 \<le> ?v" using neg digit_op_negative [of op "bignum_val x" "bignum_val y"] by simp
    then show ?thesis
      using bitwise_result_nonneg [OF ds _ r'(2)] True unfolding bignum_negneg_bitwise_op_def Let_def len by simp
  next
    case False
    then have "?v < 0" and op: "op = AND_OP \<or> op = IOR_OP" using neg by (cases op; simp)+
    then show ?thesis
      using bitwise_result_negative [OF ds(1,2) _ ds(3) less_imp_le [OF r'(1)]] r'(1)
      unfolding bignum_negneg_bitwise_op_def Let_def len by (simp add: op)
  qed
qed

text \<open>
  In the mixed case the result array has one digit more than the negative argument, but
  no more digits than the positive one. An exclusive or that is exactly \<open>- R ^ n\<close> for
  the \<open>n\<close> digits of a longer positive argument does not fit: its magnitude modulo
  \<open>R ^ n\<close> is zero, and zero is what the code returns.
\<close>

definition xor_overflow :: "bignum \<Rightarrow> bignum \<Rightarrow> bool" where
  "xor_overflow p m \<longleftrightarrow> \<not> negative_p p \<and> negative_p m \<and> BIGNUM_LENGTH m < BIGNUM_LENGTH p \<and>
     bignum_val p XOR bignum_val m = - (BIGNUM_RADIX ^ BIGNUM_LENGTH p)"

lemma posneg_val:
  assumes "bignum_wf x" "bignum_wf y" "\<not> negative_p x" "negative_p y"
  shows "bignum_wf (bignum_posneg_bitwise_op op x y) \<and>
    bignum_val (bignum_posneg_bitwise_op op x y) =
      (if op = XOR_OP \<and> xor_overflow x y then 0 else digit_op op (bignum_val x) (bignum_val y))"
proof -
  define n where "n = (if BIGNUM_LENGTH x > BIGNUM_LENGTH y + 1 then BIGNUM_LENGTH x else BIGNUM_LENGTH y + 1)"
  have n: "0 < n" "BIGNUM_LENGTH x \<le> n" "BIGNUM_LENGTH y < n" by (simp_all add: n_def)
  let ?v = "digit_op op (bignum_val x) (bignum_val y)" and ?ds = "posneg_scan op n (digits x) (digits y) 1"
  have val: "digits_val (digits x) = bignum_val x" "- digits_val (digits y) = bignum_val y"
    using assms(3,4) by (simp_all add: bignum_val_def signed_val_def)
  note px = pad_val [OF bignum_wf_digits [OF assms(1)], of n]
    and cy = complement_scan_val [OF bignum_wf_digits [OF assms(2)], of 1 n]
  have ds: "digits_ok ?ds" "length ?ds = n" "digits_val ?ds = ?v mod BIGNUM_RADIX ^ n"
    using px cy map2_digit_op_val [of "pad n (digits x)" "complement_scan n (digits y) 1" op]
    by (simp_all add: scan_streams digit_op_mod val)
  have r: "- (BIGNUM_RADIX ^ n) \<le> ?v" "?v < BIGNUM_RADIX ^ n"
    using n by (intro bignum_op_range [OF assms(1,2)]; simp)+
  have sign: "0 \<le> bignum_val x" "bignum_val y < 0"
    using assms bignum_negative_val [OF assms(1)] bignum_negative_val [OF assms(2)] by simp_all
  have pow: "BIGNUM_RADIX ^ k < BIGNUM_RADIX ^ n" if "k < n" for k
    using that by (intro power_strict_increasing) simp_all
  have overflow: "?v = - (BIGNUM_RADIX ^ n) \<longleftrightarrow> op = XOR_OP \<and> xor_overflow x y" if "?v < 0"
  proof (cases "op = XOR_OP")
    case True
    show ?thesis
    proof (cases "BIGNUM_LENGTH y < BIGNUM_LENGTH x")
      case longer: True
      then have "n = BIGNUM_LENGTH x" by (simp add: n_def)
      with True longer assms(3,4) show ?thesis by (simp add: xor_overflow_def)
    next
      case False
      have "- (BIGNUM_RADIX ^ BIGNUM_LENGTH y) \<le> ?v"
        using False by (intro bignum_op_range(1) [OF assms(1,2)]) simp_all
      with pow [OF n(3)] have "?v \<noteq> - (BIGNUM_RADIX ^ n)" by linarith
      with False show ?thesis by (simp add: xor_overflow_def)
    qed
  next
    case False
    with that sign have "op = IOR_OP" using digit_op_negative [of op "bignum_val x" "bignum_val y"] by (cases op) simp_all
    then have "bignum_val y \<le> ?v" using or_greater_eq [OF sign(1), of "bignum_val y"] by (simp add: or.commute)
    moreover have "- (BIGNUM_RADIX ^ BIGNUM_LENGTH y) < bignum_val y"
      using bignum_length_val(1) [OF assms(2)] sign by linarith
    ultimately have "?v \<noteq> - (BIGNUM_RADIX ^ n)" using pow [OF n(3)] by linarith
    with False show ?thesis by simp
  qed
  show ?thesis
  proof (cases "op = AND_OP")
    case True
    then have "0 \<le> ?v" using sign by simp
    then show ?thesis
      using bitwise_result_nonneg [OF ds _ r(2)] True
      unfolding bignum_posneg_bitwise_op_def Let_def n_def [symmetric] by simp
  next
    case False
    then have neg: "?v < 0" and op: "op = IOR_OP \<or> op = XOR_OP" using sign by (cases op; simp)+
    then show ?thesis
      using bitwise_result_negative [OF ds(1,2) n(1) ds(3) r(1) neg] overflow [OF neg]
      unfolding bignum_posneg_bitwise_op_def Let_def n_def [symmetric] by (simp add: op)
  qed
qed

lemma bignum_bitwise_and_val:
  assumes "bignum_wf x" "bignum_wf y"
  shows "bignum_wf (bignum_bitwise_and x y)"
    "bignum_val (bignum_bitwise_and x y) = bignum_val x AND bignum_val y"
  using pospos_val [OF assms, of AND_OP] negneg_val [OF assms, of AND_OP] posneg_val [OF assms, of AND_OP]
    posneg_val [OF assms(2,1), of AND_OP]
  by (auto simp: bignum_bitwise_and_def and.commute)

lemma bignum_bitwise_ior_val:
  assumes "bignum_wf x" "bignum_wf y"
  shows "bignum_wf (bignum_bitwise_ior x y)"
    "bignum_val (bignum_bitwise_ior x y) = bignum_val x OR bignum_val y"
  using pospos_val [OF assms, of IOR_OP] negneg_val [OF assms, of IOR_OP] posneg_val [OF assms, of IOR_OP]
    posneg_val [OF assms(2,1), of IOR_OP]
  by (auto simp: bignum_bitwise_ior_def or.commute)

lemma bignum_bitwise_xor_val:
  assumes "bignum_wf x" "bignum_wf y"
  shows "bignum_wf (bignum_bitwise_xor x y)"
    "bignum_val (bignum_bitwise_xor x y) =
      (if xor_overflow x y \<or> xor_overflow y x then 0
       else bignum_val x XOR bignum_val y)"
proof -
  show "bignum_wf (bignum_bitwise_xor x y)"
    using pospos_val [OF assms, of XOR_OP] negneg_val [OF assms, of XOR_OP] posneg_val [OF assms, of XOR_OP]
      posneg_val [OF assms(2,1), of XOR_OP] by (auto simp: bignum_bitwise_xor_def)
  show "bignum_val (bignum_bitwise_xor x y) =
      (if xor_overflow x y \<or> xor_overflow y x then 0
       else bignum_val x XOR bignum_val y)"
    using pospos_val [OF assms, of XOR_OP] negneg_val [OF assms, of XOR_OP] posneg_val [OF assms, of XOR_OP]
      posneg_val [OF assms(2,1), of XOR_OP]
    by (auto simp: bignum_bitwise_xor_def xor_overflow_def xor.commute)
qed

interpretation bignum_bitwise_and: bignum_binop "\<lambda>x y. Some (bignum_bitwise_and x y)" "(AND)" "\<lambda>_ _. True"
  by unfold_locales (simp add: bignum_bitwise_and_val)

interpretation bignum_bitwise_ior: bignum_binop "\<lambda>x y. Some (bignum_bitwise_ior x y)" "(OR)" "\<lambda>_ _. True"
  by unfold_locales (simp add: bignum_bitwise_ior_val)

subsection \<open>Bit length and bit test\<close>

lemma length_loop_val:
  assumes "0 < d" "0 \<le> c" "c + d < 2 ^ 63"
  shows "\<exists>k. length_loop d c = Some (c + int k) \<and> 2 ^ k \<le> d \<and> d < 2 ^ Suc k"
  using assms
proof (induction "nat d" arbitrary: d c rule: less_induct)
  case less
  show ?case
  proof (cases "1 < d")
    case True
    have h: "drop_bit 1 d = d div 2" "fx (c + 1) = c + 1" using less.prems True by (simp_all add: drop_bit_eq_div fx_id)
    have "nat (d div 2) < nat d" "0 < d div 2" "0 \<le> c + 1" "c + 1 + d div 2 < 2 ^ 63"
      using less.prems True by simp_all
    from less.hyps [OF this] obtain k where k: "length_loop (d div 2) (c + 1) = Some (c + 1 + int k)"
        "2 ^ k \<le> d div 2" "d div 2 < 2 ^ Suc k" by blast
    have "length_loop d c = length_loop (d div 2) (c + 1)"
      using True h by (subst length_loop.simps) simp
    moreover have "2 ^ Suc k \<le> d" "d < 2 ^ Suc (Suc k)" using k(2,3) by simp_all
    ultimately show ?thesis using k(1) by (intro exI [of _ "Suc k"]) simp
  next
    case False
    then have "d = 1" using less.prems(1) by simp
    then show ?thesis by (intro exI [of _ 0]) (subst length_loop.simps, simp)
  qed
qed

lemma integer_length_digits:
  assumes "0 \<le> index" "index < BIGNUM_RADIX" "0 \<le> k" "k < 62"
  shows "\<exists>r. (if index < BIGNUM_RADIX_ROOT then Some (mk_bignum False [fx (index * 62 + k)])
      else do {
        r \<leftarrow> bignum_destructive_scale_up (mk_bignum False [index, 0]) 62;
        bignum_destructive_add r k
      }) = Some r \<and> bignum_wf (bignum_trim r) \<and> bignum_val (bignum_trim r) = 62 * index + k"
proof (cases "index < BIGNUM_RADIX_ROOT")
  case True
  then have "fx (index * 62 + k) = index * 62 + k" "digit_ok (index * 62 + k)"
    using assms by (simp_all add: fx_id digit_ok_def bignum_num)
  then show ?thesis using True by (simp add: bignum_trim_mk_wf signed_val_def)
next
  case False
  have ok: "digits_ok (digits (mk_bignum False [index, 0]))" using assms by (simp add: digit_ok_def)
  obtain ds where ds: "bignum_destructive_scale_up (mk_bignum False [index, 0]) 62 = Some (mk_bignum False ds)"
      "digits_ok ds" "length ds = 2" "digits_val ds = 62 * index"
    using bignum_destructive_scale_up_val [OF _ _ ok, of 62] assms
    by (auto simp: BIGNUM_LENGTH_def bignum_num power2_eq_square)
  obtain ds' where "bignum_destructive_add (mk_bignum False ds) k = Some (mk_bignum False ds')"
      "digits_ok ds'" "length ds' = 2" "digits_val ds' = 62 * index + k"
    using bignum_destructive_add_val [of "mk_bignum False ds" k] ds(2-4) assms
    by (auto simp: BIGNUM_LENGTH_def BIGNUM_ZERO_P_def digit_ok_def bignum_num power2_eq_square)
  then show ?thesis using False ds(1) by (simp add: bignum_trim_mk_wf signed_val_def)
qed

lemma bignum_integer_length_val:
  assumes x: "bignum_wf x" "0 < bignum_val x" and len: "int (BIGNUM_LENGTH x) \<le> BIGNUM_RADIX"
  shows "\<exists>r. bignum_integer_length x = Some r \<and> bignum_wf r \<and> 0 \<le> bignum_val r \<and>
    2 ^ nat (bignum_val r) \<le> bignum_val x \<and> bignum_val x < 2 ^ Suc (nat (bignum_val r))"
proof -
  have nz: "\<not> BIGNUM_ZERO_P x" using x bignum_zero_p_val [OF x(1)] by simp
  then have ne: "digits x \<noteq> []" by (auto simp: BIGNUM_ZERO_P_def BIGNUM_LENGTH_def)
  let ?d = "last (digits x)" and ?i = "BIGNUM_LENGTH x - 1"
  have "digit_ok ?d" using bignum_wf_digits [OF x(1)] ne by (auto simp: digits_ok_def list_all_iff)
  then have d: "0 < ?d" "?d < 2 ^ 62" using x(1) ne by (auto simp: bignum_wf_def digit_ok_def radix_exp)
  have ref: "BIGNUM_REF x ?i = ?d" using ne by (simp add: BIGNUM_REF_def BIGNUM_LENGTH_def last_conv_nth)
  have idx: "int (BIGNUM_LENGTH x) - 1 = int ?i" using nz by (simp add: BIGNUM_ZERO_P_def of_nat_diff)
  obtain k where k: "length_loop ?d 0 = Some (int k)" "2 ^ k \<le> ?d" "?d < 2 ^ Suc k"
    using length_loop_val [of ?d 0] d by auto
  have "(2::int) ^ k < 2 ^ 62" using k(2) d(2) by linarith
  then have "k < 62" by (simp only: power_strict_increasing_iff [of "2::int"])
  then obtain r where r: "(if int ?i < BIGNUM_RADIX_ROOT then Some (mk_bignum False [fx (int ?i * 62 + int k)])
      else do {
        r \<leftarrow> bignum_destructive_scale_up (mk_bignum False [int ?i, 0]) 62;
        bignum_destructive_add r (int k)
      }) = Some r" "bignum_wf (bignum_trim r)" "bignum_val (bignum_trim r) = 62 * int ?i + int k"
    using integer_length_digits [of "int ?i" "int k"] len nz by (auto simp: BIGNUM_ZERO_P_def of_nat_diff)
  have result: "bignum_integer_length x = Some (bignum_trim r)"
    unfolding bignum_integer_length_def Let_def ref idx k(1) digit_length of_nat_numeral bind.bind_lunit
      r(1) if_not_P [OF nz] ..
  have mag: "bignum_val x = digits_val (digits x)" using bignum_abs_val [OF x(1)] x(2) by simp
  note b = last_digit_bounds [OF bignum_wf_digits [OF x(1)] ne]
  have e: "nat (62 * int ?i + int k) = 62 * ?i + k" by (simp add: nat_add_distrib nat_mult_distrib)
  have "2 ^ k * BIGNUM_RADIX ^ ?i \<le> ?d * BIGNUM_RADIX ^ ?i" using k(2) by (intro mult_right_mono) simp_all
  also have "\<dots> \<le> bignum_val x" using b(1) by (simp add: mag BIGNUM_LENGTH_def)
  finally have lo: "2 ^ (62 * ?i + k) \<le> bignum_val x" by (simp add: radix_power power_add mult.commute)
  have "bignum_val x < (?d + 1) * BIGNUM_RADIX ^ ?i" using b(2) by (simp add: mag BIGNUM_LENGTH_def)
  also have "\<dots> \<le> 2 ^ Suc k * BIGNUM_RADIX ^ ?i" using k(3) by (intro mult_right_mono) simp_all
  finally have "bignum_val x < 2 ^ Suc (62 * ?i + k)" by (simp add: radix_power power_add mult.commute mult.left_commute)
  with lo r(2,3) result show ?thesis unfolding e [symmetric] by auto
qed

lemma bignum_unsigned_logbitp_val:
  assumes "bignum_wf x"
  shows "bignum_unsigned_logbitp n x \<longleftrightarrow> bit \<bar>bignum_val x\<bar> n"
proof -
  have ok: "digits_ok (digits x)" using assms by (rule bignum_wf_digits)
  have "bit \<bar>bignum_val x\<bar> n \<longleftrightarrow> bit (digits_val (drop (n div 62) (digits x))) (n mod 62)"
    unfolding bignum_abs_val [OF assms, symmetric] digits_val_drop [OF ok] radix_power
    by (simp add: drop_bit_eq_div [symmetric] bit_drop_bit_eq)
  also have "\<dots> \<longleftrightarrow> bignum_unsigned_logbitp n x"
  proof (cases "n div 62 < BIGNUM_LENGTH x")
    case True
    then have dr: "drop (n div 62) (digits x) = digits x ! (n div 62) # drop (Suc (n div 62)) (digits x)"
      by (simp add: BIGNUM_LENGTH_def Cons_nth_drop_Suc)
    have "bit (d + BIGNUM_RADIX * v) k \<longleftrightarrow> bit d k" if "digit_ok d" "k < 62" for d v k
    proof -
      have "d + BIGNUM_RADIX * v = push_bit 62 v OR d"
        using that or_disjoint_add [of d 62 v] by (simp add: digit_ok_def bignum_num)
      with that show ?thesis by (simp add: bit_simps)
    qed
    then have "bit (digits_val (drop (n div 62) (digits x))) (n mod 62) \<longleftrightarrow> bit (digits x ! (n div 62)) (n mod 62)"
      using digits_ok_nth [OF ok, of "n div 62"] True by (simp add: dr BIGNUM_LENGTH_def)
    then show ?thesis
      using True by (simp add: bignum_unsigned_logbitp_def BIGNUM_REF_def Let_def and_exp_eq_0_iff_not_bit push_bit_eq_mult)
  qed (simp add: bignum_unsigned_logbitp_def BIGNUM_LENGTH_def)
  finally show ?thesis ..
qed

lemma bignum_logbitp_val:
  assumes "bignum_wf x"
  shows "bignum_logbitp n x \<longleftrightarrow> bit (bignum_val x) n"
proof -
  note n = bignum_bitwise_not_val [OF assms]
  have "bignum_unsigned_logbitp n (bignum_bitwise_not x) \<longleftrightarrow> \<not> bit (bignum_val x) n" if "negative_p x"
    using bignum_unsigned_logbitp_val [OF n(1)] that bignum_negative_val [OF assms]
    by (simp add: n(2) bit_not_iff not_int_def [symmetric] abs_of_nonneg)
  then show ?thesis
    using bignum_unsigned_logbitp_val [OF assms, of n] bignum_negative_val [OF assms]
    by (simp add: bignum_logbitp_def)
qed

end
