(* ===== verification/Layouts.thy ===== *)
theory Layouts
  imports VM_Prelude
begin

text \<open>
  Tagged cells and object layouts (\<open>vm/layouts.hpp\<close>, \<open>vm/tagged.hpp\<close>,
  \<open>vm/generic_arrays.hpp\<close> and the constants of \<open>vm/math.hpp\<close>).

  A cell is a tagged value: the low four bits are the type, the rest a signed integer or
  a 16-byte aligned address. Memory is a function from byte addresses to the cell stored
  there; the model only reads and writes whole cells at cell-aligned addresses. An object
  is its address; its header is the cell at that address.
\<close>

type_synonym memory = "cell \<Rightarrow> cell"

subsection \<open>Constants and alignment\<close>

abbreviation sizeof_cell :: cell where
  "sizeof_cell \<equiv> 8"

definition data_alignment :: cell where
  "data_alignment = 16"

definition align :: "cell \<Rightarrow> cell \<Rightarrow> cell" where
  "align a b = (a + (b - 1)) AND NOT (b - 1)"

definition alignment_for :: "cell \<Rightarrow> cell \<Rightarrow> cell" where
  "alignment_for a b = align a b - a"

definition TAG_MASK :: cell where
  "TAG_MASK = 15"

definition TAG_BITS :: nat where
  "TAG_BITS = 4"

definition TAG :: "cell \<Rightarrow> cell" where
  "TAG x = x AND TAG_MASK"

definition UNTAG :: "cell \<Rightarrow> cell" where
  "UNTAG x = x AND NOT TAG_MASK"

definition RETAG :: "cell \<Rightarrow> cell \<Rightarrow> cell" where
  "RETAG x t = UNTAG x OR t"

subsection \<open>Types\<close>

datatype vm_type =
    FIXNUM_TYPE | F_TYPE | ARRAY_TYPE | FLOAT_TYPE | QUOTATION_TYPE | BIGNUM_TYPE | ALIEN_TYPE
  | TUPLE_TYPE | WRAPPER_TYPE | BYTE_ARRAY_TYPE | CALLSTACK_TYPE | STRING_TYPE | WORD_TYPE | DLL_TYPE

fun type_number :: "vm_type \<Rightarrow> cell" where
  "type_number FIXNUM_TYPE = 0"
| "type_number F_TYPE = 1"
| "type_number ARRAY_TYPE = 2"
| "type_number FLOAT_TYPE = 3"
| "type_number QUOTATION_TYPE = 4"
| "type_number BIGNUM_TYPE = 5"
| "type_number ALIEN_TYPE = 6"
| "type_number TUPLE_TYPE = 7"
| "type_number WRAPPER_TYPE = 8"
| "type_number BYTE_ARRAY_TYPE = 9"
| "type_number CALLSTACK_TYPE = 10"
| "type_number STRING_TYPE = 11"
| "type_number WORD_TYPE = 12"
| "type_number DLL_TYPE = 13"

text \<open>The default case of \<open>type_name\<close> is a failed assertion.\<close>

definition type_name :: "cell \<Rightarrow> string option" where
  "type_name t =
     (if t = 0 then Some ''fixnum'' else if t = 1 then Some ''f'' else if t = 2 then Some ''array''
      else if t = 3 then Some ''float'' else if t = 4 then Some ''quotation''
      else if t = 5 then Some ''bignum'' else if t = 6 then Some ''alien''
      else if t = 7 then Some ''tuple'' else if t = 8 then Some ''wrapper''
      else if t = 9 then Some ''byte-array'' else if t = 10 then Some ''callstack''
      else if t = 11 then Some ''string'' else if t = 12 then Some ''word''
      else if t = 13 then Some ''dll'' else None)"

definition false_object :: cell where
  "false_object = type_number F_TYPE"

definition immediate_p :: "cell \<Rightarrow> bool" where
  "immediate_p obj \<longleftrightarrow> TAG obj \<le> type_number F_TYPE"

subsection \<open>Fixnums\<close>

text \<open>\<open>None\<close> is the failed assertion on the tag.\<close>

definition untag_fixnum :: "cell \<Rightarrow> fixnum option" where
  "untag_fixnum tagged =
     (if TAG tagged = type_number FIXNUM_TYPE then Some (drop_bit TAG_BITS (sint tagged)) else None)"

definition tag_fixnum :: "fixnum \<Rightarrow> cell" where
  "tag_fixnum untagged = push_bit TAG_BITS (word_of_int untagged) OR type_number FIXNUM_TYPE"

definition fixnum_max :: fixnum where
  "fixnum_max = fx (push_bit (64 - TAG_BITS - 1) 1 - 1)"

definition fixnum_min :: fixnum where
  "fixnum_min = fx (- push_bit (64 - TAG_BITS - 1) 1)"

definition array_size_max :: fixnum where
  "array_size_max = fx (push_bit (64 - TAG_BITS - 2) 1)"

subsection \<open>Object headers\<close>

definition free_p :: "cell \<Rightarrow> bool" where
  "free_p header \<longleftrightarrow> header AND 1 = 1"

definition object_type :: "cell \<Rightarrow> cell" where
  "object_type header = drop_bit 2 header AND TAG_MASK"

definition initialize :: "cell \<Rightarrow> cell" where
  "initialize t = push_bit 2 t"

definition hashcode :: "cell \<Rightarrow> cell" where
  "hashcode header = drop_bit 6 header"

definition set_hashcode :: "cell \<Rightarrow> cell \<Rightarrow> cell" where
  "set_hashcode header h = (header AND 0x3f) OR push_bit 6 h"

definition forwarding_pointer_p :: "cell \<Rightarrow> bool" where
  "forwarding_pointer_p header \<longleftrightarrow> header AND 2 = 2"

definition forwarding_pointer :: "cell \<Rightarrow> cell" where
  "forwarding_pointer header = UNTAG header"

definition forward_to :: "cell \<Rightarrow> cell" where
  "forward_to ptr = ptr OR 2"

subsection \<open>Tagged pointers\<close>

definition tag_pointer :: "vm_type \<Rightarrow> cell \<Rightarrow> cell" where
  "tag_pointer ty ptr = RETAG ptr (type_number ty)"

definition tag_dynamic :: "memory \<Rightarrow> cell \<Rightarrow> cell" where
  "tag_dynamic mem ptr = RETAG ptr (object_type (mem ptr))"

text \<open>\<open>None\<close> as type is the wildcard \<open>TYPE_COUNT\<close>.\<close>

definition tagged_type_p :: "vm_type option \<Rightarrow> cell \<Rightarrow> bool" where
  "tagged_type_p ty v = (case ty of None \<Rightarrow> True | Some t \<Rightarrow> TAG v = type_number t)"

definition untagged :: "vm_type option \<Rightarrow> cell \<Rightarrow> cell option" where
  "untagged ty v = (if tagged_type_p ty v then Some (UNTAG v) else None)"

named_theorems tag_simps "constants of the tagging scheme"

lemmas tag_consts [tag_simps] = TAG_MASK_def TAG_BITS_def data_alignment_def

lemma fixnum_limits [tag_simps]:
  "fixnum_max = 2 ^ 59 - 1" "fixnum_min = - (2 ^ 59)" "array_size_max = 2 ^ 58"
  by (simp_all add: fixnum_max_def fixnum_min_def array_size_max_def TAG_BITS_def push_bit_eq_mult fx_id)

lemma type_number_less: "type_number ty < 14"
  by (cases ty) simp_all

lemma type_number_inject: "type_number a = type_number b \<longleftrightarrow> a = b"
  by (cases a; cases b) simp_all

lemma type_name_number: "type_name (type_number ty) \<noteq> None"
  by (cases ty) (simp_all add: type_name_def)

lemma tag_mask: "TAG_MASK = mask 4"
  by (simp add: TAG_MASK_def mask_eq_exp_minus_1)

lemma TAG_take_bit: "TAG x = take_bit 4 x"
  by (simp add: TAG_def tag_mask take_bit_eq_mask)

lemma UNTAG_shift: "UNTAG x = push_bit 4 (drop_bit 4 x)"
  by (simp add: UNTAG_def tag_mask and_not_mask)

lemma unat_TAG: "unat (TAG x) = unat x mod 16"
  by (simp add: TAG_def tag_mask unat_and_mask)

lemma unat_UNTAG: "unat (UNTAG x) = unat x div 16 * 16"
  by (simp add: UNTAG_def tag_mask unat_and_not_mask)

subsection \<open>Tagging round trips\<close>

lemma tag_fixnum_word: "tag_fixnum n = word_of_int (n * 16)"
  by (simp add: tag_fixnum_def TAG_BITS_def push_bit_eq_mult mult.commute)

lemma tag_fixnum_TAG [simp]: "TAG (tag_fixnum n) = 0"
  by (rule bit_word_eqI) (simp add: TAG_take_bit tag_fixnum_def TAG_BITS_def bit_simps)

lemma untag_tag_fixnum:
  assumes "fixnum_min \<le> n" "n \<le> fixnum_max"
  shows "untag_fixnum (tag_fixnum n) = Some n"
proof -
  have "fx (n * 16) = n * 16" using assms by (intro fx_id) (simp_all add: tag_simps)
  then have "sint (tag_fixnum n) = n * 16" unfolding tag_fixnum_word sint_fx .
  then show ?thesis by (simp add: untag_fixnum_def TAG_BITS_def drop_bit_eq_div)
qed

lemma tag_untag_fixnum:
  assumes "untag_fixnum c = Some n"
  shows "tag_fixnum n = c" "fixnum_min \<le> n" "n \<le> fixnum_max"
proof -
  from assms have t: "take_bit 4 c = 0" and n: "n = sint c div 16"
    by (simp_all add: untag_fixnum_def TAG_take_bit TAG_BITS_def drop_bit_eq_div split: if_splits)
  have "sint c mod 16 = uint c mod 16"
    using uint_sint [of c] by (simp add: take_bit_eq_mod mod_mod_cancel)
  also have "\<dots> = uint (take_bit 4 c)" unfolding unsigned_take_bit_eq by (simp add: take_bit_eq_mod)
  finally have "sint c mod 16 = 0" using t by simp
  then have c: "sint c = n * 16" unfolding n by presburger
  show "tag_fixnum n = c" unfolding tag_fixnum_word by (simp flip: c del: of_int_mult)
  show "fixnum_min \<le> n" "n \<le> fixnum_max"
    using sint_greater_eq [of c] sint_less [of c] n by (simp_all add: tag_simps)
qed

lemma RETAG_aligned:
  assumes "t < 16"
  shows "UNTAG (RETAG p t) = UNTAG p" "TAG (RETAG p t) = t"
proof -
  have t: "take_bit 4 t = t"
    unfolding word_unat_eq_iff unsigned_take_bit_eq using assms by (simp add: word_less_nat_alt take_bit_nat_eq_self)
  then have hi: "\<not> bit t k" if "4 \<le> k" for k using that by (metis bit_take_bit_iff not_le)
  show "UNTAG (RETAG p t) = UNTAG p"
    by (rule bit_word_eqI) (auto simp: RETAG_def UNTAG_shift bit_simps hi)
  show "TAG (RETAG p t) = t"
    unfolding RETAG_def TAG_take_bit UNTAG_shift take_bit_or t
    by (simp add: take_bit_push_bit)
qed

lemma tag_pointer_roundtrip:
  assumes "16 dvd unat p"
  shows "UNTAG (tag_pointer ty p) = p" "TAG (tag_pointer ty p) = type_number ty"
    "untagged (Some ty) (tag_pointer ty p) = Some p"
proof -
  have t: "type_number ty < 16" using type_number_less [of ty] by (auto intro: less_trans)
  have "UNTAG p = p" unfolding word_unat_eq_iff unat_UNTAG using assms by simp
  then show "UNTAG (tag_pointer ty p) = p" "TAG (tag_pointer ty p) = type_number ty"
    "untagged (Some ty) (tag_pointer ty p) = Some p"
    using RETAG_aligned [OF t, of p] by (simp_all add: tag_pointer_def untagged_def tagged_type_p_def)
qed

subsection \<open>Headers\<close>

lemma take_bit_self_less: "unat t < 2 ^ n \<Longrightarrow> take_bit n t = t" for t :: cell
  unfolding word_unat_eq_iff unsigned_take_bit_eq by (simp add: take_bit_nat_eq_self)

lemma free_p_bit: "free_p h \<longleftrightarrow> bit h 0"
  by (simp add: free_p_def and_one_eq bit_0 odd_iff_mod_2_eq_one)

lemma forwarding_pointer_p_bit: "forwarding_pointer_p h \<longleftrightarrow> bit h 1"
proof -
  have "h AND 2 = (if bit h 1 then 2 else 0)"
    by (rule bit_word_eqI) (auto simp: bit_simps)
  then show ?thesis by (simp add: forwarding_pointer_p_def)
qed

lemma object_type_take_bit: "object_type h = take_bit 4 (drop_bit 2 h)"
  by (simp add: object_type_def tag_mask take_bit_eq_mask)

lemma set_hashcode_bits: "set_hashcode h k = take_bit 6 h OR push_bit 6 k"
proof -
  have "(0x3f :: cell) = mask 6" by (simp add: mask_eq_exp_minus_1)
  then show ?thesis by (simp add: set_hashcode_def take_bit_eq_mask)
qed

lemma initialize_header:
  "object_type (initialize (type_number ty)) = type_number ty" "\<not> free_p (initialize (type_number ty))"
  "\<not> forwarding_pointer_p (initialize (type_number ty))" "hashcode (initialize (type_number ty)) = 0"
proof -
  have t: "take_bit 4 (type_number ty) = type_number ty"
    by (cases ty) simp_all
  then have hi: "\<not> bit (type_number ty) k" if "4 \<le> k" for k using that by (metis bit_take_bit_iff not_le)
  show "object_type (initialize (type_number ty)) = type_number ty"
    by (rule bit_word_eqI) (use hi in \<open>auto simp: object_type_take_bit initialize_def bit_simps not_le [symmetric]\<close>)
  show "\<not> free_p (initialize (type_number ty))" "\<not> forwarding_pointer_p (initialize (type_number ty))"
    by (simp_all add: free_p_bit forwarding_pointer_p_bit initialize_def bit_simps)
  show "hashcode (initialize (type_number ty)) = 0"
    by (rule bit_word_eqI) (use hi in \<open>auto simp: hashcode_def initialize_def bit_simps\<close>)
qed

lemma set_hashcode_header:
  "object_type (set_hashcode h k) = object_type h" "free_p (set_hashcode h k) = free_p h"
  "forwarding_pointer_p (set_hashcode h k) = forwarding_pointer_p h"
  by (rule bit_word_eqI; auto simp: object_type_take_bit set_hashcode_bits bit_simps)
    (simp_all add: free_p_bit forwarding_pointer_p_bit set_hashcode_bits bit_simps)

lemma hashcode_set_hashcode:
  assumes "unat k < 2 ^ 58"
  shows "hashcode (set_hashcode h k) = k"
proof -
  have "take_bit 58 k = k" using assms by (rule take_bit_self_less)
  then have hi: "\<not> bit k i" if "58 \<le> i" for i using that by (metis bit_take_bit_iff not_le)
  show ?thesis
    by (rule bit_word_eqI) (use hi in \<open>auto simp: hashcode_def set_hashcode_bits bit_simps not_le [symmetric]\<close>)
qed

lemma aligned_low_bits:
  fixes p :: cell
  assumes "16 dvd unat p" "k < 4"
  shows "\<not> bit p k"
proof -
  have "unat (TAG p) = 0" unfolding unat_TAG using assms(1) by simp
  then have "take_bit 4 p = 0" by (simp add: TAG_take_bit unat_eq_0)
  then show ?thesis using assms(2) by (metis bit_take_bit_iff bit_0_eq bot_apply bot_bool_def)
qed

lemma forward_to_header:
  assumes "16 dvd unat p"
  shows "forwarding_pointer_p (forward_to p)" "forwarding_pointer (forward_to p) = p" "\<not> free_p (forward_to p)"
proof -
  note low = aligned_low_bits [OF assms]
  show "forwarding_pointer_p (forward_to p)" "\<not> free_p (forward_to p)"
    using low [of 0] by (simp_all add: forwarding_pointer_p_bit free_p_bit forward_to_def bit_simps)
  have b2: "bit (2 :: cell) n \<longleftrightarrow> n = 1" for n by (auto simp: bit_simps)
  show "forwarding_pointer (forward_to p) = p"
  proof (rule bit_word_eqI)
    fix n
    show "bit (forwarding_pointer (forward_to p)) n \<longleftrightarrow> bit p n" if "n < LENGTH(64)"
      using low [of n] that
      by (cases "4 \<le> n") (auto simp: forwarding_pointer_def forward_to_def UNTAG_shift bit_simps b2)
  qed
qed

subsection \<open>Alignment\<close>

lemma align_unat:
  assumes "unat a + (2 ^ k - 1) < 2 ^ 64" "k < 64"
  shows "unat (align a (2 ^ k)) = (unat a + (2 ^ k - 1)) div 2 ^ k * 2 ^ k"
proof -
  have m: "(2 ^ k - 1 :: cell) = mask k" by (simp add: mask_eq_exp_minus_1)
  have "unat (mask k :: cell) = 2 ^ k - 1"
    using assms(2) by (simp add: unat_eq_nat_uint uint_mask_eq min_absorb2 nat_mask_eq) (simp add: mask_nat_def)
  then show ?thesis
    using assms unfolding align_def m unat_and_not_mask by (simp add: unat_add_exact)
qed

end
