(* ===== verification/Bignum_Conv.thy ===== *)
theory Bignum_Conv
  imports Bignum_Bits Layouts
begin

text \<open>
  Conversions between machine integers and bignums (\<open>vm/bignum.cpp\<close>). The macros
  \<open>FOO_TO_BIGNUM\<close> and \<open>BIGNUM_TO_FOO\<close> are instantiated at an unsigned type (\<open>cell\<close>,
  \<open>uint64_t\<close>) and at a signed one (\<open>fixnum\<close>, \<open>int64_t\<close>); in the 64-bit configuration
  the two unsigned and the two signed instances are the same function, so the model has
  one of each. The accumulator is a 64-bit word in all of them.
\<close>

subsection \<open>To bignums\<close>

function accumulator_digits :: "cell \<Rightarrow> fixnum list" where
  "accumulator_digits accumulator =
     uint (accumulator AND word_of_int BIGNUM_DIGIT_MASK) #
     (if drop_bit BIGNUM_DIGIT_LENGTH accumulator \<noteq> 0
      then accumulator_digits (drop_bit BIGNUM_DIGIT_LENGTH accumulator) else [])"
  by pat_completeness auto

termination
proof (relation "measure unat")
  fix a :: cell
  assume "drop_bit BIGNUM_DIGIT_LENGTH a \<noteq> 0"
  then have "a \<noteq> 0" by auto
  then have "0 < unat a" by (simp add: unat_gt_0)
  then show "(drop_bit BIGNUM_DIGIT_LENGTH a, a) \<in> measure unat"
    unfolding measure_def inv_image_def by (simp add: unat_drop_bit_eq drop_bit_nat_def)
qed simp

definition accumulator_to_bignum :: "cell \<Rightarrow> bool \<Rightarrow> bignum" where
  "accumulator_to_bignum accumulator neg =
     (if uint accumulator < BIGNUM_RADIX
      then mk_bignum neg [uint (accumulator AND word_of_int BIGNUM_DIGIT_MASK)]
      else mk_bignum neg (accumulator_digits accumulator))"

definition cell_to_bignum :: "cell \<Rightarrow> bignum" where
  "cell_to_bignum n =
     (if n = 0 then BIGNUM_ZERO
      else if n = 1 then BIGNUM_ONE False
      else accumulator_to_bignum n False)"

definition fixnum_to_bignum :: "fixnum \<Rightarrow> bignum" where
  "fixnum_to_bignum n =
     (if n = 0 then BIGNUM_ZERO
      else if n = 1 then BIGNUM_ONE False
      else if n < 0 \<and> n = - 1 then BIGNUM_ONE True
      else accumulator_to_bignum (word_of_int (if n < 0 then fx (- n) else n)) (n < 0))"

subsection \<open>From bignums\<close>

definition bignum_accumulator :: "bignum \<Rightarrow> cell" where
  "bignum_accumulator bn =
     foldl (\<lambda>accumulator digit. push_bit BIGNUM_DIGIT_LENGTH accumulator + word_of_int digit) 0 (rev (digits bn))"

definition bignum_to_cell :: "bignum \<Rightarrow> cell" where
  "bignum_to_cell bn =
     (if BIGNUM_ZERO_P bn then 0
      else if negative_p bn then word_of_int (fx (- sint (bignum_accumulator bn)))
      else bignum_accumulator bn)"

definition bignum_to_fixnum :: "bignum \<Rightarrow> fixnum" where
  "bignum_to_fixnum bn =
     (if BIGNUM_ZERO_P bn then 0
      else if negative_p bn then fx (- sint (bignum_accumulator bn))
      else sint (bignum_accumulator bn))"

definition bignum_fits_fixnum_p :: "bignum \<Rightarrow> bool" where
  "bignum_fits_fixnum_p bn =
     (if BIGNUM_LENGTH bn = 0 then True
      else if BIGNUM_LENGTH bn > 1 then False
      else
        (let dig = BIGNUM_REF bn 0 in
         negative_p bn \<and> dig \<le> - fixnum_min \<or> \<not> negative_p bn \<and> dig \<le> fixnum_max))"

text \<open>The assertion that follows the conversion is the abort \<open>None\<close>.\<close>

definition bignum_to_fixnum_strict :: "bignum \<Rightarrow> fixnum outcome" where
  "bignum_to_fixnum_strict bn =
     (if \<not> bignum_fits_fixnum_p bn then Some (Inl ERROR_OUT_OF_FIXNUM_RANGE)
      else
        (let n = bignum_to_fixnum bn
         in if n \<le> fixnum_max \<and> n \<ge> fixnum_min then Some (Inr n) else None))"

subsection \<open>Values\<close>

lemma uint_drop_bit: "uint (drop_bit n w) = uint w div 2 ^ n" for w :: cell
proof -
  have "unat (drop_bit n w) = unat w div 2 ^ n" by (simp add: unat_drop_bit_eq drop_bit_nat_def)
  then have "int (unat (drop_bit n w)) = int (unat w div 2 ^ n)" by (rule arg_cong)
  then show ?thesis unfolding zdiv_int uint_nat by simp
qed

lemma uint_digit_mask: "uint (w AND word_of_int BIGNUM_DIGIT_MASK) = uint w mod BIGNUM_RADIX" for w :: cell
proof -
  have "word_of_int BIGNUM_DIGIT_MASK = (mask 62 :: cell)"
    by (simp add: BIGNUM_DIGIT_MASK_def bignum_num mask_eq_exp_minus_1)
  then have "w AND word_of_int BIGNUM_DIGIT_MASK = take_bit 62 w" by (simp add: take_bit_eq_mask)
  then show ?thesis by (simp add: unsigned_take_bit_eq radix_exp) (simp add: take_bit_eq_mod)
qed

declare accumulator_digits.simps [simp del]

lemma accumulator_digits_val:
  "digits_ok (accumulator_digits a) \<and> accumulator_digits a \<noteq> [] \<and> digits_val (accumulator_digits a) = uint a \<and>
   (a \<noteq> 0 \<longrightarrow> last (accumulator_digits a) \<noteq> 0)"
proof (induction a rule: accumulator_digits.induct)
  case (1 a)
  let ?d = "uint a mod BIGNUM_RADIX" and ?h = "drop_bit 62 a"
  have d: "digit_ok ?d" by (simp add: digit_ok_def)
  have h: "uint ?h = uint a div BIGNUM_RADIX" by (simp add: uint_drop_bit radix_exp)
  show ?case
  proof (cases "?h = 0")
    case True
    then have "uint a div BIGNUM_RADIX = 0" using h by simp
    then have "?d = uint a" by (metis mult_zero_left add_0 div_mult_mod_eq)
    then show ?thesis
      using True d by (subst (1 2 3 4) accumulator_digits.simps) (simp add: uint_digit_mask uint_0_iff)
  next
    case False
    then have ih: "digits_ok (accumulator_digits ?h)" "accumulator_digits ?h \<noteq> []"
        "digits_val (accumulator_digits ?h) = uint ?h" "last (accumulator_digits ?h) \<noteq> 0"
      using 1 by simp_all
    have e: "accumulator_digits a = ?d # accumulator_digits ?h"
      using False by (subst accumulator_digits.simps) (simp add: uint_digit_mask)
    show ?thesis unfolding e using ih d h by simp
  qed
qed

lemma accumulator_to_bignum_val:
  assumes "a \<noteq> 0"
  shows "bignum_wf (accumulator_to_bignum a neg)" "bignum_val (accumulator_to_bignum a neg) = signed_val neg (uint a)"
proof -
  have "uint a mod BIGNUM_RADIX = uint a" if "uint a < BIGNUM_RADIX" using that by simp
  then show "bignum_wf (accumulator_to_bignum a neg)" "bignum_val (accumulator_to_bignum a neg) = signed_val neg (uint a)"
    using accumulator_digits_val [of a] assms
    by (auto simp: accumulator_to_bignum_def uint_digit_mask bignum_wf_mk digit_ok_def uint_0_iff)
qed

lemma cell_to_bignum_val: "bignum_wf (cell_to_bignum n)" "bignum_val (cell_to_bignum n) = uint n"
  using accumulator_to_bignum_val [of n False] by (auto simp: cell_to_bignum_def signed_val_def)

lemma fixnum_to_bignum_val:
  assumes "- (2 ^ 63) \<le> n" "n < 2 ^ 63"
  shows "bignum_wf (fixnum_to_bignum n)" "bignum_val (fixnum_to_bignum n) = n"
proof -
  have u: "uint (word_of_int \<bar>n\<bar> :: cell) = \<bar>n\<bar>" using assms by (simp add: uint_word_of_int)
  then have nz: "(word_of_int \<bar>n\<bar> :: cell) \<noteq> 0" if "n \<noteq> 0" using that by (metis abs_eq_0 uint_0_iff)
  have a: "word_of_int (if n < 0 then fx (- n) else n) = (word_of_int \<bar>n\<bar> :: cell)" by (simp add: abs_if)
  show "bignum_wf (fixnum_to_bignum n)" "bignum_val (fixnum_to_bignum n) = n"
    using accumulator_to_bignum_val [OF nz] u unfolding fixnum_to_bignum_def a
    by (auto simp: signed_val_def)
qed

lemma bignum_accumulator_val: "bignum_accumulator bn = word_of_int (digits_val (digits bn))"
proof -
  have "foldr (\<lambda>d a. push_bit 62 a + word_of_int d) ds 0 = (word_of_int (digits_val ds) :: cell)" for ds
    by (induction ds) (simp_all add: push_bit_eq_mult bignum_num)
  then show ?thesis by (simp add: bignum_accumulator_def foldl_conv_foldr)
qed

lemma fx_uminus: "fx (- fx x) = fx (- x)"
  unfolding fx_def by (rule signed_take_bit_minus)

lemma bignum_to_cell_val: "bignum_to_cell bn = word_of_int (bignum_val bn)"
  by (auto simp: bignum_to_cell_def bignum_accumulator_val sint_fx bignum_val_def signed_val_def
    BIGNUM_ZERO_P_def BIGNUM_LENGTH_def)

lemma bignum_to_fixnum_val: "bignum_to_fixnum bn = fx (bignum_val bn)"
  by (auto simp: bignum_to_fixnum_def bignum_accumulator_val sint_fx fx_uminus bignum_val_def signed_val_def
    BIGNUM_ZERO_P_def BIGNUM_LENGTH_def)

lemma bignum_fits_fixnum_p_val:
  assumes "bignum_wf bn"
  shows "bignum_fits_fixnum_p bn \<longleftrightarrow> fixnum_min \<le> bignum_val bn \<and> bignum_val bn \<le> fixnum_max"
proof -
  consider "BIGNUM_LENGTH bn = 0" | "BIGNUM_LENGTH bn = 1" | "1 < BIGNUM_LENGTH bn" by linarith
  then show ?thesis
  proof cases
    case 1
    then have "bignum_val bn = 0" by (simp add: bignum_val_def signed_val_def BIGNUM_LENGTH_def)
    with 1 show ?thesis by (simp add: bignum_fits_fixnum_p_def tag_simps)
  next
    case 2
    note d = bignum_single_digit [OF assms 2] and s = bignum_negative_val [OF assms]
    show ?thesis using 2 d s by (auto simp: bignum_fits_fixnum_p_def tag_simps Let_def)
  next
    case 3
    then have "bignum_val bn \<noteq> 0" using bignum_zero_p_val [OF assms] by (auto simp: BIGNUM_ZERO_P_def)
    then have "BIGNUM_RADIX ^ (BIGNUM_LENGTH bn - 1) \<le> \<bar>bignum_val bn\<bar>" by (rule bignum_length_val(2) [OF assms])
    moreover have "BIGNUM_RADIX ^ 1 \<le> BIGNUM_RADIX ^ (BIGNUM_LENGTH bn - 1)"
      using 3 by (intro power_increasing) simp_all
    ultimately show ?thesis using 3 by (auto simp: bignum_fits_fixnum_p_def tag_simps bignum_num)
  qed
qed

lemma bignum_to_fixnum_strict_val:
  assumes "bignum_wf bn"
  shows "bignum_to_fixnum_strict bn =
    Some (if fixnum_min \<le> bignum_val bn \<and> bignum_val bn \<le> fixnum_max then Inr (bignum_val bn)
          else Inl ERROR_OUT_OF_FIXNUM_RANGE)"
  by (auto simp: bignum_to_fixnum_strict_def bignum_fits_fixnum_p_val [OF assms] bignum_to_fixnum_val
    fx_id tag_simps)

end
