(* ===== verification/Math_Primitives.thy ===== *)
theory Math_Primitives
  imports Bignum_Div Bignum_Conv
begin

text \<open>
  The integer primitives (\<open>vm/math.cpp\<close>, \<open>vm/math.hpp\<close>). A primitive works on the data
  stack of the current context, here a list of values with the top first: \<open>ctx->pop\<close>,
  \<open>ctx->peek\<close> and \<open>ctx->replace\<close> act on its head. A value is what a tagged cell denotes:
  a fixnum, a bignum (the object the pointer refers to), the two booleans, or any other
  object, which the integer primitives only reject. Popping from an empty stack or
  untagging a value as a type it does not have is undefined in the source and is the
  abort \<open>None\<close> here, as is an integer division by zero, which traps. Primitives on floats
  are not modelled.
\<close>

unbundle bit_operations_syntax

subsection \<open>Values and the data stack\<close>

datatype "value" =
    Fixnum_value fixnum
  | Bignum_value bignum
  | False_value
  | True_value
  | Object_value cell

type_synonym datastack = "value list"

text \<open>A cell that \<open>tag_fixnum\<close> builds keeps the low 60 bits of its argument, sign-extended when read back.\<close>

definition tag_fixnum_value :: "fixnum \<Rightarrow> value" where
  "tag_fixnum_value n = Fixnum_value (signed_take_bit (63 - TAG_BITS) n)"

fun untag_fixnum_value :: "value \<Rightarrow> fixnum option" where
  "untag_fixnum_value (Fixnum_value n) = Some n"
| "untag_fixnum_value _ = None"

fun untag_bignum :: "value \<Rightarrow> bignum option" where
  "untag_bignum (Bignum_value b) = Some b"
| "untag_bignum _ = None"

definition tag_boolean :: "bool \<Rightarrow> value" where
  "tag_boolean b = (if b then True_value else False_value)"

definition replace_top :: "value outcome \<Rightarrow> datastack \<Rightarrow> datastack outcome" where
  "replace_top r rest = map_option (map_sum id (\<lambda>v. v # rest)) r"

subsection \<open>Boxing and unboxing\<close>

definition from_signed_cell :: "fixnum \<Rightarrow> value" where
  "from_signed_cell x =
     (if x < fixnum_min \<or> x > fixnum_max then Bignum_value (fixnum_to_bignum x) else tag_fixnum_value x)"

definition from_unsigned_cell :: "cell \<Rightarrow> value" where
  "from_unsigned_cell x =
     (if x > word_of_int fixnum_max then Bignum_value (cell_to_bignum x) else tag_fixnum_value (sint x))"

definition from_signed_8 :: "int \<Rightarrow> value" where
  "from_signed_8 n =
     (if n < fixnum_min \<or> n > fixnum_max then Bignum_value (fixnum_to_bignum n) else tag_fixnum_value n)"

definition from_unsigned_8 :: "cell \<Rightarrow> value" where
  "from_unsigned_8 n =
     (if n > word_of_int fixnum_max then Bignum_value (cell_to_bignum n) else tag_fixnum_value (sint n))"

definition bignum_maybe_to_fixnum :: "bignum \<Rightarrow> value" where
  "bignum_maybe_to_fixnum bn =
     (if bignum_fits_fixnum_p bn then tag_fixnum_value (bignum_to_fixnum bn) else Bignum_value bn)"

text \<open>The instances of \<open>CELL_TO_FOO\<close>; the 8-byte ones coincide with the cell-sized ones.\<close>

fun to_fixnum :: "value \<Rightarrow> fixnum outcome" where
  "to_fixnum (Fixnum_value n) = Some (Inr n)"
| "to_fixnum (Bignum_value b) = Some (Inr (bignum_to_fixnum b))"
| "to_fixnum _ = Some (Inl ERROR_TYPE)"

fun to_fixnum_strict :: "value \<Rightarrow> fixnum outcome" where
  "to_fixnum_strict (Fixnum_value n) = Some (Inr n)"
| "to_fixnum_strict (Bignum_value b) = bignum_to_fixnum_strict b"
| "to_fixnum_strict _ = Some (Inl ERROR_TYPE)"

fun to_cell :: "value \<Rightarrow> cell outcome" where
  "to_cell (Fixnum_value n) = Some (Inr (word_of_int n))"
| "to_cell (Bignum_value b) = Some (Inr (bignum_to_cell b))"
| "to_cell _ = Some (Inl ERROR_TYPE)"

fun unbox_array_size :: "datastack \<Rightarrow> (cell \<times> datastack) outcome" where
  "unbox_array_size [] = None"
| "unbox_array_size (obj # rest) =
     (case to_fixnum_strict obj of
        Some (Inr n) \<Rightarrow>
          (if n \<ge> 0 \<and> n < array_size_max then Some (Inr (word_of_int n, rest)) else Some (Inl ERROR_ARRAY_SIZE))
      | Some (Inl e) \<Rightarrow> Some (Inl e)
      | None \<Rightarrow> None)"

subsection \<open>Fixnum primitives\<close>

definition primitive_bignum_to_fixnum :: "datastack \<Rightarrow> datastack outcome" where
  "primitive_bignum_to_fixnum s =
     (case s of
        v # rest \<Rightarrow> do { b \<leftarrow> untag_bignum v; Some (Inr (tag_fixnum_value (bignum_to_fixnum b) # rest)) }
      | [] \<Rightarrow> None)"

definition primitive_bignum_to_fixnum_strict :: "datastack \<Rightarrow> datastack outcome" where
  "primitive_bignum_to_fixnum_strict s =
     (case s of
        v # rest \<Rightarrow> do {
          b \<leftarrow> untag_bignum v;
          replace_top (map_option (map_sum id tag_fixnum_value) (bignum_to_fixnum_strict b)) rest }
      | [] \<Rightarrow> None)"

definition primitive_fixnum_divint :: "datastack \<Rightarrow> datastack outcome" where
  "primitive_fixnum_divint s =
     (case s of
        vy # vx # rest \<Rightarrow> do {
          y \<leftarrow> untag_fixnum_value vy;
          x \<leftarrow> untag_fixnum_value vx;
          if y = 0 then None
          else
            (let result = x sdiv y in
             Some (Inr ((if result = - fixnum_min then from_signed_cell (- fixnum_min)
                         else tag_fixnum_value result) # rest))) }
      | _ \<Rightarrow> None)"

definition primitive_fixnum_divmod :: "datastack \<Rightarrow> datastack outcome" where
  "primitive_fixnum_divmod s =
     (case s of
        s0 # s1 # rest \<Rightarrow> do {
          y \<leftarrow> untag_fixnum_value s0;
          x \<leftarrow> untag_fixnum_value s1;
          if y = - 1 \<and> x = fixnum_min
          then Some (Inr (tag_fixnum_value 0 # from_signed_cell (- fixnum_min) # rest))
          else if y = 0 then None
          else Some (Inr (tag_fixnum_value (x smod y) # tag_fixnum_value (x sdiv y) # rest)) }
      | _ \<Rightarrow> None)"

definition sign_mask :: "fixnum \<Rightarrow> fixnum" where
  "sign_mask x = drop_bit 63 x"

definition branchless_max :: "fixnum \<Rightarrow> fixnum \<Rightarrow> fixnum" where
  "branchless_max x y = fx (x - (fx (x - y) AND sign_mask (fx (x - y))))"

definition branchless_abs :: "fixnum \<Rightarrow> fixnum" where
  "branchless_abs x = fx ((x XOR sign_mask x) - sign_mask x)"

definition fixnum_shift :: "fixnum \<Rightarrow> fixnum \<Rightarrow> value" where
  "fixnum_shift x y =
     (let overflow = Bignum_value (bignum_arithmetic_shift (fixnum_to_bignum x) y) in
      if x = 0 then Fixnum_value x
      else if y < 0 then tag_fixnum_value (drop_bit (nat (- branchless_max y (- 64 + 1))) x)
      else if y < 64 - int TAG_BITS then
        (let mask = - fx (push_bit (nat (64 - 1 - int TAG_BITS - y)) 1) in
         if branchless_abs x AND mask = 0 then tag_fixnum_value (fx (push_bit (nat y) x)) else overflow)
      else overflow)"

definition primitive_fixnum_shift :: "datastack \<Rightarrow> datastack outcome" where
  "primitive_fixnum_shift s =
     (case s of
        vy # vx # rest \<Rightarrow> do {
          y \<leftarrow> untag_fixnum_value vy;
          x \<leftarrow> untag_fixnum_value vx;
          Some (Inr (fixnum_shift x y # rest)) }
      | _ \<Rightarrow> None)"

definition primitive_fixnum_to_bignum :: "datastack \<Rightarrow> datastack outcome" where
  "primitive_fixnum_to_bignum s =
     (case s of
        v # rest \<Rightarrow> do { n \<leftarrow> untag_fixnum_value v; Some (Inr (Bignum_value (fixnum_to_bignum n) # rest)) }
      | [] \<Rightarrow> None)"

subsection \<open>Bignum primitives\<close>

text \<open>
  \<open>POP_BIGNUMS\<close> with the expression that follows it: the right operand is popped, the left
  one is replaced by the result.
\<close>

definition POP_BIGNUMS :: "(bignum \<Rightarrow> bignum \<Rightarrow> value outcome) \<Rightarrow> datastack \<Rightarrow> datastack outcome" where
  "POP_BIGNUMS f s =
     (case s of
        vy # vx # rest \<Rightarrow> do {
          y \<leftarrow> untag_bignum vy;
          x \<leftarrow> untag_bignum vx;
          replace_top (f x y) rest }
      | _ \<Rightarrow> None)"

definition primitive_bignum_eq :: "datastack \<Rightarrow> datastack outcome" where
  "primitive_bignum_eq = POP_BIGNUMS (\<lambda>x y. Some (Inr (tag_boolean (bignum_equal_p x y))))"

definition tag_bignum :: "bignum option \<Rightarrow> value outcome" where
  "tag_bignum r = map_option (\<lambda>b. Inr (Bignum_value b)) r"

definition primitive_bignum_add :: "fixnum \<Rightarrow> datastack \<Rightarrow> datastack outcome" where
  "primitive_bignum_add u = POP_BIGNUMS (\<lambda>x y. tag_bignum (bignum_add u x y))"

definition primitive_bignum_subtract :: "fixnum \<Rightarrow> datastack \<Rightarrow> datastack outcome" where
  "primitive_bignum_subtract u = POP_BIGNUMS (\<lambda>x y. tag_bignum (bignum_subtract u x y))"

definition primitive_bignum_multiply :: "bool \<Rightarrow> datastack \<Rightarrow> datastack outcome" where
  "primitive_bignum_multiply same = POP_BIGNUMS (\<lambda>x y. tag_bignum (bignum_multiply same x y))"

definition primitive_bignum_divint :: "(nat \<Rightarrow> fixnum) \<Rightarrow> datastack \<Rightarrow> datastack outcome" where
  "primitive_bignum_divint mem =
     POP_BIGNUMS (\<lambda>x y. map_option (map_sum id Bignum_value) (bignum_quotient mem x y))"

definition primitive_bignum_divmod :: "(nat \<Rightarrow> fixnum) \<Rightarrow> datastack \<Rightarrow> datastack outcome" where
  "primitive_bignum_divmod mem s =
     (case s of
        s0 # s1 # rest \<Rightarrow> do {
          y \<leftarrow> untag_bignum s0;
          x \<leftarrow> untag_bignum s1;
          map_option (map_sum id (\<lambda>(q, r). bignum_maybe_to_fixnum r # Bignum_value q # rest))
            (bignum_divide mem x y) }
      | _ \<Rightarrow> None)"

definition primitive_bignum_mod :: "(nat \<Rightarrow> fixnum) \<Rightarrow> datastack \<Rightarrow> datastack outcome" where
  "primitive_bignum_mod mem =
     POP_BIGNUMS (\<lambda>x y. map_option (map_sum id bignum_maybe_to_fixnum) (bignum_remainder mem x y))"

definition primitive_bignum_and :: "datastack \<Rightarrow> datastack outcome" where
  "primitive_bignum_and = POP_BIGNUMS (\<lambda>x y. tag_bignum (Some (bignum_bitwise_and x y)))"

definition primitive_bignum_or :: "datastack \<Rightarrow> datastack outcome" where
  "primitive_bignum_or = POP_BIGNUMS (\<lambda>x y. tag_bignum (Some (bignum_bitwise_ior x y)))"

definition primitive_bignum_xor :: "datastack \<Rightarrow> datastack outcome" where
  "primitive_bignum_xor = POP_BIGNUMS (\<lambda>x y. tag_bignum (Some (bignum_bitwise_xor x y)))"

definition primitive_bignum_shift :: "datastack \<Rightarrow> datastack outcome" where
  "primitive_bignum_shift s =
     (case s of
        vy # vx # rest \<Rightarrow> do {
          y \<leftarrow> untag_fixnum_value vy;
          x \<leftarrow> untag_bignum vx;
          Some (Inr (Bignum_value (bignum_arithmetic_shift x y) # rest)) }
      | _ \<Rightarrow> None)"

definition primitive_bignum_less :: "datastack \<Rightarrow> datastack outcome" where
  "primitive_bignum_less =
     POP_BIGNUMS (\<lambda>x y. Some (Inr (tag_boolean (bignum_compare x y = BIGNUM_COMPARISON_LESS))))"

definition primitive_bignum_lesseq :: "datastack \<Rightarrow> datastack outcome" where
  "primitive_bignum_lesseq =
     POP_BIGNUMS (\<lambda>x y. Some (Inr (tag_boolean (bignum_compare x y \<noteq> BIGNUM_COMPARISON_GREATER))))"

definition primitive_bignum_greater :: "datastack \<Rightarrow> datastack outcome" where
  "primitive_bignum_greater =
     POP_BIGNUMS (\<lambda>x y. Some (Inr (tag_boolean (bignum_compare x y = BIGNUM_COMPARISON_GREATER))))"

definition primitive_bignum_greatereq :: "datastack \<Rightarrow> datastack outcome" where
  "primitive_bignum_greatereq =
     POP_BIGNUMS (\<lambda>x y. Some (Inr (tag_boolean (bignum_compare x y \<noteq> BIGNUM_COMPARISON_LESS))))"

definition primitive_bignum_not :: "datastack \<Rightarrow> datastack outcome" where
  "primitive_bignum_not s =
     (case s of
        v # rest \<Rightarrow> do { x \<leftarrow> untag_bignum v; Some (Inr (Bignum_value (bignum_bitwise_not x) # rest)) }
      | [] \<Rightarrow> None)"

text \<open>
  The bit number is truncated to a 32-bit \<open>int\<close>; shifting by a negative amount is undefined
  in the source and aborts here.
\<close>

definition primitive_bignum_bitp :: "datastack \<Rightarrow> datastack outcome" where
  "primitive_bignum_bitp s =
     (case s of
        vb # v # rest \<Rightarrow>
          (case to_fixnum vb of
             Some (Inr n) \<Rightarrow> do {
               x \<leftarrow> untag_bignum v;
               let bit = signed_take_bit 31 n
               in if bit < 0 then None
                  else Some (Inr (tag_boolean (bignum_logbitp (nat bit) x) # rest)) }
           | Some (Inl e) \<Rightarrow> Some (Inl e)
           | None \<Rightarrow> None)
      | _ \<Rightarrow> None)"

definition primitive_bignum_log2 :: "datastack \<Rightarrow> datastack outcome" where
  "primitive_bignum_log2 s =
     (case s of
        v # rest \<Rightarrow> do { x \<leftarrow> untag_bignum v; replace_top (tag_bignum (bignum_integer_length x)) rest }
      | [] \<Rightarrow> None)"

subsection \<open>Overflow handlers of the compiled fixnum operations\<close>

text \<open>
  The assembly stubs call these when the machine operation overflowed: addition and
  subtraction with the tagged operands, multiplication with the untagged ones. The top of
  the stack is replaced. The two boxed factors are the same object exactly for the shared
  bignums \<open>0\<close>, \<open>1\<close> and \<open>-1\<close>.
\<close>

definition overflow_fixnum_add :: "value \<Rightarrow> value \<Rightarrow> datastack \<Rightarrow> datastack outcome" where
  "overflow_fixnum_add vx vy s = do {
     x \<leftarrow> untag_fixnum_value vx;
     y \<leftarrow> untag_fixnum_value vy;
     case s of _ # rest \<Rightarrow> Some (Inr (Bignum_value (fixnum_to_bignum (fx (x + y))) # rest)) | [] \<Rightarrow> None }"

definition overflow_fixnum_subtract :: "value \<Rightarrow> value \<Rightarrow> datastack \<Rightarrow> datastack outcome" where
  "overflow_fixnum_subtract vx vy s = do {
     x \<leftarrow> untag_fixnum_value vx;
     y \<leftarrow> untag_fixnum_value vy;
     case s of _ # rest \<Rightarrow> Some (Inr (Bignum_value (fixnum_to_bignum (fx (x - y))) # rest)) | [] \<Rightarrow> None }"

definition overflow_fixnum_multiply :: "fixnum \<Rightarrow> fixnum \<Rightarrow> datastack \<Rightarrow> datastack outcome" where
  "overflow_fixnum_multiply x y s =
     (case s of
        _ # rest \<Rightarrow>
          (let same = (x = y \<and> (x = 0 \<or> x = 1 \<or> x = - 1))
           in replace_top (tag_bignum (bignum_multiply same (fixnum_to_bignum x) (fixnum_to_bignum y))) rest)
      | [] \<Rightarrow> None)"

subsection \<open>What a value denotes\<close>

fun value_wf :: "value \<Rightarrow> bool" where
  "value_wf (Fixnum_value n) \<longleftrightarrow> fixnum_min \<le> n \<and> n \<le> fixnum_max"
| "value_wf (Bignum_value b) \<longleftrightarrow> bignum_wf b"
| "value_wf _ \<longleftrightarrow> True"

fun value_int :: "value \<Rightarrow> int option" where
  "value_int (Fixnum_value n) = Some n"
| "value_int (Bignum_value b) = Some (bignum_val b)"
| "value_int _ = None"

text \<open>An integer value: well formed, and denoting \<open>n\<close>.\<close>

definition int_value :: "value \<Rightarrow> int \<Rightarrow> bool" where
  "int_value v n \<longleftrightarrow> value_wf v \<and> value_int v = Some n"

lemma int_value_simps [simp]:
  "int_value (Fixnum_value n) k \<longleftrightarrow> fixnum_min \<le> n \<and> n \<le> fixnum_max \<and> k = n"
  "int_value (Bignum_value b) k \<longleftrightarrow> bignum_wf b \<and> k = bignum_val b"
  "\<not> int_value False_value k" "\<not> int_value True_value k" "\<not> int_value (Object_value c) k"
  by (auto simp: int_value_def)

lemma tag_fixnum_value_cell: "untag_fixnum (tag_fixnum n) = untag_fixnum_value (tag_fixnum_value n)"
proof -
  have shift: "signed_take_bit 63 (push_bit 4 n) = push_bit 4 (signed_take_bit 59 n)"
    by (rule bit_eqI) (auto simp: bit_simps min_def)
  have "sint (tag_fixnum n) = fx (n * 16)" unfolding tag_fixnum_word sint_fx ..
  also have "\<dots> = push_bit 4 (signed_take_bit 59 n)"
    using shift by (simp add: fx_def push_bit_eq_mult)
  finally have "drop_bit 4 (sint (tag_fixnum n)) = signed_take_bit 59 n"
    by (simp add: drop_bit_eq_div push_bit_eq_mult)
  moreover have "TAG (tag_fixnum n) = type_number FIXNUM_TYPE"
    by (simp add: tag_fixnum_def TAG_take_bit TAG_BITS_def take_bit_push_bit)
  ultimately show ?thesis by (simp add: untag_fixnum_def tag_fixnum_value_def TAG_BITS_def)
qed

lemma tag_fixnum_value_id [simp]:
  "fixnum_min \<le> n \<Longrightarrow> n \<le> fixnum_max \<Longrightarrow> tag_fixnum_value n = Fixnum_value n"
  by (simp add: tag_fixnum_value_def tag_simps TAG_BITS_def signed_take_bit_int_eq_self_iff)

lemma from_signed_cell_int:
  assumes "- (2 ^ 63) \<le> x" "x < 2 ^ 63"
  shows "int_value (from_signed_cell x) x" "from_signed_8 x = from_signed_cell x"
  using fixnum_to_bignum_val [OF assms] by (auto simp: from_signed_cell_def from_signed_8_def)

lemma fixnum_max_word: "x > word_of_int fixnum_max \<longleftrightarrow> uint x > fixnum_max" for x :: cell
  by (simp add: word_less_def tag_simps)

lemma from_unsigned_cell_int:
  "int_value (from_unsigned_cell x) (uint x)" "from_unsigned_8 x = from_unsigned_cell x"
proof -
  have "sint x = uint x" if "uint x \<le> fixnum_max"
  proof -
    have "fx (uint x) = uint x"
      using that by (intro fx_id) (auto simp: tag_simps intro: order_trans [OF _ uint_ge_0])
    then show ?thesis by (simp add: fx_def sint_uint)
  qed
  moreover have "fixnum_min \<le> uint x" by (rule order_trans [OF _ uint_ge_0]) (simp add: tag_simps)
  ultimately show "int_value (from_unsigned_cell x) (uint x)"
    using cell_to_bignum_val [of x]
    by (auto simp: from_unsigned_cell_def fixnum_max_word)
qed (simp add: from_unsigned_8_def from_unsigned_cell_def)

lemma bignum_maybe_to_fixnum_int:
  assumes "bignum_wf b"
  shows "int_value (bignum_maybe_to_fixnum b) (bignum_val b)"
    "bignum_maybe_to_fixnum b = Fixnum_value (bignum_val b) \<longleftrightarrow> fixnum_min \<le> bignum_val b \<and> bignum_val b \<le> fixnum_max"
proof -
  have "fx (bignum_val b) = bignum_val b" if "fixnum_min \<le> bignum_val b" "bignum_val b \<le> fixnum_max"
    using that by (intro fx_id) (simp_all add: tag_simps)
  then show "int_value (bignum_maybe_to_fixnum b) (bignum_val b)"
    "bignum_maybe_to_fixnum b = Fixnum_value (bignum_val b) \<longleftrightarrow> fixnum_min \<le> bignum_val b \<and> bignum_val b \<le> fixnum_max"
    using assms by (auto simp: bignum_maybe_to_fixnum_def bignum_fits_fixnum_p_val [OF assms] bignum_to_fixnum_val)
qed

lemma to_fixnum_int: "int_value v n \<Longrightarrow> to_fixnum v = Some (Inr (fx n))"
  by (cases v) (auto simp: bignum_to_fixnum_val fx_id tag_simps)

lemma to_cell_int: "int_value v n \<Longrightarrow> to_cell v = Some (Inr (word_of_int n))"
  by (cases v) (auto simp: bignum_to_cell_val)

lemma to_fixnum_strict_int:
  "int_value v n \<Longrightarrow> to_fixnum_strict v =
    Some (if fixnum_min \<le> n \<and> n \<le> fixnum_max then Inr n else Inl ERROR_OUT_OF_FIXNUM_RANGE)"
  by (cases v) (auto simp: bignum_to_fixnum_strict_val)

lemma unbox_array_size_int:
  "int_value v n \<Longrightarrow> unbox_array_size (v # s) =
    Some (if 0 \<le> n \<and> n < array_size_max then Inr (word_of_int n, s)
          else if fixnum_min \<le> n \<and> n \<le> fixnum_max then Inl ERROR_ARRAY_SIZE else Inl ERROR_OUT_OF_FIXNUM_RANGE)"
  by (auto simp: to_fixnum_strict_int tag_simps array_size_max_def)

lemma conversions_type_error:
  assumes "value_int v = None"
  shows "to_fixnum v = Some (Inl ERROR_TYPE)" "to_fixnum_strict v = Some (Inl ERROR_TYPE)"
    "to_cell v = Some (Inl ERROR_TYPE)" "unbox_array_size (v # s) = Some (Inl ERROR_TYPE)"
  using assms by (cases v; simp)+

subsection \<open>Fixnum primitives\<close>

lemma div_exp_sign:
  assumes "- (2 ^ j) \<le> x" "x < (2::int) ^ j"
  shows "x div 2 ^ j = (if x < 0 then - 1 else 0)"
  using assms int_div_pos_eq [of x "2 ^ j" "- 1" "x + 2 ^ j"] by (auto simp: div_pos_pos_trivial)

lemma branchless_max_max:
  assumes "- (2 ^ 63) \<le> x - y" "x - y < 2 ^ 63" "- (2 ^ 63) \<le> x" "x < 2 ^ 63" "- (2 ^ 63) \<le> y" "y < 2 ^ 63"
  shows "branchless_max x y = max x y"
proof -
  have d: "fx (x - y) = x - y" using assms by (intro fx_id)
  have "sign_mask (x - y) = (if x < y then - 1 else 0)"
    using assms unfolding sign_mask_def drop_bit_eq_div by (subst div_exp_sign) auto
  then show ?thesis using assms by (auto simp: branchless_max_def d fx_id max_def)
qed

lemma branchless_abs_abs:
  assumes "- (2 ^ 63) < x" "x < 2 ^ 63"
  shows "branchless_abs x = \<bar>x\<bar>"
proof -
  have "sign_mask x = (if x < 0 then - 1 else 0)"
    using assms unfolding sign_mask_def drop_bit_eq_div by (subst div_exp_sign) auto
  then show ?thesis using assms by (auto simp: branchless_abs_def fx_id not_int_def xor.commute)
qed

lemma and_minus_exp: "a AND - (2 ^ k) = push_bit k (drop_bit k a)" for a :: int
  unfolding minus_exp_eq_not_mask by (rule bit_eqI) (auto simp: bit_simps)

lemma and_minus_exp_eq_0: "0 \<le> a \<Longrightarrow> a AND - (2 ^ k) = 0 \<longleftrightarrow> a < 2 ^ k" for a :: int
  by (auto simp: and_minus_exp push_bit_eq_mult drop_bit_eq_div zdiv_eq_0_iff)

lemma div_exp_small:
  assumes "\<bar>x\<bar> \<le> 2 ^ m" "m \<le> k" "m \<le> l" "x \<noteq> 2 ^ m"
  shows "x div 2 ^ k = x div (2::int) ^ l"
proof -
  have "x div 2 ^ j = (if x < 0 then - 1 else 0)" if "m \<le> j" for j
  proof -
    have "(2::int) ^ m \<le> 2 ^ j" using that by (simp add: power_increasing)
    then show ?thesis using assms by (intro div_exp_sign) linarith+
  qed
  then show ?thesis using assms by simp
qed

lemma div_exp_range:
  assumes "- (2 ^ m) \<le> x" "x < 2 ^ m"
  shows "- (2 ^ m) \<le> x div 2 ^ k" "x div 2 ^ k < (2::int) ^ m"
proof -
  have e: "(2::int) ^ m \<le> 2 ^ m * 2 ^ k" by simp
  then have "- (2 ^ m) * 2 ^ k \<le> x" using assms(1) unfolding mult_minus_left by linarith
  then show "- (2 ^ m) \<le> x div 2 ^ k" by (simp add: le_div_iff)
  have "x < 2 ^ m * 2 ^ k" using assms(2) e by linarith
  then show "x div 2 ^ k < 2 ^ m" using le_div_iff [of "2 ^ k" "2 ^ m" x] by simp
qed

lemma fixnum_shift_int:
  assumes x: "fixnum_min \<le> x" "x \<le> fixnum_max" and y: "fixnum_min \<le> y" "y \<le> fixnum_max"
  shows "int_value (fixnum_shift x y) (if 0 \<le> y then x * 2 ^ nat y else x div 2 ^ nat (- y))"
proof -
  note b = fixnum_to_bignum_val [of x]
  have sh: "int_value (Bignum_value (bignum_arithmetic_shift (fixnum_to_bignum x) y)) (x * 2 ^ nat y)" if "0 \<le> y"
    using b x that bignum_arithmetic_shift_val [of "fixnum_to_bignum x" y] by (simp add: tag_simps)
  consider "x = 0" | "x \<noteq> 0" "y < 0" | "x \<noteq> 0" "0 \<le> y" "60 \<le> y" | "x \<noteq> 0" "0 \<le> y" "y < 60" by linarith
  then show ?thesis
  proof cases
    case 2
    have "branchless_max y (- 63) = max y (- 63)" using y by (intro branchless_max_max) (simp_all add: tag_simps)
    moreover have "x div 2 ^ nat (- max y (- 63)) = x div 2 ^ nat (- y)"
      using x div_exp_small [of x 59 "nat (- max y (- 63))" "nat (- y)"]
      by (cases "y < - 63") (simp_all add: tag_simps)
    ultimately show ?thesis
      using 2 x div_exp_range [of 59 x "nat (- y)"] by (simp add: fixnum_shift_def drop_bit_eq_div tag_simps)
  next
    case 4
    let ?k = "nat (59 - y)"
    have "branchless_abs x = \<bar>x\<bar>" using x by (intro branchless_abs_abs) (simp_all add: tag_simps)
    moreover have "fx (2 ^ ?k) = 2 ^ ?k" 
    proof -
      have "(2::int) ^ ?k \<le> 2 ^ 59" using 4 by (intro power_increasing) simp_all
      moreover have "(0::int) \<le> 2 ^ ?k" "(2::int) ^ 59 < 2 ^ 63" "- (2 ^ 63) \<le> (0::int)" by simp_all
      ultimately show ?thesis by (intro fx_id) linarith+
    qed
    ultimately have m: "branchless_abs x AND - fx (push_bit ?k 1) = 0 \<longleftrightarrow> \<bar>x\<bar> < 2 ^ ?k"
      by (simp add: and_minus_exp_eq_0)
    have r: "\<bar>x * 2 ^ nat y\<bar> < 2 ^ 59" if "\<bar>x\<bar> < 2 ^ ?k"
    proof -
      have "\<bar>x\<bar> * 2 ^ nat y < 2 ^ ?k * 2 ^ nat y" using that by simp
      also have "\<dots> = 2 ^ (?k + nat y)" by (simp add: power_add)
      also have "?k + nat y = 59" using 4 by simp
      finally show ?thesis by (simp add: abs_mult)
    qed
    then have "fx (x * 2 ^ nat y) = x * 2 ^ nat y" if "\<bar>x\<bar> < 2 ^ ?k" using that by (intro fx_id) force+
    then show ?thesis
      using 4 m r sh by (auto simp: fixnum_shift_def Let_def TAG_BITS_def push_bit_eq_mult tag_simps abs_less_iff)
  qed (use x sh in \<open>auto simp: fixnum_shift_def Let_def TAG_BITS_def tag_simps\<close>)
qed

lemma sdiv_fixnum:
  assumes x: "fixnum_min \<le> x" "x \<le> fixnum_max" and y: "y \<noteq> 0"
  shows "fixnum_min \<le> x sdiv y" "x sdiv y \<le> fixnum_max \<or> x = fixnum_min \<and> y = - 1 \<and> x sdiv y = - fixnum_min"
proof -
  have a: "\<bar>x sdiv y\<bar> = \<bar>x\<bar> div \<bar>y\<bar>" 
    by (auto simp: signed_divide_int_def abs_mult abs_sgn_eq div_int_pos_iff)
  moreover have le: "\<bar>x\<bar> div \<bar>y\<bar> \<le> \<bar>x\<bar>" 
    using zdiv_mono2 [of "\<bar>x\<bar>" 1 "\<bar>y\<bar>"] y by simp
  ultimately show "fixnum_min \<le> x sdiv y" using x by (simp add: tag_simps)
  consider "y = 1" | "y = - 1" | "2 \<le> \<bar>y\<bar>" using y by linarith
  then show "x sdiv y \<le> fixnum_max \<or> x = fixnum_min \<and> y = - 1 \<and> x sdiv y = - fixnum_min"
  proof cases
    case 3
    then have "\<bar>x\<bar> div \<bar>y\<bar> \<le> \<bar>x\<bar> div 2" by (intro zdiv_mono2) simp_all
    moreover have "\<bar>x\<bar> div 2 \<le> 2 ^ 58" using x by (simp add: tag_simps)
    ultimately have "x sdiv y \<le> fixnum_max" using a by (simp add: tag_simps)
    then show ?thesis ..
  qed (use x in \<open>auto simp: signed_divide_int_def sgn_if tag_simps\<close>)
qed

lemma smod_fixnum:
  assumes x: "fixnum_min \<le> y" "y \<le> fixnum_max" "y \<noteq> 0"
  shows "fixnum_min \<le> x smod y" "x smod y \<le> fixnum_max"
proof -
  have "\<bar>x smod y\<bar> = \<bar>x\<bar> mod \<bar>y\<bar>" 
    using assms(3) by (auto simp: signed_modulo_int_def signed_divide_int_def sgn_if)
  moreover have "\<bar>x\<bar> mod \<bar>y\<bar> < \<bar>y\<bar>" using assms(3) by simp
  moreover have "\<bar>y\<bar> \<le> 2 ^ 59" using assms by (simp add: tag_simps)
  ultimately have "\<bar>x smod y\<bar> < 2 ^ 59" by linarith
  then show "fixnum_min \<le> x smod y" "x smod y \<le> fixnum_max" by (simp_all add: tag_simps)
qed

lemma primitive_fixnum_divint_int:
  assumes x: "fixnum_min \<le> x" "x \<le> fixnum_max" and y: "y \<noteq> 0"
  shows "\<exists>v. primitive_fixnum_divint (Fixnum_value y # Fixnum_value x # s) = Some (Inr (v # s)) \<and>
    int_value v (x sdiv y)"
proof -
  have "int_value (from_signed_cell (- fixnum_min)) (- fixnum_min)"
    by (rule from_signed_cell_int) (simp_all add: tag_simps)
  then show ?thesis
    using sdiv_fixnum [OF assms] y by (auto simp: primitive_fixnum_divint_def Let_def)
qed

lemma primitive_fixnum_divmod_int:
  assumes x: "fixnum_min \<le> x" "x \<le> fixnum_max" and y: "fixnum_min \<le> y" "y \<le> fixnum_max" "y \<noteq> 0"
  shows "\<exists>q r. primitive_fixnum_divmod (Fixnum_value y # Fixnum_value x # s) = Some (Inr (r # q # s)) \<and>
    int_value q (x sdiv y) \<and> int_value r (x smod y)"
proof -
  have "int_value (from_signed_cell (- fixnum_min)) (- fixnum_min)"
    by (rule from_signed_cell_int) (simp_all add: tag_simps)
  moreover have "fixnum_min sdiv - 1 = - fixnum_min" "fixnum_min smod - 1 = 0" "fixnum_min \<le> 0" "0 \<le> fixnum_max"
    by (simp_all add: signed_divide_int_def signed_modulo_int_def tag_simps)
  ultimately show ?thesis
    using sdiv_fixnum [OF x y(3)] smod_fixnum [OF y, of x] y by (auto simp: primitive_fixnum_divmod_def)
qed

subsection \<open>Bignum primitives\<close>

lemma POP_BIGNUMS_simp [simp]:
  "POP_BIGNUMS f (Bignum_value y # Bignum_value x # s) = replace_top (f x y) s"
  by (simp add: POP_BIGNUMS_def)

lemma replace_top_simps [simp]:
  "replace_top (Some (Inr v)) s = Some (Inr (v # s))"
  "replace_top (Some (Inl e)) s = Some (Inl e)"
  "replace_top None s = None"
  by (simp_all add: replace_top_def)

lemma tag_bignum_simps [simp]: "tag_bignum (Some b) = Some (Inr (Bignum_value b))" "tag_bignum None = None"
  by (simp_all add: tag_bignum_def)

text \<open>
  A primitive built on an operation that refines an integer function computes that function
  on the two top elements of the stack.
\<close>

context bignum_binop
begin

lemma primitive_refines:
  assumes "int_value vx a" "int_value vy b" "untag_bignum vx \<noteq> None" "untag_bignum vy \<noteq> None" "dom_p a b"
  shows "\<exists>v. POP_BIGNUMS (\<lambda>x y. tag_bignum (bop x y)) (vy # vx # s) = Some (Inr (v # s)) \<and> int_value v (f a b)"
proof -
  obtain x y where xy: "vx = Bignum_value x" "vy = Bignum_value y"
    using assms by (cases vx; cases vy) auto
  then obtain r where "bop x y = Some r" "bignum_wf r" "bignum_val r = f a b"
    using refines [of x y] assms by auto
  then show ?thesis unfolding xy by simp
qed

end

lemmas bignum_primitive_defs = primitive_bignum_eq_def primitive_bignum_add_def primitive_bignum_subtract_def
  primitive_bignum_multiply_def primitive_bignum_divint_def primitive_bignum_mod_def primitive_bignum_and_def
  primitive_bignum_or_def primitive_bignum_xor_def primitive_bignum_less_def primitive_bignum_lesseq_def
  primitive_bignum_greater_def primitive_bignum_greatereq_def

lemma primitive_bignum_compare_val:
  assumes "bignum_wf x" "bignum_wf y"
  shows "primitive_bignum_less (Bignum_value y # Bignum_value x # s) = Some (Inr (tag_boolean (bignum_val x < bignum_val y) # s))"
    "primitive_bignum_lesseq (Bignum_value y # Bignum_value x # s) = Some (Inr (tag_boolean (bignum_val x \<le> bignum_val y) # s))"
    "primitive_bignum_greater (Bignum_value y # Bignum_value x # s) = Some (Inr (tag_boolean (bignum_val x > bignum_val y) # s))"
    "primitive_bignum_greatereq (Bignum_value y # Bignum_value x # s) = Some (Inr (tag_boolean (bignum_val x \<ge> bignum_val y) # s))"
    "primitive_bignum_eq (Bignum_value y # Bignum_value x # s) = Some (Inr (tag_boolean (bignum_val x = bignum_val y) # s))"
  using assms by (auto simp: bignum_primitive_defs bignum_compare_val bignum_equal_p_iff compare_int_def tag_boolean_def
      dest: bignum_canonical)

lemma primitive_bignum_divmod_int:
  assumes "bignum_wf x" "bignum_wf y" "bignum_val y \<noteq> 0"
  shows "\<exists>q r. primitive_bignum_divmod mem (Bignum_value y # Bignum_value x # s) = Some (Inr (r # q # s)) \<and>
    int_value q (bignum_val x sdiv bignum_val y) \<and> int_value r (bignum_val x smod bignum_val y)"
proof -
  obtain q r where "bignum_divide mem x y = Some (Inr (q, r))" "bignum_wf q" "bignum_wf r"
    "bignum_val q = bignum_val x sdiv bignum_val y" "bignum_val r = bignum_val x smod bignum_val y"
    using bignum_divide_val [OF assms] by blast
  then show ?thesis using bignum_maybe_to_fixnum_int(1) [of r] by (simp add: primitive_bignum_divmod_def)
qed

lemma primitive_bignum_mod_int:
  assumes "bignum_wf x" "bignum_wf y" "bignum_val y \<noteq> 0"
  shows "\<exists>r. primitive_bignum_mod mem (Bignum_value y # Bignum_value x # s) = Some (Inr (r # s)) \<and>
    int_value r (bignum_val x smod bignum_val y)"
proof -
  obtain r where "bignum_remainder mem x y = Some (Inr r)" "bignum_wf r"
    "bignum_val r = bignum_val x smod bignum_val y"
    using bignum_remainder_val [OF assms] by blast
  then show ?thesis using bignum_maybe_to_fixnum_int(1) [of r] by (simp add: primitive_bignum_mod_def)
qed

lemma primitive_bignum_divint_int:
  assumes "bignum_wf x" "bignum_wf y" "bignum_val y \<noteq> 0"
  shows "\<exists>q. primitive_bignum_divint mem (Bignum_value y # Bignum_value x # s) = Some (Inr (q # s)) \<and>
    int_value q (bignum_val x sdiv bignum_val y)"
proof -
  obtain q where "bignum_quotient mem x y = Some (Inr q)" "bignum_wf q"
    "bignum_val q = bignum_val x sdiv bignum_val y"
    using bignum_quotient_val [OF assms] by blast
  then show ?thesis by (simp add: primitive_bignum_divint_def)
qed

lemma primitive_bignum_zero_division:
  assumes "bignum_wf y" "bignum_val y = 0"
  shows "primitive_bignum_divint mem (Bignum_value y # Bignum_value x # s) = Some (Inl ERROR_DIVIDE_BY_ZERO)"
    "primitive_bignum_divmod mem (Bignum_value y # Bignum_value x # s) = Some (Inl ERROR_DIVIDE_BY_ZERO)"
    "primitive_bignum_mod mem (Bignum_value y # Bignum_value x # s) = Some (Inl ERROR_DIVIDE_BY_ZERO)"
  using bignum_divide_by_zero [OF assms, of mem x]
  by (simp_all add: primitive_bignum_divint_def primitive_bignum_divmod_def primitive_bignum_mod_def)

lemma primitive_bignum_unary_int:
  assumes "bignum_wf x"
  shows "\<exists>v. primitive_bignum_not (Bignum_value x # s) = Some (Inr (v # s)) \<and> int_value v (NOT (bignum_val x))"
    "fixnum_min \<le> n \<Longrightarrow> n \<le> fixnum_max \<Longrightarrow>
      \<exists>v. primitive_bignum_shift (Fixnum_value n # Bignum_value x # s) = Some (Inr (v # s)) \<and>
        int_value v (if 0 \<le> n then bignum_val x * 2 ^ nat n else bignum_val x div 2 ^ nat (- n))"
    "int_value b k \<Longrightarrow> 0 \<le> k \<Longrightarrow> k < 2 ^ 31 \<Longrightarrow>
      primitive_bignum_bitp (b # Bignum_value x # s) = Some (Inr (tag_boolean (bit (bignum_val x) (nat k)) # s))"
  using bignum_bitwise_not_val [OF assms] bignum_arithmetic_shift_val [OF assms, of n] bignum_logbitp_val [OF assms]
  by (simp_all add: primitive_bignum_not_def primitive_bignum_shift_def primitive_bignum_bitp_def to_fixnum_int
      fx_id signed_take_bit_int_eq_self)

subsection \<open>Overflow handlers\<close>

lemma overflow_fixnum_int:
  assumes x: "fixnum_min \<le> x" "x \<le> fixnum_max" and y: "fixnum_min \<le> y" "y \<le> fixnum_max"
  shows "\<exists>v. overflow_fixnum_add (Fixnum_value x) (Fixnum_value y) (t # s) = Some (Inr (v # s)) \<and> int_value v (x + y)"
    "\<exists>v. overflow_fixnum_subtract (Fixnum_value x) (Fixnum_value y) (t # s) = Some (Inr (v # s)) \<and> int_value v (x - y)"
    "\<exists>v. overflow_fixnum_multiply x y (t # s) = Some (Inr (v # s)) \<and> int_value v (x * y)"
proof -
  have "fx (x + y) = x + y" "fx (x - y) = x - y" using x y by (auto intro!: fx_id simp: tag_simps)
  moreover note fixnum_to_bignum_val [of "x + y"] fixnum_to_bignum_val [of "x - y"]
  ultimately show "\<exists>v. overflow_fixnum_add (Fixnum_value x) (Fixnum_value y) (t # s) = Some (Inr (v # s)) \<and> int_value v (x + y)"
    "\<exists>v. overflow_fixnum_subtract (Fixnum_value x) (Fixnum_value y) (t # s) = Some (Inr (v # s)) \<and> int_value v (x - y)"
    using x y by (simp_all add: overflow_fixnum_add_def overflow_fixnum_subtract_def tag_simps)
  let ?x = "fixnum_to_bignum x" and ?y = "fixnum_to_bignum y"
    and ?same = "x = y \<and> (x = 0 \<or> x = 1 \<or> x = - 1)"
  have w: "bignum_wf ?x" "bignum_wf ?y" "bignum_val ?x = x" "bignum_val ?y = y"
    using fixnum_to_bignum_val [of x] fixnum_to_bignum_val [of y] x y by (simp_all add: tag_simps)
  have "?same \<Longrightarrow> ?x = ?y" by simp
  then obtain r where "bignum_multiply ?same ?x ?y = Some r" "bignum_wf r" "bignum_val r = x * y"
    using bignum_multiply_val [OF w(1,2), of ?same] w by auto
  then show "\<exists>v. overflow_fixnum_multiply x y (t # s) = Some (Inr (v # s)) \<and> int_value v (x * y)"
    by (simp add: overflow_fixnum_multiply_def Let_def)
qed

lemma int_value_wf: "int_value v n \<Longrightarrow> value_wf v"
  by (simp add: int_value_def)

definition bignum_primitives :: "fixnum \<Rightarrow> (nat \<Rightarrow> fixnum) \<Rightarrow> (datastack \<Rightarrow> datastack outcome) list" where
  "bignum_primitives u mem =
    [primitive_bignum_add u, primitive_bignum_subtract u, primitive_bignum_multiply False, primitive_bignum_divint mem,
     primitive_bignum_mod mem, primitive_bignum_and, primitive_bignum_or, primitive_bignum_xor, primitive_bignum_less,
     primitive_bignum_lesseq, primitive_bignum_greater, primitive_bignum_greatereq, primitive_bignum_eq]"

lemma primitive_bignum_ring_wf:
  assumes "bignum_wf x" "bignum_wf y"
  shows "\<exists>v. primitive_bignum_add u (Bignum_value y # Bignum_value x # s) = Some (Inr (v # s)) \<and> value_wf v"
    "\<exists>v. primitive_bignum_subtract u (Bignum_value y # Bignum_value x # s) = Some (Inr (v # s)) \<and> value_wf v"
    "\<exists>v. primitive_bignum_multiply False (Bignum_value y # Bignum_value x # s) = Some (Inr (v # s)) \<and> value_wf v"
  using bignum_add.primitive_refines [of "Bignum_value x" "bignum_val x" "Bignum_value y" "bignum_val y" u s]
    bignum_subtract.primitive_refines [of "Bignum_value x" "bignum_val x" "Bignum_value y" "bignum_val y" u s]
    bignum_multiply.primitive_refines [of "Bignum_value x" "bignum_val x" "Bignum_value y" "bignum_val y" s] assms
  by (auto simp: primitive_bignum_add_def primitive_bignum_subtract_def primitive_bignum_multiply_def dest: int_value_wf)

lemma primitive_bignum_bitwise_wf:
  assumes "bignum_wf x" "bignum_wf y"
  shows "\<exists>v. primitive_bignum_and (Bignum_value y # Bignum_value x # s) = Some (Inr (v # s)) \<and> value_wf v"
    "\<exists>v. primitive_bignum_or (Bignum_value y # Bignum_value x # s) = Some (Inr (v # s)) \<and> value_wf v"
    "\<exists>v. primitive_bignum_xor (Bignum_value y # Bignum_value x # s) = Some (Inr (v # s)) \<and> value_wf v"
  using bignum_bitwise_and_val(1) [OF assms] bignum_bitwise_ior_val(1) [OF assms] bignum_bitwise_xor_val(1) [OF assms]
  by (simp_all add: primitive_bignum_and_def primitive_bignum_or_def primitive_bignum_xor_def)

lemma primitive_bignum_compare_wf:
  assumes "bignum_wf x" "bignum_wf y"
    "f \<in> {primitive_bignum_less, primitive_bignum_lesseq, primitive_bignum_greater, primitive_bignum_greatereq, primitive_bignum_eq}"
  shows "\<exists>v. f (Bignum_value y # Bignum_value x # s) = Some (Inr (v # s)) \<and> value_wf v"
  using primitive_bignum_compare_val [OF assms(1,2), of s] assms(3) by (auto simp: tag_boolean_def)

end
