(* ===== verification/Arithmetic_Properties.thy ===== *)
theory Arithmetic_Properties
  imports Math_Primitives
begin

text \<open>
  The properties of the arithmetic of the virtual machine: bignums (\<open>vm/bignum.cpp\<close>), the
  conversions between bignums, fixnums and cells, and the arithmetic primitives
  (\<open>vm/math.cpp\<close>) on the data stack.
\<close>

lemma example_bignums:
  "bignum_wf (mk_bignum True [5, 7, 3])" "bignum_wf (mk_bignum False [9, 2])"
  "bignum_val (mk_bignum False [9, 2]) \<noteq> 0" "bignum_val (mk_bignum True [5, 7, 3]) < 0"
  by (simp_all add: bignum_wf_def digit_ok_def signed_val_def bignum_num)

text \<open>
  C2. The ring operations on bignums are exact: addition, subtraction and multiplication of
  well-formed bignums return, their results are well formed, and they denote the sum, the
  difference and the product of the operands, whatever the uninitialised digit of the
  result array held.
\<close>

theorem bignum_ring_operations_correct:
  assumes "bignum_wf x" "bignum_wf y"
  shows "\<exists>a s p. bignum_add u x y = Some a \<and> bignum_subtract u x y = Some s \<and> bignum_multiply False x y = Some p \<and>
    bignum_wf a \<and> bignum_wf s \<and> bignum_wf p \<and> bignum_val a = bignum_val x + bignum_val y \<and>
    bignum_val s = bignum_val x - bignum_val y \<and> bignum_val p = bignum_val x * bignum_val y"
  using bignum_add_val [OF assms, of u] bignum_subtract_val [OF assms, of u]
    bignum_multiply_val [OF assms, of False] by auto

theorem bignum_ring_operations_witness:
  "\<exists>a p. bignum_add 1 (mk_bignum True [5, 7, 3]) (mk_bignum False [9, 2]) = Some a \<and>
    bignum_multiply False (mk_bignum True [5, 7, 3]) (mk_bignum False [9, 2]) = Some p \<and> bignum_wf a \<and> bignum_wf p"
  using bignum_ring_operations_correct [OF example_bignums(1,2), of 1] by blast

text \<open>
  C3. The squaring routine is an optimisation of multiplication: when both operands are the
  same object, which makes \<open>bignum_multiply\<close> call \<open>bignum_square\<close>, the result is the very bignum
  that the general routine computes.
\<close>

theorem bignum_square_equivalent:
  assumes "bignum_wf x"
  shows "bignum_multiply True x x = bignum_multiply False x x"
proof -
  obtain r where r: "bignum_multiply True x x = Some r" "bignum_wf r" "bignum_val r = bignum_val x * bignum_val x"
    using bignum_multiply_val [OF assms assms, of True] by blast
  obtain r' where r': "bignum_multiply False x x = Some r'" "bignum_wf r'" "bignum_val r' = bignum_val x * bignum_val x"
    using bignum_multiply_val [OF assms assms, of False] by blast
  have "r = r'" using bignum_canonical [OF r(2) r'(2)] r(3) r'(3) by simp
  then show ?thesis using r(1) r'(1) by simp
qed

theorem bignum_square_equivalent_witness:
  "bignum_multiply True (mk_bignum True [5, 7, 3]) (mk_bignum True [5, 7, 3]) =
   bignum_multiply False (mk_bignum True [5, 7, 3]) (mk_bignum True [5, 7, 3])"
  by (rule bignum_square_equivalent [OF example_bignums(1)])

text \<open>
  C13. Comparison of bignums is the order of the integers they denote, and equality of
  bignums, which compares signs and digits, is equality of these integers.
\<close>

theorem bignum_comparison_correct:
  assumes "bignum_wf x" "bignum_wf y"
  shows "(bignum_compare x y = BIGNUM_COMPARISON_LESS \<longleftrightarrow> bignum_val x < bignum_val y) \<and>
    (bignum_compare x y = BIGNUM_COMPARISON_EQUAL \<longleftrightarrow> bignum_val x = bignum_val y) \<and>
    (bignum_compare x y = BIGNUM_COMPARISON_GREATER \<longleftrightarrow> bignum_val x > bignum_val y) \<and>
    (bignum_equal_p x y \<longleftrightarrow> bignum_val x = bignum_val y)"
  using bignum_compare_val [OF assms] bignum_equal_p_iff [OF assms] bignum_canonical [OF assms]
  by (auto simp: compare_int_def)

theorem bignum_comparison_witness:
  "bignum_compare (mk_bignum True [5, 7, 3]) (mk_bignum False [9, 2]) = BIGNUM_COMPARISON_LESS"
proof -
  have "bignum_val (mk_bignum True [5, 7, 3]) < bignum_val (mk_bignum False [9, 2])"
    by (simp add: signed_val_def bignum_num)
  then show ?thesis using bignum_comparison_correct [OF example_bignums(1,2)] by blast
qed

text \<open>
  C14. The bitwise operations \<open>and\<close>, \<open>ior\<close> and \<open>not\<close> act on bignums as on the infinite two's
  complement of the integers they denote, for all signs, and keep bignums well formed.
\<close>

theorem bignum_bitwise_correct:
  assumes "bignum_wf x" "bignum_wf y"
  shows "bignum_wf (bignum_bitwise_and x y) \<and> bignum_val (bignum_bitwise_and x y) = and (bignum_val x) (bignum_val y) \<and>
    bignum_wf (bignum_bitwise_ior x y) \<and> bignum_val (bignum_bitwise_ior x y) = or (bignum_val x) (bignum_val y) \<and>
    bignum_wf (bignum_bitwise_not x) \<and> bignum_val (bignum_bitwise_not x) = - bignum_val x - 1"
  using bignum_bitwise_and_val [OF assms] bignum_bitwise_ior_val [OF assms] bignum_bitwise_not_val [OF assms(1)]
  by (simp add: not_int_def)

theorem bignum_bitwise_witness:
  "bignum_val (bignum_bitwise_and (mk_bignum True [5, 7, 3]) (mk_bignum False [9, 2])) =
    and (bignum_val (mk_bignum True [5, 7, 3])) (bignum_val (mk_bignum False [9, 2]))"
  using bignum_bitwise_correct [OF example_bignums(1,2)] by blast

text \<open>
  C15. Exclusive or of bignums is exact except in one corner: a non-negative operand with more
  digits than the negative one, whose result is the negated power of the radix with that
  many digits. There the magnitude does not fit the result array, which is one digit short,
  and the code returns zero.
\<close>

theorem bignum_xor_exact_iff:
  assumes "bignum_wf x" "bignum_wf y"
  shows "bignum_wf (bignum_bitwise_xor x y) \<and>
    (bignum_val (bignum_bitwise_xor x y) = xor (bignum_val x) (bignum_val y) \<longleftrightarrow> \<not> (xor_overflow x y \<or> xor_overflow y x))"
proof -
  have "xor_overflow x y \<or> xor_overflow y x \<Longrightarrow> xor (bignum_val x) (bignum_val y) \<noteq> 0"
    by (auto simp: xor_overflow_def xor.commute [of "bignum_val x"])
  then show ?thesis using bignum_bitwise_xor_val [OF assms] by auto
qed

theorem bignum_xor_exact_iff_witness:
  "bignum_val (bignum_bitwise_xor (mk_bignum True [5, 7, 3]) (mk_bignum False [9, 2])) =
    xor (bignum_val (mk_bignum True [5, 7, 3])) (bignum_val (mk_bignum False [9, 2]))"
proof -
  have "\<not> (xor_overflow (mk_bignum True [5, 7, 3]) (mk_bignum False [9, 2]) \<or>
      xor_overflow (mk_bignum False [9, 2]) (mk_bignum True [5, 7, 3]))"
    by (simp add: xor_overflow_def BIGNUM_LENGTH_def)
  then show ?thesis using bignum_xor_exact_iff [OF example_bignums(1,2)] by blast
qed




text \<open>
  C18. \<open>bignum_integer_length\<close>, the primitive behind the logarithm, returns for every positive
  bignum the exponent of its leading power of two, including the case where the product of
  digit index and digit length needs two digits.
\<close>

theorem bignum_integer_length_correct:
  assumes "bignum_wf x" "0 < bignum_val x" "int (BIGNUM_LENGTH x) \<le> BIGNUM_RADIX"
  shows "\<exists>r. bignum_integer_length x = Some r \<and> bignum_wf r \<and> 0 \<le> bignum_val r \<and>
    2 ^ nat (bignum_val r) \<le> bignum_val x \<and> bignum_val x < 2 * 2 ^ nat (bignum_val r)"
  using bignum_integer_length_val [OF assms] by auto

theorem bignum_integer_length_witness:
  "\<exists>r. bignum_integer_length (mk_bignum False [9, 2]) = Some r \<and> 2 ^ nat (bignum_val r) \<le> bignum_val (mk_bignum False [9, 2])"
proof -
  have "bignum_wf (mk_bignum False [9, 2])" "0 < bignum_val (mk_bignum False [9, 2])"
    "int (BIGNUM_LENGTH (mk_bignum False [9, 2])) \<le> BIGNUM_RADIX"
    by (simp_all add: bignum_wf_def digit_ok_def signed_val_def bignum_num BIGNUM_LENGTH_def)
  from bignum_integer_length_correct [OF this] show ?thesis by blast
qed



text \<open>
  C20. Round trips between machine integers and bignums: a signed or unsigned cell turned
  into a bignum is well formed and comes back unchanged; the checked conversion to a
  fixnum gives the bignum's integer exactly when it is in range, and the range error
  otherwise.
\<close>

theorem bignum_conversion_roundtrip:
  assumes "- (2 ^ 63) \<le> n" "n < 2 ^ 63" "bignum_wf b"
  shows "bignum_wf (fixnum_to_bignum n) \<and> bignum_to_fixnum (fixnum_to_bignum n) = n \<and>
    bignum_wf (cell_to_bignum c) \<and> bignum_to_cell (cell_to_bignum c) = c \<and>
    (bignum_to_fixnum_strict b = Some (Inr k) \<longleftrightarrow> bignum_val b = k \<and> fixnum_min \<le> k \<and> k \<le> fixnum_max) \<and>
    (bignum_to_fixnum_strict b = Some (Inl ERROR_OUT_OF_FIXNUM_RANGE) \<longleftrightarrow>
      bignum_val b < fixnum_min \<or> fixnum_max < bignum_val b)"
  using fixnum_to_bignum_val [OF assms(1,2)] cell_to_bignum_val [of c] bignum_to_fixnum_strict_val [OF assms(3)] assms(1,2)
  by (auto simp: bignum_to_fixnum_val bignum_to_cell_val fx_id split: if_splits)

theorem bignum_conversion_roundtrip_witness:
  "bignum_to_fixnum (fixnum_to_bignum (- (2 ^ 63))) = - (2 ^ 63) \<and>
   bignum_to_fixnum_strict (mk_bignum False [9, 2]) = Some (Inl ERROR_OUT_OF_FIXNUM_RANGE)"
proof -
  have wf: "bignum_wf (mk_bignum False [9, 2])" by (simp add: bignum_wf_def digit_ok_def bignum_num)
  have "fixnum_max < bignum_val (mk_bignum False [9, 2])"
    by (simp add: fixnum_limits signed_val_def bignum_num)
  then show ?thesis using bignum_conversion_roundtrip [OF _ _ wf, of "- (2 ^ 63)" 0 0] by auto
qed

text \<open>
  C21. The size argument of an allocating primitive is checked: \<open>unbox_array_size\<close> accepts
  exactly the integers from zero up to the largest array size, whether they come as
  fixnums or as bignums, and otherwise raises the error that tells why: not an integer, not
  a fixnum, or a fixnum that is no array size.
\<close>

theorem unbox_array_size_checked:
  assumes "value_wf v"
  shows "unbox_array_size (v # s) =
    Some (case value_int v of
        None \<Rightarrow> Inl ERROR_TYPE
      | Some n \<Rightarrow> if 0 \<le> n \<and> n < array_size_max then Inr (word_of_int n, s)
                  else if fixnum_min \<le> n \<and> n \<le> fixnum_max then Inl ERROR_ARRAY_SIZE
                  else Inl ERROR_OUT_OF_FIXNUM_RANGE)"
proof (cases "value_int v")
  case None
  then show ?thesis using conversions_type_error(4) [OF None, of s] by (simp only: option.case)
next
  case (Some n)
  then have "int_value v n" using assms by (simp add: int_value_def)
  then show ?thesis using unbox_array_size_int [of v n s] by (simp only: Some option.case)
qed

theorem unbox_array_size_witness:
  "unbox_array_size [Bignum_value (mk_bignum False [9, 2]), Fixnum_value 3] = Some (Inl ERROR_OUT_OF_FIXNUM_RANGE) \<and>
   unbox_array_size [Fixnum_value (- 1)] = Some (Inl ERROR_ARRAY_SIZE) \<and>
   unbox_array_size [Fixnum_value 7, False_value] = Some (Inr (7, [False_value]))"
proof -
  have wf: "value_wf (Bignum_value (mk_bignum False [9, 2]))" "value_wf (Fixnum_value (- 1))" "value_wf (Fixnum_value 7)"
    by (simp_all add: bignum_wf_def digit_ok_def bignum_num fixnum_limits)
  show ?thesis
    using unbox_array_size_checked [OF wf(1), of "[Fixnum_value 3]"] unbox_array_size_checked [OF wf(2), of "[]"]
      unbox_array_size_checked [OF wf(3), of "[False_value]"]
    by (simp add: fixnum_limits signed_val_def bignum_num)
qed

text \<open>
  C22. Division by zero is an error and nothing else is: the quotient, remainder and
  quotient-with-remainder primitives raise \<open>ERROR_DIVIDE_BY_ZERO\<close> exactly when the divisor
  on the stack is the zero bignum, and otherwise return.
\<close>

theorem bignum_division_errors:
  assumes "bignum_wf x" "bignum_wf y"
  shows "(primitive_bignum_divint mem (Bignum_value y # Bignum_value x # s) = Some (Inl ERROR_DIVIDE_BY_ZERO) \<longleftrightarrow> bignum_val y = 0) \<and>
    (primitive_bignum_divmod mem (Bignum_value y # Bignum_value x # s) = Some (Inl ERROR_DIVIDE_BY_ZERO) \<longleftrightarrow> bignum_val y = 0) \<and>
    (primitive_bignum_mod mem (Bignum_value y # Bignum_value x # s) = Some (Inl ERROR_DIVIDE_BY_ZERO) \<longleftrightarrow> bignum_val y = 0)"
proof (cases "bignum_val y = 0")
  case True
  then show ?thesis using primitive_bignum_zero_division [OF assms(2) True, of mem x s] by simp
next
  case False
  then show ?thesis
    using primitive_bignum_divint_int [OF assms False, of mem s] primitive_bignum_divmod_int [OF assms False, of mem s]
      primitive_bignum_mod_int [OF assms False, of mem s] by auto
qed

theorem bignum_division_errors_witness:
  "primitive_bignum_divint (\<lambda>_. 0) [Bignum_value BIGNUM_ZERO, Bignum_value (BIGNUM_ONE True)] = Some (Inl ERROR_DIVIDE_BY_ZERO)"
  using bignum_division_errors [OF bignum_const_wf(2) [of True] bignum_const_wf(1), of "\<lambda>_. 0" "[]"] by simp

text \<open>
  C23. Fixnum division never traps and never loses its result: for every pair of fixnums
  with a non-zero divisor both primitives leave truncated quotients and remainders on the
  stack, the only quotient that is no fixnum (the most negative fixnum by minus one)
  coming back as a bignum.
\<close>

theorem fixnum_division_exact:
  assumes "fixnum_min \<le> x" "x \<le> fixnum_max" "fixnum_min \<le> y" "y \<le> fixnum_max" "y \<noteq> 0"
  shows "\<exists>q q' r. primitive_fixnum_divint (Fixnum_value y # Fixnum_value x # s) = Some (Inr (q # s)) \<and>
    primitive_fixnum_divmod (Fixnum_value y # Fixnum_value x # s) = Some (Inr (r # q' # s)) \<and>
    int_value q (x sdiv y) \<and> int_value q' (x sdiv y) \<and> int_value r (x smod y)"
  using primitive_fixnum_divint_int [OF assms(1,2,5), of s] primitive_fixnum_divmod_int [OF assms, of s] by blast

theorem fixnum_division_exact_witness:
  "\<exists>q r q'. primitive_fixnum_divmod [Fixnum_value (- 1), Fixnum_value fixnum_min] = Some (Inr [r, q']) \<and>
    primitive_fixnum_divint [Fixnum_value (- 1), Fixnum_value fixnum_min] = Some (Inr [q]) \<and> int_value q (2 ^ 59)"
proof -
  have "fixnum_min sdiv - 1 = 2 ^ 59" by (simp add: fixnum_limits signed_divide_int_def)
  then show ?thesis
    using fixnum_division_exact [of fixnum_min "- 1" "[]"] by (auto simp: fixnum_limits)
qed

text \<open>
  C24. The fixnum shift primitive is exact at every shift count: right shifts round towards
  minus infinity, left shifts go to a bignum when, and only in cases in which, the guard on
  the high bits fails, and no bit is ever lost.
\<close>

theorem fixnum_shift_exact:
  assumes "fixnum_min \<le> x" "x \<le> fixnum_max" "fixnum_min \<le> y" "y \<le> fixnum_max"
  shows "\<exists>v. primitive_fixnum_shift (Fixnum_value y # Fixnum_value x # s) = Some (Inr (v # s)) \<and>
    int_value v (if 0 \<le> y then x * 2 ^ nat y else x div 2 ^ nat (- y))"
  using fixnum_shift_int [OF assms] by (auto simp: primitive_fixnum_shift_def)

theorem fixnum_shift_exact_witness:
  "\<exists>v. primitive_fixnum_shift [Fixnum_value 100, Fixnum_value (- 3)] = Some (Inr [v]) \<and> int_value v (- 3 * 2 ^ 100)"
  using fixnum_shift_exact [of "- 3" 100 "[]"] by (simp add: fixnum_limits)

text \<open>
  C25. The slow paths of fixnum addition, subtraction and multiplication, which the compiled
  code calls on overflow, return the exact integer result.
\<close>

theorem fixnum_overflow_exact:
  assumes "fixnum_min \<le> x" "x \<le> fixnum_max" "fixnum_min \<le> y" "y \<le> fixnum_max"
  shows "\<exists>a d p. overflow_fixnum_add (Fixnum_value x) (Fixnum_value y) (t # s) = Some (Inr (a # s)) \<and>
    overflow_fixnum_subtract (Fixnum_value x) (Fixnum_value y) (t # s) = Some (Inr (d # s)) \<and>
    overflow_fixnum_multiply x y (t # s) = Some (Inr (p # s)) \<and>
    int_value a (x + y) \<and> int_value d (x - y) \<and> int_value p (x * y)"
  using overflow_fixnum_int [OF assms, of t s] by blast

theorem fixnum_overflow_exact_witness:
  "\<exists>p. overflow_fixnum_multiply fixnum_min fixnum_min [False_value] = Some (Inr [p]) \<and> int_value p (fixnum_min * fixnum_min)"
  using fixnum_overflow_exact [of fixnum_min fixnum_min False_value "[]"] by (auto simp: fixnum_limits)



text \<open>
  C27. Fixnum tagging is a bijection between the fixnums and the cells with tag zero.
\<close>

theorem fixnum_tag_roundtrip:
  "untag_fixnum c = Some n \<longleftrightarrow> fixnum_min \<le> n \<and> n \<le> fixnum_max \<and> c = tag_fixnum n"
  using tag_untag_fixnum [of c n] untag_tag_fixnum [of n] by auto

text \<open>
  C28. Tags and headers do not interfere: tagging an aligned pointer with a type gives back
  both; the header of a fresh object has its type, is neither free nor forwarding, and
  keeps all this when a hash code of 58 bits is stored, which is read back; and a
  forwarding header gives back the pointer it was made from.
\<close>

theorem tags_and_headers_roundtrip:
  assumes "16 dvd unat p" "unat k < 2 ^ 58"
  shows "UNTAG (tag_pointer ty p) = p \<and> TAG (tag_pointer ty p) = type_number ty \<and>
    (let h = set_hashcode (initialize (type_number ty)) k in
       object_type h = type_number ty \<and> \<not> free_p h \<and> \<not> forwarding_pointer_p h \<and> hashcode h = k) \<and>
    forwarding_pointer_p (forward_to p) \<and> forwarding_pointer (forward_to p) = p"
  using tag_pointer_roundtrip [OF assms(1), of ty] forward_to_header [OF assms(1)]
    hashcode_set_hashcode [OF assms(2)] initialize_header [of ty]
  by (simp add: set_hashcode_header Let_def)

theorem tags_and_headers_witness:
  "UNTAG (tag_pointer WORD_TYPE 4096) = 4096 \<and> forwarding_pointer (forward_to 4096) = 4096"
  using tags_and_headers_roundtrip [of 4096 1 WORD_TYPE] by simp

end
