(* ===== verification/Bitwise_Hacks.thy ===== *)
theory Bitwise_Hacks
  imports VM_Prelude "HOL-Library.Monad_Syntax"
begin

text \<open>
  Bit tricks on cells (\<open>vm/bitwise_hacks.hpp\<close>). \<open>log2\<close> is the \<open>bsr\<close> instruction, whose
  result is undefined for zero (\<open>None\<close> here). \<open>popcount\<close> is the compiler's builtin;
  \<open>popcount_portable\<close> is the branch for other compilers.
\<close>

unbundle bit_operations_syntax

definition log2 :: "cell \<Rightarrow> nat option" where
  "log2 x = find (bit x) (rev [0..<64])"

definition rightmost_clear_bit :: "cell \<Rightarrow> nat option" where
  "rightmost_clear_bit x = log2 (NOT x AND (x + 1))"

definition rightmost_set_bit :: "cell \<Rightarrow> nat option" where
  "rightmost_set_bit x = log2 (x AND (NOT x + 1))"

definition popcount :: "cell \<Rightarrow> nat" where
  "popcount x = length (filter (bit x) [0..<64])"

definition popcount_portable :: "cell \<Rightarrow> cell" where
  "popcount_portable x0 =
     (let k1 = 0x5555555555555555; k2 = 0x3333333333333333;
          k4 = 0x0f0f0f0f0f0f0f0f; kf = 0x0101010101010101; ks = 56;
          x1 = x0 - (drop_bit 1 x0 AND k1);
          x2 = (x1 AND k2) + (drop_bit 2 x1 AND k2);
          x3 = (x2 + drop_bit 4 x2) AND k4
      in drop_bit ks (x3 * kf))"

text \<open>Bitmaps of the object format: bit \<open>index\<close> of a byte array.\<close>

definition bitmap_p :: "8 word list \<Rightarrow> cell \<Rightarrow> bool option" where
  "bitmap_p bitmap index =
     (let byte = unat (drop_bit 3 index); bt = unat (index AND 7)
      in if byte < length bitmap then Some (bitmap ! byte AND push_bit bt 1 \<noteq> 0) else None)"

subsection \<open>Positions of bits\<close>

lemma bit_cell_less: "bit x n \<Longrightarrow> n < 64" for x :: cell
  using bit_imp_le_length [of x n] by simp

lemma cell_bit_exists: "x \<noteq> 0 \<Longrightarrow> \<exists>n. bit x n" for x :: cell
  by (auto simp: bit_eq_iff)

lemma find_rev_upt:
  assumes "P k" "k < n" "\<And>j. k < j \<Longrightarrow> j < n \<Longrightarrow> \<not> P j"
  shows "find P (rev [0..<n]) = Some k"
  using assms
proof (induction n)
  case (Suc n)
  show ?case
  proof (cases "k = n")
    case True
    then show ?thesis using Suc.prems by simp
  next
    case False
    then have "\<not> P n" using Suc.prems by simp
    moreover have "find P (rev [0..<n]) = Some k" using False Suc by simp
    ultimately show ?thesis by simp
  qed
qed simp

lemma log2_eqI:
  assumes "bit x k" "\<And>j. k < j \<Longrightarrow> \<not> bit x j"
  shows "log2 x = Some k"
  unfolding log2_def using assms bit_cell_less [of x k] by (intro find_rev_upt) auto

lemma log2_zero [simp]: "log2 0 = None"
  by (simp add: log2_def find_None_iff)

lemma log2_exp [simp]: "k < 64 \<Longrightarrow> log2 (2 ^ k) = Some k"
  by (rule log2_eqI) (auto simp: bit_simps)

text \<open>The lowest set bit isolated by \<open>x & -x\<close>.\<close>

lemma isolate_lowest:
  fixes x :: cell
  assumes "bit x k" "\<And>j. j < k \<Longrightarrow> \<not> bit x j"
  shows "x AND (NOT x + 1) = push_bit k 1"
proof -
  let ?H = "NOT x AND NOT (mask (Suc k))"
  have k: "k < 64" using assms(1) by (rule bit_cell_less)
  have "NOT x = ?H OR mask k"
    using assms by (intro bit_word_eqI) (auto simp: bit_simps less_Suc_eq)
  also have "\<dots> = ?H + mask k" by (rule disjunctive_add [symmetric]) (auto simp: bit_simps)
  finally have "NOT x + 1 = ?H + mask k + 1" by (rule arg_cong)
  also have "\<dots> = ?H + (mask k + 1)" by (rule add.assoc)
  also have "mask k + 1 = (push_bit k 1 :: cell)" by (simp add: mask_eq_exp_minus_1)
  also have "?H + push_bit k 1 = ?H OR push_bit k 1" by (rule disjunctive_add) (auto simp: bit_simps)
  finally show ?thesis
    using assms(1) by (intro bit_word_eqI) (auto simp: bit_simps)
qed

lemma rightmost_set_bit_eqI:
  "bit x k \<Longrightarrow> (\<And>j. j < k \<Longrightarrow> \<not> bit x j) \<Longrightarrow> rightmost_set_bit x = Some k"
  using bit_cell_less [of x k] unfolding rightmost_set_bit_def by (subst isolate_lowest) auto

lemma rightmost_set_bit_Some:
  assumes "x \<noteq> 0"
  obtains k where "rightmost_set_bit x = Some k" "bit x k" "\<And>j. j < k \<Longrightarrow> \<not> bit x j"
proof -
  obtain n where "bit x n" using cell_bit_exists [OF assms] by blast
  then have l: "bit x (LEAST n. bit x n)" by (rule LeastI)
  show thesis by (rule that [OF rightmost_set_bit_eqI [OF l] l]) (auto dest: not_less_Least)
qed

lemma rightmost_clear_bit_not: "rightmost_clear_bit x = rightmost_set_bit (NOT x)"
  by (simp add: rightmost_clear_bit_def rightmost_set_bit_def)

lemma log2_Some:
  assumes "x \<noteq> 0"
  obtains k where "log2 x = Some k" "bit x k" "\<And>j. k < j \<Longrightarrow> \<not> bit x j"
proof -
  let ?S = "{n. bit x n}"
  have "?S \<subseteq> {..<64}" using bit_cell_less by auto
  then have f: "finite ?S" by (rule finite_subset) simp
  have ne: "?S \<noteq> {}" using cell_bit_exists [OF assms] by simp
  have m: "bit x (Max ?S)" using Max_in [OF f ne] by simp
  have g: "\<not> bit x j" if "Max ?S < j" for j 
  proof
    assume "bit x j"
    then have "j \<le> Max ?S" using f by (intro Max_ge) simp_all
    then show False using that by simp
  qed
  show thesis using log2_eqI [OF m g] m g by (rule that)
qed

lemma log2_bounds:
  assumes "x \<noteq> 0"
  obtains k where "log2 x = Some k" "k < 64" "2 ^ k \<le> unat x" "unat x < 2 ^ Suc k"
proof -
  obtain k where k: "log2 x = Some k" "bit x k" "\<And>j. k < j \<Longrightarrow> \<not> bit x j" using log2_Some [OF assms] by blast
  have "x = take_bit (Suc k) x" using k(3) by (intro bit_word_eqI) (auto simp: bit_simps less_Suc_eq_le not_less [symmetric])
  then have "unat x = take_bit (Suc k) (unat x)" by (metis unsigned_take_bit_eq)
  then have "unat x < 2 ^ Suc k" by (metis take_bit_nat_less_exp)
  moreover have "bit (unat x) k" using k(2) by (simp add: bit_unsigned_iff)
  then have "2 ^ k \<le> unat x" by (metis bit_iff_odd div_less even_zero not_less)
  ultimately show thesis using k bit_cell_less by (intro that) auto
qed

subsection \<open>Counting bits\<close>

lemma popcount_card: "popcount x = card {n. bit x n}"
proof -
  have "{n. bit x n} = set (filter (bit x) [0..<64])" using bit_cell_less by auto
  then show ?thesis unfolding popcount_def by (simp only: distinct_card [OF distinct_filter [OF distinct_upt]])
qed

lemma popcount_le: "popcount x \<le> 64"
  unfolding popcount_def by (rule order_trans [OF length_filter_le]) simp

lemma popcount_mask: "popcount (x AND mask k) = card {n. n < k \<and> bit x n}"
  by (simp add: popcount_card bit_simps) (metis (no_types, lifting) bit_cell_less)

end
