(* ===== verification/Mark_Bits.thy ===== *)
theory Mark_Bits
  imports Bitwise_Hacks Layouts
begin

text \<open>
  The mark bitmap of a heap (\<open>vm/mark_bits.hpp\<close>): one bit per line of \<open>data_alignment\<close>
  bytes, 64 lines to a cell, and the forwarding table that compaction derives from it.
  The two arrays are lists of cells; an access outside them, a failed assertion and the
  \<open>bsr\<close> of zero are the abort \<open>None\<close>. Both arrays have \<open>bits_size\<close> cells, so a loop over
  \<open>index < bits_size\<close> is a recursion over the list.
\<close>

unbundle bit_operations_syntax

definition mark_bits_granularity :: cell where
  "mark_bits_granularity = sizeof_cell * 8"

definition mark_bits_mask :: cell where
  "mark_bits_mask = sizeof_cell * 8 - 1"

record mark_bits =
  mark_size :: cell
  mark_start :: cell
  bits_size :: cell
  marked :: "cell list"
  forwarding :: "cell list"

definition clear_mark_bits :: "mark_bits \<Rightarrow> mark_bits" where
  "clear_mark_bits s = s\<lparr>marked := replicate (unat (bits_size s)) 0\<rparr>"

definition clear_forwarding :: "mark_bits \<Rightarrow> mark_bits" where
  "clear_forwarding s = s\<lparr>forwarding := replicate (unat (bits_size s)) 0\<rparr>"

definition new_mark_bits :: "cell \<Rightarrow> cell \<Rightarrow> mark_bits" where
  "new_mark_bits sz start =
     clear_forwarding (clear_mark_bits
       \<lparr>mark_size = sz, mark_start = start, bits_size = sz div data_alignment div mark_bits_granularity,
        marked = [], forwarding = []\<rparr>)"

definition block_line :: "mark_bits \<Rightarrow> cell \<Rightarrow> cell" where
  "block_line s address = (address - mark_start s) div data_alignment"

definition line_block :: "mark_bits \<Rightarrow> cell \<Rightarrow> cell" where
  "line_block s line = line * data_alignment + mark_start s"

definition bitmap_deref :: "mark_bits \<Rightarrow> cell \<Rightarrow> cell \<times> cell" where
  "bitmap_deref s address =
     (let line_number = block_line s address
      in (line_number div mark_bits_granularity, line_number AND mark_bits_mask))"

definition bitmap_elt :: "mark_bits \<Rightarrow> cell list \<Rightarrow> cell \<Rightarrow> bool option" where
  "bitmap_elt s bits address =
     (let (word_index, word_shift) = bitmap_deref s address
      in if unat word_index < length bits
         then Some (bits ! unat word_index AND push_bit (unat word_shift) 1 \<noteq> 0) else None)"

text \<open>\<open>bits[i] = f(bits[i])\<close>.\<close>

definition update_bits :: "nat \<Rightarrow> (cell \<Rightarrow> cell) \<Rightarrow> cell list \<Rightarrow> cell list option" where
  "update_bits i f bits = (if i < length bits then Some (bits[i := f (bits ! i)]) else None)"

function fill_bits :: "nat \<Rightarrow> nat \<Rightarrow> cell list \<Rightarrow> cell list option" where
  "fill_bits index until bits =
     (if index < until then do { bits' \<leftarrow> update_bits index (\<lambda>_. - 1) bits; fill_bits (Suc index) until bits' }
      else Some bits)"
  by pat_completeness auto

termination by (relation "measure (\<lambda>(index, until, _). until - index)") auto

declare fill_bits.simps [simp del]

definition set_bitmap_range :: "mark_bits \<Rightarrow> cell list \<Rightarrow> cell \<Rightarrow> cell \<Rightarrow> cell list option" where
  "set_bitmap_range s bits address sz =
     (let (start_first, start_second) = bitmap_deref s address;
          (end_first, end_second) = bitmap_deref s (address + sz);
          start_mask = push_bit (unat start_second) 1 - 1;
          end_mask = push_bit (unat end_second) 1 - 1
      in if start_first = end_first
         then update_bits (unat start_first) (\<lambda>b. b OR (start_mask XOR end_mask)) bits
         else if \<not> start_first < bits_size s then None
         else do {
           bits1 \<leftarrow> update_bits (unat start_first) (\<lambda>b. b OR NOT start_mask) bits;
           bits2 \<leftarrow> fill_bits (unat start_first + 1) (unat end_first) bits1;
           if end_mask \<noteq> 0 then
             (if \<not> end_first < bits_size s then None
              else update_bits (unat end_first) (\<lambda>b. b OR end_mask) bits2)
           else Some bits2 })"

definition marked_p :: "mark_bits \<Rightarrow> cell \<Rightarrow> bool option" where
  "marked_p s address = bitmap_elt s (marked s) address"

definition set_marked_p :: "mark_bits \<Rightarrow> cell \<Rightarrow> cell \<Rightarrow> mark_bits option" where
  "set_marked_p s address sz =
     do { bits \<leftarrow> set_bitmap_range s (marked s) address sz; Some (s\<lparr>marked := bits\<rparr>) }"

fun forwarding_scan :: "cell \<Rightarrow> cell list \<Rightarrow> cell list" where
  "forwarding_scan accum [] = []"
| "forwarding_scan accum (m # ms) = accum # forwarding_scan (accum + of_nat (popcount m)) ms"

definition compute_forwarding :: "mark_bits \<Rightarrow> mark_bits" where
  "compute_forwarding s = s\<lparr>forwarding := forwarding_scan 0 (marked s)\<rparr>"

definition forward_block :: "mark_bits \<Rightarrow> cell \<Rightarrow> cell option" where
  "forward_block s original =
     (case marked_p s original of
        Some True \<Rightarrow>
          (let (first, second) = bitmap_deref s original;
               offset = original AND (data_alignment - 1);
               approx_popcount = forwarding s ! unat first;
               mask = push_bit (unat second) 1 - 1;
               new_line_number = approx_popcount + of_nat (popcount (marked s ! unat first AND mask));
               new_block = line_block s new_line_number + offset
           in if unat first < length (forwarding s) \<and> new_block \<le> original then Some new_block else None)
      | _ \<Rightarrow> None)"

text \<open>
  The two searches differ in the shift, which is arithmetic in the first: bits shifted in
  from a set top bit count as marked.
\<close>

fun next_unmarked_scan :: "mark_bits \<Rightarrow> nat \<Rightarrow> nat \<Rightarrow> cell list \<Rightarrow> cell option" where
  "next_unmarked_scan s index bit_index [] = Some (mark_start s + mark_size s)"
| "next_unmarked_scan s index bit_index (m # ms) =
     (let msk = signed_drop_bit bit_index m
      in if NOT msk \<noteq> 0 then do {
           clear_bit \<leftarrow> rightmost_clear_bit msk;
           Some (line_block s (of_nat index * mark_bits_granularity + of_nat bit_index + of_nat clear_bit)) }
         else next_unmarked_scan s (Suc index) 0 ms)"

definition next_unmarked_block_after :: "mark_bits \<Rightarrow> cell \<Rightarrow> cell option" where
  "next_unmarked_block_after s original =
     (let (first, second) = bitmap_deref s original
      in next_unmarked_scan s (unat first) (unat second) (drop (unat first) (marked s)))"

fun next_marked_scan :: "mark_bits \<Rightarrow> nat \<Rightarrow> nat \<Rightarrow> cell list \<Rightarrow> cell option" where
  "next_marked_scan s index bit_index [] = Some (mark_start s + mark_size s)"
| "next_marked_scan s index bit_index (m # ms) =
     (let msk = drop_bit bit_index m
      in if msk \<noteq> 0 then do {
           set_bit \<leftarrow> rightmost_set_bit msk;
           Some (line_block s (of_nat index * mark_bits_granularity + of_nat bit_index + of_nat set_bit)) }
         else next_marked_scan s (Suc index) 0 ms)"

definition next_marked_block_after :: "mark_bits \<Rightarrow> cell \<Rightarrow> cell option" where
  "next_marked_block_after s original =
     (let (first, second) = bitmap_deref s original
      in next_marked_scan s (unat first) (unat second) (drop (unat first) (marked s)))"

definition unmarked_block_size :: "mark_bits \<Rightarrow> cell \<Rightarrow> cell option" where
  "unmarked_block_size s original =
     do { next_marked \<leftarrow> next_marked_block_after s original; Some (next_marked - original) }"

subsection \<open>Well-formed mark bitmaps and the set of marked lines\<close>

definition mark_wf :: "mark_bits \<Rightarrow> bool" where
  "mark_wf s \<longleftrightarrow> length (marked s) = unat (bits_size s) \<and> length (forwarding s) = unat (bits_size s) \<and>
     unat (mark_size s) = 1024 * unat (bits_size s) \<and> unat (mark_start s) + unat (mark_size s) < 2 ^ 64 \<and>
     unat (mark_start s) mod 16 = 0"

definition bits_line :: "cell list \<Rightarrow> nat \<Rightarrow> bool" where
  "bits_line bits l \<longleftrightarrow> l < 64 * length bits \<and> bit (bits ! (l div 64)) (l mod 64)"

definition line_of :: "mark_bits \<Rightarrow> cell \<Rightarrow> nat" where
  "line_of s address = (unat address - unat (mark_start s)) div 16"

definition line_marked :: "mark_bits \<Rightarrow> nat \<Rightarrow> bool" where
  "line_marked s l \<longleftrightarrow> bits_line (marked s) l"

lemma mark_consts: "mark_bits_granularity = 64" "mark_bits_mask = mask 6" "unat data_alignment = 16"
  by (simp_all add: mark_bits_granularity_def mark_bits_mask_def mask_eq_exp_minus_1 data_alignment_def)

lemma new_mark_bits_wf:
  assumes "unat sz mod 1024 = 0" "unat start + unat sz < 2 ^ 64" "unat start mod 16 = 0"
  shows "mark_wf (new_mark_bits sz start)" "\<not> line_marked (new_mark_bits sz start) l"
proof -
  have "unat (sz div data_alignment div mark_bits_granularity) = unat sz div 1024"
    by (simp add: unat_div mark_consts div_mult2_eq [symmetric])
  then show "mark_wf (new_mark_bits sz start)" using assms
    by (auto simp: mark_wf_def new_mark_bits_def clear_mark_bits_def clear_forwarding_def)
  show "\<not> line_marked (new_mark_bits sz start) l"
    by (auto simp: line_marked_def bits_line_def new_mark_bits_def clear_mark_bits_def clear_forwarding_def)
qed

lemma block_line_unat:
  assumes "mark_start s \<le> address"
  shows "unat (block_line s address) = line_of s address"
  using assms by (simp add: block_line_def unat_div mark_consts unat_sub_exact line_of_def)

lemma bitmap_deref_line:
  assumes "mark_start s \<le> address"
  obtains i j where "bitmap_deref s address = (i, j)" "unat i = line_of s address div 64"
    "unat j = line_of s address mod 64"
proof -
  show thesis
    by (rule that [of "block_line s address div 64" "block_line s address AND mask 6"])
      (simp_all add: bitmap_deref_def Let_def mark_consts unat_div unat_and_mask block_line_unat [OF assms])
qed

lemma line_less:
  assumes "mark_wf s" "mark_start s \<le> address" "unat address < unat (mark_start s) + unat (mark_size s)"
  shows "line_of s address < 64 * length (marked s)"
proof -
  have "unat address - unat (mark_start s) < 64 * length (marked s) * 16"
    using assms by (auto simp: mark_wf_def word_le_nat_alt)
  then show ?thesis unfolding line_of_def by (rule less_mult_imp_div_less)
qed

lemma line_block_unat:
  assumes "mark_wf s" "unat line \<le> 64 * length (marked s)"
  shows "unat (line_block s line) = unat (mark_start s) + 16 * unat line"
proof -
  have m: "unat (line * data_alignment) = 16 * unat line"
    using assms by (subst unat_mult_exact) (auto simp: mark_wf_def mark_consts)
  show ?thesis unfolding line_block_def
    using assms by (subst unat_add_exact) (auto simp: m mark_wf_def)
qed

lemma bitmap_elt_line:
  assumes "mark_start s \<le> address" "line_of s address < 64 * length bits"
  shows "bitmap_elt s bits address = Some (bits_line bits (line_of s address))"
proof -
  obtain i j where d: "bitmap_deref s address = (i, j)" "unat i = line_of s address div 64"
    "unat j = line_of s address mod 64" using bitmap_deref_line [OF assms(1)] .
  have "x AND push_bit n 1 \<noteq> 0 \<longleftrightarrow> bit x n" for x :: cell and n
    by (simp add: and_exp_eq_0_iff_not_bit)
  then show ?thesis using assms(2) d by (simp add: bitmap_elt_def bits_line_def)
qed

lemma marked_p_line:
  assumes "mark_wf s" "mark_start s \<le> address" "unat address < unat (mark_start s) + unat (mark_size s)"
  shows "marked_p s address = Some (line_marked s (line_of s address))"
  unfolding marked_p_def line_marked_def using assms(2) line_less [OF assms] by (rule bitmap_elt_line)

subsection \<open>Setting a range\<close>

lemma update_bits_line:
  assumes "i < length bits"
  shows "\<exists>bits'. update_bits i f bits = Some bits' \<and> length bits' = length bits \<and>
    (\<forall>l. bits_line bits' l = (if l div 64 = i then bit (f (bits ! i)) (l mod 64) else bits_line bits l))"
  using assms by (auto simp: update_bits_def bits_line_def nth_list_update)

lemma or_bits_line:
  assumes "i < length bits"
  shows "\<exists>bits'. update_bits i (\<lambda>b. b OR m) bits = Some bits' \<and> length bits' = length bits \<and>
    (\<forall>l. bits_line bits' l \<longleftrightarrow> bits_line bits l \<or> l div 64 = i \<and> bit m (l mod 64))"
  using assms by (auto simp: update_bits_def bits_line_def nth_list_update bit_simps)

lemma fill_bits_line:
  assumes "until \<le> length bits"
  shows "\<exists>bits'. fill_bits index until bits = Some bits' \<and> length bits' = length bits \<and>
    (\<forall>l. bits_line bits' l \<longleftrightarrow> bits_line bits l \<or> index \<le> l div 64 \<and> l div 64 < until)"
  using assms
proof (induction "until - index" arbitrary: index bits)
  case 0
  then show ?case by (subst fill_bits.simps) auto
next
  case (Suc n)
  have "index < length bits" using Suc.hyps(2) Suc.prems by simp
  then obtain b where b: "update_bits index (\<lambda>_. - 1) bits = Some b" "length b = length bits"
    "\<And>l. bits_line b l = (if l div 64 = index then bit (- 1 :: cell) (l mod 64) else bits_line bits l)"
    using update_bits_line [of index bits "\<lambda>_. - 1"] by blast
  obtain c where c: "fill_bits (Suc index) until b = Some c" "length c = length b"
    "\<And>l. bits_line c l \<longleftrightarrow> bits_line b l \<or> Suc index \<le> l div 64 \<and> l div 64 < until"
  proof -
    have "n = until - Suc index" "until \<le> length b" using Suc.hyps(2) Suc.prems b(2) by simp_all
    then show thesis using Suc.hyps(1) [of "Suc index" b] that by blast
  qed
  have "fill_bits index until bits = Some c"
    using Suc.hyps(2) b(1) c(1) by (subst fill_bits.simps) auto
  moreover have "bits_line c l \<longleftrightarrow> bits_line bits l \<or> index \<le> l div 64 \<and> l div 64 < until" for l
    using c(3) [of l] b(3) [of l] Suc.hyps(2) by (auto simp: Suc_le_eq)
  ultimately show ?case using b(2) c(2) by auto
qed

lemma le_div_mod: "L \<le> l \<longleftrightarrow> L div 64 < l div 64 \<or> L div 64 = l div 64 \<and> L mod 64 \<le> l mod 64" for L l :: nat
  using div_mult_mod_eq [of L 64] div_mult_mod_eq [of l 64] by linarith

lemma less_div_mod: "l < M \<longleftrightarrow> l div 64 < M div 64 \<or> l div 64 = M div 64 \<and> l mod 64 < M mod 64" for M l :: nat
  using le_div_mod [of M l] by auto

lemma set_bitmap_range_line:
  assumes wf: "mark_wf s" and len: "length bits = unat (bits_size s)"
    and a: "mark_start s \<le> address" "0 < sz" "unat address + unat sz \<le> unat (mark_start s) + unat (mark_size s)"
  shows "\<exists>bits'. set_bitmap_range s bits address sz = Some bits' \<and> length bits' = length bits \<and>
    (\<forall>l. bits_line bits' l \<longleftrightarrow> bits_line bits l \<or> line_of s address \<le> l \<and> l < line_of s (address + sz))"
proof -
  let ?L = "line_of s address" and ?M = "line_of s (address + sz)"
  have u: "unat (address + sz) = unat address + unat sz"
    using a wf by (intro unat_add_exact) (auto simp: mark_wf_def)
  have e: "mark_start s \<le> address + sz" using a u by (simp add: word_le_nat_alt)
  have pos: "0 < unat sz" using a(2) by (simp add: unat_gt_0)
  have LM: "?L \<le> ?M" "?L < 64 * length bits" "?M \<le> 64 * length bits"
    using a wf len u pos by (auto simp: line_of_def mark_wf_def word_le_nat_alt intro!: div_le_mono)
  obtain i j where d: "bitmap_deref s address = (i, j)" "unat i = ?L div 64" "unat j = ?L mod 64"
    using bitmap_deref_line [OF a(1)] .
  obtain i' j' where d': "bitmap_deref s (address + sz) = (i', j')" "unat i' = ?M div 64" "unat j' = ?M mod 64"
    using bitmap_deref_line [OF e] .
  have i: "unat i < length bits" using d(2) LM(2) by auto
  have masks: "push_bit n 1 - 1 = (mask n :: cell)" for n by (simp add: mask_eq_exp_minus_1)
  show ?thesis
  proof (cases "i = i'")
    case True
    then have q: "?L div 64 = ?M div 64" using d d' by simp
    obtain b where b: "update_bits (unat i) (\<lambda>b. b OR (mask (unat j) XOR mask (unat j'))) bits = Some b"
      "length b = length bits"
      "\<forall>l. bits_line b l \<longleftrightarrow> bits_line bits l \<or> l div 64 = unat i \<and> bit (mask (unat j) XOR mask (unat j') :: cell) (l mod 64)"
      using or_bits_line [OF i] by blast
    have "set_bitmap_range s bits address sz = Some b"
      using True b(1) by (simp add: set_bitmap_range_def d(1) d'(1) masks del: push_bit_of_1)
    moreover have "bits_line b l \<longleftrightarrow> bits_line bits l \<or> ?L \<le> l \<and> l < ?M" for l
      using b(3) [THEN spec, of l] q LM(1) d(2,3) d'(2,3)
      by (cases "l div 64 = unat i") (auto simp: bit_simps le_div_mod [of ?L] less_div_mod [of _ ?M])
    ultimately show ?thesis using b(2) by auto
  next
    case False
    then have ii: "unat i < unat i'"
      using LM(1) d(2) d'(2) by (metis div_le_mono le_neq_implies_less word_unat_eq_iff)
    have i': "unat i' \<le> length bits" "unat j' \<noteq> 0 \<Longrightarrow> unat i' < length bits"
      using LM(3) d'(2,3) div_mult_mod_eq [of ?M 64] by linarith+
    obtain b where b: "update_bits (unat i) (\<lambda>b. b OR NOT (mask (unat j))) bits = Some b" "length b = length bits"
      "\<forall>l. bits_line b l \<longleftrightarrow> bits_line bits l \<or> l div 64 = unat i \<and> bit (NOT (mask (unat j)) :: cell) (l mod 64)"
      using or_bits_line [OF i] by blast
    obtain c where c: "fill_bits (unat i + 1) (unat i') b = Some c" "length c = length b"
      "\<forall>l. bits_line c l \<longleftrightarrow> bits_line b l \<or> unat i + 1 \<le> l div 64 \<and> l div 64 < unat i'"
      using fill_bits_line [OF i'(1) [folded b(2)], of "unat i + 1"] by blast
    obtain e where e: "(if unat j' = 0 then Some c else update_bits (unat i') (\<lambda>b. b OR mask (unat j')) c) = Some e"
      "length e = length c"
      "\<forall>l. bits_line e l \<longleftrightarrow> bits_line c l \<or> l div 64 = unat i' \<and> bit (mask (unat j') :: cell) (l mod 64)"
      using or_bits_line [of "unat i'" c "mask (unat j')"] i'(2) b(2) c(2) by (cases "unat j' = 0") (simp, metis)
    have "i < bits_size s" "unat j' \<noteq> 0 \<Longrightarrow> i' < bits_size s" "mask (unat j') = (0 :: cell) \<longleftrightarrow> unat j' = 0"
      using i i'(2) len d'(3) by (simp_all add: word_less_nat_alt)
    then have "set_bitmap_range s bits address sz = Some e"
      using False b(1) c(1) e(1)
      by (auto simp: set_bitmap_range_def d(1) d'(1) masks Let_def simp del: push_bit_of_1)
    moreover have "bits_line e l \<longleftrightarrow> bits_line bits l \<or> ?L \<le> l \<and> l < ?M" for l
      using b(3) [THEN spec, of l] c(3) [THEN spec, of l] e(3) [THEN spec, of l] ii d(2,3) d'(2,3)
      by (cases "l div 64 = unat i") (auto simp: bit_simps le_div_mod [of ?L] less_div_mod [of _ ?M])
    ultimately show ?thesis using b(2) c(2) e(2) by auto
  qed
qed

lemma set_marked_p_line:
  assumes "mark_wf s" "mark_start s \<le> address" "0 < sz"
    "unat address + unat sz \<le> unat (mark_start s) + unat (mark_size s)"
  shows "\<exists>s'. set_marked_p s address sz = Some s' \<and> mark_wf s' \<and> mark_start s' = mark_start s \<and> mark_size s' = mark_size s \<and>
    (\<forall>l. line_marked s' l \<longleftrightarrow> line_marked s l \<or> line_of s address \<le> l \<and> l < line_of s (address + sz))"
proof -
  have len: "length (marked s) = unat (bits_size s)" using assms(1) by (simp add: mark_wf_def)
  obtain b where b: "set_bitmap_range s (marked s) address sz = Some b" "length b = length (marked s)"
    "\<forall>l. bits_line b l \<longleftrightarrow> bits_line (marked s) l \<or> line_of s address \<le> l \<and> l < line_of s (address + sz)"
    using set_bitmap_range_line [OF assms(1) len assms(2-4)] by blast
  then show ?thesis using assms(1) by (simp add: set_marked_p_def line_marked_def mark_wf_def)
qed

subsection \<open>The forwarding table\<close>

definition marked_before :: "mark_bits \<Rightarrow> nat \<Rightarrow> nat" where
  "marked_before s l = card {k. k < l \<and> line_marked s k}"

lemma marked_before_le: "marked_before s l \<le> l"
proof -
  have "marked_before s l \<le> card {..<l}" unfolding marked_before_def by (rule card_mono) auto
  then show ?thesis by simp
qed

lemma marked_before_strict_mono:
  assumes "line_marked s l" "l < l'"
  shows "marked_before s l < marked_before s l'"
  unfolding marked_before_def
  by (rule psubset_card_mono) (use assms in auto)

lemma marked_before_split:
  assumes "i < length (marked s)" "j \<le> 64"
  shows "marked_before s (64 * i + j) = marked_before s (64 * i) + popcount (marked s ! i AND mask j)"
proof -
  let ?B = "{r. r < j \<and> bit (marked s ! i) r}"
  have "k < 64 * i + j \<and> line_marked s k \<longleftrightarrow>
      k < 64 * i \<and> line_marked s k \<or> k \<in> (\<lambda>r. 64 * i + r) ` ?B" for k
  proof (cases "k < 64 * i")
    case False
    then obtain r where k: "k = 64 * i + r" by (metis le_add_diff_inverse not_less)
    have "r < j \<Longrightarrow> line_marked s k \<longleftrightarrow> bit (marked s ! i) r"
      using assms k by (auto simp: line_marked_def bits_line_def)
    then show ?thesis using k by auto
  qed auto
  then have "{k. k < 64 * i + j \<and> line_marked s k} =
      {k. k < 64 * i \<and> line_marked s k} \<union> (\<lambda>r. 64 * i + r) ` ?B" by blast
  then have "marked_before s (64 * i + j) =
      card {k. k < 64 * i \<and> line_marked s k} + card ((\<lambda>r. 64 * i + r) ` ?B)"
    unfolding marked_before_def by (simp only:) (rule card_Un_disjoint, auto)
  also have "card ((\<lambda>r. 64 * i + r) ` ?B) = card ?B" by (rule card_image) simp
  finally show ?thesis by (simp add: popcount_mask marked_before_def)
qed

lemma forwarding_scan_nth:
  "i < length ms \<Longrightarrow> forwarding_scan accum ms ! i = accum + of_nat (sum_list (map popcount (take i ms)))"
  by (induction ms arbitrary: accum i) (auto simp: nth_Cons split: nat.splits)

lemma forwarding_scan_length [simp]: "length (forwarding_scan accum ms) = length ms"
  by (induction ms arbitrary: accum) auto

lemma popcount_mask_64: "popcount (x AND mask 64) = popcount x"
proof -
  have "mask 64 = (- 1 :: cell)" by (rule bit_word_eqI) (simp add: bit_simps)
  then show ?thesis by simp
qed

lemma marked_before_words:
  "i \<le> length (marked s) \<Longrightarrow> marked_before s (64 * i) = sum_list (map popcount (take i (marked s)))"
proof (induction i)
  case (Suc i)
  have "marked_before s (64 * Suc i) = marked_before s (64 * i + 64)" by (simp add: algebra_simps)
  also have "\<dots> = marked_before s (64 * i) + popcount (marked s ! i)"
    using Suc.prems marked_before_split [of i s 64] unfolding popcount_mask_64 by simp
  finally show ?case using Suc by (simp add: take_Suc_conv_app_nth)
qed (simp add: marked_before_def)

lemma compute_forwarding_simps [simp]:
  "mark_start (compute_forwarding s) = mark_start s" "mark_size (compute_forwarding s) = mark_size s"
  "line_marked (compute_forwarding s) l = line_marked s l" "line_of (compute_forwarding s) a = line_of s a"
  "marked_before (compute_forwarding s) l = marked_before s l"
  by (simp_all add: compute_forwarding_def line_marked_def line_of_def marked_before_def)

lemma compute_forwarding_wf: "mark_wf s \<Longrightarrow> mark_wf (compute_forwarding s)"
  by (simp add: mark_wf_def compute_forwarding_def)

lemma address_line:
  assumes "mark_wf s" "mark_start s \<le> a"
  shows "unat a = unat (mark_start s) + 16 * line_of s a + unat a mod 16"
proof -
  obtain k where k: "unat (mark_start s) = 16 * k" using assms(1) by (auto simp: mark_wf_def)
  obtain x where x: "unat a = 16 * k + x" using assms(2) k by (auto simp: word_le_nat_alt le_iff_add)
  show ?thesis by (simp add: line_of_def k x)
qed

lemma forward_block_line:
  assumes wf: "mark_wf s" and fw: "forwarding s = forwarding_scan 0 (marked s)"
    and a: "mark_start s \<le> original" "unat original < unat (mark_start s) + unat (mark_size s)"
    and m: "line_marked s (line_of s original)"
  shows "\<exists>r. forward_block s original = Some r \<and>
    unat r = unat (mark_start s) + 16 * marked_before s (line_of s original) + unat original mod 16"
proof -
  let ?l = "line_of s original"
  obtain i j where d: "bitmap_deref s original = (i, j)" "unat i = ?l div 64" "unat j = ?l mod 64"
    using bitmap_deref_line [OF a(1)] .
  have len: "unat i < length (marked s)" using line_less [OF wf a] d(2) by auto
  have b: "marked_before s ?l = sum_list (map popcount (take (unat i) (marked s))) + popcount (marked s ! unat i AND mask (unat j))"
    using marked_before_split [OF len, of "unat j"] marked_before_words [of "unat i" s] len d(2,3) by simp
  define n where "n = forwarding s ! unat i + of_nat (popcount (marked s ! unat i AND mask (unat j)))"
  have "n = of_nat (marked_before s ?l)"
    unfolding n_def fw forwarding_scan_nth [OF len] b by simp
  moreover have "marked_before s ?l \<le> ?l" by (rule marked_before_le)
  moreover have "?l < 64 * length (marked s)" using line_less [OF wf a] .
  moreover have "64 * length (marked s) < 2 ^ 64" using wf by (simp add: mark_wf_def)
  ultimately have n: "unat n = marked_before s ?l" "unat n \<le> ?l" by (simp_all add: unat_of_nat)
  have lb: "unat (line_block s n) = unat (mark_start s) + 16 * marked_before s ?l"
    using line_block_unat [OF wf, of n] n \<open>?l < 64 * length (marked s)\<close> by simp
  have off: "unat (original AND (data_alignment - 1)) = unat original mod 16"
    using unat_and_mask [of original 4] by (simp add: data_alignment_def mask_eq_exp_minus_1)
  have o: "unat original = unat (mark_start s) + 16 * ?l + unat original mod 16"
    by (rule address_line [OF wf a(1)])
  have r: "unat (line_block s n + (original AND (data_alignment - 1))) =
      unat (mark_start s) + 16 * marked_before s ?l + unat original mod 16"
  proof -
    have "unat (mark_start s) + 16 * marked_before s ?l + unat original mod 16 \<le> unat original"
      using o n by linarith
    also have "\<dots> < 2 ^ 64" by simp
    finally show ?thesis using lb off by (subst unat_add_exact) simp_all
  qed
  have "unat i < length (forwarding s)" using len fw by simp
  have mk: "push_bit (unat j) 1 - 1 = (mask (unat j) :: cell)" by (simp add: mask_eq_exp_minus_1)
  have le: "line_block s n + (original AND (data_alignment - 1)) \<le> original"
    unfolding word_le_nat_alt r using o n by linarith
  have "forward_block s original = Some (line_block s n + (original AND (data_alignment - 1)))"
    using marked_p_line [OF wf a] m le \<open>unat i < length (forwarding s)\<close>
    by (simp add: forward_block_def d(1) Let_def mk n_def [symmetric] del: push_bit_of_1)
  then show ?thesis using r by blast
qed

subsection \<open>Searching for the next marked or unmarked line\<close>

text \<open>\<open>l\<close> is the first line from \<open>lo\<close> on that satisfies \<open>P\<close>, or the end of the heap.\<close>

definition first_line :: "mark_bits \<Rightarrow> (nat \<Rightarrow> bool) \<Rightarrow> nat \<Rightarrow> nat \<Rightarrow> bool" where
  "first_line s P lo l \<longleftrightarrow> lo \<le> l \<and> l \<le> 64 * length (marked s) \<and> (\<forall>k. lo \<le> k \<and> k < l \<longrightarrow> \<not> P k) \<and>
     (l < 64 * length (marked s) \<longrightarrow> P l)"

lemma first_line_unique: "first_line s P lo l \<Longrightarrow> first_line s P lo l' \<Longrightarrow> l = l'"
  unfolding first_line_def by (meson less_le_trans linorder_neqE_nat)

text \<open>One cell of the bitmap without a hit, and one with its first hit at bit \<open>b + c\<close>.\<close>

lemma first_line_none:
  assumes "first_line s P (64 * Suc index) l" "b < 64" "\<And>j. b + j < 64 \<Longrightarrow> \<not> P (64 * index + (b + j))"
  shows "first_line s P (64 * index + b) l"
proof -
  have "\<not> P k" if "64 * index + b \<le> k" "k < 64 * Suc index" for k
    using assms(3) [of "k - (64 * index + b)"] that by auto
  then have "\<not> P k" if "64 * index + b \<le> k" "k < l" for k
    using that assms(1) by (cases "k < 64 * Suc index") (auto simp: first_line_def)
  then show ?thesis using assms(1,2) by (auto simp: first_line_def)
qed

lemma first_line_found:
  assumes "index < length (marked s)" "b + c < 64" "P (64 * index + (b + c))"
    "\<And>j. j < c \<Longrightarrow> \<not> P (64 * index + (b + j))"
  shows "first_line s P (64 * index + b) (64 * index + b + c)"
proof -
  have "\<not> P k" if "64 * index + b \<le> k" "k < 64 * index + b + c" for k
    using assms(4) [of "k - (64 * index + b)"] that by auto
  then show ?thesis using assms(1-3) by (auto simp: first_line_def add.assoc)
qed

lemma found_line_unat:
  assumes "mark_wf s" "64 * index + b + c \<le> 64 * length (marked s)"
  shows "unat (line_block s (of_nat index * mark_bits_granularity + of_nat b + of_nat c)) =
    unat (mark_start s) + 16 * (64 * index + b + c)"
proof -
  have "of_nat index * mark_bits_granularity + of_nat b + of_nat c = (of_nat (64 * index + b + c) :: cell)"
    by (simp add: mark_consts)
  moreover have "64 * index + b + c < 2 ^ 64" using assms by (auto simp: mark_wf_def)
  ultimately have "unat (of_nat index * mark_bits_granularity + of_nat b + of_nat c :: cell) = 64 * index + b + c"
    by (simp only: unat_of_nat) simp
  then show ?thesis using line_block_unat [OF assms(1)] assms(2) by simp
qed

lemma line_marked_word:
  "index < length (marked s) \<Longrightarrow> r < 64 \<Longrightarrow> line_marked s (64 * index + r) \<longleftrightarrow> bit (marked s ! index) r"
  by (simp add: line_marked_def bits_line_def)

lemma scan_end:
  assumes "mark_wf s" "drop index (marked s) = []" "index \<le> length (marked s)"
  shows "first_line s P (64 * index + 0) (64 * index)"
    "unat (mark_start s + mark_size s) = unat (mark_start s) + 16 * (64 * index)"
proof -
  have "index = length (marked s)" using assms by simp
  moreover have "unat (mark_start s + mark_size s) = unat (mark_start s) + unat (mark_size s)"
    using assms(1) by (intro unat_add_exact) (simp add: mark_wf_def)
  ultimately show "first_line s P (64 * index + 0) (64 * index)"
    "unat (mark_start s + mark_size s) = unat (mark_start s) + 16 * (64 * index)"
    using assms(1) by (auto simp: first_line_def mark_wf_def)
qed

lemma drop_Cons_nth:
  assumes "drop index xs = m # ms"
  shows "index < length xs" "xs ! index = m" "drop (Suc index) xs = ms"
proof -
  show i: "index < length xs" using assms by (cases "index < length xs") simp_all
  show "xs ! index = m" "drop (Suc index) xs = ms" using assms Cons_nth_drop_Suc [OF i] by simp_all
qed

lemma next_marked_scan_line:
  assumes "mark_wf s" "bi < 64" "drop index (marked s) = ms" "index \<le> length (marked s)" "ms = [] \<longrightarrow> bi = 0"
  shows "\<exists>r l. next_marked_scan s index bi ms = Some r \<and> first_line s (line_marked s) (64 * index + bi) l \<and>
    unat r = unat (mark_start s) + 16 * l"
  using assms(2-5)
proof (induction ms arbitrary: index bi)
  case Nil
  then show ?case using scan_end [OF assms(1), of index] by auto
next
  case (Cons m ms)
  note d = drop_Cons_nth [OF Cons.prems(2)]
  note w = line_marked_word [OF d(1), unfolded d(2)]
  show ?case
  proof (cases "drop_bit bi m = 0")
    case True
    then have z: "\<not> bit m (bi + j)" for j using bit_drop_bit_eq [of bi m] by (auto simp: fun_eq_iff)
    obtain r l where rl: "next_marked_scan s (Suc index) 0 ms = Some r"
      "first_line s (line_marked s) (64 * Suc index) l" "unat r = unat (mark_start s) + 16 * l"
      using Cons.IH [of 0 "Suc index"] d by auto
    have "first_line s (line_marked s) (64 * index + bi) l"
      by (rule first_line_none [OF rl(2) Cons.prems(1)]) (simp add: w z)
    then show ?thesis using True rl by (simp add: Let_def)
  next
    case False
    then obtain c where c: "rightmost_set_bit (drop_bit bi m) = Some c" "bit (drop_bit bi m) c"
      "\<And>j. j < c \<Longrightarrow> \<not> bit (drop_bit bi m) j" using rightmost_set_bit_Some by blast
    have bc: "bi + c < 64" using c(2) bit_cell_less [of m "bi + c"] by (simp add: bit_simps)
    have "first_line s (line_marked s) (64 * index + bi) (64 * index + bi + c)"
      using c(2,3) bc by (intro first_line_found [OF d(1)]) (simp_all add: w bit_simps)
    moreover have "64 * index + bi + c \<le> 64 * length (marked s)" using d(1) bc by linarith
    ultimately show ?thesis using False c(1) found_line_unat [OF assms(1)] by (auto simp: Let_def)
  qed
qed

lemma next_unmarked_scan_line:
  assumes "mark_wf s" "bi < 64" "drop index (marked s) = ms" "index \<le> length (marked s)" "ms = [] \<longrightarrow> bi = 0"
  shows "\<exists>r l. next_unmarked_scan s index bi ms = Some r \<and> first_line s (\<lambda>l. \<not> line_marked s l) (64 * index + bi) l \<and>
    unat r = unat (mark_start s) + 16 * l"
  using assms(2-5)
proof (induction ms arbitrary: index bi)
  case Nil
  then show ?case using scan_end [OF assms(1), of index] by auto
next
  case (Cons m ms)
  note d = drop_Cons_nth [OF Cons.prems(2)]
  note w = line_marked_word [OF d(1), unfolded d(2)]
  let ?m = "signed_drop_bit bi m"
  have b: "bit ?m j \<longleftrightarrow> j < 64 \<and> bit m (if bi + j < 64 then bi + j else 63)" for j
    by (auto simp: bit_signed_drop_bit_iff dest: bit_cell_less)
  show ?case
  proof (cases "NOT ?m = 0")
    case True
    then have z: "bit m (bi + j)" if "bi + j < 64" for j
    proof -
      have "\<not> bit (NOT ?m) j" using True by simp
      then show ?thesis using that b [of j] by (simp add: bit_simps)
    qed
    obtain r l where rl: "next_unmarked_scan s (Suc index) 0 ms = Some r"
      "first_line s (\<lambda>l. \<not> line_marked s l) (64 * Suc index) l" "unat r = unat (mark_start s) + 16 * l"
      using Cons.IH [of 0 "Suc index"] d by auto
    have "first_line s (\<lambda>l. \<not> line_marked s l) (64 * index + bi) l"
      by (rule first_line_none [OF rl(2) Cons.prems(1)]) (simp add: w z)
    then show ?thesis using True rl by (simp add: Let_def)
  next
    case False
    then obtain c where c: "rightmost_clear_bit ?m = Some c" "bit (NOT ?m) c" "\<And>j. j < c \<Longrightarrow> \<not> bit (NOT ?m) j"
      unfolding rightmost_clear_bit_not using rightmost_set_bit_Some by blast
    have c64: "c < 64" using c(2) by (rule bit_cell_less)
    have bc: "bi + c < 64"
    proof (rule ccontr)
      assume "\<not> bi + c < 64"
      then have "\<not> bit m 63" "63 - bi < c" using c(2) c64 b [of c] Cons.prems(1) by (auto simp: bit_simps)
      then show False using c(3) [of "63 - bi"] Cons.prems(1) unfolding bit_not_iff b by simp
    qed
    have "first_line s (\<lambda>l. \<not> line_marked s l) (64 * index + bi) (64 * index + bi + c)"
      using c(2,3) bc c64 by (intro first_line_found [OF d(1) bc]) (simp_all add: w bit_not_iff b)
    moreover have "64 * index + bi + c \<le> 64 * length (marked s)" using d(1) bc by linarith
    ultimately show ?thesis using False c(1) found_line_unat [OF assms(1)] by (auto simp: Let_def)
  qed
qed

lemma search_start:
  assumes wf: "mark_wf s" and a: "mark_start s \<le> original" "unat original \<le> unat (mark_start s) + unat (mark_size s)"
  obtains i j where "bitmap_deref s original = (i, j)" "unat i \<le> length (marked s)" "unat j < 64"
    "drop (unat i) (marked s) = [] \<longrightarrow> unat j = 0" "64 * unat i + unat j = line_of s original"
proof -
  obtain i j where d: "bitmap_deref s original = (i, j)" "unat i = line_of s original div 64"
    "unat j = line_of s original mod 64" using bitmap_deref_line [OF a(1)] .
  have e: "64 * unat i + unat j = line_of s original" using d(2,3) by simp
  have "unat original - unat (mark_start s) \<le> 1024 * length (marked s)" using a wf by (simp add: mark_wf_def)
  then have l: "line_of s original \<le> 64 * length (marked s)" unfolding line_of_def by linarith
  show thesis by (rule that [OF d(1) _ _ _ e]) (use e l d(3) in auto)
qed

lemma next_marked_block_after_line:
  assumes "mark_wf s" "mark_start s \<le> original" "unat original \<le> unat (mark_start s) + unat (mark_size s)"
  shows "\<exists>r l. next_marked_block_after s original = Some r \<and>
    first_line s (line_marked s) (line_of s original) l \<and> unat r = unat (mark_start s) + 16 * l"
proof -
  obtain i j where d: "bitmap_deref s original = (i, j)" "unat i \<le> length (marked s)" "unat j < 64"
    "drop (unat i) (marked s) = [] \<longrightarrow> unat j = 0" "64 * unat i + unat j = line_of s original"
    using search_start [OF assms] .
  show ?thesis
    using next_marked_scan_line [OF assms(1) d(3) refl d(2,4)] by (simp add: next_marked_block_after_def d(1,5))
qed

lemma next_unmarked_block_after_line:
  assumes "mark_wf s" "mark_start s \<le> original" "unat original \<le> unat (mark_start s) + unat (mark_size s)"
  shows "\<exists>r l. next_unmarked_block_after s original = Some r \<and>
    first_line s (\<lambda>l. \<not> line_marked s l) (line_of s original) l \<and> unat r = unat (mark_start s) + 16 * l"
proof -
  obtain i j where d: "bitmap_deref s original = (i, j)" "unat i \<le> length (marked s)" "unat j < 64"
    "drop (unat i) (marked s) = [] \<longrightarrow> unat j = 0" "64 * unat i + unat j = line_of s original"
    using search_start [OF assms] .
  show ?thesis
    using next_unmarked_scan_line [OF assms(1) d(3) refl d(2,4)] by (simp add: next_unmarked_block_after_def d(1,5))
qed

text \<open>The lines of a block of whole lines are those of its addresses.\<close>

lemma line_in_block:
  assumes "mark_wf s" "mark_start s \<le> b" "unat b + unat sz \<le> unat (mark_start s) + unat (mark_size s)"
    and al: "unat b mod 16 = 0" "unat sz mod 16 = 0" and a: "mark_start s \<le> a"
  shows "line_of s b \<le> line_of s a \<and> line_of s a < line_of s (b + sz) \<longleftrightarrow> b \<le> a \<and> unat a < unat b + unat sz"
proof -
  have lt: "unat b + unat sz < 2 ^ 64" using assms(1,3) by (simp add: mark_wf_def)
  then have e: "unat (b + sz) = unat b + unat sz" by (simp add: unat_word_ariths)
  have le: "mark_start s \<le> b + sz" using assms(2) e by (simp add: word_le_nat_alt)
  have "unat b = unat (mark_start s) + 16 * line_of s b" "unat b + unat sz = unat (mark_start s) + 16 * line_of s (b + sz)"
    using address_line [OF assms(1,2)] address_line [OF assms(1) le] al e by (simp_all add: mod_add_eq [symmetric])
  moreover have "unat a = unat (mark_start s) + 16 * line_of s a + unat a mod 16" by (rule address_line [OF assms(1) a])
  moreover have "unat a mod 16 < 16" by simp
  ultimately show ?thesis unfolding word_le_nat_alt by linarith
qed

lemma forward_block_computed:
  assumes "mark_wf s" "mark_start s \<le> a" "unat a < unat (mark_start s) + unat (mark_size s)" "line_marked s (line_of s a)"
  shows "\<exists>r. forward_block (compute_forwarding s) a = Some r \<and>
    unat r = unat (mark_start s) + 16 * marked_before s (line_of s a) + unat a mod 16"
proof -
  have e: "mark_start (compute_forwarding s) = mark_start s" "mark_size (compute_forwarding s) = mark_size s"
    "marked (compute_forwarding s) = marked s" by (simp_all add: compute_forwarding_def)
  have l: "line_of (compute_forwarding s) x = line_of s x" "line_marked (compute_forwarding s) k = line_marked s k"
    "marked_before (compute_forwarding s) k = marked_before s k" for x k
    by (simp_all add: e line_of_def line_marked_def marked_before_def)
  have "forwarding (compute_forwarding s) = forwarding_scan 0 (marked (compute_forwarding s))"
    by (simp add: compute_forwarding_def)
  from forward_block_line [OF compute_forwarding_wf [OF assms(1)] this, of a] show ?thesis
    using assms(2-4) by (simp add: e l)
qed

end
