(* ===== verification/Object_Starts.thy ===== *)
theory Object_Starts
  imports Mark_Bits
begin

text \<open>
  Cards, decks (\<open>vm/write_barrier.hpp\<close>) and the object start map
  (\<open>vm/object_start_map.hpp\<close>, \<open>vm/object_start_map.cpp\<close>), which records for every card of
  256 bytes the offset of the first object that starts in it, so that a collection can
  find the objects of a dirty card.
\<close>

unbundle bit_operations_syntax

type_synonym card = "8 word"
type_synonym card_deck = "8 word"

definition card_points_to_nursery :: cell where
  "card_points_to_nursery = 0x80"

definition card_points_to_aging :: cell where
  "card_points_to_aging = 0x40"

definition card_mark_mask :: cell where
  "card_mark_mask = card_points_to_nursery OR card_points_to_aging"

abbreviation "card_bits \<equiv> 8 :: nat"
abbreviation "deck_bits \<equiv> 18 :: nat"

definition card_size :: cell where
  "card_size = push_bit card_bits 1"

definition addr_card_mask :: cell where
  "addr_card_mask = card_size - 1"

definition deck_size :: cell where
  "deck_size = push_bit deck_bits 1"

definition cards_per_deck :: cell where
  "cards_per_deck = push_bit 10 1"

definition addr_to_card :: "cell \<Rightarrow> cell" where
  "addr_to_card a = drop_bit card_bits a"

definition addr_to_deck :: "cell \<Rightarrow> cell" where
  "addr_to_deck a = drop_bit deck_bits a"

subsection \<open>The object start map\<close>

definition card_starts_inside_object :: card where
  "card_starts_inside_object = 0xff"

record object_start_map =
  osm_size :: cell
  osm_start :: cell
  object_start_offsets :: "card list"

definition clear_object_start_offsets :: "object_start_map \<Rightarrow> object_start_map" where
  "clear_object_start_offsets m =
     m\<lparr>object_start_offsets :=
        replicate (unat (addr_to_card (osm_size m))) card_starts_inside_object @
        drop (unat (addr_to_card (osm_size m))) (object_start_offsets m)\<rparr>"

text \<open>The array is allocated uninitialised (\<open>garbage\<close>) and then cleared.\<close>

definition new_object_start_map :: "card \<Rightarrow> cell \<Rightarrow> cell \<Rightarrow> object_start_map" where
  "new_object_start_map garbage sz start =
     (let card_count = sz div card_size
      in clear_object_start_offsets
           \<lparr>osm_size = sz, osm_start = start, object_start_offsets = replicate (unat card_count) garbage\<rparr>)"

fun find_card_scan :: "card list \<Rightarrow> nat \<Rightarrow> nat option" where
  "find_card_scan offsets card_index =
     (if length offsets \<le> card_index then None
      else if offsets ! card_index = card_starts_inside_object then
        (case card_index of 0 \<Rightarrow> None | Suc i \<Rightarrow> find_card_scan offsets i)
      else Some card_index)"

declare find_card_scan.simps [simp del]

definition find_object_containing_card :: "object_start_map \<Rightarrow> cell \<Rightarrow> cell option" where
  "find_object_containing_card m card_index =
     (if card_index = 0 then Some (osm_start m)
      else do {
        i \<leftarrow> find_card_scan (object_start_offsets m) (unat (card_index - 1));
        Some (osm_start m + of_nat i * card_size + ucast (object_start_offsets m ! i)) })"

definition record_object_start_offset :: "object_start_map \<Rightarrow> cell \<Rightarrow> object_start_map option" where
  "record_object_start_offset m obj =
     (let idx = unat (addr_to_card (obj - osm_start m));
          obj_start = ucast (obj AND addr_card_mask) :: card;
          offsets = object_start_offsets m
      in if idx < length offsets
         then Some (m\<lparr>object_start_offsets := offsets[idx := min (offsets ! idx) obj_start]\<rparr>) else None)"

definition update_card_for_sweep :: "object_start_map \<Rightarrow> nat \<Rightarrow> 16 word \<Rightarrow> object_start_map option" where
  "update_card_for_sweep m index mask16 =
     (let offsets = object_start_offsets m in
      if length offsets \<le> index then None
      else
        (let offset = offsets ! index in
         if offset \<noteq> card_starts_inside_object then
           (let shifted = drop_bit (unat (ucast offset div data_alignment)) mask16 in
            if shifted = 0 then Some (m\<lparr>object_start_offsets := offsets[index := card_starts_inside_object]\<rparr>)
            else do {
              b \<leftarrow> rightmost_set_bit (ucast shifted);
              Some (m\<lparr>object_start_offsets :=
                offsets[index := ucast (ucast offset + of_nat b * data_alignment)]\<rparr>) })
         else Some m))"

fun update_for_sweep_scan :: "object_start_map \<Rightarrow> nat \<Rightarrow> cell list \<Rightarrow> object_start_map option" where
  "update_for_sweep_scan m index [] = Some m"
| "update_for_sweep_scan m index (msk # ms) = do {
     m1 \<leftarrow> update_card_for_sweep m (index * 4) (ucast (msk AND 0xffff));
     m2 \<leftarrow> update_card_for_sweep m1 (index * 4 + 1) (ucast (drop_bit 16 msk AND 0xffff));
     m3 \<leftarrow> update_card_for_sweep m2 (index * 4 + 2) (ucast (drop_bit 32 msk AND 0xffff));
     m4 \<leftarrow> update_card_for_sweep m3 (index * 4 + 3) (ucast (drop_bit 48 msk AND 0xffff));
     update_for_sweep_scan m4 (Suc index) ms }"

definition update_for_sweep :: "object_start_map \<Rightarrow> mark_bits \<Rightarrow> object_start_map option" where
  "update_for_sweep m state = update_for_sweep_scan m 0 (marked state)"

subsection \<open>Correct object start maps\<close>

text \<open>
  \<open>objs\<close> is the set of lines, counted from the start of the heap, at which an object starts.
  The entry of a card is correct when it is the offset of the first line of the card in
  \<open>objs\<close>, or the marker when there is none.
\<close>

definition card_ok :: "card \<Rightarrow> (nat \<Rightarrow> bool) \<Rightarrow> bool" where
  "card_ok offset P \<longleftrightarrow>
     (if offset = card_starts_inside_object then \<forall>r<16. \<not> P r
      else \<exists>r<16. unat offset = 16 * r \<and> P r \<and> (\<forall>r'<r. \<not> P r'))"

definition osm_ok :: "object_start_map \<Rightarrow> nat set \<Rightarrow> bool" where
  "osm_ok m objs \<longleftrightarrow> unat (osm_size m) = 256 * length (object_start_offsets m) \<and>
     unat (osm_start m) + unat (osm_size m) < 2 ^ 64 \<and> unat (osm_start m) mod 256 = 0 \<and>
     (\<forall>c < length (object_start_offsets m). card_ok (object_start_offsets m ! c) (\<lambda>r. 16 * c + r \<in> objs))"

lemma card_consts:
  "unat card_size = 256" "addr_card_mask = mask 8" "unat (addr_to_card a) = unat a div 256"
  by (simp_all add: card_size_def addr_card_mask_def mask_eq_exp_minus_1 addr_to_card_def unat_drop_bit_eq drop_bit_nat_def)

lemma card_offset_marker: "unat offset = 16 * r \<Longrightarrow> offset \<noteq> card_starts_inside_object" for offset :: card
proof
  assume "unat offset = 16 * r" "offset = card_starts_inside_object"
  then have "16 * r = 255" by (simp add: card_starts_inside_object_def)
  then show False by presburger
qed

lemma clear_object_start_offsets_ok:
  assumes "unat (osm_size m) = 256 * length (object_start_offsets m)"
    "unat (osm_start m) + unat (osm_size m) < 2 ^ 64" "unat (osm_start m) mod 256 = 0"
  shows "osm_ok (clear_object_start_offsets m) {}"
  using assms by (simp add: osm_ok_def clear_object_start_offsets_def card_consts card_ok_def)

lemma new_object_start_map_ok:
  assumes "unat sz mod 256 = 0" "unat start + unat sz < 2 ^ 64" "unat start mod 256 = 0"
  shows "osm_ok (new_object_start_map g sz start) {}"
  unfolding new_object_start_map_def Let_def using assms
  by (intro clear_object_start_offsets_ok) (auto simp: unat_div card_consts mod_eq_0_iff_dvd)

lemma card_ok_min:
  assumes "card_ok offset P" "r < 16" "unat new = 16 * r"
  shows "card_ok (min offset new) (\<lambda>k. P k \<or> k = r)"
proof (cases "offset = card_starts_inside_object")
  case True
  then have "min offset new = new"
    using assms(2,3) by (simp add: min_def word_le_nat_alt card_starts_inside_object_def)
  then show ?thesis using assms True card_offset_marker [OF assms(3)] by (auto simp: card_ok_def)
next
  case False
  then obtain q where q: "q < 16" "unat offset = 16 * q" "P q" "\<forall>r'<q. \<not> P r'"
    using assms(1) by (auto simp: card_ok_def)
  have u: "unat (min offset new) = 16 * min q r"
    using q(2) assms(3) by (auto simp: min_def word_le_nat_alt)
  moreover have "P (min q r) \<or> min q r = r" "\<forall>r'<min q r. \<not> (P r' \<or> r' = r)" "min q r < 16"
    using q by (auto simp: min_def)
  ultimately show ?thesis using card_offset_marker [OF u] unfolding card_ok_def by auto
qed

lemma record_object_start_offset_ok:
  assumes ok: "osm_ok m objs" and p: "unat obj = unat (osm_start m) + 16 * p" "p < 16 * length (object_start_offsets m)"
  shows "\<exists>m'. record_object_start_offset m obj = Some m' \<and> osm_ok m' (insert p objs)"
proof -
  let ?os = "object_start_offsets m" and ?c = "p div 16"
  have "osm_start m \<le> obj" using p(1) by (simp add: word_le_nat_alt)
  then have "unat (obj - osm_start m) = 16 * p" using p(1) by (simp add: unat_sub_exact)
  then have idx: "unat (addr_to_card (obj - osm_start m)) = ?c" by (simp add: card_consts)
  have "unat (obj AND addr_card_mask) = 16 * (p mod 16)"
  proof -
    obtain k where "unat (osm_start m) = 256 * k" using ok by (auto simp: osm_ok_def)
    then have "unat obj mod 256 = (16 * p) mod 256" unfolding p(1) by simp
    then show ?thesis by (simp add: card_consts unat_and_mask mult_mod_right)
  qed
  then have o: "unat (ucast (obj AND addr_card_mask) :: card) = 16 * (p mod 16)" (is "unat ?o = _")
    by (simp add: unsigned_ucast_eq take_bit_nat_eq_self)
  have c: "?c < length ?os" using p(2) by auto
  let ?m' = "m\<lparr>object_start_offsets := ?os[?c := min (?os ! ?c) ?o]\<rparr>"
  have "record_object_start_offset m obj = Some ?m'"
    using c by (simp add: record_object_start_offset_def Let_def idx)
  moreover have "card_ok (?os[?c := min (?os ! ?c) ?o] ! k) (\<lambda>r. 16 * k + r \<in> insert p objs)" if "k < length ?os" for k
  proof (cases "k = ?c")
    case True
    have "card_ok (min (?os ! ?c) ?o) (\<lambda>r. 16 * ?c + r \<in> objs \<or> r = p mod 16)"
      using ok c o by (intro card_ok_min) (simp_all add: osm_ok_def)
    moreover have "16 * ?c + r = p \<longleftrightarrow> r = p mod 16" for r using div_mult_mod_eq [of p 16] by linarith
    ultimately show ?thesis using True c by (simp add: insert_iff disj_commute)
  next
    case False
    then have "\<forall>r<16. 16 * k + r \<noteq> p" by auto
    moreover have "card_ok (?os ! k) (\<lambda>r. 16 * k + r \<in> objs)" using ok that by (simp add: osm_ok_def)
    ultimately show ?thesis using False by (auto simp: card_ok_def)
  qed
  ultimately show ?thesis using ok by (auto simp: osm_ok_def)
qed

lemma find_card_scan_ok:
  assumes "i < length offsets" "\<exists>k\<le>i. offsets ! k \<noteq> card_starts_inside_object"
  shows "\<exists>k\<le>i. find_card_scan offsets i = Some k \<and> offsets ! k \<noteq> card_starts_inside_object \<and>
    (\<forall>j. k < j \<and> j \<le> i \<longrightarrow> offsets ! j = card_starts_inside_object)"
  using assms
proof (induction i)
  case 0
  then show ?case by (subst find_card_scan.simps) auto
next
  case (Suc i)
  show ?case
  proof (cases "offsets ! Suc i = card_starts_inside_object")
    case True
    then have "\<exists>k\<le>i. offsets ! k \<noteq> card_starts_inside_object" using Suc.prems(2) by (metis le_SucE)
    then obtain k where "k \<le> i" "find_card_scan offsets i = Some k" "offsets ! k \<noteq> card_starts_inside_object"
      "\<forall>j. k < j \<and> j \<le> i \<longrightarrow> offsets ! j = card_starts_inside_object"
      using Suc.IH Suc.prems(1) by auto
    then show ?thesis using True Suc.prems(1) by (subst find_card_scan.simps) (auto simp: le_Suc_eq)
  next
    case False
    then show ?thesis using Suc.prems(1) by (subst find_card_scan.simps) auto
  qed
qed

lemma find_object_containing_card_ok:
  assumes ok: "osm_ok m objs" and c: "0 < c" "unat c \<le> length (object_start_offsets m)"
    and p0: "p0 \<in> objs" "p0 div 16 < unat c"
  shows "\<exists>a p. find_object_containing_card m c = Some a \<and> p \<in> objs \<and> p div 16 < unat c \<and>
    unat a = unat (osm_start m) + 16 * p \<and> (\<forall>q\<in>objs. q div 16 < p div 16 \<or> q div 16 = p div 16 \<and> p \<le> q \<or> unat c \<le> q div 16)"
proof -
  let ?os = "object_start_offsets m"
  have c1: "unat (c - 1) = unat c - 1" "0 < unat c" using c(1) by (simp_all add: unat_gt_0 unat_minus_one)
  have card: "card_ok (?os ! k) (\<lambda>r. 16 * k + r \<in> objs)" if "k < length ?os" for k using ok that by (simp add: osm_ok_def)
  have mk: "?os ! (q div 16) \<noteq> card_starts_inside_object" if "q \<in> objs" "q div 16 < unat c" for q
    using card [of "q div 16"] that c(2) by (auto simp: card_ok_def split: if_splits dest!: spec [of _ "q mod 16"])
  have "\<exists>k\<le>unat c - 1. ?os ! k \<noteq> card_starts_inside_object"
    using mk [OF p0] p0(2) by (intro exI [of _ "p0 div 16"]) simp
  moreover have lt: "unat c - 1 < length ?os" using c(2) c1(2) by linarith
  ultimately obtain k where k: "k \<le> unat c - 1" "find_card_scan ?os (unat c - 1) = Some k" "?os ! k \<noteq> card_starts_inside_object"
    "\<forall>j. k < j \<and> j \<le> unat c - 1 \<longrightarrow> ?os ! j = card_starts_inside_object"
    using find_card_scan_ok [of "unat c - 1" ?os] lt by blast
  have kl: "k < length ?os" using k(1) c(2) c1(2) by linarith
  obtain r where r: "r < 16" "unat (?os ! k) = 16 * r" "16 * k + r \<in> objs" "\<forall>r'<r. 16 * k + r' \<notin> objs"
    using card [OF kl] k(3) by (auto simp: card_ok_def)
  have "unat (of_nat k * card_size) = 256 * k"
    using ok kl by (subst unat_mult_exact) (auto simp: osm_ok_def card_consts unat_of_nat)
  moreover have "unat (ucast (?os ! k) :: cell) = 16 * r"
    using r(1,2) by (simp add: unsigned_ucast_eq take_bit_nat_eq_self)
  moreover have "unat (osm_start m) + 256 * k + 16 * r < 2 ^ 64" using ok kl r(1) by (simp add: osm_ok_def)
  ultimately have "unat (osm_start m + of_nat k * card_size + ucast (?os ! k)) = unat (osm_start m) + 16 * (16 * k + r)"
    by (simp add: unat_add_exact)
  moreover have between: "q div 16 < k \<or> q div 16 = k \<and> 16 * k + r \<le> q \<or> unat c \<le> q div 16" if "q \<in> objs" for q
  proof (cases "q div 16 = k")
    case True
    then have "q = 16 * k + q mod 16" using div_mult_mod_eq [of q 16] by simp
    then show ?thesis using True r(4) that by (metis add_le_cancel_left not_le)
  next
    case False
    then show ?thesis using mk [OF that] k(4) by fastforce
  qed
  moreover have "(16 * k + r) div 16 = k" using r(1) by simp
  moreover have "find_object_containing_card m c = Some (osm_start m + of_nat k * card_size + ucast (?os ! k))"
    using k(2) c1 by (auto simp: find_object_containing_card_def)
  moreover have "k < unat c" using k(1) c1(2) by simp
  ultimately show ?thesis using r(3) by metis
qed

subsection \<open>The map after a sweep\<close>

text \<open>
  Objects occupy whole lines, do not overlap, and a sweep keeps exactly the marked ones.
  \<open>extent p\<close> is the number of lines of the object that starts at line \<open>p\<close>.
\<close>

definition objects_marked :: "(nat \<Rightarrow> bool) \<Rightarrow> nat set \<Rightarrow> nat set \<Rightarrow> (nat \<Rightarrow> nat) \<Rightarrow> bool" where
  "objects_marked M objs live extent \<longleftrightarrow> live \<subseteq> objs \<and> (\<forall>p\<in>objs. 0 < extent p) \<and>
     (\<forall>p\<in>objs. \<forall>q\<in>objs. p < q \<longrightarrow> p + extent p \<le> q) \<and>
     (\<forall>l. M l \<longleftrightarrow> (\<exists>p\<in>live. p \<le> l \<and> l < p + extent p))"

lemma objects_marked_live:
  assumes "objects_marked M objs live extent" "p \<in> live"
  shows "M p" "p \<in> objs"
proof -
  show "p \<in> objs" using assms by (auto simp: objects_marked_def)
  then have "0 < extent p" using assms by (simp add: objects_marked_def)
  then have "\<exists>p'\<in>live. p' \<le> p \<and> p < p' + extent p'" using assms(2) by (intro bexI [of _ p]) simp_all
  then show "M p" using assms(1) by (simp add: objects_marked_def)
qed

lemma first_marked_live:
  assumes om: "objects_marked M objs live extent"
    and q: "16 * c + q \<in> objs" "\<forall>q'<q. 16 * c + q' \<notin> objs"
    and r: "q \<le> r" "M (16 * c + r)" "\<forall>r'. q \<le> r' \<and> r' < r \<longrightarrow> \<not> M (16 * c + r')"
  shows "16 * c + r \<in> live"
proof -
  obtain p where p: "p \<in> live" "p \<le> 16 * c + r" "16 * c + r < p + extent p"
    using om r(2) by (auto simp: objects_marked_def)
  note pm = objects_marked_live [OF om p(1)]
  have "16 * c + q \<le> p"
  proof (rule ccontr)
    assume "\<not> 16 * c + q \<le> p"
    then have "p + extent p \<le> 16 * c + q" using om pm(2) q(1) by (auto simp: objects_marked_def)
    then show False using p(3) r(1) by simp
  qed
  then obtain j where j: "p = 16 * c + (q + j)" by (auto simp: le_iff_add add.assoc)
  then have "\<not> q + j < r" using r(3) [rule_format, of "q + j"] pm(1) by auto
  then have "q + j = r" using j p(2) by simp
  then show ?thesis using j p(1) by simp
qed

lemma unat_ucast_card: "unat (ucast offset :: cell) = unat offset" for offset :: card
proof -
  have "unat offset < 2 ^ 8" using unsigned_less [of offset] by simp
  then show ?thesis by (simp add: unsigned_ucast_eq take_bit_nat_eq_self)
qed

lemma update_card_for_sweep_ok:
  assumes om: "objects_marked M objs live extent"
    and c: "c < length (object_start_offsets m)"
    and card: "card_ok (object_start_offsets m ! c) (\<lambda>r. 16 * c + r \<in> objs)"
    and w: "\<And>r. bit w r \<longleftrightarrow> r < 16 \<and> M (16 * c + r)"
  shows "\<exists>offset. update_card_for_sweep m c w = Some (m\<lparr>object_start_offsets := (object_start_offsets m)[c := offset]\<rparr>) \<and>
    card_ok offset (\<lambda>r. 16 * c + r \<in> live)"
proof (cases "object_start_offsets m ! c = card_starts_inside_object")
  case True
  then have "(object_start_offsets m)[c := card_starts_inside_object] = object_start_offsets m" by (metis list_update_id)
  then show ?thesis using True c card om
    by (intro exI [of _ card_starts_inside_object])
      (auto simp: update_card_for_sweep_def card_ok_def objects_marked_def)
next
  case False
  let ?o = "object_start_offsets m ! c"
  obtain q where q: "q < 16" "unat ?o = 16 * q" "16 * c + q \<in> objs" "\<forall>q'<q. 16 * c + q' \<notin> objs"
    using card False by (auto simp: card_ok_def)
  note lm = objects_marked_live [OF om]
  have qs: "unat (ucast ?o div data_alignment :: cell) = q" using q(2) by (simp add: unat_div mark_consts unat_ucast_card)
  let ?w = "drop_bit q w"
  show ?thesis
  proof (cases "?w = 0")
    case True
    have "16 * c + r \<notin> live" if "r < 16" for r
    proof
      assume l: "16 * c + r \<in> live"
      then have "q \<le> r" "bit w r" using q(4) lm w that by (auto simp: not_less [symmetric])
      then have "bit ?w (r - q)" by (simp add: bit_simps)
      then show False using True by simp
    qed
    then show ?thesis using True False c qs by (auto simp: update_card_for_sweep_def Let_def card_ok_def)
  next
    case nz: False
    then obtain k where "bit ?w k" by (auto simp: bit_eq_iff)
    then have "bit (ucast ?w :: cell) k" by (auto simp: bit_simps dest: w [THEN iffD1])
    then have "(ucast ?w :: cell) \<noteq> 0" by auto
    then obtain b where b: "rightmost_set_bit (ucast ?w) = Some b" "bit (ucast ?w :: cell) b"
      "\<And>j. j < b \<Longrightarrow> \<not> bit (ucast ?w :: cell) j" using rightmost_set_bit_Some by blast
    have bw: "bit w (q + b)" using b(2) by (auto simp: bit_simps)
    then have qb: "q + b < 16" "M (16 * c + (q + b))" using w by auto
    have nb: "\<not> M (16 * c + r)" if "q \<le> r" "r < q + b" for r
    proof -
      obtain j where r: "r = q + j" using \<open>q \<le> r\<close> by (auto simp: le_iff_add)
      then have "\<not> bit w (q + j)" using b(3) [of j] that qb by (auto simp: bit_simps)
      then show ?thesis using w [of r] that qb(1) r by auto
    qed
    have live: "16 * c + (q + b) \<in> live"
      by (rule first_marked_live [OF om q(3,4) _ qb(2)]) (use nb in auto)
    have "unat (of_nat b * data_alignment :: cell) = 16 * b"
      using qb(1) by (subst unat_mult_exact) (simp_all add: mark_consts unat_of_nat)
    then have "unat (ucast ?o + of_nat b * data_alignment :: cell) = 16 * (q + b)"
      using qb(1) q(2) by (subst unat_add_exact) (simp_all add: unat_ucast_card)
    then have u: "unat (ucast (ucast ?o + of_nat b * data_alignment :: cell) :: card) = 16 * (q + b)"
      using qb(1) by (simp add: unsigned_ucast_eq take_bit_nat_eq_self)
    have "\<forall>r<q + b. 16 * c + r \<notin> live" using nb q(4) lm by (meson not_less)
    then have "card_ok (ucast (ucast ?o + of_nat b * data_alignment :: cell)) (\<lambda>r. 16 * c + r \<in> live)"
      using card_offset_marker [OF u] u live qb(1) by (auto simp: card_ok_def)
    then show ?thesis using nz False c qs b(1) by (auto simp: update_card_for_sweep_def Let_def)
  qed
qed

definition cards_swept :: "card list \<Rightarrow> nat set \<Rightarrow> nat set \<Rightarrow> nat \<Rightarrow> bool" where
  "cards_swept offs objs live n \<longleftrightarrow>
     (\<forall>k < length offs. card_ok (offs ! k) (\<lambda>r. 16 * k + r \<in> (if k < n then live else objs)))"

lemma update_card_list_ok:
  assumes om: "objects_marked M objs live extent" and c: "c < length offs"
    and sw: "cards_swept offs objs live c" and w: "\<And>r. bit w r \<longleftrightarrow> r < 16 \<and> M (16 * c + r)"
  shows "\<exists>offs'. update_card_for_sweep (m\<lparr>object_start_offsets := offs\<rparr>) c w = Some (m\<lparr>object_start_offsets := offs'\<rparr>) \<and>
    length offs' = length offs \<and> cards_swept offs' objs live (c + 1)"
proof -
  let ?m = "m\<lparr>object_start_offsets := offs\<rparr>"
  have "c < length (object_start_offsets ?m)" "card_ok (object_start_offsets ?m ! c) (\<lambda>r. 16 * c + r \<in> objs)"
    using c sw by (auto simp: cards_swept_def)
  from update_card_for_sweep_ok [OF om this w] obtain offset
    where o: "update_card_for_sweep ?m c w = Some (m\<lparr>object_start_offsets := offs[c := offset]\<rparr>)"
      "card_ok offset (\<lambda>r. 16 * c + r \<in> live)" by auto
  have "card_ok (offs[c := offset] ! k) (\<lambda>r. 16 * k + r \<in> (if k < c + 1 then live else objs))" if "k < length offs" for k
    using o(2) sw that by (cases "k = c") (auto simp: cards_swept_def less_Suc_eq)
  then have "cards_swept (offs[c := offset]) objs live (c + 1)" by (simp add: cards_swept_def)
  then show ?thesis using o(1) by (intro exI [of _ "offs[c := offset]"]) simp
qed

lemma mark_quarter:
  assumes "index < length (marked s)" "i < 4" "marked s ! index = w"
  shows "bit (ucast (drop_bit (16 * i) w AND 0xffff) :: 16 word) r \<longleftrightarrow> r < 16 \<and> line_marked s (16 * (index * 4 + i) + r)"
proof -
  have e: "(0xffff :: cell) = mask 16" by (simp add: mask_eq_exp_minus_1)
  have "bit (ucast (drop_bit (16 * i) w AND 0xffff) :: 16 word) r \<longleftrightarrow> r < 16 \<and> bit w (16 * i + r)"
    unfolding e by (auto simp: bit_simps)
  moreover have "line_marked s (16 * (index * 4 + i) + r) \<longleftrightarrow> bit w (16 * i + r)" if "r < 16"
    using line_marked_word [OF assms(1), of "16 * i + r"] assms(2,3) that by (simp add: algebra_simps)
  ultimately show ?thesis by auto
qed

lemma update_for_sweep_scan_ok:
  assumes om: "objects_marked (line_marked s) objs live extent"
    and "drop index (marked s) = ms" "index \<le> length (marked s)"
    and "length offs = 4 * length (marked s)" "cards_swept offs objs live (index * 4)"
  shows "\<exists>offs'. update_for_sweep_scan (m\<lparr>object_start_offsets := offs\<rparr>) index ms = Some (m\<lparr>object_start_offsets := offs'\<rparr>) \<and>
    length offs' = length offs \<and> cards_swept offs' objs live (4 * length (marked s))"
  using assms(2-)
proof (induction ms arbitrary: index offs)
  case Nil
  then show ?case by (intro exI [of _ offs]) (simp add: mult.commute)
next
  case (Cons w ms)
  note d = drop_Cons_nth [OF Cons.prems(1)]
  have q0: "\<And>r. bit (ucast (w AND 0xffff) :: 16 word) r \<longleftrightarrow> r < 16 \<and> line_marked s (16 * (index * 4) + r)"
    and q1: "\<And>r. bit (ucast (drop_bit 16 w AND 0xffff) :: 16 word) r \<longleftrightarrow> r < 16 \<and> line_marked s (16 * (index * 4 + 1) + r)"
    and q2: "\<And>r. bit (ucast (drop_bit 32 w AND 0xffff) :: 16 word) r \<longleftrightarrow> r < 16 \<and> line_marked s (16 * (index * 4 + 2) + r)"
    and q3: "\<And>r. bit (ucast (drop_bit 48 w AND 0xffff) :: 16 word) r \<longleftrightarrow> r < 16 \<and> line_marked s (16 * (index * 4 + 3) + r)"
    using mark_quarter [OF d(1) _ d(2), of 0] mark_quarter [OF d(1) _ d(2), of 1]
      mark_quarter [OF d(1) _ d(2), of 2] mark_quarter [OF d(1) _ d(2), of 3] by simp_all
  have l: "index * 4 + i < length offs" if "i < 4" for i using d(1) Cons.prems(3) that by simp
  obtain o1 where o1: "update_card_for_sweep (m\<lparr>object_start_offsets := offs\<rparr>) (index * 4) (ucast (w AND 0xffff)) =
      Some (m\<lparr>object_start_offsets := o1\<rparr>)" "length o1 = length offs" "cards_swept o1 objs live (index * 4 + 1)"
    using update_card_list_ok [OF om _ Cons.prems(4) q0, of m] l [of 0] by auto
  obtain o2 where o2: "update_card_for_sweep (m\<lparr>object_start_offsets := o1\<rparr>) (index * 4 + 1) (ucast (drop_bit 16 w AND 0xffff)) =
      Some (m\<lparr>object_start_offsets := o2\<rparr>)" "length o2 = length offs" "cards_swept o2 objs live (index * 4 + 2)"
    using update_card_list_ok [OF om _ o1(3) q1, of m] o1(2) l [of 1] by (auto simp: numeral_3_eq_3 numeral_2_eq_2 eval_nat_numeral)
  obtain o3 where o3: "update_card_for_sweep (m\<lparr>object_start_offsets := o2\<rparr>) (index * 4 + 2) (ucast (drop_bit 32 w AND 0xffff)) =
      Some (m\<lparr>object_start_offsets := o3\<rparr>)" "length o3 = length offs" "cards_swept o3 objs live (index * 4 + 3)"
    using update_card_list_ok [OF om _ o2(3) q2, of m] o2(2) l [of 2] by (auto simp: numeral_3_eq_3 numeral_2_eq_2 eval_nat_numeral)
  obtain o4 where o4: "update_card_for_sweep (m\<lparr>object_start_offsets := o3\<rparr>) (index * 4 + 3) (ucast (drop_bit 48 w AND 0xffff)) =
      Some (m\<lparr>object_start_offsets := o4\<rparr>)" "length o4 = length offs" "cards_swept o4 objs live (index * 4 + 4)"
    using update_card_list_ok [OF om _ o3(3) q3, of m] o3(2) l [of 3] by (auto simp: numeral_3_eq_3 numeral_2_eq_2 eval_nat_numeral)
  have "\<exists>offs'. update_for_sweep_scan (m\<lparr>object_start_offsets := o4\<rparr>) (Suc index) ms = Some (m\<lparr>object_start_offsets := offs'\<rparr>) \<and>
      length offs' = length o4 \<and> cards_swept offs' objs live (4 * length (marked s))"
    using d o4(2,3) Cons.prems(3) by (intro Cons.IH) (simp_all add: add.commute)
  then show ?case using o1(1) o2(1) o3(1) o4(1,2) by simp
qed

lemma update_for_sweep_ok:
  assumes "osm_ok m objs" "objects_marked (line_marked s) objs live extent"
    "length (object_start_offsets m) = 4 * length (marked s)"
  shows "\<exists>m'. update_for_sweep m s = Some m' \<and> osm_ok m' live"
proof -
  have "cards_swept (object_start_offsets m) objs live (0 * 4)" using assms(1) by (simp add: osm_ok_def cards_swept_def)
  from update_for_sweep_scan_ok [OF assms(2) _ _ assms(3) this, of "marked s" m]
  obtain offs where "update_for_sweep_scan m 0 (marked s) = Some (m\<lparr>object_start_offsets := offs\<rparr>)"
    "length offs = length (object_start_offsets m)" "cards_swept offs objs live (4 * length (marked s))" by auto
  then show ?thesis using assms(1,3) by (simp add: update_for_sweep_def osm_ok_def cards_swept_def)
qed

end
