(* ===== verification/Free_List.thy ===== *)
theory Free_List
  imports Mark_Bits "HOL-Library.Multiset"
begin

text \<open>
  The segregated free list allocator (\<open>vm/free_list.hpp\<close>), used for tenured space, the
  code heap and the callback heap. Free blocks of fewer than 32 lines are in 32 stacks by
  size, larger ones in a multiset ordered by size: here a list sorted by the size in the
  header, where an insertion goes behind the elements of equal size.

  The state of an operation is the memory, which holds the block headers, and the record
  of the allocator. The outer \<open>None\<close> is an abort (a failed assertion, a division by zero, an
  empty vector's \<open>back\<close>); the null pointer is an inner \<open>None\<close>. The comparator of the
  multiset reads sizes unchecked: every block in it passed the check when it was inserted.
\<close>

unbundle bit_operations_syntax

definition free_list_count :: cell where
  "free_list_count = 32"

definition allocation_page_size :: cell where
  "allocation_page_size = 1024"

subsection \<open>Free heap blocks\<close>

definition free_block_p :: "memory \<Rightarrow> cell \<Rightarrow> bool" where
  "free_block_p mem b \<longleftrightarrow> mem b AND 1 = 1"

definition header_size :: "memory \<Rightarrow> cell \<Rightarrow> cell" where
  "header_size mem b = mem b AND NOT 7"

definition free_block_size :: "memory \<Rightarrow> cell \<Rightarrow> cell option" where
  "free_block_size mem b = (let sz = header_size mem b in if sz > 0 then Some sz else None)"

definition make_free :: "memory \<Rightarrow> cell \<Rightarrow> cell \<Rightarrow> memory option" where
  "make_free mem b sz = (if sz > 0 then Some (mem(b := sz OR 1)) else None)"

subsection \<open>The allocator\<close>

record free_list =
  fl_start :: cell
  fl_end :: cell
  fl_size :: cell
  small_blocks :: "cell list list"
  large_blocks :: "cell list"
  free_block_count :: cell
  free_space :: cell
  fl_state :: mark_bits

type_synonym fl_heap = "memory \<times> free_list"

definition clear_free_list :: "free_list \<Rightarrow> free_list" where
  "clear_free_list fl =
     fl\<lparr>small_blocks := replicate (unat free_list_count) [], large_blocks := [], free_block_count := 0, free_space := 0\<rparr>"

definition large_insert :: "memory \<Rightarrow> cell \<Rightarrow> cell list \<Rightarrow> cell list" where
  "large_insert mem b bs =
     takeWhile (\<lambda>x. \<not> header_size mem b < header_size mem x) bs @ b #
     dropWhile (\<lambda>x. \<not> header_size mem b < header_size mem x) bs"

definition add_to_free_list :: "memory \<Rightarrow> free_list \<Rightarrow> cell \<Rightarrow> free_list option" where
  "add_to_free_list mem fl block = do {
     sz \<leftarrow> free_block_size mem block;
     let fl' = fl\<lparr>free_block_count := free_block_count fl + 1, free_space := free_space fl + sz\<rparr>;
         i = unat (sz div data_alignment)
     in if sz < free_list_count * data_alignment
        then Some (fl'\<lparr>small_blocks := (small_blocks fl)[i := small_blocks fl ! i @ [block]]\<rparr>)
        else Some (fl'\<lparr>large_blocks := large_insert mem block (large_blocks fl)\<rparr>) }"

definition initial_free_list :: "fl_heap \<Rightarrow> cell \<Rightarrow> fl_heap option" where
  "initial_free_list h occupied =
     (let (mem, fl0) = h; fl = clear_free_list fl0 in
      if occupied \<noteq> fl_end fl - fl_start fl then
        (let last_block = fl_start fl + occupied in do {
           mem' \<leftarrow> make_free mem last_block (fl_end fl - last_block);
           fl' \<leftarrow> add_to_free_list mem' fl last_block;
           Some (mem', fl') })
      else Some (mem, fl))"

definition new_free_list_allocator :: "memory \<Rightarrow> cell \<Rightarrow> cell \<Rightarrow> fl_heap option" where
  "new_free_list_allocator mem sz start =
     initial_free_list
       (mem, \<lparr>fl_start = start, fl_end = start + sz, fl_size = sz, small_blocks = [], large_blocks = [],
              free_block_count = 0, free_space = 0, fl_state = new_mark_bits sz start\<rparr>) 0"

definition fl_contains_p :: "free_list \<Rightarrow> cell \<Rightarrow> bool" where
  "fl_contains_p fl block \<longleftrightarrow> block - fl_start fl < fl_size fl"

definition split_free_block :: "fl_heap \<Rightarrow> cell \<Rightarrow> cell \<Rightarrow> fl_heap option" where
  "split_free_block h block sz =
     (let (mem, fl) = h in do {
        bsz \<leftarrow> free_block_size mem block;
        if bsz \<noteq> sz then
          (let split = block + sz in do {
             mem1 \<leftarrow> make_free mem split (bsz - sz);
             mem2 \<leftarrow> make_free mem1 block sz;
             fl' \<leftarrow> add_to_free_list mem2 fl split;
             Some (mem2, fl') })
        else Some (mem, fl) })"

text \<open>The loop that cuts a block of \<open>large_block_size\<close> bytes into pieces of \<open>sz\<close> bytes.\<close>

partial_function (option) carve :: "cell \<Rightarrow> cell \<Rightarrow> cell \<Rightarrow> cell \<Rightarrow> fl_heap \<Rightarrow> fl_heap option" where
  "carve sz large_block_size offset large_block h =
     (if offset < large_block_size then do {
        mem' \<leftarrow> make_free (fst h) large_block sz;
        fl' \<leftarrow> add_to_free_list mem' (snd h) large_block;
        carve sz large_block_size (offset + sz) (large_block + sz) (mem', fl') }
      else Some h)"

definition find_large_block :: "fl_heap \<Rightarrow> cell \<Rightarrow> (fl_heap \<times> cell option) option" where
  "find_large_block h sz =
     (let (mem, fl) = h;
          before = takeWhile (\<lambda>x. header_size mem x < sz) (large_blocks fl)
      in case drop (length before) (large_blocks fl) of
           block # after \<Rightarrow> do {
             bsz \<leftarrow> free_block_size mem block;
             Some ((mem, fl\<lparr>large_blocks := before @ after, free_block_count := free_block_count fl - 1,
                            free_space := free_space fl - bsz\<rparr>), Some block) }
         | [] \<Rightarrow> Some (h, None))"

definition pop_small_block :: "fl_heap \<Rightarrow> nat \<Rightarrow> (fl_heap \<times> cell option) option" where
  "pop_small_block h bucket =
     (let (mem, fl) = h; blocks = small_blocks fl ! bucket in
      if blocks = [] then None
      else
        (let block = last blocks in do {
           bsz \<leftarrow> free_block_size mem block;
           Some ((mem, fl\<lparr>small_blocks := (small_blocks fl)[bucket := butlast blocks],
                          free_block_count := free_block_count fl - 1,
                          free_space := free_space fl - bsz\<rparr>), Some block) }))"

definition large_block_size_for :: "cell \<Rightarrow> cell" where
  "large_block_size_for sz = ((allocation_page_size + sz - 1) div sz) * sz"

lemma large_block_size_unat:
  assumes "0 < sz" "unat sz < 512"
  shows "unat (large_block_size_for sz) = (1023 + unat sz) div unat sz * unat sz"
    "1024 \<le> unat (large_block_size_for sz)" "unat (large_block_size_for sz) \<le> 1023 + unat sz"
proof -
  have s: "0 < unat sz" using assms(1) by (simp add: unat_gt_0)
  have "unat (1023 + sz) = 1023 + unat sz" using assms(2) by (subst unat_add_exact) simp_all
  then have "unat (allocation_page_size + sz - 1) = 1023 + unat sz" by (simp add: allocation_page_size_def)
  then have d: "unat ((allocation_page_size + sz - 1) div sz) = (1023 + unat sz) div unat sz" by (simp add: unat_div)
  have b: "(1023 + unat sz) div unat sz * unat sz \<le> 1023 + unat sz" by (rule div_times_less_eq_dividend)
  have u: "unat (large_block_size_for sz) = (1023 + unat sz) div unat sz * unat sz"
  proof -
    have "unat ((allocation_page_size + sz - 1) div sz) * unat sz < 2 ^ 64"
      unfolding d by (rule le_less_trans [OF b]) (use assms(2) in simp)
    then show ?thesis unfolding large_block_size_for_def by (simp only: unat_mult_exact d)
  qed
  have "1023 + unat sz < (1023 + unat sz) div unat sz * unat sz + unat sz"
    using s dividend_less_div_times [of "unat sz" "1023 + unat sz"] by simp
  then show "unat (large_block_size_for sz) = (1023 + unat sz) div unat sz * unat sz"
    "1024 \<le> unat (large_block_size_for sz)" "unat (large_block_size_for sz) \<le> 1023 + unat sz"
    using u b by simp_all
qed

lemma small_bucket: "sz div data_alignment < free_list_count \<longleftrightarrow> unat sz < 512"
proof -
  have "sz div data_alignment < free_list_count \<longleftrightarrow> unat sz div 16 < 32"
    by (simp add: word_less_nat_alt unat_div mark_consts free_list_count_def)
  then show ?thesis by auto
qed

lemma large_block_size_large:
  "sz \<noteq> 0 \<Longrightarrow> unat sz < 512 \<Longrightarrow> \<not> unat (large_block_size_for sz) < 512"
  using large_block_size_unat(2) [of sz] by (auto simp: word_gt_0)

text \<open>
  The search calls itself for a larger block when a stack is empty; the larger size is
  never a small one, so one level of recursion is enough.
\<close>

function find_free_block :: "fl_heap \<Rightarrow> cell \<Rightarrow> (fl_heap \<times> cell option) option" where
  "find_free_block h sz =
     (let bucket = sz div data_alignment in
      if bucket < free_list_count then
        (if small_blocks (snd h) ! unat bucket = [] then
           (if sz = 0 then None
            else do {
              (h1, r) \<leftarrow> find_free_block h (large_block_size_for sz);
              case r of
                None \<Rightarrow> Some (h1, None)
              | Some large_block \<Rightarrow> do {
                  h2 \<leftarrow> split_free_block h1 large_block (large_block_size_for sz);
                  h3 \<leftarrow> carve sz (large_block_size_for sz) 0 large_block h2;
                  pop_small_block h3 (unat bucket) } })
         else pop_small_block h (unat bucket))
      else if sz = 0 then None
      else find_large_block h sz)"
  by pat_completeness auto

termination
  by (relation "measure (\<lambda>(h, sz). if unat sz < 512 then 1 else 0)")
    (auto simp: small_bucket dest: large_block_size_large)

declare find_free_block.simps [simp del]

definition allot :: "fl_heap \<Rightarrow> cell \<Rightarrow> (fl_heap \<times> cell option) option" where
  "allot h size0 =
     (let sz = align size0 data_alignment in do {
        (h1, r) \<leftarrow> find_free_block h sz;
        case r of
          Some block \<Rightarrow> do { h2 \<leftarrow> split_free_block h1 block sz; Some (h2, Some block) }
        | None \<Rightarrow> Some (h1, None) })"

text \<open>\<open>block_size\<close> is the \<open>size\<close> method of the block type of the heap.\<close>

definition free_block :: "(memory \<Rightarrow> cell \<Rightarrow> cell) \<Rightarrow> fl_heap \<Rightarrow> cell \<Rightarrow> fl_heap option" where
  "free_block block_size h block =
     (let (mem, fl) = h in do {
        mem' \<leftarrow> make_free mem block (block_size mem block);
        fl' \<leftarrow> add_to_free_list mem' fl block;
        Some (mem', fl') })"

definition fl_occupied_space :: "free_list \<Rightarrow> cell" where
  "fl_occupied_space fl = fl_size fl - free_space fl"

fun largest_small :: "memory \<Rightarrow> cell list list \<Rightarrow> nat \<Rightarrow> cell option" where
  "largest_small mem small 0 = Some 0"
| "largest_small mem small (Suc i) =
     (if small ! i \<noteq> [] then free_block_size mem (last (small ! i)) else largest_small mem small i)"

definition largest_free_block :: "fl_heap \<Rightarrow> cell option" where
  "largest_free_block h =
     (let (mem, fl) = h in
      if large_blocks fl \<noteq> [] then free_block_size mem (last (large_blocks fl))
      else largest_small mem (small_blocks fl) (unat free_list_count))"

definition can_allot_p :: "fl_heap \<Rightarrow> cell \<Rightarrow> bool option" where
  "can_allot_p h sz = do { n \<leftarrow> largest_free_block h; Some (n \<ge> max sz allocation_page_size) }"

record allocator_room =
  room_size :: cell
  room_occupied_space :: cell
  room_total_free :: cell
  room_contiguous_free :: cell
  room_free_block_count :: cell

definition as_allocator_room :: "fl_heap \<Rightarrow> allocator_room option" where
  "as_allocator_room h = do {
     contiguous \<leftarrow> largest_free_block h;
     Some \<lparr>room_size = fl_size (snd h), room_occupied_space = fl_occupied_space (snd h),
           room_total_free = free_space (snd h), room_contiguous_free = contiguous,
           room_free_block_count = free_block_count (snd h)\<rparr> }"

subsection \<open>Sweeping\<close>

text \<open>
  \<open>iter\<close> is the callback, on a state of the caller's own; \<open>sweep\<close> without a callback passes one
  that does nothing.
\<close>

partial_function (option) sweep_loop ::
  "(cell \<Rightarrow> cell \<Rightarrow> 's \<Rightarrow> 's) \<Rightarrow> cell \<Rightarrow> cell \<Rightarrow> fl_heap \<times> 's \<Rightarrow> (fl_heap \<times> 's) option" where
  "sweep_loop iter until start hs =
     (if start \<noteq> until then do {
        start1 \<leftarrow> next_unmarked_block_after (fl_state (snd (fst hs))) start;
        if start1 \<noteq> until then do {
          sz \<leftarrow> unmarked_block_size (fl_state (snd (fst hs))) start1;
          mem' \<leftarrow> make_free (fst (fst hs)) start1 sz;
          fl' \<leftarrow> add_to_free_list mem' (snd (fst hs)) start1;
          sweep_loop iter until (start1 + sz) ((mem', fl'), iter start1 sz (snd hs)) }
        else sweep_loop iter until start1 hs }
      else Some hs)"

definition sweep_iter :: "(cell \<Rightarrow> cell \<Rightarrow> 's \<Rightarrow> 's) \<Rightarrow> fl_heap \<Rightarrow> 's \<Rightarrow> (fl_heap \<times> 's) option" where
  "sweep_iter iter h s =
     (let (mem, fl) = h
      in sweep_loop iter (fl_end fl) (fl_start fl) ((mem, clear_free_list fl), s))"

definition sweep :: "fl_heap \<Rightarrow> fl_heap option" where
  "sweep h = map_option fst (sweep_iter (\<lambda>free_block size s. s) h ())"

subsection \<open>Iteration and compaction\<close>

text \<open>
  \<open>size_of\<close> is \<open>fixup.size\<close>, which measures a block; during a compaction it depends on the
  progress made so far, so it reads the whole state.
\<close>

partial_function (option) iterate_loop ::
  "(memory \<times> 's \<Rightarrow> cell \<Rightarrow> cell option) \<Rightarrow> (cell \<Rightarrow> cell \<Rightarrow> memory \<times> 's \<Rightarrow> (memory \<times> 's) option) \<Rightarrow> cell \<Rightarrow> cell \<Rightarrow>
   memory \<times> 's \<Rightarrow> (memory \<times> 's) option" where
  "iterate_loop size_of iter until scan ms =
     (if scan \<noteq> until then do {
        sz \<leftarrow> size_of ms scan;
        ms' \<leftarrow> (if \<not> free_block_p (fst ms) scan then iter scan sz ms else Some ms);
        iterate_loop size_of iter until (scan + sz) ms' }
      else Some ms)"

definition iterate :: "(memory \<times> 's \<Rightarrow> cell \<Rightarrow> cell option) \<Rightarrow>
    (cell \<Rightarrow> cell \<Rightarrow> memory \<times> 's \<Rightarrow> (memory \<times> 's) option) \<Rightarrow> free_list \<Rightarrow> memory \<times> 's \<Rightarrow> (memory \<times> 's) option" where
  "iterate size_of iter fl ms = iterate_loop size_of iter (fl_end fl) (fl_start fl) ms"

definition memmove :: "cell \<Rightarrow> cell \<Rightarrow> cell \<Rightarrow> memory \<Rightarrow> memory" where
  "memmove dest src sz mem =
     (\<lambda>a. if unat dest \<le> unat a \<and> unat a < unat dest + unat sz then mem (src + (a - dest)) else mem a)"

text \<open>The state of a compaction: where the next block goes, the finger, and the caller's own state.\<close>

record 'x compact_state =
  dest_addr :: cell
  finger :: cell
  caller :: 'x

definition compact_block_func ::
  "mark_bits \<Rightarrow> (cell \<Rightarrow> cell \<Rightarrow> cell \<Rightarrow> memory \<times> 'x compact_state \<Rightarrow> (memory \<times> 'x compact_state) option) \<Rightarrow>
   cell \<Rightarrow> cell \<Rightarrow> memory \<times> 'x compact_state \<Rightarrow> (memory \<times> 'x compact_state) option" where
  "compact_block_func state iter block sz ms = do {
     m \<leftarrow> marked_p state block;
     if \<not> m then Some ms
     else
       (let (mem, cs) = ms;
            cs1 = cs\<lparr>finger := block + sz\<rparr>;
            dest = dest_addr cs;
            mem1 = (if dest \<noteq> block then memmove dest block sz mem else mem)
        in do {
          (mem2, cs2) \<leftarrow> iter block dest sz (mem1, cs1);
          Some (mem2, cs2\<lparr>dest_addr := dest_addr cs2 + sz\<rparr>) }) }"

definition compact ::
  "(memory \<times> 'x compact_state \<Rightarrow> cell \<Rightarrow> cell option) \<Rightarrow>
   (cell \<Rightarrow> cell \<Rightarrow> cell \<Rightarrow> memory \<times> 'x compact_state \<Rightarrow> (memory \<times> 'x compact_state) option) \<Rightarrow>
   cell \<Rightarrow> fl_heap \<Rightarrow> 'x \<Rightarrow> (fl_heap \<times> cell \<times> 'x) option" where
  "compact size_of iter finger0 h x =
     (let (mem, fl) = h in do {
        (mem', cs) \<leftarrow> iterate size_of (compact_block_func (fl_state fl) iter) fl
                       (mem, \<lparr>dest_addr = fl_start fl, finger = finger0, caller = x\<rparr>);
        h' \<leftarrow> initial_free_list (mem', fl) (dest_addr cs - fl_start fl);
        Some (h', finger cs, caller cs) })"

end
