(* ===== verification/Allocator.thy ===== *)
theory Allocator
  imports Layouts
begin

text \<open>
  The contract that the three allocators of the data heap share, and what a client may rely
  on: the free list, aging space and tenured space hand out aligned blocks of memory that
  was free, and leave everything else alone.

  A state has an invariant, a set of free bytes and the contents of memory. An allocation
  returns the new state and a block, or no block.
\<close>

definition block_bytes :: "cell \<Rightarrow> cell \<Rightarrow> nat set" where
  "block_bytes b sz = {unat b ..< unat b + unat sz}"

definition request_ok :: "cell \<Rightarrow> bool" where
  "request_ok sz \<longleftrightarrow> 0 < unat sz \<and> unat sz \<le> 2 ^ 62"

text \<open>A sequence of requests, with the blocks that were granted.\<close>

fun allot_all :: "('s \<Rightarrow> cell \<Rightarrow> ('s \<times> cell option) option) \<Rightarrow> 's \<Rightarrow> cell list \<Rightarrow> ('s \<times> (cell \<times> cell) list) option" where
  "allot_all allot_op s [] = Some (s, [])"
| "allot_all allot_op s (sz # szs) =
     (case allot_op s sz of
        None \<Rightarrow> None
      | Some (s', r) \<Rightarrow>
          (case allot_all allot_op s' szs of
             None \<Rightarrow> None
           | Some (s'', bs) \<Rightarrow> Some (s'', (case r of None \<Rightarrow> bs | Some b \<Rightarrow> (b, sz) # bs))))"

definition disjoint_blocks :: "(cell \<times> cell) list \<Rightarrow> bool" where
  "disjoint_blocks = sorted_wrt (\<lambda>(b, n) (c, m). block_bytes b n \<inter> block_bytes c m = {})"

locale block_allocator =
  fixes invar :: "'s \<Rightarrow> bool"
    and free_region :: "'s \<Rightarrow> nat set"
    and contents :: "'s \<Rightarrow> memory"
    and allot_op :: "'s \<Rightarrow> cell \<Rightarrow> ('s \<times> cell option) option"
  assumes allot_returns: "invar s \<Longrightarrow> request_ok sz \<Longrightarrow> \<exists>s' r. allot_op s sz = Some (s', r)"
    and allot_null: "invar s \<Longrightarrow> request_ok sz \<Longrightarrow> allot_op s sz = Some (s', None) \<Longrightarrow> s' = s"
    and allot_block: "invar s \<Longrightarrow> request_ok sz \<Longrightarrow> allot_op s sz = Some (s', Some b) \<Longrightarrow>
      invar s' \<and> unat b mod 16 = 0 \<and> block_bytes b sz \<subseteq> free_region s \<and> free_region s' \<subseteq> free_region s - block_bytes b sz"
    and allot_frame: "invar s \<Longrightarrow> request_ok sz \<Longrightarrow> allot_op s sz = Some (s', r) \<Longrightarrow> unat a \<notin> free_region s \<Longrightarrow>
      contents s' a = contents s a"
begin

lemma allot_step:
  assumes "invar s" "request_ok sz"
  obtains s' r where "allot_op s sz = Some (s', r)" "invar s'" "free_region s' \<subseteq> free_region s"
    "\<And>b. r = Some b \<Longrightarrow> block_bytes b sz \<subseteq> free_region s - free_region s'"
    "\<And>a. unat a \<notin> free_region s \<Longrightarrow> contents s' a = contents s a"
proof -
  obtain s' r where a: "allot_op s sz = Some (s', r)" using allot_returns [OF assms] by blast
  show ?thesis
  proof (cases r)
    case None
    then show ?thesis using that [of s' r] a allot_null [OF assms, of s'] allot_frame [OF assms a] assms(1) by auto
  next
    case (Some b)
    then show ?thesis
      using that [of s' r] a allot_block [OF assms, of s' b] allot_frame [OF assms a] by fastforce
  qed
qed

lemma allot_all_safe:
  assumes "invar s" "\<forall>sz\<in>set szs. request_ok sz"
  shows "\<exists>s' bs. allot_all allot_op s szs = Some (s', bs) \<and> invar s' \<and> free_region s' \<subseteq> free_region s \<and>
    (\<forall>(b, n)\<in>set bs. block_bytes b n \<subseteq> free_region s - free_region s') \<and> disjoint_blocks bs \<and>
    (\<forall>a. unat a \<notin> free_region s \<longrightarrow> contents s' a = contents s a)"
  using assms
proof (induction szs arbitrary: s)
  case Nil
  then show ?case by (simp add: disjoint_blocks_def)
next
  case (Cons sz szs)
  then have rq: "request_ok sz" by simp
  obtain s1 r where s1: "allot_op s sz = Some (s1, r)" "invar s1" "free_region s1 \<subseteq> free_region s"
    "\<And>b. r = Some b \<Longrightarrow> block_bytes b sz \<subseteq> free_region s - free_region s1"
    "\<And>a. unat a \<notin> free_region s \<Longrightarrow> contents s1 a = contents s a"
    using allot_step [OF Cons.prems(1) rq] by blast
  obtain s2 bs where s2: "allot_all allot_op s1 szs = Some (s2, bs)" "invar s2" "free_region s2 \<subseteq> free_region s1"
    "\<forall>(b, n)\<in>set bs. block_bytes b n \<subseteq> free_region s1 - free_region s2" "disjoint_blocks bs"
    "\<forall>a. unat a \<notin> free_region s1 \<longrightarrow> contents s2 a = contents s1 a"
    using Cons.IH [OF s1(2)] Cons.prems(2) by auto
  have rest: "\<forall>(b, n)\<in>set bs. block_bytes b n \<subseteq> free_region s - free_region s2" using s2(4) s1(3) by blast
  have fr: "contents s2 a = contents s a" if "unat a \<notin> free_region s" for a
    using s2(6) s1(3,5) that by (metis subsetD)
  show ?case
  proof (cases r)
    case None
    then show ?thesis using s1(1,3) s2(1-3,5) rest fr by auto
  next
    case (Some b)
    have d: "block_bytes b sz \<inter> block_bytes c m = {}" if "(c, m) \<in> set bs" for c m
      using s1(4) [OF Some] s2(4) that by blast
    have "disjoint_blocks ((b, sz) # bs)" using s2(5) d by (auto simp: disjoint_blocks_def)
    moreover have "block_bytes b sz \<subseteq> free_region s - free_region s2" using s1(4) [OF Some] s2(3) by blast
    ultimately show ?thesis using s1(1,3) s2(1-3) rest fr Some by auto
  qed
qed

end

end
