(* ===== verification/Free_List_Inv.thy ===== *)
theory Free_List_Inv
  imports Free_List Allocator
begin

text \<open>
  The invariant of the free list allocator and what its operations do to it. The blocks on
  the lists are disjoint, aligned and inside the heap, every block is on the list for its
  size, and the two counters agree with the lists. The abstraction \<open>free_bytes\<close> is the set
  of bytes that are free; allocation takes a block out of it and freeing puts one back.
\<close>

unbundle bit_operations_syntax

subsection \<open>Invariant\<close>

definition heap_bounds :: "free_list \<Rightarrow> bool" where
  "heap_bounds fl \<longleftrightarrow> fl_end fl = fl_start fl + fl_size fl \<and> unat (fl_start fl) + unat (fl_size fl) < 2 ^ 64 \<and>
     unat (fl_start fl) mod 16 = 0 \<and> unat (fl_size fl) mod 16 = 0"

text \<open>The bytes of a block, and the bytes of a list of blocks.\<close>

definition span :: "memory \<Rightarrow> cell \<Rightarrow> nat set" where
  "span mem b = {unat b ..< unat b + unat (header_size mem b)}"

definition free_set :: "memory \<Rightarrow> cell list \<Rightarrow> nat set" where
  "free_set mem bs = (\<Union>b\<in>set bs. span mem b)"

definition block_ok :: "memory \<Rightarrow> free_list \<Rightarrow> cell \<Rightarrow> bool" where
  "block_ok mem fl b \<longleftrightarrow> unat (fl_start fl) \<le> unat b \<and> unat b + unat (header_size mem b) \<le> unat (fl_end fl) \<and>
     unat b mod 16 = 0 \<and> unat (header_size mem b) mod 16 = 0 \<and> 0 < unat (header_size mem b) \<and> free_block_p mem b"

definition spans_ok :: "memory \<Rightarrow> free_list \<Rightarrow> cell list \<Rightarrow> bool" where
  "spans_ok mem fl bs \<longleftrightarrow> distinct bs \<and> (\<forall>b\<in>set bs. block_ok mem fl b) \<and>
     (\<forall>b\<in>set bs. \<forall>c\<in>set bs. b \<noteq> c \<longrightarrow> span mem b \<inter> span mem c = {})"

definition blocks :: "free_list \<Rightarrow> cell list" where
  "blocks fl = concat (small_blocks fl) @ large_blocks fl"

definition buckets_ok :: "memory \<Rightarrow> free_list \<Rightarrow> bool" where
  "buckets_ok mem fl \<longleftrightarrow> length (small_blocks fl) = 32 \<and>
     (\<forall>i<32. \<forall>b\<in>set (small_blocks fl ! i). unat (header_size mem b) = 16 * i) \<and>
     (\<forall>b\<in>set (large_blocks fl). 512 \<le> unat (header_size mem b)) \<and> sorted (map (header_size mem) (large_blocks fl))"

definition counters_ok :: "memory \<Rightarrow> free_list \<Rightarrow> bool" where
  "counters_ok mem fl \<longleftrightarrow> free_block_count fl = of_nat (length (blocks fl)) \<and>
     free_space fl = sum_list (map (header_size mem) (blocks fl))"

definition free_wf :: "fl_heap \<Rightarrow> bool" where
  "free_wf h \<longleftrightarrow> heap_bounds (snd h) \<and> spans_ok (fst h) (snd h) (blocks (snd h)) \<and>
     buckets_ok (fst h) (snd h) \<and> counters_ok (fst h) (snd h)"

definition free_bytes :: "fl_heap \<Rightarrow> nat set" where
  "free_bytes h = free_set (fst h) (blocks (snd h))"

text \<open>Operations change the lists and counters of an allocator, never its region or bitmap.\<close>

definition same_region :: "free_list \<Rightarrow> free_list \<Rightarrow> bool" where
  "same_region fl fl' \<longleftrightarrow> fl_start fl' = fl_start fl \<and> fl_end fl' = fl_end fl \<and> fl_size fl' = fl_size fl \<and>
     fl_state fl' = fl_state fl"

lemma same_region_refl [simp]: "same_region fl fl"
  by (simp add: same_region_def)

lemma same_region_trans [trans]: "same_region a b \<Longrightarrow> same_region b c \<Longrightarrow> same_region a c"
  by (simp add: same_region_def)

lemma same_region_cong:
  assumes "same_region fl fl'"
  shows "heap_bounds fl' = heap_bounds fl" "block_ok mem fl' b = block_ok mem fl b" "spans_ok mem fl' bs = spans_ok mem fl bs"
  using assms by (simp_all add: same_region_def heap_bounds_def block_ok_def spans_ok_def)

subsection \<open>Headers\<close>

lemma header_size_simps:
  assumes "unat sz mod 16 = 0"
  shows "header_size (mem(b := sz OR 1)) b = sz" "free_block_p (mem(b := sz OR 1)) b"
proof -
  have "unat (sz AND mask 4) = 0" using unat_and_mask [of sz 4] assms by simp
  then have t: "take_bit 4 sz = 0" unfolding take_bit_eq_mask by (simp only: unat_eq_zero)
  have b: "\<not> bit sz n" if "n < 4" for n using arg_cong [OF t, of "\<lambda>x. bit x n"] that by (simp add: bit_simps)
  have m: "(7 :: cell) = mask 3" by (simp add: mask_eq_exp_minus_1)
  have "(sz OR 1) AND NOT 7 = sz" unfolding m
  proof (rule bit_word_eqI)
    fix n assume "n < LENGTH(64)"
    then show "bit ((sz OR 1) AND NOT (mask 3)) n = bit sz n" using b [of n] by (cases "n < 3") (auto simp: bit_simps)
  qed
  then show "header_size (mem(b := sz OR 1)) b = sz" by (simp add: header_size_def)
  have "(sz OR 1) AND 1 = (1 :: cell)" by (rule bit_word_eqI) (auto simp: bit_simps)
  then show "free_block_p (mem(b := sz OR 1)) b" by (simp add: free_block_p_def)
qed

lemma header_frame:
  assumes "mem' b = mem b"
  shows "header_size mem' b = header_size mem b" "span mem' b = span mem b" "block_ok mem' fl b = block_ok mem fl b"
  using assms by (simp_all add: header_size_def span_def block_ok_def free_block_p_def)

lemma blocks_frame:
  assumes "\<And>b. b \<in> set bs \<Longrightarrow> mem' b = mem b"
  shows "map (header_size mem') bs = map (header_size mem) bs" "free_set mem' bs = free_set mem bs"
    "spans_ok mem' fl bs = spans_ok mem fl bs"
  using assms header_frame [of mem' _ mem] by (auto simp: free_set_def spans_ok_def)

lemma free_wf_frame:
  assumes "\<And>b. b \<in> set (blocks fl) \<Longrightarrow> mem' b = mem b"
  shows "free_wf (mem', fl) = free_wf (mem, fl)" "free_bytes (mem', fl) = free_bytes (mem, fl)"
proof -
  have hs: "header_size mem' b = header_size mem b" if "b \<in> set (blocks fl)" for b
    using assms [OF that] by (rule header_frame(1))
  have sm: "header_size mem' b = header_size mem b" if "b \<in> set (small_blocks fl ! i)" "i < length (small_blocks fl)" for i b
    using that nth_mem [OF that(2)] by (intro hs) (auto simp: blocks_def)
  have lg: "header_size mem' b = header_size mem b" if "b \<in> set (large_blocks fl)" for b
    using that by (intro hs) (simp add: blocks_def)
  have bk: "buckets_ok mem' fl = buckets_ok mem fl"
  proof -
    have "map (header_size mem') (large_blocks fl) = map (header_size mem) (large_blocks fl)" using lg by simp
    then have "sorted (map (header_size mem') (large_blocks fl)) = sorted (map (header_size mem) (large_blocks fl))"
      by (rule arg_cong)
    then show ?thesis using sm lg by (auto simp: buckets_ok_def)
  qed
  note bf = blocks_frame [of "blocks fl" mem' mem, OF assms]
  show "free_wf (mem', fl) = free_wf (mem, fl)" "free_bytes (mem', fl) = free_bytes (mem, fl)"
    by (simp_all only: free_wf_def counters_ok_def free_bytes_def fst_conv snd_conv bf bk)
qed

lemma span_self: "0 < unat (header_size mem b) \<Longrightarrow> unat b \<in> span mem b"
  by (simp add: span_def)

lemma free_set_mset:
  "mset bs = mset cs \<Longrightarrow> free_set mem bs = free_set mem cs"
  by (metis free_set_def set_mset_mset)

subsection \<open>Adding and removing blocks\<close>

lemma mset_concat_update:
  assumes "i < length xss"
  shows "mset (concat (xss[i := ys])) + mset (xss ! i) = mset (concat xss) + mset ys"
proof -
  have "concat (xss[i := ys]) = concat (take i xss) @ ys @ concat (drop (Suc i) xss)"
    by (simp add: upd_conv_take_nth_drop [OF assms])
  moreover have "concat xss = concat (take i xss) @ xss ! i @ concat (drop (Suc i) xss)"
    by (subst id_take_nth_drop [OF assms]) simp
  ultimately show ?thesis by simp
qed

lemma set_blocks_mset: "mset (blocks fl') = add_mset b (mset (blocks fl)) \<Longrightarrow> set (blocks fl') = insert b (set (blocks fl))"
  by (metis set_mset_mset set_mset_add_mset_insert)

lemma sum_map_mset:
  fixes f :: "'a \<Rightarrow> 'b::comm_monoid_add"
  assumes "mset bs = add_mset b (mset cs)"
  shows "sum_list (map f bs) = f b + sum_list (map f cs)" "length bs = Suc (length cs)"
proof -
  have "sum_list (map f bs) = sum_mset (image_mset f (mset bs))" by (metis mset_map sum_mset_sum_list)
  also have "\<dots> = f b + sum_mset (image_mset f (mset cs))" unfolding assms by simp
  also have "sum_mset (image_mset f (mset cs)) = sum_list (map f cs)" by (metis mset_map sum_mset_sum_list)
  finally show "sum_list (map f bs) = f b + sum_list (map f cs)" .
  show "length bs = Suc (length cs)" using arg_cong [OF assms, of size] by simp
qed

lemma counters_add:
  assumes "mset (blocks fl') = add_mset b (mset (blocks fl))"
  shows "counters_ok mem fl' \<longleftrightarrow>
    (free_block_count fl' = of_nat (length (blocks fl)) + 1 \<and>
     free_space fl' = header_size mem b + sum_list (map (header_size mem) (blocks fl)))"
  using sum_map_mset(1) [OF assms, of "header_size mem"] sum_map_mset(2) [OF assms]
  by (simp add: counters_ok_def add.commute)

lemma spans_add:
  assumes "mset (blocks fl') = add_mset b (mset (blocks fl))"
  shows "spans_ok mem fl' (blocks fl') \<longleftrightarrow>
    spans_ok mem fl' (blocks fl) \<and> block_ok mem fl' b \<and> span mem b \<inter> free_set mem (blocks fl) = {}"
proof -
  have d: "distinct (blocks fl') \<longleftrightarrow> b \<notin> set (blocks fl) \<and> distinct (blocks fl)"
    using assms mset_eq_imp_distinct_iff [of "blocks fl'" "b # blocks fl"] by auto
  have s: "set (blocks fl') = insert b (set (blocks fl))" using assms by (rule set_blocks_mset)
  have nb: "b \<notin> set (blocks fl)" if "block_ok mem fl' b" "span mem b \<inter> free_set mem (blocks fl) = {}"
    using that span_self [of mem b] by (auto simp: block_ok_def free_set_def)
  show ?thesis
  proof
    assume L: "spans_ok mem fl' (blocks fl')"
    then have "b \<notin> set (blocks fl)" using d by (simp add: spans_ok_def)
    then have "span mem b \<inter> span mem c = {}" if "c \<in> set (blocks fl)" for c
      using that L unfolding spans_ok_def s by (metis insertI1 insertI2)
    then show "spans_ok mem fl' (blocks fl) \<and> block_ok mem fl' b \<and> span mem b \<inter> free_set mem (blocks fl) = {}"
      using L d s by (auto simp: spans_ok_def free_set_def)
  next
    assume R: "spans_ok mem fl' (blocks fl) \<and> block_ok mem fl' b \<and> span mem b \<inter> free_set mem (blocks fl) = {}"
    then have c: "span mem b \<inter> span mem c = {}" if "c \<in> set (blocks fl)" for c
      using that by (auto simp: free_set_def)
    then have "span mem c \<inter> span mem b = {}" if "c \<in> set (blocks fl)" for c using that by blast
    then show "spans_ok mem fl' (blocks fl')" using R nb d c unfolding spans_ok_def s by simp
  qed
qed

lemma large_insert_props:
  "mset (large_insert mem b bs) = add_mset b (mset bs)"
  "sorted (map (header_size mem) bs) \<Longrightarrow> sorted (map (header_size mem) (large_insert mem b bs))"
proof -
  let ?P = "\<lambda>x. \<not> header_size mem b < header_size mem x"
  show "mset (large_insert mem b bs) = add_mset b (mset bs)"
    unfolding large_insert_def by (metis mset.simps(2) mset_append takeWhile_dropWhile_id union_mset_add_mset_right)
  assume s: "sorted (map (header_size mem) bs)"
  have e: "bs = takeWhile ?P bs @ dropWhile ?P bs" by simp
  have s': "sorted (map (header_size mem) (takeWhile ?P bs @ dropWhile ?P bs))" using s by simp
  have lo: "\<forall>x\<in>set (takeWhile ?P bs). header_size mem x \<le> header_size mem b" by (auto dest: set_takeWhileD)
  have hi: "\<forall>x\<in>set (dropWhile ?P bs). header_size mem b \<le> header_size mem x"
  proof (cases "dropWhile ?P bs")
    case (Cons y ys)
    then have "header_size mem b < header_size mem y" by (metis hd_dropWhile list.distinct(1) list.sel(1))
    then show ?thesis using s' Cons by (auto simp: sorted_append intro: order_trans)
  qed (simp only: list.set ball_simps)
  show "sorted (map (header_size mem) (large_insert mem b bs))"
    using s' [unfolded map_append sorted_append] lo hi
    unfolding large_insert_def map_append list.map sorted_append sorted_simps by auto
qed

text \<open>A block that is on no list, ready to be added to one.\<close>

definition detached :: "fl_heap \<Rightarrow> cell \<Rightarrow> bool" where
  "detached h b \<longleftrightarrow> block_ok (fst h) (snd h) b \<and> span (fst h) b \<inter> free_bytes h = {}"

text \<open>The result of a search: a block taken out of the free bytes.\<close>

definition taken :: "fl_heap \<Rightarrow> fl_heap \<Rightarrow> cell \<Rightarrow> bool" where
  "taken h h' b \<longleftrightarrow> free_wf h' \<and> same_region (snd h) (snd h') \<and> detached h' b \<and>
     free_bytes h = free_bytes h' \<union> span (fst h') b"

lemma block_size_known: "block_ok mem fl b \<Longrightarrow> free_block_size mem b = Some (header_size mem b)"
  by (simp add: free_block_size_def block_ok_def unat_gt_0 word_gt_0 Let_def)

lemma add_to_free_list_wf:
  assumes wf: "free_wf (mem, fl)" and b: "detached (mem, fl) b"
  shows "\<exists>fl'. add_to_free_list mem fl b = Some fl' \<and> free_wf (mem, fl') \<and> same_region fl fl' \<and>
    mset (blocks fl') = add_mset b (mset (blocks fl)) \<and> free_bytes (mem, fl') = free_bytes (mem, fl) \<union> span mem b"
proof -
  let ?s = "header_size mem b" and ?i = "unat (header_size mem b div data_alignment)"
  have bok: "block_ok mem fl b" and dis: "span mem b \<inter> free_set mem (blocks fl) = {}"
    using b by (simp_all add: detached_def free_bytes_def)
  have bk: "buckets_ok mem fl" and co: "counters_ok mem fl" using wf by (simp_all add: free_wf_def)
  have i: "?i = unat ?s div 16" by (simp add: unat_div mark_consts)
  have small: "?s < free_list_count * data_alignment \<longleftrightarrow> unat ?s < 512"
    by (simp add: word_less_nat_alt free_list_count_def data_alignment_def)
  define fl' where "fl' = (if unat ?s < 512
    then fl\<lparr>free_block_count := free_block_count fl + 1, free_space := free_space fl + ?s,
      small_blocks := (small_blocks fl)[?i := small_blocks fl ! ?i @ [b]]\<rparr>
    else fl\<lparr>free_block_count := free_block_count fl + 1, free_space := free_space fl + ?s,
      large_blocks := large_insert mem b (large_blocks fl)\<rparr>)"
  have add: "add_to_free_list mem fl b = Some fl'"
    by (simp add: add_to_free_list_def block_size_known [OF bok] small fl'_def Let_def)
  have sr: "same_region fl fl'" by (simp add: fl'_def same_region_def)
  have ms: "mset (blocks fl') = add_mset b (mset (blocks fl))"
  proof (cases "unat ?s < 512")
    case True
    then have "?i < length (small_blocks fl)" using bk i by (simp add: buckets_ok_def)
    from mset_concat_update [OF this, of "small_blocks fl ! ?i @ [b]"]
    show ?thesis using True by (simp add: fl'_def blocks_def)
  qed (simp add: fl'_def blocks_def large_insert_props)
  have "buckets_ok mem fl'"
  proof (cases "unat ?s < 512")
    case True
    then have "unat ?s = 16 * ?i" using bok i by (auto simp: block_ok_def)
    then show ?thesis using True bk by (auto simp: buckets_ok_def fl'_def nth_list_update)
  next
    case False
    then have "set (large_insert mem b (large_blocks fl)) = insert b (set (large_blocks fl))"
      by (metis large_insert_props(1) set_mset_add_mset_insert set_mset_mset)
    then show ?thesis using False bk large_insert_props(2) by (auto simp: buckets_ok_def fl'_def)
  qed
  moreover have "spans_ok mem fl' (blocks fl')"
    unfolding spans_add [OF ms] using wf bok dis by (simp add: free_wf_def same_region_cong [OF sr])
  moreover have "counters_ok mem fl'"
    unfolding counters_add [OF ms] using co by (simp add: counters_ok_def fl'_def add.commute)
  ultimately have "free_wf (mem, fl')" using wf by (simp add: free_wf_def same_region_cong [OF sr])
  then show ?thesis using add sr ms set_blocks_mset [OF ms] by (auto simp: free_bytes_def free_set_def)
qed

text \<open>Taking one block off the lists.\<close>

lemma removed_block:
  assumes "free_wf (mem, fl)" "mset (blocks fl) = add_mset b (mset (blocks fl'))" "same_region fl fl'"
    "buckets_ok mem fl'" "free_block_count fl' = free_block_count fl - 1" "free_space fl' = free_space fl - header_size mem b"
  shows "taken (mem, fl) (mem, fl') b"
proof -
  have s: "spans_ok mem fl (blocks fl')" "block_ok mem fl b" "span mem b \<inter> free_set mem (blocks fl') = {}"
    using assms(1) spans_add [OF assms(2), of mem] by (simp_all add: free_wf_def)
  have "counters_ok mem fl'"
    using assms(1,5,6) counters_add [OF assms(2), of mem] by (simp add: free_wf_def counters_ok_def)
  then have "free_wf (mem, fl')" "detached (mem, fl') b"
    using assms(1,4) s by (simp_all add: free_wf_def detached_def free_bytes_def same_region_cong [OF assms(3)])
  moreover have "free_bytes (mem, fl) = free_bytes (mem, fl') \<union> span mem b"
    using set_blocks_mset [OF assms(2)] by (auto simp: free_bytes_def free_set_def)
  ultimately show ?thesis using assms(3) by (simp add: taken_def)
qed

lemma find_large_block_wf:
  assumes wf: "free_wf (mem, fl)"
  shows "(\<exists>b fl'. find_large_block (mem, fl) sz = Some ((mem, fl'), Some b) \<and> taken (mem, fl) (mem, fl') b \<and>
      unat sz \<le> unat (header_size mem b)) \<or>
    find_large_block (mem, fl) sz = Some ((mem, fl), None) \<and> (\<forall>b\<in>set (large_blocks fl). header_size mem b < sz)"
proof -
  let ?P = "\<lambda>x. header_size mem x < sz"
  let ?pre = "takeWhile ?P (large_blocks fl)"
  have drop: "drop (length ?pre) (large_blocks fl) = dropWhile ?P (large_blocks fl)" by (rule dropWhile_eq_drop [symmetric])
  have split: "large_blocks fl = ?pre @ dropWhile ?P (large_blocks fl)" by simp
  show ?thesis
  proof (cases "dropWhile ?P (large_blocks fl)")
    case Nil
    then have "\<forall>b\<in>set (large_blocks fl). header_size mem b < sz" by (simp add: dropWhile_eq_Nil_conv)
    moreover have "find_large_block (mem, fl) sz = Some ((mem, fl), None)"
      unfolding find_large_block_def prod.case Let_def drop Nil by simp
    ultimately show ?thesis by blast
  next
    case (Cons b after)
    let ?fl = "fl\<lparr>large_blocks := ?pre @ after, free_block_count := free_block_count fl - 1,
      free_space := free_space fl - header_size mem b\<rparr>"
    have lb: "large_blocks fl = ?pre @ b # after" using split Cons by simp
    have "mset (large_blocks fl) = mset (?pre @ b # after)" using lb by (rule arg_cong)
    then have ms: "mset (blocks fl) = add_mset b (mset (blocks ?fl))" by (simp add: blocks_def)
    have set: "set (large_blocks fl) = insert b (set (?pre @ after))" by (subst lb) simp
    have "sorted (map (header_size mem) (large_blocks fl))" using wf by (simp add: free_wf_def buckets_ok_def)
    then have so: "sorted (map (header_size mem) (?pre @ after))"
      by (subst (asm) lb) (simp add: sorted_append)
    have bk: "buckets_ok mem ?fl" using wf set so by (auto simp: free_wf_def buckets_ok_def)
    have "b \<in> set (blocks fl)" unfolding set_blocks_mset [OF ms] by simp
    then have bok: "block_ok mem fl b" using wf by (simp add: free_wf_def spans_ok_def)
    have ge: "unat sz \<le> unat (header_size mem b)"
      using hd_dropWhile [of ?P "large_blocks fl"] Cons by (simp add: word_le_nat_alt not_less)
    have "find_large_block (mem, fl) sz = Some ((mem, ?fl), Some b)"
      using Cons drop by (simp add: find_large_block_def Let_def block_size_known [OF bok])
    moreover have sr: "same_region fl ?fl" by (simp add: same_region_def)
    moreover note removed_block [OF wf ms sr bk]
    ultimately show ?thesis using ge by auto
  qed
qed

lemma pop_small_block_wf:
  assumes wf: "free_wf (mem, fl)" and i: "i < 32" and ne: "small_blocks fl ! i \<noteq> []"
  shows "\<exists>b fl'. pop_small_block (mem, fl) i = Some ((mem, fl'), Some b) \<and> taken (mem, fl) (mem, fl') b \<and>
    unat (header_size mem b) = 16 * i"
proof -
  let ?bs = "small_blocks fl ! i" and ?b = "last (small_blocks fl ! i)"
  let ?fl = "fl\<lparr>small_blocks := (small_blocks fl)[i := butlast ?bs], free_block_count := free_block_count fl - 1,
    free_space := free_space fl - header_size mem ?b\<rparr>"
  have bk: "buckets_ok mem fl" using wf by (simp add: free_wf_def)
  then have len: "i < length (small_blocks fl)" using i by (simp add: buckets_ok_def)
  have e: "?bs = butlast ?bs @ [?b]" using ne by simp
  have "mset ?bs = add_mset ?b (mset (butlast ?bs))" by (subst e) simp
  then have ms: "mset (blocks fl) = add_mset ?b (mset (blocks ?fl))"
    using mset_concat_update [OF len, of "butlast ?bs"] by (simp add: blocks_def)
  have bk': "buckets_ok mem ?fl"
    using bk i by (auto simp: buckets_ok_def nth_list_update split: if_splits dest: in_set_butlastD)
  have "?b \<in> set (blocks fl)" unfolding set_blocks_mset [OF ms] by simp
  then have bok: "block_ok mem fl ?b" using wf by (simp add: free_wf_def spans_ok_def)
  have "pop_small_block (mem, fl) i = Some ((mem, ?fl), Some ?b)"
    using ne by (simp add: pop_small_block_def Let_def block_size_known [OF bok])
  moreover have sr: "same_region fl ?fl" by (simp add: same_region_def)
  moreover have "unat (header_size mem ?b) = 16 * i" using bk i ne by (simp add: buckets_ok_def)
  moreover note removed_block [OF wf ms sr bk']
  ultimately show ?thesis by auto
qed

subsection \<open>Turning bytes into free blocks\<close>

text \<open>A range of the heap that could become a block of size \<open>sz\<close>: aligned and not free already.\<close>

definition fresh_range :: "fl_heap \<Rightarrow> cell \<Rightarrow> cell \<Rightarrow> bool" where
  "fresh_range h x sz \<longleftrightarrow> unat (fl_start (snd h)) \<le> unat x \<and> unat x + unat sz \<le> unat (fl_end (snd h)) \<and>
     unat x mod 16 = 0 \<and> unat sz mod 16 = 0 \<and> 0 < unat sz \<and> {unat x ..< unat x + unat sz} \<inter> free_bytes h = {}"

lemma block_in_free_bytes: "free_wf (mem, fl) \<Longrightarrow> b \<in> set (blocks fl) \<Longrightarrow> unat b \<in> free_bytes (mem, fl)"
  using span_self [of mem b] by (auto simp: free_wf_def spans_ok_def block_ok_def free_bytes_def free_set_def)

lemma fresh_range_write:
  assumes wf: "free_wf (mem, fl)" and out: "unat x \<notin> free_bytes (mem, fl)"
  shows "free_wf (mem(x := v), fl)" "free_bytes (mem(x := v), fl) = free_bytes (mem, fl)"
proof -
  have "(mem(x := v)) b = mem b" if "b \<in> set (blocks fl)" for b
    using block_in_free_bytes [OF wf that] out by auto
  then show "free_wf (mem(x := v), fl)" "free_bytes (mem(x := v), fl) = free_bytes (mem, fl)"
    using free_wf_frame [of fl "mem(x := v)" mem] wf by simp_all
qed

lemma make_free_fresh:
  assumes wf: "free_wf (mem, fl)" and f: "fresh_range (mem, fl) x sz"
  shows "make_free mem x sz = Some (mem(x := sz OR 1))" "free_wf (mem(x := sz OR 1), fl)"
    "free_bytes (mem(x := sz OR 1), fl) = free_bytes (mem, fl)" "detached (mem(x := sz OR 1), fl) x"
    "header_size (mem(x := sz OR 1)) x = sz"
proof -
  have "unat x \<in> {unat x ..< unat x + unat sz}" using f by (simp add: fresh_range_def)
  then have out: "unat x \<notin> free_bytes (mem, fl)" using f unfolding fresh_range_def snd_conv by blast
  show "make_free mem x sz = Some (mem(x := sz OR 1))"
    using f by (simp add: make_free_def fresh_range_def unat_gt_0 word_gt_0)
  show wf': "free_wf (mem(x := sz OR 1), fl)" "free_bytes (mem(x := sz OR 1), fl) = free_bytes (mem, fl)"
    using fresh_range_write [OF wf out] by simp_all
  have m: "unat sz mod 16 = 0" using f by (simp add: fresh_range_def)
  show h: "header_size (mem(x := sz OR 1)) x = sz" by (rule header_size_simps [OF m])
  show "detached (mem(x := sz OR 1), fl) x"
    using f header_size_simps(2) [OF m] h wf'(2) by (simp add: detached_def block_ok_def fresh_range_def span_def)
qed

lemma add_fresh_block:
  assumes wf: "free_wf (mem, fl)" and f: "fresh_range (mem, fl) x sz"
  shows "\<exists>mem' fl'. make_free mem x sz = Some mem' \<and> mem' = mem(x := sz OR 1) \<and>
    add_to_free_list mem' fl x = Some fl' \<and> free_wf (mem', fl') \<and> same_region fl fl' \<and>
    mset (blocks fl') = add_mset x (mset (blocks fl)) \<and>
    free_bytes (mem', fl') = free_bytes (mem, fl) \<union> {unat x ..< unat x + unat sz}"
proof -
  note m = make_free_fresh [OF wf f]
  from add_to_free_list_wf [OF m(2,4)] show ?thesis using m(1,3,5) by (auto simp: span_def)
qed

lemma detached_fresh_sub:
  assumes "detached (mem, fl) b" "unat b + k + unat sz \<le> unat b + unat (header_size mem b)" "k mod 16 = 0"
    "unat sz mod 16 = 0" "0 < unat sz" "unat x = unat b + k"
  shows "fresh_range (mem, fl) x sz"
  using assms unfolding detached_def fresh_range_def block_ok_def span_def
  by (auto simp: disjoint_iff)

lemma split_free_block_wf:
  assumes wf: "free_wf (mem, fl)" and b: "detached (mem, fl) b"
    and sz: "unat sz mod 16 = 0" "0 < unat sz" "unat sz \<le> unat (header_size mem b)"
  shows "\<exists>mem' fl'. split_free_block (mem, fl) b sz = Some (mem', fl') \<and> free_wf (mem', fl') \<and> same_region fl fl' \<and>
    detached (mem', fl') b \<and> header_size mem' b = sz \<and>
    free_bytes (mem', fl') = free_bytes (mem, fl) \<union> {unat b + unat sz ..< unat b + unat (header_size mem b)}"
proof (cases "header_size mem b = sz")
  case True
  have "block_ok mem fl b" using b by (simp add: detached_def)
  then show ?thesis using True wf b by (auto simp: split_free_block_def block_size_known)
next
  case False
  let ?s = "header_size mem b" and ?x = "b + sz"
  have bok: "block_ok mem fl b" using b by (simp add: detached_def)
  have lt: "unat sz < unat ?s" using False sz(3) by (metis le_neq_implies_less word_unat_eq_iff)
  have "unat b + unat sz < unat (fl_end fl)" using bok lt by (simp add: block_ok_def)
  also have "\<dots> < 2 ^ 64" by simp
  finally have x: "unat ?x = unat b + unat sz" by (rule unat_add_exact)
  have d: "unat (?s - sz) = unat ?s - unat sz" using sz(3) by (intro unat_sub_exact) (simp add: word_le_nat_alt)
  have dm: "unat (?s - sz) mod 16 = 0" using bok sz(1,3) unfolding d block_ok_def by (metis dvd_diff_nat mod_0_imp_dvd dvd_imp_mod_0)
  have fx: "fresh_range (mem, fl) ?x (?s - sz)"
    using lt by (intro detached_fresh_sub [OF b _ sz(1) dm _ x]) (simp_all add: d)
  note m1 = make_free_fresh [OF wf fx]
  let ?m1 = "mem(?x := (?s - sz) OR 1)"
  have fb: "fresh_range (?m1, fl) b sz"
    using b lt sz by (auto simp: detached_def fresh_range_def m1(3) block_ok_def span_def disjoint_iff)
  note m2 = make_free_fresh [OF m1(2) fb]
  let ?m2 = "?m1(b := sz OR 1)"
  have ne: "?x \<noteq> b" using x sz(2) by auto
  have "detached (?m2, fl) ?x"
    using m1(4) header_frame(2) [of ?m2 ?x ?m1] header_frame(3) [of ?m2 ?x ?m1 fl] ne m2(3) by (simp add: detached_def)
  from add_to_free_list_wf [OF m2(2) this] obtain fl' where fl': "add_to_free_list ?m2 fl ?x = Some fl'"
    "free_wf (?m2, fl')" "same_region fl fl'" "free_bytes (?m2, fl') = free_bytes (?m2, fl) \<union> span ?m2 ?x" by auto
  have sp: "span ?m2 ?x = {unat b + unat sz ..< unat b + unat ?s}"
    using m1(5) header_frame(1) [of ?m2 ?x ?m1] ne d x lt by (auto simp: span_def)
  have "split_free_block (mem, fl) b sz = Some (?m2, fl')"
    using False fl'(1) m1(1) m2(1) by (simp add: split_free_block_def Let_def block_size_known [OF bok])
  moreover have "detached (?m2, fl') b"
    using m2(4,5) fl'(4) sp by (auto simp: detached_def same_region_cong [OF fl'(3)] span_def)
  ultimately show ?thesis using fl' m2(3,5) m1(3) sp by auto
qed

text \<open>Cutting a range into \<open>n\<close> equal pieces.\<close>

definition keeps_blocks :: "fl_heap \<Rightarrow> fl_heap \<Rightarrow> bool" where
  "keeps_blocks h h' \<longleftrightarrow> (\<forall>b\<in>set (blocks (snd h)). b \<in> set (blocks (snd h')) \<and> header_size (fst h') b = header_size (fst h) b)"

lemma carve_wf:
  assumes "free_wf (mem, fl)" "unat sz mod 16 = 0" "0 < unat sz" "unat L = unat offset + n * unat sz"
    "unat (fl_start fl) \<le> unat x" "unat x + n * unat sz \<le> unat (fl_end fl)" "unat x mod 16 = 0"
    "{unat x ..< unat x + n * unat sz} \<inter> free_bytes (mem, fl) = {}"
  shows "\<exists>mem' fl'. carve sz L offset x (mem, fl) = Some (mem', fl') \<and> free_wf (mem', fl') \<and> same_region fl fl' \<and>
    free_bytes (mem', fl') = free_bytes (mem, fl) \<union> {unat x ..< unat x + n * unat sz} \<and>
    keeps_blocks (mem, fl) (mem', fl') \<and> (0 < n \<longrightarrow> x \<in> set (blocks fl') \<and> header_size mem' x = sz)"
  using assms(1,4-)
proof (induction n arbitrary: mem fl offset x)
  case 0
  then have "\<not> offset < L" by (simp add: word_less_nat_alt)
  then show ?case using 0 by (subst carve.simps) (auto simp: keeps_blocks_def)
next
  case (Suc n)
  have lt: "offset < L" using Suc.prems(2) assms(3) by (simp add: word_less_nat_alt)
  have f: "fresh_range (mem, fl) x sz" using Suc.prems assms(2,3) by (auto simp: fresh_range_def disjoint_iff)
  obtain mem1 fl1 where m1: "make_free mem x sz = Some mem1" "mem1 = mem(x := sz OR 1)" "add_to_free_list mem1 fl x = Some fl1"
    "free_wf (mem1, fl1)" "same_region fl fl1" "mset (blocks fl1) = add_mset x (mset (blocks fl))"
    "free_bytes (mem1, fl1) = free_bytes (mem, fl) \<union> {unat x ..< unat x + unat sz}"
    using add_fresh_block [OF Suc.prems(1) f] by blast
  have k1: "keeps_blocks (mem, fl) (mem1, fl1)"
  proof -
    have "x \<notin> set (blocks fl)" using block_in_free_bytes [OF Suc.prems(1), of x] f by (auto simp: fresh_range_def disjoint_iff)
    then show ?thesis using set_blocks_mset [OF m1(6)] by (auto simp: keeps_blocks_def m1(2) header_size_def)
  qed
  have x1: "x \<in> set (blocks fl1)" "header_size mem1 x = sz"
    using set_blocks_mset [OF m1(6)] header_size_simps(1) [OF assms(2)] by (simp_all add: m1(2))
  have "unat offset + unat sz \<le> unat L" using Suc.prems(2) by simp
  then have o: "unat (offset + sz) = unat offset + unat sz" by (rule unat_add_le)
  have "unat x + unat sz \<le> unat (fl_end fl)" using Suc.prems(4) by simp
  then have x: "unat (x + sz) = unat x + unat sz" by (rule unat_add_le)
  have "\<exists>mem' fl'. carve sz L (offset + sz) (x + sz) (mem1, fl1) = Some (mem', fl') \<and> free_wf (mem', fl') \<and> same_region fl1 fl' \<and>
    free_bytes (mem', fl') = free_bytes (mem1, fl1) \<union> {unat (x + sz) ..< unat (x + sz) + n * unat sz} \<and>
    keeps_blocks (mem1, fl1) (mem', fl') \<and> (0 < n \<longrightarrow> x + sz \<in> set (blocks fl') \<and> header_size mem' (x + sz) = sz)"
    using Suc.prems m1(4,5,7) assms(2) o x
    by (intro Suc.IH) (auto simp: same_region_def disjoint_iff)
  then obtain mem' fl' where r: "carve sz L (offset + sz) (x + sz) (mem1, fl1) = Some (mem', fl')" "free_wf (mem', fl')"
    "same_region fl1 fl'" "free_bytes (mem', fl') = free_bytes (mem1, fl1) \<union> {unat (x + sz) ..< unat (x + sz) + n * unat sz}"
    "keeps_blocks (mem1, fl1) (mem', fl')" by blast
  have "carve sz L offset x (mem, fl) = Some (mem', fl')"
    using lt m1(1,3) r(1) by (subst carve.simps) simp
  moreover have "free_bytes (mem', fl') = free_bytes (mem, fl) \<union> {unat x ..< unat x + Suc n * unat sz}"
    using r(4) m1(7) x by auto
  moreover have "keeps_blocks (mem, fl) (mem', fl')" using k1 r(5) by (auto simp: keeps_blocks_def)
  moreover have "x \<in> set (blocks fl') \<and> header_size mem' x = sz" using r(5) x1 by (auto simp: keeps_blocks_def)
  ultimately show ?case using r(2,3) m1(5) same_region_trans by blast
qed

lemma small_block_listed:
  assumes "free_wf (mem, fl)" "b \<in> set (blocks fl)" "unat (header_size mem b) = 16 * i" "i < 32"
  shows "small_blocks fl ! i \<noteq> []"
proof -
  have bk: "buckets_ok mem fl" using assms(1) by (simp add: free_wf_def)
  then have "b \<notin> set (large_blocks fl)" using assms(3,4) by (auto simp: buckets_ok_def)
  then obtain bs where "b \<in> set bs" "bs \<in> set (small_blocks fl)" using assms(2) by (auto simp: blocks_def)
  then obtain k where k: "k < length (small_blocks fl)" "b \<in> set (small_blocks fl ! k)" by (metis in_set_conv_nth)
  then have "16 * k = 16 * i" using bk assms(3) by (auto simp: buckets_ok_def)
  then show ?thesis using k(2) by auto
qed

subsection \<open>Allocation\<close>

lemma detached_range:
  "detached (mem, fl) b \<Longrightarrow> unat (fl_start fl) \<le> unat b \<and> unat b + unat (header_size mem b) \<le> unat (fl_end fl) \<and>
    unat b mod 16 = 0 \<and> unat (header_size mem b) mod 16 = 0 \<and>
    {unat b ..< unat b + unat (header_size mem b)} \<inter> free_bytes (mem, fl) = {}"
  by (simp add: detached_def block_ok_def span_def)

lemma refill_wf:
  assumes wf: "free_wf (mem, fl)" and b: "detached (mem, fl) b" and sz: "unat sz mod 16 = 0" "0 < unat sz" "unat sz < 512"
    and big: "unat (large_block_size_for sz) \<le> unat (header_size mem b)"
  shows "\<exists>h2 mem3 fl3. split_free_block (mem, fl) b (large_block_size_for sz) = Some h2 \<and>
    carve sz (large_block_size_for sz) 0 b h2 = Some (mem3, fl3) \<and> free_wf (mem3, fl3) \<and> same_region fl fl3 \<and>
    free_bytes (mem3, fl3) = free_bytes (mem, fl) \<union> span mem b \<and> small_blocks fl3 ! (unat sz div 16) \<noteq> []"
proof -
  let ?L = "large_block_size_for sz"
  define n where "n = (1023 + unat sz) div unat sz"
  have L: "unat ?L = n * unat sz" "1024 \<le> unat ?L"
    using large_block_size_unat [of sz] sz(2,3) by (simp_all add: unat_gt_0 word_gt_0 n_def)
  have L16: "unat ?L mod 16 = 0" using L(1) sz(1) by auto
  obtain mem2 fl2 where h2: "split_free_block (mem, fl) b ?L = Some (mem2, fl2)" "free_wf (mem2, fl2)" "same_region fl fl2"
    "detached (mem2, fl2) b" "header_size mem2 b = ?L"
    "free_bytes (mem2, fl2) = free_bytes (mem, fl) \<union> {unat b + unat ?L ..< unat b + unat (header_size mem b)}"
    using split_free_block_wf [OF wf b L16 _ big] L(2) by auto
  note r = detached_range [OF h2(4), unfolded h2(5) L(1)]
  have "\<exists>mem3 fl3. carve sz ?L 0 b (mem2, fl2) = Some (mem3, fl3) \<and> free_wf (mem3, fl3) \<and> same_region fl2 fl3 \<and>
    free_bytes (mem3, fl3) = free_bytes (mem2, fl2) \<union> {unat b ..< unat b + n * unat sz} \<and>
    keeps_blocks (mem2, fl2) (mem3, fl3) \<and> (0 < n \<longrightarrow> b \<in> set (blocks fl3) \<and> header_size mem3 b = sz)"
    using r L(1) by (intro carve_wf [OF h2(2) sz(1,2)]) simp_all
  moreover have n: "0 < n" using L by (cases n) auto
  ultimately obtain mem3 fl3 where h3: "carve sz ?L 0 b (mem2, fl2) = Some (mem3, fl3)" "free_wf (mem3, fl3)" "same_region fl2 fl3"
    "free_bytes (mem3, fl3) = free_bytes (mem2, fl2) \<union> {unat b ..< unat b + n * unat sz}"
    "b \<in> set (blocks fl3)" "header_size mem3 b = sz" by blast
  have "small_blocks fl3 ! (unat sz div 16) \<noteq> []"
    using sz by (intro small_block_listed [OF h3(2,5)]) (auto simp: h3(6))
  moreover have "free_bytes (mem3, fl3) = free_bytes (mem, fl) \<union> span mem b"
    using h3(4) h2(6) big L(1) by (auto simp: span_def)
  ultimately show ?thesis using h2(1,3) h3(1-3) same_region_trans by blast
qed

lemma find_free_block_large:
  assumes "512 \<le> unat sz"
  shows "find_free_block h sz = find_large_block h sz"
  using assms by (subst find_free_block.simps) (auto simp: Let_def small_bucket)

text \<open>A small request on an empty stack cuts up a large block first.\<close>

lemma find_free_block_refill:
  assumes nz: "sz \<noteq> 0" and small: "unat sz < 512" and empty: "small_blocks (snd h) ! (unat sz div 16) = []"
  shows "find_free_block h sz = do {
      (h1, r) \<leftarrow> find_large_block h (large_block_size_for sz);
      case r of None \<Rightarrow> Some (h1, None)
      | Some large_block \<Rightarrow> do {
          h2 \<leftarrow> split_free_block h1 large_block (large_block_size_for sz);
          h3 \<leftarrow> carve sz (large_block_size_for sz) 0 large_block h2;
          pop_small_block h3 (unat sz div 16) } }"
proof -
  have "512 \<le> unat (large_block_size_for sz)" using large_block_size_large [OF nz small] by simp
  moreover have "unat (sz div data_alignment) = unat sz div 16" by (simp add: unat_div mark_consts)
  ultimately show ?thesis
    using nz small empty by (subst find_free_block.simps) (simp add: Let_def small_bucket find_free_block_large)
qed

lemma find_free_block_wf:
  assumes wf: "free_wf (mem, fl)" and sz: "unat sz mod 16 = 0" "0 < unat sz"
  shows "(\<exists>mem' fl' b. find_free_block (mem, fl) sz = Some ((mem', fl'), Some b) \<and> taken (mem, fl) (mem', fl') b \<and>
      unat sz \<le> unat (header_size mem' b)) \<or>
    find_free_block (mem, fl) sz = Some ((mem, fl), None) \<and>
      (\<forall>b\<in>set (large_blocks fl). unat (header_size mem b) < (if unat sz < 512 then unat (large_block_size_for sz) else unat sz))"
proof (cases "unat sz < 512")
  case False
  then have "find_free_block (mem, fl) sz = find_large_block (mem, fl) sz" by (intro find_free_block_large) simp
  then show ?thesis using find_large_block_wf [OF wf, of sz] False by (auto simp: taken_def word_less_nat_alt)
next
  case True
  let ?i = "unat sz div 16" and ?L = "large_block_size_for sz"
  have i: "?i < 32" "16 * ?i = unat sz" "unat (sz div data_alignment) = ?i"
    using True sz(1) by (auto simp: unat_div mark_consts)
  have nz: "sz \<noteq> 0" using sz(2) by auto
  show ?thesis
  proof (cases "small_blocks fl ! ?i = []")
    case False
    then have "find_free_block (mem, fl) sz = pop_small_block (mem, fl) ?i"
      using True by (subst find_free_block.simps) (simp add: Let_def small_bucket i(3))
    then show ?thesis using pop_small_block_wf [OF wf i(1) False] i(2) by (auto simp: taken_def)
  next
    case empty: True
    note body = find_free_block_refill [OF nz True, of "(mem, fl)", unfolded snd_conv, OF empty]
    from find_large_block_wf [OF wf, of ?L] show ?thesis
    proof (elim disjE exE conjE)
      fix b fl1
      assume h1: "find_large_block (mem, fl) ?L = Some ((mem, fl1), Some b)" "taken (mem, fl) (mem, fl1) b"
        "unat ?L \<le> unat (header_size mem b)"
      then have t: "free_wf (mem, fl1)" "detached (mem, fl1) b" by (simp_all add: taken_def)
      obtain h2 mem3 fl3 where h3: "split_free_block (mem, fl1) b ?L = Some h2" "carve sz ?L 0 b h2 = Some (mem3, fl3)"
        "free_wf (mem3, fl3)" "same_region fl1 fl3" "free_bytes (mem3, fl3) = free_bytes (mem, fl1) \<union> span mem b"
        "small_blocks fl3 ! ?i \<noteq> []" using refill_wf [OF t sz True h1(3)] by blast
      obtain c fl4 where h4: "pop_small_block (mem3, fl3) ?i = Some ((mem3, fl4), Some c)" "taken (mem3, fl3) (mem3, fl4) c"
        "unat (header_size mem3 c) = 16 * ?i" using pop_small_block_wf [OF h3(3) i(1) h3(6)] by blast
      have "find_free_block (mem, fl) sz = Some ((mem3, fl4), Some c)"
        unfolding body using h1(1) h3(1,2) h4(1) by simp
      moreover have "taken (mem, fl) (mem3, fl4) c"
        using h1(2) h3(4,5) h4(2) by (auto simp: taken_def same_region_def)
      ultimately show ?thesis using h4(3) i(2) by auto
    next
      assume "find_large_block (mem, fl) ?L = Some ((mem, fl), None)" "\<forall>b\<in>set (large_blocks fl). header_size mem b < ?L"
      then show ?thesis unfolding body using True by (simp add: word_less_nat_alt)
    qed
  qed
qed

lemma allot_wf:
  assumes wf: "free_wf (mem, fl)" and sz: "unat (align sz data_alignment) = n" "0 < n" "n mod 16 = 0"
  shows "(\<exists>mem' fl' b. allot (mem, fl) sz = Some ((mem', fl'), Some b) \<and> taken (mem, fl) (mem', fl') b \<and>
      unat (header_size mem' b) = n) \<or>
    allot (mem, fl) sz = Some ((mem, fl), None) \<and>
      (\<forall>b\<in>set (large_blocks fl). unat (header_size mem b) <
        (if n < 512 then unat (large_block_size_for (align sz data_alignment)) else n))"
proof -
  let ?a = "align sz data_alignment"
  have a: "unat ?a mod 16 = 0" "0 < unat ?a" using sz by simp_all
  from find_free_block_wf [OF wf a] show ?thesis
  proof (elim disjE exE conjE)
    fix mem1 fl1 b
    assume h1: "find_free_block (mem, fl) ?a = Some ((mem1, fl1), Some b)" "taken (mem, fl) (mem1, fl1) b"
      "unat ?a \<le> unat (header_size mem1 b)"
    then have t: "free_wf (mem1, fl1)" "detached (mem1, fl1) b" by (simp_all add: taken_def)
    obtain mem2 fl2 where h2: "split_free_block (mem1, fl1) b ?a = Some (mem2, fl2)" "free_wf (mem2, fl2)"
      "same_region fl1 fl2" "detached (mem2, fl2) b" "header_size mem2 b = ?a"
      "free_bytes (mem2, fl2) = free_bytes (mem1, fl1) \<union> {unat b + unat ?a ..< unat b + unat (header_size mem1 b)}"
      using split_free_block_wf [OF t a h1(3)] by blast
    have "allot (mem, fl) sz = Some ((mem2, fl2), Some b)" using h1(1) h2(1) by (simp add: allot_def Let_def)
    moreover have "taken (mem, fl) (mem2, fl2) b"
      using h1(2,3) h2(2-) by (auto simp: taken_def same_region_def span_def)
    ultimately show ?thesis using h2(5) sz(1) by auto
  next
    assume "find_free_block (mem, fl) ?a = Some ((mem, fl), None)"
      "\<forall>b\<in>set (large_blocks fl). unat (header_size mem b) < (if unat ?a < 512 then unat (large_block_size_for ?a) else unat ?a)"
    then show ?thesis using sz(1) by (auto simp: allot_def Let_def split: if_splits)
  qed
qed

subsection \<open>Initialisation, freeing and the counters\<close>

lemma cleared_wf:
  assumes "heap_bounds fl"
  shows "free_wf (mem, clear_free_list fl)" "free_bytes (mem, clear_free_list fl) = {}" "same_region fl (clear_free_list fl)"
  using assms by (auto simp: free_wf_def clear_free_list_def heap_bounds_def spans_ok_def blocks_def buckets_ok_def
    counters_ok_def free_bytes_def free_set_def same_region_def free_list_count_def)

lemma heap_bounds_unat:
  assumes "heap_bounds fl"
  shows "unat (fl_end fl) = unat (fl_start fl) + unat (fl_size fl)" "fl_end fl - fl_start fl = fl_size fl"
  using assms by (auto simp: heap_bounds_def intro: unat_add_exact)

lemma initial_free_list_wf:
  assumes hb: "heap_bounds fl" and occ: "unat occupied \<le> unat (fl_size fl)" "unat occupied mod 16 = 0"
  shows "\<exists>mem' fl'. initial_free_list (mem, fl) occupied = Some (mem', fl') \<and> free_wf (mem', fl') \<and> same_region fl fl' \<and>
    free_bytes (mem', fl') = {unat (fl_start fl) + unat occupied ..< unat (fl_end fl)} \<and>
    (\<forall>a. unat a < unat (fl_start fl) + unat occupied \<longrightarrow> mem' a = mem a)"
proof -
  note c = cleared_wf(1,2) [OF hb, of mem] cleared_wf(3) [OF hb] and e = heap_bounds_unat [OF hb]
  let ?fl = "clear_free_list fl" and ?x = "fl_start fl + occupied"
  have r: "fl_start ?fl = fl_start fl" "fl_end ?fl = fl_end fl" using c(3) by (simp_all add: same_region_def)
  show ?thesis
  proof (cases "occupied = fl_size fl")
    case True
    then show ?thesis using c e r by (auto simp: initial_free_list_def Let_def)
  next
    case False
    then have lt: "unat occupied < unat (fl_size fl)" using occ(1) by (metis le_neq_implies_less word_unat_eq_iff)
    have x: "unat ?x = unat (fl_start fl) + unat occupied"
      using occ(1) e(1) by (intro unat_add_le [of _ _ "fl_end fl"]) simp
    have d: "unat (fl_end fl - ?x) = unat (fl_size fl) - unat occupied"
      using x e(1) occ(1) by (subst unat_sub_exact) (simp_all add: word_le_nat_alt)
    have m: "unat (fl_start fl) mod 16 = 0" "unat (fl_size fl) mod 16 = 0" using hb by (simp_all add: heap_bounds_def)
    have "fresh_range (mem, ?fl) ?x (fl_end fl - ?x)"
      using x d e(1) lt occ(2) m c(2) by (auto simp: fresh_range_def r)
    from add_fresh_block [OF c(1) this] obtain mem' fl' where "make_free mem ?x (fl_end fl - ?x) = Some mem'"
      "mem' = mem(?x := (fl_end fl - ?x) OR 1)" "add_to_free_list mem' ?fl ?x = Some fl'" "free_wf (mem', fl')"
      "same_region ?fl fl'" "free_bytes (mem', fl') = {unat ?x ..< unat ?x + unat (fl_end fl - ?x)}" using c(2) by auto
    then show ?thesis
      using False c(3) e r x d lt by (auto simp: initial_free_list_def Let_def same_region_def)
  qed
qed

lemma new_free_list_allocator_wf:
  assumes "unat sz mod 1024 = 0" "unat start + unat sz < 2 ^ 64" "unat start mod 16 = 0"
  shows "\<exists>mem' fl'. new_free_list_allocator mem sz start = Some (mem', fl') \<and> free_wf (mem', fl') \<and>
    fl_start fl' = start \<and> fl_size fl' = sz \<and> free_bytes (mem', fl') = {unat start ..< unat start + unat sz}"
proof -
  let ?fl = "\<lparr>fl_start = start, fl_end = start + sz, fl_size = sz, small_blocks = [], large_blocks = [],
              free_block_count = 0, free_space = 0, fl_state = new_mark_bits sz start\<rparr>"
  have hb: "heap_bounds ?fl" using assms by (auto simp: heap_bounds_def)
  from initial_free_list_wf [OF hb, of 0 mem] heap_bounds_unat [OF hb] show ?thesis
    by (auto simp: new_free_list_allocator_def same_region_def)
qed

lemma free_block_wf:
  assumes "free_wf (mem, fl)" "fresh_range (mem, fl) b (block_size mem b)"
  shows "\<exists>mem' fl'. free_block block_size (mem, fl) b = Some (mem', fl') \<and> free_wf (mem', fl') \<and> same_region fl fl' \<and>
    free_bytes (mem', fl') = free_bytes (mem, fl) \<union> {unat b ..< unat b + unat (block_size mem b)}"
  using add_fresh_block [OF assms] by (auto simp: free_block_def)

lemma free_space_card:
  assumes wf: "free_wf (mem, fl)"
  shows "unat (free_space fl) = card (free_bytes (mem, fl))" "card (free_bytes (mem, fl)) \<le> unat (fl_size fl)"
proof -
  let ?bs = "blocks fl"
  have s: "spans_ok mem fl ?bs" and hb: "heap_bounds fl" using wf by (simp_all add: free_wf_def)
  have "card (free_bytes (mem, fl)) = (\<Sum>b\<in>set ?bs. card (span mem b))"
    unfolding free_bytes_def free_set_def fst_conv snd_conv
    using s by (intro card_UN_disjoint) (auto simp: spans_ok_def span_def)
  also have "\<dots> = sum_list (map (\<lambda>b. unat (header_size mem b)) ?bs)"
    using s by (subst sum_list_distinct_conv_sum_set) (auto simp: spans_ok_def span_def)
  finally have c: "card (free_bytes (mem, fl)) = sum_list (map (\<lambda>b. unat (header_size mem b)) ?bs)" .
  have "free_bytes (mem, fl) \<subseteq> {unat (fl_start fl) ..< unat (fl_end fl)}"
    using s by (auto simp: free_bytes_def free_set_def spans_ok_def block_ok_def span_def)
  then have "card (free_bytes (mem, fl)) \<le> card {unat (fl_start fl) ..< unat (fl_end fl)}" by (intro card_mono) simp_all
  then show le: "card (free_bytes (mem, fl)) \<le> unat (fl_size fl)" using heap_bounds_unat [OF hb] by simp
  have "sum_list (map (header_size mem) bs) = of_nat (sum_list (map (\<lambda>b. unat (header_size mem b)) bs))" for bs
    by (induction bs) simp_all
  then have "free_space fl = of_nat (card (free_bytes (mem, fl)))"
    using wf c by (simp add: free_wf_def counters_ok_def)
  moreover have "card (free_bytes (mem, fl)) < 2 ^ 64" using le by (rule le_less_trans) simp
  ultimately show "unat (free_space fl) = card (free_bytes (mem, fl))" by (simp add: unat_of_nat)
qed

subsection \<open>Sweeping\<close>

text \<open>The bitmap of an allocator covers its region.\<close>

definition state_ok :: "free_list \<Rightarrow> bool" where
  "state_ok fl \<longleftrightarrow> heap_bounds fl \<and> mark_wf (fl_state fl) \<and> mark_start (fl_state fl) = fl_start fl \<and>
     mark_size (fl_state fl) = fl_size fl"

abbreviation heap_lines :: "free_list \<Rightarrow> nat" where
  "heap_lines fl \<equiv> 64 * length (marked (fl_state fl))"

text \<open>The bytes of the unmarked lines among the first \<open>l\<close>.\<close>

definition unmarked_bytes :: "free_list \<Rightarrow> nat \<Rightarrow> nat set" where
  "unmarked_bytes fl l =
     {a. unat (fl_start fl) \<le> a \<and> a < unat (fl_start fl) + 16 * l \<and>
         \<not> line_marked (fl_state fl) ((a - unat (fl_start fl)) div 16)}"

lemma state_ok_end: "state_ok fl \<Longrightarrow> unat (fl_end fl) = unat (fl_start fl) + 16 * heap_lines fl"
  using heap_bounds_unat(1) [of fl] by (auto simp: state_ok_def mark_wf_def)

lemma line_of_start: "unat a = unat (mark_start s) + 16 * l \<Longrightarrow> line_of s a = l"
  by (simp add: line_of_def)

lemma unmarked_bytes_run:
  assumes "l \<le> l1" "l1 \<le> l2" "\<And>k. l \<le> k \<Longrightarrow> k < l1 \<Longrightarrow> line_marked (fl_state fl) k"
    "\<And>k. l1 \<le> k \<Longrightarrow> k < l2 \<Longrightarrow> \<not> line_marked (fl_state fl) k"
  shows "unmarked_bytes fl l2 = unmarked_bytes fl l \<union> {unat (fl_start fl) + 16 * l1 ..< unat (fl_start fl) + 16 * l2}"
proof -
  have "a \<in> unmarked_bytes fl l2 \<longleftrightarrow> a \<in> unmarked_bytes fl l \<or>
      unat (fl_start fl) + 16 * l1 \<le> a \<and> a < unat (fl_start fl) + 16 * l2" for a
  proof (cases "unat (fl_start fl) \<le> a")
    case True
    then obtain x where a: "a = unat (fl_start fl) + x" by (auto simp: le_iff_add)
    have "x div 16 < l \<or> l \<le> x div 16 \<and> x div 16 < l1 \<or> l1 \<le> x div 16 \<and> x div 16 < l2 \<or> l2 \<le> x div 16" by linarith
    moreover have "x < 16 * k \<longleftrightarrow> x div 16 < k" for k by auto
    ultimately show ?thesis using assms unfolding a unmarked_bytes_def by auto
  qed (auto simp: unmarked_bytes_def)
  then show ?thesis by (intro set_eqI) (simp only: Un_iff atLeastLessThan_iff)
qed

lemma next_run:
  assumes so: "state_ok fl" and l: "l < heap_lines fl" "unat start = unat (fl_start fl) + 16 * l"
  obtains (finished) r1 where "next_unmarked_block_after (fl_state fl) start = Some r1" "r1 = fl_end fl"
      "unmarked_bytes fl (heap_lines fl) = unmarked_bytes fl l"
  | (run) r1 z l2 where "next_unmarked_block_after (fl_state fl) start = Some r1" "r1 \<noteq> fl_end fl"
      "unmarked_block_size (fl_state fl) r1 = Some z" "l < l2" "l2 \<le> heap_lines fl"
      "unat (r1 + z) = unat (fl_start fl) + 16 * l2" "fresh_range (mem, fl) r1 z \<or> free_bytes (mem, fl) \<noteq> unmarked_bytes fl l"
      "unmarked_bytes fl l2 = unmarked_bytes fl l \<union> {unat r1 ..< unat r1 + unat z}"
proof -
  let ?m = "fl_state fl" and ?N = "heap_lines fl"
  have e: "unat (fl_end fl) = unat (fl_start fl) + 16 * ?N" using so by (rule state_ok_end)
  have m: "mark_wf ?m" "mark_start ?m = fl_start fl" "unat (mark_size ?m) = 16 * ?N"
    using so by (auto simp: state_ok_def mark_wf_def)
  have rng: "mark_start ?m \<le> start" "unat start \<le> unat (mark_start ?m) + unat (mark_size ?m)"
    using l m by (simp_all add: word_le_nat_alt)
  obtain r1 l1 where r1: "next_unmarked_block_after ?m start = Some r1"
    "first_line ?m (\<lambda>k. \<not> line_marked ?m k) l l1" "unat r1 = unat (fl_start fl) + 16 * l1"
    using next_unmarked_block_after_line [OF m(1) rng] line_of_start [of start ?m l] l(2) m(2) by auto
  show thesis
  proof (cases "l1 = ?N")
    case True
    show thesis
    proof (rule finished [OF r1(1)])
      show "r1 = fl_end fl" using True r1(3) e by (simp add: word_unat_eq_iff)
      show "unmarked_bytes fl ?N = unmarked_bytes fl l"
        using unmarked_bytes_run [of l ?N ?N fl] r1(2) True l by (simp add: first_line_def)
    qed
  next
    case False
    then have l1: "l1 < ?N" "l \<le> l1" "\<not> line_marked ?m l1" using r1(2) by (auto simp: first_line_def)
    have rng1: "mark_start ?m \<le> r1" "unat r1 \<le> unat (mark_start ?m) + unat (mark_size ?m)"
      using r1(3) m l1 by (simp_all add: word_le_nat_alt)
    obtain r2 l2 where r2: "next_marked_block_after ?m r1 = Some r2"
      "first_line ?m (line_marked ?m) l1 l2" "unat r2 = unat (fl_start fl) + 16 * l2"
      using next_marked_block_after_line [OF m(1) rng1] line_of_start [of r1 ?m l1] r1(3) m(2) by auto
    have l2: "l1 < l2" "l2 \<le> ?N" using r2(2) l1 by (auto simp: first_line_def le_less)
    have z: "unat (r2 - r1) = 16 * (l2 - l1)" using r1(3) r2(3) l2 by (subst unat_sub_exact) (simp_all add: word_le_nat_alt)
    have ze: "unat r1 + unat (r2 - r1) = unat (fl_start fl) + 16 * l2" using z r1(3) l2 by simp
    show thesis
    proof (rule run [OF r1(1), of "r2 - r1" l2])
      show "unmarked_bytes fl l2 = unmarked_bytes fl l \<union> {unat r1 ..< unat r1 + unat (r2 - r1)}"
        unfolding ze unfolding r1(3) using r1(2) r2(2) l1 l2 by (intro unmarked_bytes_run) (auto simp: first_line_def)
      have "{unat r1 ..< unat r1 + unat (r2 - r1)} \<inter> unmarked_bytes fl l = {}"
        using r1(3) l1 by (auto simp: unmarked_bytes_def)
      then show "fresh_range (mem, fl) r1 (r2 - r1) \<or> free_bytes (mem, fl) \<noteq> unmarked_bytes fl l"
        using r1(3) z l2 e ze so by (auto simp: fresh_range_def state_ok_def heap_bounds_def)
    qed (use r1 r2 e l1 l2 in \<open>auto simp: unmarked_block_size_def\<close>)
  qed
qed

lemma sweep_loop_wf:
  assumes "state_ok fl" "free_wf (mem, fl)" "l \<le> heap_lines fl" "unat start = unat (fl_start fl) + 16 * l"
    "free_bytes (mem, fl) = unmarked_bytes fl l"
  shows "\<exists>mem' fl' s'. sweep_loop iter (fl_end fl) start ((mem, fl), s) = Some ((mem', fl'), s') \<and> free_wf (mem', fl') \<and>
    same_region fl fl' \<and> free_bytes (mem', fl') = unmarked_bytes fl (heap_lines fl)"
  using assms
proof (induction "heap_lines fl - l" arbitrary: l start mem fl s rule: less_induct)
  case less
  have e: "unat (fl_end fl) = unat (fl_start fl) + 16 * heap_lines fl" using less.prems(1) by (rule state_ok_end)
  show ?case
  proof (cases "l = heap_lines fl")
    case True
    then have "start = fl_end fl" using less.prems(4) e by (simp add: word_unat_eq_iff)
    then show ?thesis using less.prems True by (subst sweep_loop.simps) auto
  next
    case False
    then have lt: "l < heap_lines fl" using less.prems(3) by simp
    have ne: "start \<noteq> fl_end fl" using lt less.prems(4) e by auto
    from less.prems(1) lt less.prems(4) show ?thesis
    proof (cases rule: next_run [where mem = mem])
      case (finished r1)
      then have "sweep_loop iter (fl_end fl) start ((mem, fl), s) = Some ((mem, fl), s)"
        using ne by (subst sweep_loop.simps) (simp add: sweep_loop.simps)
      then show ?thesis using less.prems finished(3) by auto
    next
      case (run r1 z l2)
      then obtain mem1 fl1 where h1: "make_free mem r1 z = Some mem1" "add_to_free_list mem1 fl r1 = Some fl1"
        "free_wf (mem1, fl1)" "same_region fl fl1" "free_bytes (mem1, fl1) = unmarked_bytes fl l2"
        using add_fresh_block [OF less.prems(2)] less.prems(5) by metis
      have u: "unmarked_bytes fl1 k = unmarked_bytes fl k" "state_ok fl1" "heap_lines fl1 = heap_lines fl"
        "fl_end fl1 = fl_end fl" "fl_start fl1 = fl_start fl" for k
        using h1(4) less.prems(1) by (simp_all add: same_region_def unmarked_bytes_def state_ok_def heap_bounds_def)
      have "\<exists>mem' fl' s'. sweep_loop iter (fl_end fl1) (r1 + z) ((mem1, fl1), iter r1 z s) = Some ((mem', fl'), s') \<and>
        free_wf (mem', fl') \<and> same_region fl1 fl' \<and> free_bytes (mem', fl') = unmarked_bytes fl1 (heap_lines fl1)"
        using h1(3,5) run(4-6) lt by (intro less.hyps [of fl1 l2]) (simp_all add: u)
      then obtain mem' fl' s' where h': "sweep_loop iter (fl_end fl) (r1 + z) ((mem1, fl1), iter r1 z s) = Some ((mem', fl'), s')"
        "free_wf (mem', fl')" "same_region fl1 fl'" "free_bytes (mem', fl') = unmarked_bytes fl (heap_lines fl)"
        unfolding u by blast
      have "sweep_loop iter (fl_end fl) start ((mem, fl), s) = Some ((mem', fl'), s')"
        using ne run(1-3) h1(1,2) h'(1) by (subst sweep_loop.simps) simp
      then show ?thesis using h' same_region_trans [OF h1(4) h'(3)] by auto
    qed
  qed
qed

lemma sweep_wf:
  assumes "state_ok fl"
  shows "\<exists>mem' fl'. sweep (mem, fl) = Some (mem', fl') \<and> free_wf (mem', fl') \<and> same_region fl fl' \<and>
    free_bytes (mem', fl') = unmarked_bytes fl (heap_lines fl)"
proof -
  have hb: "heap_bounds fl" using assms by (simp add: state_ok_def)
  let ?fl = "clear_free_list fl"
  note c = cleared_wf(1,2) [OF hb, of mem] cleared_wf(3) [OF hb]
  have u: "unmarked_bytes ?fl k = unmarked_bytes fl k" "state_ok ?fl" "heap_lines ?fl = heap_lines fl"
    "fl_end ?fl = fl_end fl" "fl_start ?fl = fl_start fl" for k
    using c(3) assms by (simp_all add: same_region_def unmarked_bytes_def state_ok_def heap_bounds_def)
  have "unmarked_bytes fl 0 = {}" by (auto simp: unmarked_bytes_def)
  then obtain mem' fl' s' where "sweep_loop (\<lambda>free_block size s. s) (fl_end fl) (fl_start fl) ((mem, ?fl), ()) = Some ((mem', fl'), s')"
    "free_wf (mem', fl')" "same_region ?fl fl'" "free_bytes (mem', fl') = unmarked_bytes fl (heap_lines fl)"
    using sweep_loop_wf [OF u(2) c(1), of 0 "fl_start fl" "\<lambda>free_block size s. s" "()"] c(2) u by auto
  then show ?thesis using same_region_trans [OF c(3)] by (auto simp: sweep_def sweep_iter_def)
qed

subsection \<open>When an allocation succeeds\<close>

lemma largest_free_block_large:
  assumes wf: "free_wf (mem, fl)" and ne: "large_blocks fl \<noteq> []"
  shows "largest_free_block (mem, fl) = Some (header_size mem (last (large_blocks fl)))"
    "b \<in> set (large_blocks fl) \<Longrightarrow> header_size mem b \<le> header_size mem (last (large_blocks fl))"
proof -
  let ?b = "last (large_blocks fl)"
  have "?b \<in> set (blocks fl)" using ne by (simp add: blocks_def)
  then have "block_ok mem fl ?b" using wf by (simp add: free_wf_def spans_ok_def)
  then show "largest_free_block (mem, fl) = Some (header_size mem ?b)"
    using ne by (simp add: largest_free_block_def block_size_known)
  have e: "large_blocks fl = butlast (large_blocks fl) @ [?b]" using ne by simp
  have "sorted (map (header_size mem) (butlast (large_blocks fl) @ [?b]))"
    using wf ne by (simp add: free_wf_def buckets_ok_def)
  then have "\<forall>b\<in>set (butlast (large_blocks fl)). header_size mem b \<le> header_size mem ?b" by (simp add: sorted_append)
  moreover assume "b \<in> set (large_blocks fl)"
  then have "b \<in> insert ?b (set (butlast (large_blocks fl)))" by (subst (asm) e) simp
  ultimately show "header_size mem b \<le> header_size mem ?b" by auto
qed

lemma largest_small_bound:
  assumes "free_wf (mem, fl)" "k \<le> 32"
  shows "\<exists>n. largest_small mem (small_blocks fl) k = Some n \<and> unat n < 512"
  using assms(2)
proof (induction k)
  case (Suc k)
  show ?case
  proof (cases "small_blocks fl ! k = []")
    case False
    let ?b = "last (small_blocks fl ! k)"
    have bk: "buckets_ok mem fl" using assms(1) by (simp add: free_wf_def)
    have b: "?b \<in> set (small_blocks fl ! k)" using False by simp
    moreover have "small_blocks fl ! k \<in> set (small_blocks fl)" using bk Suc.prems by (simp add: buckets_ok_def)
    ultimately have "?b \<in> set (blocks fl)" by (auto simp: blocks_def)
    then have "block_ok mem fl ?b" using assms(1) by (simp add: free_wf_def spans_ok_def)
    moreover have "unat (header_size mem ?b) = 16 * k" using bk b Suc.prems by (simp add: buckets_ok_def)
    ultimately show ?thesis using False Suc.prems by (simp add: block_size_known)
  qed (use Suc in simp)
qed simp

lemma can_allot_p_large:
  assumes wf: "free_wf (mem, fl)" and c: "can_allot_p (mem, fl) sz = Some True"
  shows "\<exists>b\<in>set (large_blocks fl). unat sz \<le> unat (header_size mem b) \<and> 1024 \<le> unat (header_size mem b) \<and> block_ok mem fl b"
proof (cases "large_blocks fl = []")
  case True
  obtain n where "largest_small mem (small_blocks fl) 32 = Some n" "unat n < 512" using largest_small_bound [OF wf, of 32] by auto
  then have "can_allot_p (mem, fl) sz = Some False"
    using True by (auto simp: can_allot_p_def largest_free_block_def free_list_count_def allocation_page_size_def word_le_nat_alt
      max_def split: if_splits)
  then show ?thesis using c by simp
next
  case False
  let ?b = "last (large_blocks fl)"
  have "?b \<in> set (blocks fl)" using False by (simp add: blocks_def)
  then have "block_ok mem fl ?b" using wf by (simp add: free_wf_def spans_ok_def)
  moreover have "header_size mem ?b \<ge> max sz 1024"
    using c largest_free_block_large(1) [OF wf False] by (simp add: can_allot_p_def allocation_page_size_def)
  then have "sz \<le> header_size mem ?b" "1024 \<le> header_size mem ?b" by simp_all
  then have "unat sz \<le> unat (header_size mem ?b)" "1024 \<le> unat (header_size mem ?b)"
    unfolding word_le_nat_alt by simp_all
  ultimately show ?thesis using False last_in_set by blast
qed

lemma align_data:
  assumes "unat sz + 15 < 2 ^ 64"
  shows "unat (align sz data_alignment) = (unat sz + 15) div 16 * 16"
  using align_unat [of sz 4] assms by (simp add: data_alignment_def)

lemma round_up_16:
  fixes x h :: nat
  assumes "x \<le> h" "h mod 16 = 0"
  shows "(x + 15) div 16 * 16 \<le> h"
proof -
  obtain q where q: "h = 16 * q" using assms(2) by auto
  have "(x + 15) div 16 \<le> (16 * q + 15) div 16" using assms(1) q by (intro div_le_mono) simp
  then show ?thesis using q by simp
qed

lemma round_up_bound:
  fixes x e :: nat
  assumes "x \<le> e" "e mod 16 = 0" "e < 2 ^ 64"
  shows "x + 15 < 2 ^ 64"
proof -
  obtain q where q: "e = 16 * q" using assms(2) by auto
  then have "q < 2 ^ 60" using assms(3) by simp
  then have "e + 15 < 2 ^ 64" using q by simp
  then show ?thesis using assms(1) by simp
qed

lemma allot_succeeds:
  assumes wf: "free_wf (mem, fl)" and c: "can_allot_p (mem, fl) sz = Some True" and sz: "496 < unat sz"
  shows "\<exists>mem' fl' b. allot (mem, fl) sz = Some ((mem', fl'), Some b) \<and> taken (mem, fl) (mem', fl') b"
proof -
  obtain b where b: "b \<in> set (large_blocks fl)" "unat sz \<le> unat (header_size mem b)" "block_ok mem fl b"
    using can_allot_p_large [OF wf c] by blast
  let ?n = "(unat sz + 15) div 16 * 16"
  have "unat (header_size mem b) mod 16 = 0" using b(3) by (simp add: block_ok_def)
  then have n: "?n \<le> unat (header_size mem b)" using b(2) by (intro round_up_16)
  have "unat sz \<le> unat (fl_end fl)" "unat (fl_end fl) mod 16 = 0"
    using b(2,3) wf heap_bounds_unat(1) [of fl] by (auto simp: block_ok_def free_wf_def heap_bounds_def)
  then have "unat sz + 15 < 2 ^ 64" by (rule round_up_bound) simp
  then have a: "unat (align sz data_alignment) = ?n" by (rule align_data)
  have "512 div 16 * 16 \<le> ?n" using sz by (intro mult_le_mono1 div_le_mono) simp
  then show ?thesis using allot_wf [OF wf a] b(1) n by (auto simp: not_less)
qed

lemma align_data_bounds:
  assumes "0 < unat sz" "unat sz + 15 < 2 ^ 64"
  obtains n where "unat (align sz data_alignment) = n" "0 < n" "n mod 16 = 0" "unat sz \<le> n" "n < unat sz + 16"
proof
  have q: "(x + 15) div 16 * 16 < x + 16" "x \<le> (x + 15) div 16 * 16" "0 < x \<Longrightarrow> 0 < (x + 15) div 16 * 16" for x :: nat
    using div_mult_mod_eq [of "x + 15" 16] mod_less_divisor [of 16 "x + 15"] by linarith+
  show "unat (align sz data_alignment) = (unat sz + 15) div 16 * 16" by (rule align_data [OF assms(2)])
  show "0 < (unat sz + 15) div 16 * 16" "unat sz \<le> (unat sz + 15) div 16 * 16" "(unat sz + 15) div 16 * 16 < unat sz + 16"
    using q [of "unat sz"] assms(1) by simp_all
qed simp

text \<open>A block just allocated can be given back: its range is fresh.\<close>

lemma taken_fresh_range:
  assumes "taken h h' b"
  shows "fresh_range h' b (header_size (fst h') b)"
  using assms by (auto simp: taken_def detached_def block_ok_def fresh_range_def span_def)

lemma free_bytes_region:
  assumes "free_wf (mem, fl)"
  shows "free_bytes (mem, fl) \<subseteq> {unat (fl_start fl) ..< unat (fl_end fl)}"
  using assms by (auto simp: free_wf_def free_bytes_def free_set_def spans_ok_def block_ok_def span_def)

lemma block_count_length:
  assumes wf: "free_wf (mem, fl)"
  shows "unat (free_block_count fl) = length (blocks fl)"
proof -
  have "length (blocks fl) = card (unat ` set (blocks fl))"
    using wf by (simp add: free_wf_def spans_ok_def distinct_card card_image inj_on_def word_unat_eq_iff)
  also have "\<dots> \<le> card (free_bytes (mem, fl))"
    using block_in_free_bytes [OF wf] free_bytes_region [OF wf] by (intro card_mono) (auto intro: finite_subset)
  also have "\<dots> \<le> unat (fl_size fl)" by (rule free_space_card(2) [OF wf])
  also have "\<dots> < 2 ^ 64" by simp
  finally show ?thesis using wf by (simp add: free_wf_def counters_ok_def unat_of_nat)
qed

lemma occupied_space_card:
  assumes wf: "free_wf (mem, fl)"
  shows "unat (fl_occupied_space fl) = card ({unat (fl_start fl) ..< unat (fl_end fl)} - free_bytes (mem, fl))"
proof -
  have hb: "heap_bounds fl" using wf by (simp add: free_wf_def)
  have "card ({unat (fl_start fl) ..< unat (fl_end fl)} - free_bytes (mem, fl)) =
      unat (fl_size fl) - card (free_bytes (mem, fl))"
    using free_bytes_region [OF wf] heap_bounds_unat [OF hb]
    by (subst card_Diff_subset) (auto intro: finite_subset)
  also have "\<dots> = unat (fl_size fl - free_space fl)"
    using free_space_card [OF wf] by (simp add: unat_sub word_le_nat_alt)
  finally show ?thesis by (simp add: fl_occupied_space_def)
qed

subsection \<open>Frame\<close>

text \<open>The allocator writes the headers of free blocks and nothing else.\<close>

lemma split_free_block_frame:
  assumes "split_free_block (mem, fl) b sz = Some (mem', fl')" "block_ok mem fl b" "unat sz \<le> unat (header_size mem b)"
    and a: "unat a \<notin> span mem b"
  shows "mem' a = mem a"
proof (cases "header_size mem b = sz")
  case True
  then show ?thesis using assms(1) block_size_known [OF assms(2)] by (auto simp: split_free_block_def)
next
  case False
  then have lt: "unat sz < unat (header_size mem b)" using assms(3) by (metis le_neq_implies_less word_unat_eq_iff)
  have "unat b + unat sz \<le> unat (fl_end fl)" using assms(2) lt by (auto simp: block_ok_def)
  then have "unat (b + sz) = unat b + unat sz" by (rule unat_add_le)
  then have "a \<noteq> b" "a \<noteq> b + sz" using a lt by (auto simp: span_def)
  then show ?thesis using assms(1) False block_size_known [OF assms(2)]
    by (auto simp: split_free_block_def make_free_def Let_def bind_eq_Some_conv split: if_splits)
qed

lemma carve_frame:
  assumes "carve sz L offset x (mem, fl) = Some (mem', fl')" "0 < unat sz" "unat L = unat offset + n * unat sz"
    "unat x + n * unat sz < 2 ^ 64" "unat a \<notin> {unat x ..< unat x + n * unat sz}"
  shows "mem' a = mem a"
  using assms(1,3-)
proof (induction n arbitrary: mem fl offset x)
  case 0
  then have "\<not> offset < L" by (simp add: word_less_nat_alt)
  then show ?case using 0(1) by (subst (asm) carve.simps) simp
next
  case (Suc n)
  have lt: "offset < L" using Suc.prems(2) assms(2) by (simp add: word_less_nat_alt)
  have "unat offset + unat sz \<le> unat L" using Suc.prems(2) by simp
  then have o: "unat (offset + sz) = unat offset + unat sz" by (rule unat_add_le)
  have "unat x + unat sz < 2 ^ 64" using Suc.prems(3) by simp
  then have x: "unat (x + sz) = unat x + unat sz" by (rule unat_add_exact)
  obtain fl1 where "carve sz L (offset + sz) (x + sz) (mem(x := sz OR 1), fl1) = Some (mem', fl')"
    using Suc.prems(1) lt by (subst (asm) carve.simps) (auto simp: bind_eq_Some_conv make_free_def split: if_splits)
  then have "mem' a = (mem(x := sz OR 1)) a"
    by (rule Suc.IH) (use Suc.prems o x in auto)
  moreover have "a \<noteq> x" using Suc.prems(4) assms(2) by auto
  ultimately show ?case by simp
qed

lemma taken_span: "taken h h' b \<Longrightarrow> span (fst h') b \<subseteq> free_bytes h"
  by (auto simp: taken_def)

lemma find_large_block_frame: "find_large_block (mem, fl) sz = Some ((mem', fl'), r) \<Longrightarrow> mem' = mem"
  by (auto simp: find_large_block_def Let_def bind_eq_Some_conv split: list.splits)

lemma pop_small_block_frame: "pop_small_block (mem, fl) i = Some ((mem', fl'), r) \<Longrightarrow> mem' = mem"
  by (auto simp: pop_small_block_def Let_def bind_eq_Some_conv split: if_splits)

lemma find_free_block_frame:
  assumes wf: "free_wf (mem, fl)" and sz: "unat sz mod 16 = 0" "0 < unat sz"
    and f: "find_free_block (mem, fl) sz = Some ((mem', fl'), r)" and a: "unat a \<notin> free_bytes (mem, fl)"
  shows "mem' a = mem a"
proof (cases "unat sz < 512")
  case False
  then have "find_large_block (mem, fl) sz = Some ((mem', fl'), r)" using f find_free_block_large [of sz "(mem, fl)"] by simp
  then show ?thesis using find_large_block_frame by blast
next
  case True
  let ?i = "unat sz div 16" and ?L = "large_block_size_for sz"
  have nz: "sz \<noteq> 0" using sz(2) by auto
  have i: "unat (sz div data_alignment) = ?i" by (simp add: unat_div mark_consts)
  show ?thesis
  proof (cases "small_blocks fl ! ?i = []")
    case False
    then have "find_free_block (mem, fl) sz = pop_small_block (mem, fl) ?i"
      using True by (subst find_free_block.simps) (simp add: Let_def small_bucket i)
    then have "pop_small_block (mem, fl) ?i = Some ((mem', fl'), r)" using f by simp
    then show ?thesis using pop_small_block_frame by blast
  next
    case empty: True
    note f' = f [unfolded find_free_block_refill [OF nz True, of "(mem, fl)", unfolded snd_conv, OF empty]]
    from find_large_block_wf [OF wf, of ?L] show ?thesis
    proof (elim disjE exE conjE)
      fix b fl1
      assume h1: "find_large_block (mem, fl) ?L = Some ((mem, fl1), Some b)" "taken (mem, fl) (mem, fl1) b"
        "unat ?L \<le> unat (header_size mem b)"
      then have b: "block_ok mem fl1 b" and sp: "unat a \<notin> span mem b" using a by (auto simp: taken_def detached_def)
      obtain mem2 fl2 mem3 fl3 where h: "split_free_block (mem, fl1) b ?L = Some (mem2, fl2)"
        "carve sz ?L 0 b (mem2, fl2) = Some (mem3, fl3)" "pop_small_block (mem3, fl3) ?i = Some ((mem', fl'), r)"
        using f' h1(1) by (auto simp: bind_eq_Some_conv)
      have L: "unat ?L = unat (0 :: cell) + (1023 + unat sz) div unat sz * unat sz"
        using large_block_size_unat(1) [of sz] True nz by (simp add: word_gt_0)
      have "mem3 a = mem2 a"
      proof (rule carve_frame [OF h(2) sz(2) L])
        have "unat b + unat ?L \<le> unat (fl_end fl1)" using b h1(3) by (auto simp: block_ok_def)
        also have "\<dots> < 2 ^ 64" by simp
        finally show "unat b + (1023 + unat sz) div unat sz * unat sz < 2 ^ 64" using L by simp
        show "unat a \<notin> {unat b ..< unat b + (1023 + unat sz) div unat sz * unat sz}"
          using sp h1(3) L by (auto simp: span_def)
      qed
      moreover have "mem2 a = mem a" by (rule split_free_block_frame [OF h(1) b h1(3) sp])
      ultimately show ?thesis using pop_small_block_frame [OF h(3)] by simp
    next
      assume "find_large_block (mem, fl) ?L = Some ((mem, fl), None)"
      then show ?thesis using f' by simp
    qed
  qed
qed

lemma allot_keeps_memory:
  assumes wf: "free_wf (mem, fl)" and sz: "0 < unat sz" "unat sz + 15 < 2 ^ 64"
    and al: "allot (mem, fl) sz = Some ((mem', fl'), r)" and a: "unat a \<notin> free_bytes (mem, fl)"
  shows "mem' a = mem a"
proof -
  let ?n = "align sz data_alignment"
  have n: "unat ?n mod 16 = 0" "0 < unat ?n" by (rule align_data_bounds [OF sz], simp)+
  from find_free_block_wf [OF wf n] show ?thesis
  proof (elim disjE exE conjE)
    fix mem1 fl1 b
    assume h1: "find_free_block (mem, fl) ?n = Some ((mem1, fl1), Some b)" "taken (mem, fl) (mem1, fl1) b"
      "unat ?n \<le> unat (header_size mem1 b)"
    then have b: "block_ok mem1 fl1 b" and sp: "unat a \<notin> span mem1 b" using a by (auto simp: taken_def detached_def)
    have "split_free_block (mem1, fl1) b ?n = Some (mem', fl')"
      using al h1(1) by (auto simp: allot_def Let_def bind_eq_Some_conv)
    from split_free_block_frame [OF this b h1(3) sp] show ?thesis
      using find_free_block_frame [OF wf n h1(1) a] by simp
  next
    assume "find_free_block (mem, fl) ?n = Some ((mem, fl), None)"
    then show ?thesis using al by (auto simp: allot_def Let_def)
  qed
qed

subsection \<open>The allocator contract\<close>

lemma request_aligned:
  assumes "request_ok sz"
  obtains n where "unat (align sz data_alignment) = n" "0 < n" "n mod 16 = 0" "unat sz \<le> n" "n < unat sz + 16"
proof -
  have "0 < unat sz" "unat sz + 15 < 2 ^ 64" using assms by (simp_all add: request_ok_def)
  then show ?thesis by (rule align_data_bounds) (rule that)
qed

interpretation fl_allocator: block_allocator free_wf free_bytes fst allot
proof
  fix s s' :: fl_heap and sz b :: cell
  assume s: "free_wf s" "request_ok sz"
  obtain mem fl where sp: "s = (mem, fl)" by (cases s)
  obtain n where n: "unat (align sz data_alignment) = n" "0 < n" "n mod 16 = 0" "unat sz \<le> n"
    by (rule request_aligned [OF s(2)])
  note al = allot_wf [OF s(1) [unfolded sp] n(1-3)]
  show "\<exists>s' r. allot s sz = Some (s', r)" using al sp by blast
  show "s' = s" if "allot s sz = Some (s', None)" using al sp that by auto
  show "free_wf s' \<and> unat b mod 16 = 0 \<and> block_bytes b sz \<subseteq> free_bytes s \<and> free_bytes s' \<subseteq> free_bytes s - block_bytes b sz"
    if "allot s sz = Some (s', Some b)"
  proof -
    have t: "taken s s' b" "unat (header_size (fst s') b) = n" using al sp that by auto
    have "block_bytes b sz \<subseteq> span (fst s') b" using t(2) n(4) by (auto simp: block_bytes_def span_def)
    then show ?thesis using t(1) by (cases s') (auto simp: taken_def detached_def block_ok_def)
  qed
next
  fix s :: fl_heap and sz s' r and a :: cell
  assume "free_wf s" "request_ok sz" "allot s sz = Some (s', r)" "unat a \<notin> free_bytes s"
  then show "fst s' a = fst s a"
    using allot_keeps_memory [of "fst s" "snd s" sz "fst s'" "snd s'" r a] by (simp add: request_ok_def)
qed

end
