(* ===== verification/Free_List_Compact.thy ===== *)
theory Free_List_Compact
  imports Free_List_Inv
begin

text \<open>
  Sliding compaction of a heap (\<open>free_list_allocator::compact\<close>). Marked blocks move towards
  the start of the heap, in order and without gaps; the destination of an address is what
  \<open>mark_bits::forward_block\<close> computes from the bitmap.
\<close>

unbundle bit_operations_syntax

subsection \<open>Where lines go\<close>

definition line_addr :: "free_list \<Rightarrow> nat \<Rightarrow> cell" where
  "line_addr fl l = fl_start fl + of_nat (16 * l)"

lemma line_addr_unat:
  assumes "state_ok fl" "l \<le> heap_lines fl"
  shows "unat (line_addr fl l) = unat (fl_start fl) + 16 * l"
proof -
  have "unat (fl_start fl) + 16 * l \<le> unat (fl_end fl)" using state_ok_end [OF assms(1)] assms(2) by simp
  also have "\<dots> < 2 ^ 64" by simp
  finally have b: "unat (fl_start fl) + 16 * l < 2 ^ 64" .
  then have "unat (of_nat (16 * l) :: cell) = 16 * l" by (simp only: unat_of_nat) simp
  then show ?thesis unfolding line_addr_def using b by (subst unat_add_exact) simp_all
qed

lemma line_addr_end: "state_ok fl \<Longrightarrow> line_addr fl (heap_lines fl) = fl_end fl"
  using line_addr_unat [of fl "heap_lines fl"] state_ok_end [of fl] by (simp add: word_unat_eq_iff)

text \<open>The destination of an address under sliding compaction.\<close>

definition slide :: "free_list \<Rightarrow> cell \<Rightarrow> cell" where
  "slide fl a = line_addr fl (marked_before (fl_state fl) (line_of (fl_state fl) a)) + (a AND 15)"

definition live_address :: "free_list \<Rightarrow> nat \<Rightarrow> cell \<Rightarrow> bool" where
  "live_address fl l a \<longleftrightarrow> unat (fl_start fl) \<le> unat a \<and> unat a < unat (fl_start fl) + 16 * l \<and>
     line_marked (fl_state fl) (line_of (fl_state fl) a)"

lemma state_address:
  assumes "state_ok fl" "unat (fl_start fl) \<le> unat a"
  shows "unat a = unat (fl_start fl) + 16 * line_of (fl_state fl) a + unat a mod 16"
  using address_line [of "fl_state fl" a] assms by (simp add: state_ok_def word_le_nat_alt)

lemma slide_unat:
  assumes so: "state_ok fl" and a: "unat (fl_start fl) \<le> unat a" "unat a < unat (fl_end fl)"
  shows "unat (slide fl a) = unat (fl_start fl) + 16 * marked_before (fl_state fl) (line_of (fl_state fl) a) + unat a mod 16"
proof -
  let ?l = "line_of (fl_state fl) a" and ?mb = "marked_before (fl_state fl)"
  have e: "unat a = unat (fl_start fl) + 16 * ?l + unat a mod 16" using so a(1) by (rule state_address)
  then have l: "?l < heap_lines fl" using a(2) state_ok_end [OF so] by linarith
  have mb: "?mb ?l \<le> ?l" by (rule marked_before_le)
  have la: "unat (line_addr fl (?mb ?l)) = unat (fl_start fl) + 16 * ?mb ?l" using l mb by (intro line_addr_unat [OF so]) simp
  have "(15 :: cell) = mask 4" by (simp add: mask_eq_exp_minus_1)
  then have lo: "unat (a AND 15) = unat a mod 16" using unat_and_mask [of a 4] by simp
  show ?thesis unfolding slide_def la [symmetric] lo [symmetric]
    by (rule unat_add_le [of _ _ a]) (use la lo mb e in linarith)
qed

lemma slide_forward_block:
  assumes so: "state_ok fl" and a: "live_address fl (heap_lines fl) a"
  shows "forward_block (compute_forwarding (fl_state fl)) a = Some (slide fl a)"
proof -
  let ?s = "compute_forwarding (fl_state fl)"
  have m: "mark_wf (fl_state fl)" "mark_start (fl_state fl) = fl_start fl" "mark_size (fl_state fl) = fl_size fl"
    using so by (simp_all add: state_ok_def)
  have e: "unat (fl_end fl) = unat (fl_start fl) + unat (fl_size fl)" using so heap_bounds_unat by (simp add: state_ok_def)
  have r: "unat (fl_start fl) \<le> unat a" "unat a < unat (fl_end fl)" using a state_ok_end [OF so] by (auto simp: live_address_def)
  have "\<exists>r. forward_block ?s a = Some r \<and>
    unat r = unat (mark_start ?s) + 16 * marked_before ?s (line_of ?s a) + unat a mod 16"
  proof (rule forward_block_line)
    show "mark_wf ?s" using m(1) by (rule compute_forwarding_wf)
    show "forwarding ?s = forwarding_scan 0 (marked ?s)" by (simp add: compute_forwarding_def)
  qed (use m e r a in \<open>simp_all add: word_le_nat_alt live_address_def\<close>)
  then show ?thesis using slide_unat [OF so r] m by (auto simp: word_unat_eq_iff)
qed

subsection \<open>One step of the slide\<close>

text \<open>
  After the blocks below line \<open>l\<close> have been visited, memory from there on is untouched and
  every live cell below is at its destination, with the fix-up \<open>g\<close> applied.
\<close>

definition slide_inv :: "free_list \<Rightarrow> memory \<Rightarrow> (cell \<Rightarrow> cell \<Rightarrow> cell) \<Rightarrow> nat \<Rightarrow> memory \<Rightarrow> bool" where
  "slide_inv fl mem0 g l mem \<longleftrightarrow>
     (\<forall>a. unat (fl_start fl) + 16 * l \<le> unat a \<and> unat a < unat (fl_end fl) \<longrightarrow> mem a = mem0 a) \<and>
     (\<forall>a. live_address fl l a \<longrightarrow> mem (slide fl a) = g a (mem0 a))"

lemma slide_inv_ahead:
  "slide_inv fl mem0 g l mem \<Longrightarrow> unat (fl_start fl) + 16 * l \<le> unat a \<Longrightarrow> unat a < unat (fl_end fl) \<Longrightarrow> mem a = mem0 a"
  by (simp add: slide_inv_def)

lemma marked_before_Suc: "marked_before s (Suc l) = marked_before s l + (if line_marked s l then 1 else 0)"
proof -
  have "{k. k < Suc l \<and> line_marked s k} = {k. k < l \<and> line_marked s k} \<union> (if line_marked s l then {l} else {})"
    by (auto simp: less_Suc_eq)
  then show ?thesis unfolding marked_before_def by (simp add: card_insert_if)
qed

lemma marked_before_run:
  "(\<And>k. l \<le> k \<Longrightarrow> k < l + n \<Longrightarrow> line_marked s k) \<Longrightarrow> marked_before s (l + n) = marked_before s l + n"
  "(\<And>k. l \<le> k \<Longrightarrow> k < l + n \<Longrightarrow> \<not> line_marked s k) \<Longrightarrow> marked_before s (l + n) = marked_before s l"
  by (induction n) (simp_all add: marked_before_Suc)

lemma marked_before_mono: "l \<le> l' \<Longrightarrow> marked_before s l \<le> marked_before s l'"
  unfolding marked_before_def by (rule card_mono) auto

lemma slide_below:
  assumes so: "state_ok fl" and a: "live_address fl l a" and l: "l \<le> heap_lines fl"
  shows "unat (slide fl a) < unat (fl_start fl) + 16 * marked_before (fl_state fl) l"
proof -
  let ?k = "line_of (fl_state fl) a" and ?mb = "marked_before (fl_state fl)"
  have a': "unat (fl_start fl) \<le> unat a" "unat a < unat (fl_end fl)"
    using a l state_ok_end [OF so] by (auto simp: live_address_def)
  have "?k < l" using a state_address [OF so a'(1)] by (simp add: live_address_def)
  then have "?mb ?k < ?mb l" using a by (intro marked_before_strict_mono) (simp_all add: live_address_def)
  moreover have "unat a mod 16 < 16" by simp
  ultimately show ?thesis unfolding slide_unat [OF so a'] by linarith
qed

lemma slide_step_marked:
  assumes so: "state_ok fl" and inv: "slide_inv fl mem0 g l mem" and n: "l + n \<le> heap_lines fl"
    and mk: "\<And>k. l \<le> k \<Longrightarrow> k < l + n \<Longrightarrow> line_marked (fl_state fl) k"
  defines "D \<equiv> line_addr fl (marked_before (fl_state fl) l)" and "B \<equiv> line_addr fl l"
  shows "slide_inv fl mem0 g (l + n)
    (\<lambda>a. if unat D \<le> unat a \<and> unat a < unat D + 16 * n then g (B + (a - D)) (mem (B + (a - D))) else mem a)"
    (is "slide_inv _ _ _ _ ?mem")
proof -
  let ?s = "fl_state fl" and ?S = "unat (fl_start fl)"
  have B: "unat B = ?S + 16 * l" unfolding B_def using n by (intro line_addr_unat [OF so]) simp
  have mb: "marked_before ?s l \<le> l" by (rule marked_before_le)
  have D: "unat D = ?S + 16 * marked_before ?s l" unfolding D_def using n mb by (intro line_addr_unat [OF so]) simp
  have e: "unat (fl_end fl) = ?S + 16 * heap_lines fl" using so by (rule state_ok_end)
  have "?mem a = mem0 a" if "?S + 16 * (l + n) \<le> unat a" "unat a < unat (fl_end fl)" for a
    using that inv D mb by (auto simp: slide_inv_def)
  moreover have "?mem (slide fl a) = g a (mem0 a)" if a: "live_address fl (l + n) a" for a
  proof (cases "unat a < ?S + 16 * l")
    case True
    then have a': "live_address fl l a" using a by (simp add: live_address_def)
    then show ?thesis using slide_below [OF so a'] inv n D by (simp add: slide_inv_def)
  next
    case False
    let ?k = "line_of ?s a"
    have a': "?S \<le> unat a" "unat a < unat (fl_end fl)" using a n e by (auto simp: live_address_def)
    have ae: "unat a = ?S + 16 * ?k + unat a mod 16" using so a'(1) by (rule state_address)
    have k: "l \<le> ?k" "?k < l + n" using False a ae by (auto simp: live_address_def)
    then have "marked_before ?s ?k = marked_before ?s l + (?k - l)"
      using mk marked_before_run(1) [of l "?k - l" ?s] by simp
    then have sl: "unat (slide fl a) = unat D + (unat a - unat B)"
      using slide_unat [OF so a'] D B ae k by linarith
    have "unat B \<le> unat a" using B ae k(1) by linarith
    then have "unat (a - B) = unat a - unat B" by (simp add: unat_sub_exact word_le_nat_alt)
    moreover have "unat (slide fl a - D) = unat a - unat B" using sl by (simp add: unat_sub_exact word_le_nat_alt)
    ultimately have "slide fl a - D = a - B" by (simp add: word_unat_eq_iff)
    then have "B + (slide fl a - D) = a" by simp
    moreover have "unat a - unat B < 16 * n" using ae k B by linarith
    ultimately show ?thesis using sl inv a' False by (simp add: slide_inv_def)
  qed
  ultimately show ?thesis by (simp add: slide_inv_def)
qed

lemma slide_step_unmarked:
  assumes so: "state_ok fl" and inv: "slide_inv fl mem0 g l mem"
    and um: "\<And>k. l \<le> k \<Longrightarrow> k < l + n \<Longrightarrow> \<not> line_marked (fl_state fl) k"
  shows "slide_inv fl mem0 g (l + n) mem"
proof -
  have "live_address fl l a" if "live_address fl (l + n) a" for a
  proof -
    have "unat a = unat (fl_start fl) + 16 * line_of (fl_state fl) a + unat a mod 16"
      using so that by (intro state_address) (simp_all add: live_address_def)
    then have "line_of (fl_state fl) a < l + n" using that by (simp add: live_address_def)
    then have "line_of (fl_state fl) a < l" 
      using um [of "line_of (fl_state fl) a"] that unfolding live_address_def by (metis not_less)
    then show ?thesis using that \<open>unat a = _\<close> unfolding live_address_def by linarith
  qed
  then show ?thesis using inv by (simp add: slide_inv_def)
qed

subsection \<open>Compaction\<close>

text \<open>
  The interface of the code that compaction calls. The blocks of the heap start at the lines
  in \<open>R\<close>, the block at \<open>l\<close> has \<open>n l\<close> lines, all marked or all unmarked; \<open>size_of\<close> measures a block
  correctly whenever the slide has reached it, and \<open>iter\<close> rewrites the cells of the block it
  is given, one by one, through \<open>g\<close>.
\<close>

definition tiles :: "free_list \<Rightarrow> nat set \<Rightarrow> (nat \<Rightarrow> nat) \<Rightarrow> bool" where
  "tiles fl R n \<longleftrightarrow> 0 \<in> R \<and> (\<forall>l\<in>R. l < heap_lines fl \<longrightarrow> 0 < n l \<and> l + n l \<le> heap_lines fl \<and> l + n l \<in> R \<and>
     (\<forall>k. l \<le> k \<and> k < l + n l \<longrightarrow> line_marked (fl_state fl) k = line_marked (fl_state fl) l))"

definition measures :: "free_list \<Rightarrow> memory \<Rightarrow> (cell \<Rightarrow> cell \<Rightarrow> cell) \<Rightarrow> nat set \<Rightarrow> (nat \<Rightarrow> nat) \<Rightarrow>
    (memory \<times> 'x compact_state \<Rightarrow> cell \<Rightarrow> cell option) \<Rightarrow> bool" where
  "measures fl mem0 g R n size_of \<longleftrightarrow> (\<forall>l\<in>R. l < heap_lines fl \<longrightarrow>
     (line_marked (fl_state fl) l \<longrightarrow> \<not> free_block_p mem0 (line_addr fl l)) \<and>
     (\<forall>mem cs. slide_inv fl mem0 g l mem \<longrightarrow> size_of (mem, cs) (line_addr fl l) = Some (of_nat (16 * n l))))"

definition fixes_slots :: "(cell \<Rightarrow> cell \<Rightarrow> cell) \<Rightarrow>
    (cell \<Rightarrow> cell \<Rightarrow> cell \<Rightarrow> memory \<times> 'x compact_state \<Rightarrow> (memory \<times> 'x compact_state) option) \<Rightarrow> bool" where
  "fixes_slots g iter \<longleftrightarrow> (\<forall>b d z mem cs. \<exists>x. iter b d z (mem, cs) =
     Some (\<lambda>a. if unat d \<le> unat a \<and> unat a < unat d + unat z then g (b + (a - d)) (mem a) else mem a, cs\<lparr>caller := x\<rparr>))"

lemma compact_block_func_marked:
  assumes fs: "fixes_slots g iter" and m: "marked_p s b = Some True"
  obtains x where "compact_block_func s iter b z (mem, cs) =
    Some (\<lambda>a. if unat (dest_addr cs) \<le> unat a \<and> unat a < unat (dest_addr cs) + unat z
               then g (b + (a - dest_addr cs)) (mem (b + (a - dest_addr cs))) else mem a,
          cs\<lparr>finger := b + z, caller := x, dest_addr := dest_addr cs + z\<rparr>)"
proof -
  let ?d = "dest_addr cs"
  let ?mem1 = "if ?d \<noteq> b then memmove ?d b z mem else mem"
  obtain x where x: "iter b ?d z (?mem1, cs\<lparr>finger := b + z\<rparr>) =
      Some (\<lambda>a. if unat ?d \<le> unat a \<and> unat a < unat ?d + unat z then g (b + (a - ?d)) (?mem1 a) else ?mem1 a,
            cs\<lparr>finger := b + z, caller := x\<rparr>)"
    using fs unfolding fixes_slots_def by blast
  have "compact_block_func s iter b z (mem, cs) =
      Some (\<lambda>a. if unat ?d \<le> unat a \<and> unat a < unat ?d + unat z then g (b + (a - ?d)) (?mem1 a) else ?mem1 a,
            cs\<lparr>finger := b + z, caller := x, dest_addr := ?d + z\<rparr>)"
    using m x by (simp add: compact_block_func_def Let_def)
  moreover have "(\<lambda>a. if unat ?d \<le> unat a \<and> unat a < unat ?d + unat z then g (b + (a - ?d)) (?mem1 a) else ?mem1 a) =
      (\<lambda>a. if unat ?d \<le> unat a \<and> unat a < unat ?d + unat z then g (b + (a - ?d)) (mem (b + (a - ?d))) else mem a)"
    by (auto simp: memmove_def fun_eq_iff)
  ultimately show thesis using that by simp
qed

lemma block_size_unat:
  assumes "state_ok fl" "l + k \<le> heap_lines fl"
  shows "unat (of_nat (16 * k) :: cell) = 16 * k"
proof -
  have "16 * k \<le> unat (fl_end fl)" using state_ok_end [OF assms(1)] assms(2) by simp
  also have "\<dots> < 2 ^ 64" by simp
  finally show ?thesis by (simp only: unat_of_nat) simp
qed

lemma marked_p_line_addr:
  assumes so: "state_ok fl" and l: "l < heap_lines fl"
  shows "marked_p (fl_state fl) (line_addr fl l) = Some (line_marked (fl_state fl) l)"
proof -
  have b: "unat (line_addr fl l) = unat (fl_start fl) + 16 * l" using l by (intro line_addr_unat [OF so]) simp
  have m: "mark_wf (fl_state fl)" "mark_start (fl_state fl) = fl_start fl" "mark_size (fl_state fl) = fl_size fl"
    and e: "unat (fl_end fl) = unat (fl_start fl) + unat (fl_size fl)"
    using so heap_bounds_unat(1) [of fl] by (simp_all add: state_ok_def)
  have "marked_p (fl_state fl) (line_addr fl l) = Some (line_marked (fl_state fl) (line_of (fl_state fl) (line_addr fl l)))"
    by (rule marked_p_line [OF m(1)]) (use b l e m state_ok_end [OF so] in \<open>simp_all add: word_le_nat_alt\<close>)
  then show ?thesis using line_of_start [of "line_addr fl l" "fl_state fl" l] b m(2) by simp
qed

lemma iterate_compact:
  assumes so: "state_ok fl" and ti: "tiles fl R n" and me: "measures fl mem0 g R n size_of" and fs: "fixes_slots g iter"
    and l: "l \<in> R" "l \<le> heap_lines fl" and inv: "slide_inv fl mem0 g l mem"
    and d: "dest_addr cs = line_addr fl (marked_before (fl_state fl) l)"
  shows "\<exists>mem' cs'. iterate_loop size_of (compact_block_func (fl_state fl) iter) (fl_end fl) (line_addr fl l) (mem, cs) = Some (mem', cs') \<and>
    slide_inv fl mem0 g (heap_lines fl) mem' \<and> dest_addr cs' = line_addr fl (marked_before (fl_state fl) (heap_lines fl))"
  using l inv d
proof (induction "heap_lines fl - l" arbitrary: l mem cs rule: less_induct)
  case less
  let ?s = "fl_state fl" and ?N = "heap_lines fl" and ?F = "compact_block_func (fl_state fl) iter"
  show ?case
  proof (cases "l = ?N")
    case True
    then show ?thesis using less.prems line_addr_end [OF so] by (subst iterate_loop.simps) simp
  next
    case False
    then have lt: "l < ?N" using less.prems(2) by simp
    let ?b = "line_addr fl l" and ?l = "l + n l"
    have b: "unat ?b = unat (fl_start fl) + 16 * l" using lt by (intro line_addr_unat [OF so]) simp
    have t: "0 < n l" "?l \<le> ?N" "?l \<in> R" "\<And>k. l \<le> k \<Longrightarrow> k < ?l \<Longrightarrow> line_marked ?s k = line_marked ?s l"
      using ti less.prems(1) lt unfolding tiles_def by blast+
    define z :: cell where "z = of_nat (16 * n l)"
    have z: "unat z = 16 * n l" and bz: "?b + z = line_addr fl ?l"
      using block_size_unat [OF so t(2)] by (simp_all add: z_def line_addr_def algebra_simps)
    have sz: "size_of (mem, cs) ?b = Some z" and nf: "line_marked ?s l \<Longrightarrow> \<not> free_block_p mem0 ?b"
      using me less.prems(1,3) lt unfolding measures_def z_def by blast+
    have ne: "?b \<noteq> fl_end fl" using b lt state_ok_end [OF so] by auto
    have mp: "marked_p ?s ?b = Some (line_marked ?s l)" using so lt by (rule marked_p_line_addr)
    have ih: "slide_inv fl mem0 g ?l mem1 \<Longrightarrow> dest_addr cs1 = line_addr fl (marked_before ?s ?l) \<Longrightarrow>
      \<exists>mem' cs'. iterate_loop size_of ?F (fl_end fl) (line_addr fl ?l) (mem1, cs1) = Some (mem', cs') \<and>
        slide_inv fl mem0 g ?N mem' \<and> dest_addr cs' = line_addr fl (marked_before ?s ?N)" for mem1 cs1
      using t lt by (intro less.hyps) auto
    show ?thesis
    proof (cases "line_marked ?s l")
      case True
      then have mt: "marked_p ?s ?b = Some True" using mp by simp
      obtain x where F: "?F ?b z (mem, cs) =
          Some (\<lambda>a. if unat (dest_addr cs) \<le> unat a \<and> unat a < unat (dest_addr cs) + unat z
               then g (?b + (a - dest_addr cs)) (mem (?b + (a - dest_addr cs))) else mem a,
          cs\<lparr>finger := ?b + z, caller := x, dest_addr := dest_addr cs + z\<rparr>)" (is "_ = Some (?m, ?c)")
        by (rule compact_block_func_marked [OF fs mt])
      have "mem ?b = mem0 ?b" 
        by (rule slide_inv_ahead [OF less.prems(3)]) (use b lt state_ok_end [OF so] in simp_all)
      then have "\<not> free_block_p mem ?b" using nf True by (simp add: free_block_p_def)
      then have "iterate_loop size_of ?F (fl_end fl) ?b (mem, cs) = iterate_loop size_of ?F (fl_end fl) (line_addr fl ?l) (?m, ?c)"
        using ne sz F bz by (subst iterate_loop.simps) simp
      moreover have "slide_inv fl mem0 g ?l ?m"
        using slide_step_marked [OF so less.prems(3) t(2)] t(4) True unfolding less.prems(4) z by blast
      moreover have "dest_addr ?c = line_addr fl (marked_before ?s ?l)"
        using marked_before_run(1) [of l "n l" ?s] t(4) True less.prems(4) by (simp add: line_addr_def z_def algebra_simps)
      ultimately show ?thesis using ih by simp
    next
      case False
      then have "?F ?b z (mem, cs) = Some (mem, cs)" using mp by (simp add: compact_block_func_def)
      then have "iterate_loop size_of ?F (fl_end fl) ?b (mem, cs) = iterate_loop size_of ?F (fl_end fl) (line_addr fl ?l) (mem, cs)"
        using ne sz bz by (subst iterate_loop.simps) simp
      moreover have "slide_inv fl mem0 g ?l mem" using slide_step_unmarked [OF so less.prems(3)] t(4) False by blast
      moreover have "dest_addr cs = line_addr fl (marked_before ?s ?l)"
        using marked_before_run(2) [of l "n l" ?s] t(4) False less.prems(4) by simp
      ultimately show ?thesis using ih by simp
    qed
  qed
qed

lemma compact_slides:
  assumes so: "state_ok fl" and ti: "tiles fl R n" and me: "measures fl mem g R n size_of" and fs: "fixes_slots g iter"
  shows "\<exists>mem' fl' f x'. compact size_of iter f0 (mem, fl) x = Some ((mem', fl'), f, x') \<and> free_wf (mem', fl') \<and> same_region fl fl' \<and>
    free_bytes (mem', fl') = {unat (fl_start fl) + 16 * marked_before (fl_state fl) (heap_lines fl) ..< unat (fl_end fl)} \<and>
    (\<forall>a. live_address fl (heap_lines fl) a \<longrightarrow> mem' (slide fl a) = g a (mem a))"
proof -
  let ?cs = "\<lparr>dest_addr = fl_start fl, finger = f0, caller = x\<rparr>" and ?mb = "marked_before (fl_state fl)" and ?N = "heap_lines fl"
  have l0: "line_addr fl 0 = fl_start fl" "?mb 0 = 0" by (simp_all add: line_addr_def marked_before_def)
  have inv0: "slide_inv fl mem g 0 mem" by (auto simp: slide_inv_def live_address_def)
  have R0: "0 \<in> R" using ti by (simp add: tiles_def)
  have d0: "dest_addr ?cs = line_addr fl (?mb 0)" by (simp add: l0)
  obtain mem1 cs1 where it: "iterate size_of (compact_block_func (fl_state fl) iter) fl (mem, ?cs) = Some (mem1, cs1)"
    "slide_inv fl mem g ?N mem1" "dest_addr cs1 = line_addr fl (?mb ?N)"
    using iterate_compact [OF so ti me fs R0 _ inv0 d0] unfolding iterate_def l0 by auto
  have mb: "?mb ?N \<le> ?N" by (rule marked_before_le)
  have hb: "heap_bounds fl" using so by (simp add: state_ok_def)
  have occ: "unat (dest_addr cs1 - fl_start fl) = 16 * ?mb ?N"
    unfolding it(3) using line_addr_unat [OF so mb] by (subst unat_sub_exact) (simp_all add: word_le_nat_alt)
  have "16 * ?N = unat (fl_size fl)" using state_ok_end [OF so] heap_bounds_unat(1) [OF hb] by simp
  then have le: "unat (dest_addr cs1 - fl_start fl) \<le> unat (fl_size fl)" "unat (dest_addr cs1 - fl_start fl) mod 16 = 0"
    unfolding occ using mb by simp_all
  obtain mem2 fl2 where ini: "initial_free_list (mem1, fl) (dest_addr cs1 - fl_start fl) = Some (mem2, fl2)"
    "free_wf (mem2, fl2)" "same_region fl fl2" "free_bytes (mem2, fl2) = {unat (fl_start fl) + 16 * ?mb ?N ..< unat (fl_end fl)}"
    "\<And>a. unat a < unat (fl_start fl) + 16 * ?mb ?N \<Longrightarrow> mem2 a = mem1 a"
    using initial_free_list_wf [OF hb le, of mem1] unfolding occ by blast
  have "mem2 (slide fl a) = g a (mem a)" if "live_address fl ?N a" for a
    using ini(5) [OF slide_below [OF so that order_refl]] it(2) that by (simp add: slide_inv_def)
  moreover have "compact size_of iter f0 (mem, fl) x = Some ((mem2, fl2), finger cs1, caller cs1)"
    using it(1) ini(1) by (simp add: compact_def)
  ultimately show ?thesis using ini(2-4) by blast
qed

end
