(* ===== verification/Heap_Properties.thy ===== *)
theory Heap_Properties
  imports Object_Starts Free_List_Compact
begin

text \<open>
  The properties of the structures that manage memory: the mark bitmap (\<open>vm/mark_bits.hpp\<close>),
  the object start map (\<open>vm/object_start_map.cpp\<close>) and the free list allocator
  (\<open>vm/free_list.hpp\<close>) with its sweep and its compaction.
\<close>

text \<open>
  C10. Marking a block marks the lines it covers and nothing else: after
  \<open>set_marked_p\<close> on a block of whole lines inside the heap, an address is reported as marked
  exactly when it was before or lies in the block.
\<close>

theorem set_marked_p_marks_block:
  assumes "mark_wf s" "mark_start s \<le> b" "0 < sz" "unat b + unat sz \<le> unat (mark_start s) + unat (mark_size s)"
    and "unat b mod 16 = 0" "unat sz mod 16 = 0"
    and "mark_start s \<le> a" "unat a < unat (mark_start s) + unat (mark_size s)"
  shows "\<exists>s' old. set_marked_p s b sz = Some s' \<and> mark_wf s' \<and> marked_p s a = Some old \<and>
    marked_p s' a = Some (old \<or> b \<le> a \<and> unat a < unat b + unat sz)"
proof -
  obtain s' where s': "set_marked_p s b sz = Some s'" "mark_wf s'" "mark_start s' = mark_start s" "mark_size s' = mark_size s"
    "\<forall>l. line_marked s' l \<longleftrightarrow> line_marked s l \<or> line_of s b \<le> l \<and> l < line_of s (b + sz)"
    using set_marked_p_line [OF assms(1-4)] by blast
  have nl: "line_of s' a = line_of s a" by (simp add: line_of_def s'(3))
  have "line_of s b \<le> line_of s a \<and> line_of s a < line_of s (b + sz) \<longleftrightarrow> b \<le> a \<and> unat a < unat b + unat sz"
    by (rule line_in_block [OF assms(1,2,4-7)])
  then show ?thesis
    using s' nl marked_p_line [OF assms(1,7,8)] marked_p_line [of s' a] assms(7,8) by auto
qed

theorem set_marked_p_marks_block_witness:
  "\<exists>s'. set_marked_p (new_mark_bits 4096 65536) 65552 96 = Some s' \<and> marked_p s' 65600 = Some True"
proof -
  have wf: "mark_wf (new_mark_bits 4096 65536)" by (rule new_mark_bits_wf) simp_all
  have f: "mark_start (new_mark_bits 4096 65536) = 65536" "mark_size (new_mark_bits 4096 65536) = 4096"
    by (simp_all add: new_mark_bits_def clear_mark_bits_def clear_forwarding_def)
  show ?thesis
    using set_marked_p_marks_block [OF wf, of 65552 96 65600] by (auto simp: f word_le_nat_alt)
qed

text \<open>
  C9. Forwarding addresses computed from the bitmap slide live lines down: every marked
  address is forwarded, never upwards, and of two marked addresses on different lines the
  lower one is forwarded strictly lower, a whole line or more, so blocks never overlap.
\<close>

theorem forward_block_slides:
  assumes "mark_wf s" "mark_start s \<le> a" "a \<le> b" "unat b < unat (mark_start s) + unat (mark_size s)"
    and "marked_p s a = Some True" "marked_p s b = Some True"
  shows "\<exists>a' b'. forward_block (compute_forwarding s) a = Some a' \<and> forward_block (compute_forwarding s) b = Some b' \<and>
    a' \<le> a \<and> b' \<le> b \<and> unat a' mod 16 = unat a mod 16 \<and>
    (unat a div 16 < unat b div 16 \<longrightarrow> unat a' div 16 < unat b' div 16) \<and>
    (unat a div 16 = unat b div 16 \<longrightarrow> unat b' - unat a' = unat b - unat a)"
proof -
  have r: "unat a < unat (mark_start s) + unat (mark_size s)" "mark_start s \<le> b" using assms(2-4) by (auto simp: word_le_nat_alt)
  have m: "line_marked s (line_of s a)" "line_marked s (line_of s b)"
    using marked_p_line [OF assms(1,2) r(1)] marked_p_line [OF assms(1) r(2) assms(4)] assms(5,6) by simp_all
  obtain a' where a': "forward_block (compute_forwarding s) a = Some a'"
      "unat a' = unat (mark_start s) + 16 * marked_before s (line_of s a) + unat a mod 16"
    using forward_block_computed [OF assms(1,2) r(1) m(1)] by blast
  obtain b' where b': "forward_block (compute_forwarding s) b = Some b'"
      "unat b' = unat (mark_start s) + 16 * marked_before s (line_of s b) + unat b mod 16"
    using forward_block_computed [OF assms(1) r(2) assms(4) m(2)] by blast
  note ad = address_line [OF assms(1,2)] address_line [OF assms(1) r(2)]
  obtain q where q: "unat (mark_start s) = 16 * q" using assms(1) by (auto simp: mark_wf_def)
  have dm: "(16 * q + 16 * m + x mod 16) div 16 = q + m" "(16 * q + 16 * m + x mod 16) mod 16 = x mod 16" for m x :: nat
    using mod_mult_self2 [of "x mod 16" 16 "q + m"] by (simp_all add: add.commute)
  have line: "unat a div 16 = q + line_of s a" "unat b div 16 = q + line_of s b"
    using ad dm(1) by (metis q)+
  have line': "unat a' div 16 = q + marked_before s (line_of s a)" "unat b' div 16 = q + marked_before s (line_of s b)"
    "unat a' mod 16 = unat a mod 16"
    unfolding a'(2) b'(2) q by (rule dm)+
  have le: "a' \<le> a" "b' \<le> b"
    using ad a'(2) b'(2) marked_before_le [of s "line_of s a"] marked_before_le [of s "line_of s b"]
    unfolding word_le_nat_alt by linarith+
  have "unat a div 16 < unat b div 16 \<longrightarrow> unat a' div 16 < unat b' div 16"
    unfolding line line' by (simp add: marked_before_strict_mono [OF m(1)])
  moreover have "unat b' - unat a' = unat b - unat a" if "unat a div 16 = unat b div 16"
  proof -
    have "line_of s a = line_of s b" using that unfolding line by simp
    then show ?thesis using a'(2) b'(2) ad by simp
  qed
  ultimately show ?thesis using a'(1) b'(1) le line'(3) by blast
qed

theorem forward_block_slides_witness:
  "\<exists>a' b'. forward_block (compute_forwarding ((new_mark_bits 4096 65536)\<lparr>marked := [6, 0, 0, 0]\<rparr>)) 65560 = Some a' \<and>
    forward_block (compute_forwarding ((new_mark_bits 4096 65536)\<lparr>marked := [6, 0, 0, 0]\<rparr>)) 65568 = Some b' \<and>
    a' \<le> 65560 \<and> unat a' div 16 < unat b' div 16"
proof -
  let ?s = "(new_mark_bits 4096 65536)\<lparr>marked := [6, 0, 0, 0]\<rparr>"
  have f: "mark_start ?s = 65536" "mark_size ?s = 4096" "bits_size ?s = 4"
    by (simp_all add: new_mark_bits_def clear_mark_bits_def clear_forwarding_def data_alignment_def mark_bits_granularity_def)
  have wf: "mark_wf ?s"
    using new_mark_bits_wf(1) [of 4096 65536] f by (simp add: mark_wf_def)
  have m: "marked_p ?s 65560 = Some True" "marked_p ?s 65568 = Some True" by code_simp+
  show ?thesis using forward_block_slides [OF wf _ _ _ m] by (auto simp: f word_le_nat_alt)
qed

text \<open>
  C12. The object start map finds objects: starting from an empty map, after recording an
  object on line \<open>p\<close> of the heap, the search for the object that reaches into a later card
  whose predecessors back to that object's card start no object returns the address of
  that object.
\<close>

theorem object_start_map_finds_recorded:
  assumes "osm_ok m objs" "unat obj = unat (osm_start m) + 16 * p" "p < 16 * length (object_start_offsets m)"
    and "p div 16 < unat c" "unat c \<le> length (object_start_offsets m)"
    and "\<forall>q\<in>objs. q < p \<and> q div 16 < p div 16 \<or> p \<le> q \<and> p div 16 = q div 16 \<or> unat c \<le> q div 16"
  shows "\<exists>m'. record_object_start_offset m obj = Some m' \<and> osm_ok m' (insert p objs) \<and>
    find_object_containing_card m' c = Some obj"
proof -
  obtain m' where m': "record_object_start_offset m obj = Some m'" "osm_ok m' (insert p objs)"
    using record_object_start_offset_ok [OF assms(1-3)] by blast
  then have e: "osm_start m' = osm_start m" "length (object_start_offsets m') = length (object_start_offsets m)"
    by (auto simp: record_object_start_offset_def Let_def split: if_splits)
  have c: "0 < c" using assms(4) by (simp add: word_gt_0 unat_gt_0 [symmetric])
  obtain a r where r: "find_object_containing_card m' c = Some a" "r \<in> insert p objs" "r div 16 < unat c"
      "unat a = unat (osm_start m') + 16 * r"
      "\<forall>q\<in>insert p objs. q div 16 < r div 16 \<or> q div 16 = r div 16 \<and> r \<le> q \<or> unat c \<le> q div 16"
    using find_object_containing_card_ok [OF m'(2) c, of p] assms(4,5) e(2) by auto
  have "r = p"
  proof (rule ccontr)
    assume "r \<noteq> p"
    then have "r < p \<and> r div 16 < p div 16 \<or> p \<le> r \<and> p div 16 = r div 16" using r(2,3) assms(6) by auto
    moreover have "p div 16 < r div 16 \<or> p div 16 = r div 16 \<and> r \<le> p" using r(5) assms(4) by auto
    ultimately show False using \<open>r \<noteq> p\<close> by linarith
  qed
  then have "a = obj" using r(4) assms(2) e(1) by (simp add: word_unat_eq_iff)
  then show ?thesis using m' r(1) by blast
qed

theorem object_start_map_finds_recorded_witness:
  "\<exists>m'. record_object_start_offset (new_object_start_map 7 4096 65536) 65568 = Some m' \<and>
    find_object_containing_card m' 5 = Some 65568"
proof -
  have ok: "osm_ok (new_object_start_map 7 4096 65536) {}" by (rule new_object_start_map_ok) simp_all
  have f: "osm_start (new_object_start_map 7 4096 65536) = 65536"
    "length (object_start_offsets (new_object_start_map 7 4096 65536)) = 16" by code_simp+
  show ?thesis using object_start_map_finds_recorded [OF ok, of 65568 2 5] by (auto simp: f)
qed

text \<open>
  C11. After a sweep the object start map describes the surviving objects: if the map was
  right for the objects of the heap and the marked lines are exactly those of the live
  ones, \<open>update_for_sweep\<close> returns a map that is right for the live objects.
\<close>

theorem update_for_sweep_keeps_live:
  assumes "osm_ok m objs" "objects_marked (line_marked s) objs live extent"
    "length (object_start_offsets m) = 4 * length (marked s)"
  shows "\<exists>m'. update_for_sweep m s = Some m' \<and> osm_ok m' live"
  by (rule update_for_sweep_ok [OF assms])

theorem update_for_sweep_keeps_live_witness:
  "\<exists>m'. update_for_sweep ((new_object_start_map 7 1024 65536)\<lparr>object_start_offsets := [0, 255, 255, 255]\<rparr>)
      ((new_mark_bits 1024 65536)\<lparr>marked := [48]\<rparr>) = Some m' \<and> osm_ok m' {4}"
proof (rule update_for_sweep_keeps_live)
  let ?m = "(new_object_start_map 7 1024 65536)\<lparr>object_start_offsets := [0, 255, 255, 255]\<rparr>"
  let ?s = "(new_mark_bits 1024 65536)\<lparr>marked := [48]\<rparr>" and ?n = "\<lambda>p. if p = 0 then 4 else 2 :: nat"
  have f: "osm_start ?m = 65536" "osm_size ?m = 1024" by (simp_all add: new_object_start_map_def clear_object_start_offsets_def)
  have first: "card_ok 0 (\<lambda>r. r \<in> {0, 4})" by (simp add: card_ok_def card_starts_inside_object_def exI [of _ 0])
  have rest: "card_ok 255 (\<lambda>r. 16 * Suc c + r \<in> {0, 4})" for c by (simp add: card_ok_def card_starts_inside_object_def)
  have "card_ok (object_start_offsets ?m ! c) (\<lambda>r. 16 * c + r \<in> {0, 4})" if "c < 4" for c
  proof -
    have "c = 0 \<or> c = 1 \<or> c = 2 \<or> c = 3" using that by linarith
    then show ?thesis using first rest [of 0] rest [of 1] rest [of 2] by (elim disjE) (simp_all del: insert_iff)
  qed
  then show "osm_ok ?m {0, 4}" by (simp add: osm_ok_def f del: insert_iff)
  have "line_marked ?s l \<longleftrightarrow> l = 4 \<or> l = 5" for l
  proof (cases "l < 64")
    case True
    have "\<forall>k\<in>set [0..<64]. bit (48 :: cell) k \<longleftrightarrow> k = 4 \<or> k = 5" by code_simp
    with True show ?thesis by (simp add: line_marked_def bits_line_def)
  qed (auto simp: line_marked_def bits_line_def)
  then have "line_marked ?s = (\<lambda>l. l = 4 \<or> l = 5)" by (rule ext)
  moreover have "objects_marked (\<lambda>l. l = 4 \<or> l = 5) {0, 4} {4} ?n" by (auto simp: objects_marked_def)
  ultimately show "objects_marked (line_marked ?s) {0, 4} {4} ?n" by (simp only:)
qed simp

text \<open>
  C4. Allocation from the free list is safe: on a well-formed allocator a request of any
  size from one byte up to the last that can be aligned never aborts. It either returns an
  aligned block of at least the requested size that was free before, no byte of which is
  free afterwards, leaving the other free bytes free and the allocator well formed; or it
  returns null and changes nothing, and then no large free block has room for the request
  rounded up to a whole page of blocks of its size.
\<close>

theorem allot_safe:
  assumes "free_wf (mem, fl)" "0 < unat sz" "unat sz + 15 < 2 ^ 64"
  shows "(\<exists>mem' fl' b. allot (mem, fl) sz = Some ((mem', fl'), Some b) \<and> free_wf (mem', fl') \<and> same_region fl fl' \<and>
      unat b mod 16 = 0 \<and> unat sz \<le> unat (header_size mem' b) \<and> unat (header_size mem' b) < unat sz + 16 \<and>
      span mem' b \<inter> free_bytes (mem', fl') = {} \<and> free_bytes (mem, fl) = free_bytes (mem', fl') \<union> span mem' b) \<or>
    allot (mem, fl) sz = Some ((mem, fl), None)"
proof -
  obtain n where n: "unat (align sz data_alignment) = n" "0 < n" "n mod 16 = 0" "unat sz \<le> n" "n < unat sz + 16"
    by (rule align_data_bounds [OF assms(2,3)])
  show ?thesis using allot_wf [OF assms(1) n(1-3)] n(4,5)
    by (auto simp: taken_def detached_def block_ok_def)
qed

theorem allot_safe_witness:
  "\<exists>mem fl mem' fl' b. new_free_list_allocator (\<lambda>_. 0) 4096 65536 = Some (mem, fl) \<and>
    (allot (mem, fl) 100 = Some ((mem', fl'), Some b) \<and> unat b mod 16 = 0 \<or> allot (mem, fl) 100 = Some ((mem, fl), None))"
proof -
  obtain mem fl where new: "new_free_list_allocator (\<lambda>_. 0) 4096 65536 = Some (mem, fl)" "free_wf (mem, fl)"
    using new_free_list_allocator_wf [of 4096 65536 "\<lambda>_. 0"] by auto
  show ?thesis using allot_safe [OF new(2), of 100] new(1) by auto
qed

text \<open>
  C7. Allocation and deallocation are inverse: giving back a block right after it was
  allocated restores exactly the free bytes of before and a well-formed allocator.
\<close>

theorem allot_free_roundtrip:
  assumes "free_wf (mem, fl)" "0 < unat sz" "unat sz + 15 < 2 ^ 64"
    and "allot (mem, fl) sz = Some ((mem', fl'), Some b)"
  shows "\<exists>mem'' fl''. free_block header_size (mem', fl') b = Some (mem'', fl'') \<and> free_wf (mem'', fl'') \<and>
    same_region fl fl'' \<and> free_bytes (mem'', fl'') = free_bytes (mem, fl) \<and> free_space fl'' = free_space fl"
proof -
  obtain n where n: "unat (align sz data_alignment) = n" "0 < n" "n mod 16 = 0"
    by (rule align_data_bounds [OF assms(2,3)])
  have t: "taken (mem, fl) (mem', fl') b" using allot_wf [OF assms(1) n] assms(4) by auto
  then have wf: "free_wf (mem', fl')" "same_region fl fl'" "free_bytes (mem, fl) = free_bytes (mem', fl') \<union> span mem' b"
    by (simp_all add: taken_def)
  obtain mem'' fl'' where f: "free_block header_size (mem', fl') b = Some (mem'', fl'')" "free_wf (mem'', fl'')"
      "same_region fl' fl''" "free_bytes (mem'', fl'') = free_bytes (mem', fl') \<union> span mem' b"
    using free_block_wf [OF wf(1), of b header_size] taken_fresh_range [OF t] by (auto simp: span_def)
  have "unat (free_space fl'') = unat (free_space fl)"
    using free_space_card(1) [OF f(2)] free_space_card(1) [OF assms(1)] f(4) wf(3) by simp
  then show ?thesis using f wf same_region_trans [OF wf(2) f(3)] by (simp add: word_unat_eq_iff)
qed

theorem allot_free_roundtrip_witness:
  "\<exists>mem fl mem' fl' b mem'' fl''. new_free_list_allocator (\<lambda>_. 0) 4096 65536 = Some (mem, fl) \<and>
    allot (mem, fl) 2000 = Some ((mem', fl'), Some b) \<and> free_block header_size (mem', fl') b = Some (mem'', fl'') \<and>
    free_bytes (mem'', fl'') = free_bytes (mem, fl)"
proof -
  obtain mem fl where new: "new_free_list_allocator (\<lambda>_. 0) 4096 65536 = Some (mem, fl)" "free_wf (mem, fl)"
    using new_free_list_allocator_wf [of 4096 65536 "\<lambda>_. 0"] by auto
  have "map_option (\<lambda>h. map_option (\<lambda>r. snd r \<noteq> None) (allot h 2000)) (new_free_list_allocator (\<lambda>_. 0) 4096 65536) = Some (Some True)"
    by code_simp
  then obtain mem' fl' b where a: "allot (mem, fl) 2000 = Some ((mem', fl'), Some b)" using new(1) by auto
  show ?thesis using allot_free_roundtrip [OF new(2) _ _ a] new(1) a by auto
qed

text \<open>
  C29. The guard \<open>can_allot_p\<close> is a promise for large requests: when it holds for a request of
  more than 496 bytes, the allocation that follows returns a block.
\<close>

theorem can_allot_p_promise:
  assumes "free_wf (mem, fl)" "can_allot_p (mem, fl) sz = Some True" "496 < unat sz"
  shows "\<exists>mem' fl' b. allot (mem, fl) sz = Some ((mem', fl'), Some b) \<and> free_wf (mem', fl') \<and>
    span mem' b \<subseteq> free_bytes (mem, fl)"
  using allot_succeeds [OF assms] by (auto simp: taken_def)

theorem can_allot_p_promise_witness:
  "\<exists>mem fl mem' fl' b. new_free_list_allocator (\<lambda>_. 0) 4096 65536 = Some (mem, fl) \<and> allot (mem, fl) 3000 = Some ((mem', fl'), Some b)"
proof -
  obtain mem fl where new: "new_free_list_allocator (\<lambda>_. 0) 4096 65536 = Some (mem, fl)" "free_wf (mem, fl)"
    using new_free_list_allocator_wf [of 4096 65536 "\<lambda>_. 0"] by auto
  have "Option.bind (new_free_list_allocator (\<lambda>_. 0) 4096 65536) (\<lambda>h. can_allot_p h 3000) = Some True" by code_simp
  then have "can_allot_p (mem, fl) 3000 = Some True" using new(1) by simp
  from can_allot_p_promise [OF new(2) this] show ?thesis using new(1) by auto
qed




text \<open>
  C6. Sweeping terminates and rebuilds the free list from the bitmap: whatever the lists
  held before, afterwards the allocator is well formed and its free bytes are exactly those
  of the unmarked lines.
\<close>

theorem sweep_frees_unmarked:
  assumes "state_ok fl"
  shows "\<exists>mem' fl'. sweep (mem, fl) = Some (mem', fl') \<and> free_wf (mem', fl') \<and> same_region fl fl' \<and>
    (\<forall>a. a \<in> free_bytes (mem', fl') \<longleftrightarrow> unat (fl_start fl) \<le> a \<and> a < unat (fl_end fl) \<and>
      \<not> line_marked (fl_state fl) ((a - unat (fl_start fl)) div 16))"
  using sweep_wf [OF assms, of mem] state_ok_end [OF assms] by (auto simp: unmarked_bytes_def)

definition example_region :: free_list where
  "example_region =
    \<lparr>fl_start = 65536, fl_end = 66560, fl_size = 1024, small_blocks = [], large_blocks = [], free_block_count = 0, free_space = 0,
     fl_state = (new_mark_bits 1024 65536)\<lparr>marked := [6]\<rparr>\<rparr>"

lemma example_region_ok: "state_ok example_region"
  using new_mark_bits_wf(1) [of 1024 65536]
  by (simp add: state_ok_def heap_bounds_def example_region_def mark_wf_def new_mark_bits_def clear_mark_bits_def
      clear_forwarding_def data_alignment_def mark_bits_granularity_def)

lemma example_region_marked: "line_marked (fl_state example_region) l \<longleftrightarrow> l = 1 \<or> l = 2"
proof (cases "l < 64")
  case True
  have "\<forall>k\<in>set [0..<64]. bit (6 :: cell) k \<longleftrightarrow> k = 1 \<or> k = 2" by code_simp
  with True show ?thesis by (simp add: line_marked_def bits_line_def example_region_def)
qed (auto simp: line_marked_def bits_line_def example_region_def)

theorem sweep_frees_unmarked_witness:
  "\<exists>mem' fl'. sweep (\<lambda>_. 0, example_region) = Some (mem', fl') \<and> 65536 \<in> free_bytes (mem', fl') \<and> 65552 \<notin> free_bytes (mem', fl')"
proof -
  have "unat (fl_start example_region) = 65536" "unat (fl_end example_region) = 66560" by (simp_all add: example_region_def)
  moreover have "\<not> line_marked (fl_state example_region) 0" "line_marked (fl_state example_region) 1"
    by (simp_all add: example_region_marked)
  ultimately show ?thesis using sweep_frees_unmarked [OF example_region_ok, of "\<lambda>_. 0"] by auto
qed



end
