(* ===== verification/Heap_Objects.thy ===== *)
theory Heap_Objects
  imports Free_List_Inv
begin

text \<open>
  The layout of objects in memory (the structures of \<open>vm/layouts.hpp\<close> with the size functions
  of \<open>vm/generic_arrays.hpp\<close>, \<open>vm/callstack.hpp\<close> and the beginning of \<open>vm/slot_visitor.hpp\<close>).

  A structure is given by its size and by the addresses of its fields; an object is its
  address, and a field is the cell of memory at its address. A size or a slot count is
  \<open>None\<close> where the code reports a critical error or an assertion fails: the object has no
  valid header, or a length field is no fixnum. The fix-up object that the collectors pass
  down to find a tuple's layout is the function \<open>translate_data\<close>.
\<close>

unbundle bit_operations_syntax

subsection \<open>Structures\<close>

text \<open>\<open>array\<close>, \<open>bignum\<close> and \<open>byte_array\<close>: a header, the tagged capacity, the elements.\<close>

definition sizeof_array :: cell where
  "sizeof_array = 16"

definition array_capacity_field :: "cell \<Rightarrow> cell" where
  "array_capacity_field a = a + 8"

definition array_data :: "cell \<Rightarrow> cell" where
  "array_data a = a + sizeof_array"

fun element_size :: "vm_type \<Rightarrow> cell" where
  "element_size BYTE_ARRAY_TYPE = 1"
| "element_size _ = sizeof_cell"

definition tuple_layout_size_field :: "cell \<Rightarrow> cell" where
  "tuple_layout_size_field a = a + 24"

definition sizeof_string :: cell where
  "sizeof_string = 32"

definition string_length_field :: "cell \<Rightarrow> cell" where
  "string_length_field a = a + 8"

definition string_aux_field :: "cell \<Rightarrow> cell" where
  "string_aux_field a = a + 16"

definition string_hashcode_field :: "cell \<Rightarrow> cell" where
  "string_hashcode_field a = a + 24"

definition string_data :: "cell \<Rightarrow> cell" where
  "string_data a = a + sizeof_string"

definition sizeof_word :: cell where
  "sizeof_word = 80"

definition word_entry_point_field :: "cell \<Rightarrow> cell" where
  "word_entry_point_field a = a + 72"

definition sizeof_wrapper :: cell where
  "sizeof_wrapper = 16"

definition sizeof_boxed_float :: cell where
  "sizeof_boxed_float = 16"

definition sizeof_quotation :: cell where
  "sizeof_quotation = 40"

definition quotation_entry_point_field :: "cell \<Rightarrow> cell" where
  "quotation_entry_point_field a = a + 32"

definition sizeof_alien :: cell where
  "sizeof_alien = 40"

definition alien_base_field :: "cell \<Rightarrow> cell" where
  "alien_base_field a = a + 8"

definition alien_displacement_field :: "cell \<Rightarrow> cell" where
  "alien_displacement_field a = a + 24"

definition alien_address_field :: "cell \<Rightarrow> cell" where
  "alien_address_field a = a + 32"

definition update_address :: "memory \<Rightarrow> cell \<Rightarrow> memory" where
  "update_address mem a =
     (let base = mem (alien_base_field a); displacement = mem (alien_displacement_field a) in
      mem(alien_address_field a :=
        (if base = false_object then displacement else UNTAG base + sizeof_array + displacement)))"

definition sizeof_dll :: cell where
  "sizeof_dll = 24"

definition sizeof_callstack :: cell where
  "sizeof_callstack = 16"

definition callstack_length_field :: "cell \<Rightarrow> cell" where
  "callstack_length_field a = a + 8"

definition frame_top_at :: "cell \<Rightarrow> cell \<Rightarrow> cell" where
  "frame_top_at a offset = a + sizeof_callstack + offset"

definition sizeof_tuple :: cell where
  "sizeof_tuple = 16"

definition tuple_layout_field :: "cell \<Rightarrow> cell" where
  "tuple_layout_field a = a + 8"

definition tuple_data :: "cell \<Rightarrow> cell" where
  "tuple_data a = a + sizeof_tuple"

subsection \<open>Sizes\<close>

text \<open>\<open>untag_fixnum\<close> where the result is used as a cell.\<close>

definition untag_length :: "cell \<Rightarrow> cell option" where
  "untag_length c = map_option word_of_int (untag_fixnum c)"

definition array_capacity :: "vm_type \<Rightarrow> memory \<Rightarrow> cell \<Rightarrow> cell option" where
  "array_capacity ty mem a =
     (if object_type (mem a) = type_number ty then Some (drop_bit TAG_BITS (mem (array_capacity_field a))) else None)"

definition array_size :: "vm_type \<Rightarrow> cell \<Rightarrow> cell" where
  "array_size ty capacity = sizeof_array + capacity * element_size ty"

definition array_object_size :: "vm_type \<Rightarrow> memory \<Rightarrow> cell \<Rightarrow> cell option" where
  "array_object_size ty mem a = map_option (array_size ty) (array_capacity ty mem a)"

definition tuple_capacity :: "memory \<Rightarrow> cell \<Rightarrow> cell option" where
  "tuple_capacity mem layout = untag_length (mem (tuple_layout_size_field layout))"

definition tuple_size :: "memory \<Rightarrow> cell \<Rightarrow> cell option" where
  "tuple_size mem layout = map_option (\<lambda>n. sizeof_tuple + n * sizeof_cell) (tuple_capacity mem layout)"

definition string_capacity :: "memory \<Rightarrow> cell \<Rightarrow> cell option" where
  "string_capacity mem str = untag_length (mem (string_length_field str))"

definition string_size :: "cell \<Rightarrow> cell" where
  "string_size n = sizeof_string + n"

definition callstack_object_size :: "cell \<Rightarrow> cell" where
  "callstack_object_size n = sizeof_callstack + n"

text \<open>The layout of a tuple, through the fix-up.\<close>

definition tuple_layout_of :: "(cell \<Rightarrow> cell option) \<Rightarrow> memory \<Rightarrow> cell \<Rightarrow> cell option" where
  "tuple_layout_of translate_data mem obj = translate_data (UNTAG (mem (tuple_layout_field obj)))"

definition base_size :: "(cell \<Rightarrow> cell option) \<Rightarrow> memory \<Rightarrow> cell \<Rightarrow> cell option" where
  "base_size translate_data mem obj =
     (let t = object_type (mem obj) in
      if t = type_number ARRAY_TYPE then array_object_size ARRAY_TYPE mem obj
      else if t = type_number BIGNUM_TYPE then array_object_size BIGNUM_TYPE mem obj
      else if t = type_number BYTE_ARRAY_TYPE then array_object_size BYTE_ARRAY_TYPE mem obj
      else if t = type_number STRING_TYPE then map_option string_size (string_capacity mem obj)
      else if t = type_number TUPLE_TYPE then do { layout \<leftarrow> tuple_layout_of translate_data mem obj; tuple_size mem layout }
      else if t = type_number QUOTATION_TYPE then Some sizeof_quotation
      else if t = type_number WORD_TYPE then Some sizeof_word
      else if t = type_number FLOAT_TYPE then Some sizeof_boxed_float
      else if t = type_number DLL_TYPE then Some sizeof_dll
      else if t = type_number ALIEN_TYPE then Some sizeof_alien
      else if t = type_number WRAPPER_TYPE then Some sizeof_wrapper
      else if t = type_number CALLSTACK_TYPE
      then map_option callstack_object_size (untag_length (mem (callstack_length_field obj)))
      else None)"

definition object_size_fixup :: "(cell \<Rightarrow> cell option) \<Rightarrow> memory \<Rightarrow> cell \<Rightarrow> cell option" where
  "object_size_fixup translate_data mem obj =
     (if free_p (mem obj) then free_block_size mem obj
      else map_option (\<lambda>n. align n data_alignment) (base_size translate_data mem obj))"

definition object_size :: "memory \<Rightarrow> cell \<Rightarrow> cell option" where
  "object_size = object_size_fixup Some"

definition slot_count_fixup :: "(cell \<Rightarrow> cell option) \<Rightarrow> memory \<Rightarrow> cell \<Rightarrow> cell option" where
  "slot_count_fixup translate_data mem obj =
     (if free_p (mem obj) then Some 0
      else let t = object_type (mem obj) in
        if t = type_number ARRAY_TYPE then map_option (\<lambda>n. 1 + n) (array_capacity ARRAY_TYPE mem obj)
        else if t = type_number TUPLE_TYPE
        then do { layout \<leftarrow> tuple_layout_of translate_data mem obj; map_option (\<lambda>n. 1 + n) (tuple_capacity mem layout) }
        else if t \<in> {type_number FLOAT_TYPE, type_number BYTE_ARRAY_TYPE, type_number BIGNUM_TYPE, type_number CALLSTACK_TYPE}
        then Some 0
        else if t = type_number WORD_TYPE then Some 8
        else if t = type_number ALIEN_TYPE then Some 2
        else if t = type_number DLL_TYPE then Some 1
        else if t = type_number QUOTATION_TYPE then Some 3
        else if t = type_number STRING_TYPE then Some 3
        else if t = type_number WRAPPER_TYPE then Some 1
        else None)"

definition slot_count :: "memory \<Rightarrow> cell \<Rightarrow> cell option" where
  "slot_count = slot_count_fixup Some"

text \<open>\<open>objects.cpp\<close>: the size of what a tagged cell points to, nothing for an immediate.\<close>

definition object_size_tagged :: "memory \<Rightarrow> cell \<Rightarrow> cell option" where
  "object_size_tagged mem v = (if immediate_p v then Some 0 else object_size mem (UNTAG v))"

subsection \<open>Well-formed objects\<close>

text \<open>
  An object is well formed when its header has a heap type and is not free, and its length
  field, if it has one, holds a length that an allocating primitive accepts.
\<close>

definition length_ok :: "cell option \<Rightarrow> bool" where
  "length_ok c \<longleftrightarrow> (\<exists>n. c = Some n \<and> unat n \<le> 2 ^ 58)"

fun fields_ok :: "(cell \<Rightarrow> cell option) \<Rightarrow> memory \<Rightarrow> cell \<Rightarrow> vm_type \<Rightarrow> bool" where
  "fields_ok translate_data mem obj FIXNUM_TYPE = False"
| "fields_ok translate_data mem obj F_TYPE = False"
| "fields_ok translate_data mem obj ARRAY_TYPE = length_ok (array_capacity ARRAY_TYPE mem obj)"
| "fields_ok translate_data mem obj BIGNUM_TYPE = length_ok (array_capacity BIGNUM_TYPE mem obj)"
| "fields_ok translate_data mem obj BYTE_ARRAY_TYPE = length_ok (array_capacity BYTE_ARRAY_TYPE mem obj)"
| "fields_ok translate_data mem obj STRING_TYPE = length_ok (string_capacity mem obj)"
| "fields_ok translate_data mem obj CALLSTACK_TYPE = length_ok (untag_length (mem (callstack_length_field obj)))"
| "fields_ok translate_data mem obj TUPLE_TYPE =
     length_ok (do { layout \<leftarrow> tuple_layout_of translate_data mem obj; tuple_capacity mem layout })"
| "fields_ok translate_data mem obj _ = True"

definition object_ok :: "(cell \<Rightarrow> cell option) \<Rightarrow> memory \<Rightarrow> cell \<Rightarrow> bool" where
  "object_ok translate_data mem obj \<longleftrightarrow> \<not> free_p (mem obj) \<and>
     (\<exists>ty. object_type (mem obj) = type_number ty \<and> fields_ok translate_data mem obj ty)"

lemma sizeof_simps [simp]:
  "sizeof_array = 16" "sizeof_string = 32" "sizeof_word = 80" "sizeof_wrapper = 16" "sizeof_boxed_float = 16"
  "sizeof_quotation = 40" "sizeof_alien = 40" "sizeof_dll = 24" "sizeof_callstack = 16" "sizeof_tuple = 16"
  by (simp_all add: sizeof_array_def sizeof_string_def sizeof_word_def sizeof_wrapper_def sizeof_boxed_float_def
      sizeof_quotation_def sizeof_alien_def sizeof_dll_def sizeof_callstack_def sizeof_tuple_def)

lemma length_unat:
  fixes n :: cell
  assumes "unat n \<le> 2 ^ 58"
  shows "unat (16 + n * 8) = 16 + unat n * 8" "unat (16 + n) = 16 + unat n" "unat (32 + n) = 32 + unat n" "unat (1 + n) = 1 + unat n"
  using assms by (simp_all add: unat_word_ariths)

text \<open>The part of an object that is scanned fits in it, and its size is below \<open>2 ^ 62\<close>.\<close>

lemma base_size_slots:
  assumes "object_ok tr mem obj"
  shows "\<exists>b k. base_size tr mem obj = Some b \<and> slot_count_fixup tr mem obj = Some k \<and>
    8 * (1 + unat k) \<le> unat b \<and> unat b < 2 ^ 62"
proof -
  obtain ty where h: "\<not> free_p (mem obj)" "object_type (mem obj) = type_number ty" "fields_ok tr mem obj ty"
    using assms by (auto simp: object_ok_def)
  show ?thesis
    by (cases ty) (use h in \<open>auto simp: length_ok_def base_size_def slot_count_fixup_def array_object_size_def
      array_size_def string_size_def callstack_object_size_def tuple_size_def length_unat Let_def bind_eq_Some_conv\<close>)
qed

lemma object_size_slots:
  assumes "object_ok tr mem obj"
  obtains n k where "object_size_fixup tr mem obj = Some n" "slot_count_fixup tr mem obj = Some k"
    "8 * (1 + unat k) \<le> unat n" "unat n mod 16 = 0" "16 \<le> unat n" "unat n \<le> 2 ^ 62"
proof -
  obtain b k where b: "base_size tr mem obj = Some b" "slot_count_fixup tr mem obj = Some k"
    "8 * (1 + unat k) \<le> unat b" "unat b < 2 ^ 62" using base_size_slots [OF assms] by blast
  have "unat b + 15 < 2 ^ 64" "0 < unat b" using b(3,4) by simp_all
  then obtain n where n: "unat (align b data_alignment) = n" "0 < n" "n mod 16 = 0" "unat b \<le> n" "n < unat b + 16"
    using align_data_bounds by blast
  have "n \<le> 2 ^ 62"
  proof -
    obtain q where q: "n = 16 * q" using n(3) by auto
    have "q \<le> 2 ^ 58" using n(5) b(4) q by simp
    then show ?thesis using q by simp
  qed
  moreover have "16 \<le> n" using n(2,3) by (metis dvd_imp_le mod_0_imp_dvd)
  moreover have "object_size_fixup tr mem obj = Some (align b data_alignment)"
    using assms b(1) by (simp add: object_size_fixup_def object_ok_def)
  ultimately show ?thesis using that [of "align b data_alignment" k] b n by simp
qed

end
