(* ===== verification/Spaces.thy ===== *)
theory Spaces
  imports Heap_Objects Object_Starts
begin

text \<open>
  The spaces of the data heap: the nursery (\<open>vm/bump_allocator.hpp\<close>), aging space
  (\<open>vm/aging_space.hpp\<close>) and tenured space (\<open>vm/tenured_space.hpp\<close>), the latter two with
  object start maps. A null pointer is \<open>None\<close> inside a result, an abort is an outer \<open>None\<close>.
\<close>

unbundle bit_operations_syntax

subsection \<open>Bump allocator\<close>

record bump_allocator =
  here :: cell
  ba_start :: cell
  ba_end :: cell
  ba_size :: cell

definition new_bump_allocator :: "cell \<Rightarrow> cell \<Rightarrow> bump_allocator" where
  "new_bump_allocator sz start = \<lparr>here = start, ba_start = start, ba_end = start + sz, ba_size = sz\<rparr>"

definition ba_contains_p :: "bump_allocator \<Rightarrow> cell \<Rightarrow> bool" where
  "ba_contains_p ba obj \<longleftrightarrow> obj \<ge> ba_start ba \<and> obj < ba_end ba"

definition ba_allot :: "bump_allocator \<Rightarrow> cell \<Rightarrow> bump_allocator \<times> cell" where
  "ba_allot ba sz = (let h = here ba in (ba\<lparr>here := h + align sz data_alignment\<rparr>, h))"

definition ba_occupied_space :: "bump_allocator \<Rightarrow> cell" where
  "ba_occupied_space ba = here ba - ba_start ba"

definition ba_free_space :: "bump_allocator \<Rightarrow> cell" where
  "ba_free_space ba = ba_end ba - here ba"

text \<open>\<open>memset_cell\<close> of \<open>vm/utilities.hpp\<close>: whole cells from \<open>dst\<close> on, as long as they start inside.\<close>

definition memset_cell :: "memory \<Rightarrow> cell \<Rightarrow> cell \<Rightarrow> cell \<Rightarrow> memory" where
  "memset_cell mem dst pattern sz =
     (\<lambda>a. if unat dst \<le> unat a \<and> unat a < unat dst + unat sz \<and> (unat a - unat dst) mod 8 = 0 then pattern else mem a)"

text \<open>The debug build fills a flushed space with a pattern; a release build leaves it.\<close>

definition ba_flush :: "bool \<Rightarrow> memory \<Rightarrow> bump_allocator \<Rightarrow> memory \<times> bump_allocator" where
  "ba_flush debug mem ba =
     (if debug then memset_cell mem (ba_start ba) 0xbaadbaad (ba_size ba) else mem, ba\<lparr>here := ba_start ba\<rparr>)"

subsection \<open>Aging space\<close>

record aging_space =
  as_bump :: bump_allocator
  as_starts :: object_start_map

definition new_aging_space :: "card \<Rightarrow> cell \<Rightarrow> cell \<Rightarrow> aging_space" where
  "new_aging_space garbage sz start =
     \<lparr>as_bump = new_bump_allocator sz start, as_starts = new_object_start_map garbage sz start\<rparr>"

definition as_allot :: "aging_space \<Rightarrow> cell \<Rightarrow> (aging_space \<times> cell option) option" where
  "as_allot as sz =
     (if here (as_bump as) + sz > ba_end (as_bump as) then Some (as, None)
      else let (ba, obj) = ba_allot (as_bump as) sz in do {
        starts \<leftarrow> record_object_start_offset (as_starts as) obj;
        Some (\<lparr>as_bump = ba, as_starts = starts\<rparr>, Some obj) })"

definition as_next_object_after :: "memory \<Rightarrow> aging_space \<Rightarrow> cell \<Rightarrow> cell option" where
  "as_next_object_after mem as scan = do {
     sz \<leftarrow> object_size mem scan;
     Some (if scan + sz < here (as_bump as) then scan + sz else 0) }"

definition as_first_object :: "aging_space \<Rightarrow> cell" where
  "as_first_object as = (if ba_start (as_bump as) \<noteq> here (as_bump as) then ba_start (as_bump as) else 0)"

subsection \<open>Tenured space\<close>

record tenured_space =
  ts_free :: free_list
  ts_starts :: object_start_map

definition new_tenured_space :: "card \<Rightarrow> memory \<Rightarrow> cell \<Rightarrow> cell \<Rightarrow> (memory \<times> tenured_space) option" where
  "new_tenured_space garbage mem sz start = do {
     (mem', fl) \<leftarrow> new_free_list_allocator mem sz start;
     Some (mem', \<lparr>ts_free = fl, ts_starts = new_object_start_map garbage sz start\<rparr>) }"

definition ts_allot :: "memory \<times> tenured_space \<Rightarrow> cell \<Rightarrow> ((memory \<times> tenured_space) \<times> cell option) option" where
  "ts_allot h sz = (let (mem, ts) = h in do {
     ((mem', fl), obj) \<leftarrow> allot (mem, ts_free ts) sz;
     case obj of
       Some obj \<Rightarrow> do {
         starts \<leftarrow> record_object_start_offset (ts_starts ts) obj;
         Some ((mem', \<lparr>ts_free = fl, ts_starts = starts\<rparr>), Some obj) }
     | None \<Rightarrow> Some ((mem', ts\<lparr>ts_free := fl\<rparr>), None) })"

partial_function (option) next_allocated_object_after :: "memory \<Rightarrow> cell \<Rightarrow> cell \<Rightarrow> cell option" where
  "next_allocated_object_after mem limit scan =
     (if scan \<noteq> limit \<and> free_p (mem scan)
      then do { sz \<leftarrow> free_block_size mem scan; next_allocated_object_after mem limit (scan + sz) }
      else Some (if scan = limit then 0 else scan))"

definition ts_first_object :: "memory \<Rightarrow> tenured_space \<Rightarrow> cell option" where
  "ts_first_object mem ts = next_allocated_object_after mem (fl_end (ts_free ts)) (fl_start (ts_free ts))"

definition ts_next_object_after :: "memory \<Rightarrow> tenured_space \<Rightarrow> cell \<Rightarrow> cell option" where
  "ts_next_object_after mem ts scan = do {
     sz \<leftarrow> object_size mem scan;
     next_allocated_object_after mem (fl_end (ts_free ts)) (scan + sz) }"

definition ts_sweep :: "memory \<times> tenured_space \<Rightarrow> (memory \<times> tenured_space) option" where
  "ts_sweep h = (let (mem, ts) = h in do {
     (mem', fl) \<leftarrow> sweep (mem, ts_free ts);
     starts \<leftarrow> update_for_sweep (ts_starts ts) (fl_state fl);
     Some (mem', \<lparr>ts_free = fl, ts_starts = starts\<rparr>) })"

subsection \<open>Invariants\<close>

definition bump_wf :: "bump_allocator \<Rightarrow> bool" where
  "bump_wf ba \<longleftrightarrow> ba_end ba = ba_start ba + ba_size ba \<and> unat (ba_start ba) + unat (ba_size ba) < 2 ^ 63 \<and>
     unat (ba_start ba) mod 16 = 0 \<and> unat (ba_size ba) mod 16 = 0 \<and> unat (here ba) mod 16 = 0 \<and>
     unat (ba_start ba) \<le> unat (here ba) \<and> unat (here ba) \<le> unat (ba_end ba)"

definition bump_free :: "bump_allocator \<Rightarrow> nat set" where
  "bump_free ba = {unat (here ba) ..< unat (ba_end ba)}"

lemma bump_wf_end:
  assumes "bump_wf ba"
  shows "unat (ba_end ba) = unat (ba_start ba) + unat (ba_size ba)" "unat (ba_end ba) < 2 ^ 63" "unat (ba_end ba) mod 16 = 0"
proof -
  have "unat (ba_start ba) + unat (ba_size ba) < 2 ^ 64" using assms by (simp add: bump_wf_def)
  then show e: "unat (ba_end ba) = unat (ba_start ba) + unat (ba_size ba)"
    using assms unat_add_exact [of "ba_start ba" "ba_size ba"] by (simp add: bump_wf_def)
  show "unat (ba_end ba) < 2 ^ 63" "unat (ba_end ba) mod 16 = 0" unfolding e using assms by (auto simp: bump_wf_def)
qed

lemma new_bump_allocator_wf:
  assumes "unat start + unat sz < 2 ^ 63" "unat start mod 16 = 0" "unat sz mod 16 = 0"
  shows "bump_wf (new_bump_allocator sz start)" "bump_free (new_bump_allocator sz start) = {unat start ..< unat start + unat sz}"
proof -
  have "unat start + unat sz < 2 ^ 64" using assms(1) by simp
  then have "unat (start + sz) = unat start + unat sz" by (rule unat_add_exact)
  then show "bump_wf (new_bump_allocator sz start)" "bump_free (new_bump_allocator sz start) = {unat start ..< unat start + unat sz}"
    using assms by (auto simp: bump_wf_def bump_free_def new_bump_allocator_def)
qed

text \<open>
  The check the callers make before they bump compares the unaligned size with the end of
  the space. Because both ends are aligned, what passes it also fits after alignment.
\<close>

lemma ba_allot_wf:
  assumes wf: "bump_wf ba" and sz: "request_ok sz" and fits: "\<not> here ba + sz > ba_end ba"
  obtains ba' where "ba_allot ba sz = (ba', here ba)" "bump_wf ba'" "ba_start ba' = ba_start ba" "ba_end ba' = ba_end ba"
    "ba_size ba' = ba_size ba" "bump_free ba = bump_free ba' \<union> {unat (here ba) ..< unat (here ba')}"
    "unat (here ba) + unat sz \<le> unat (here ba')" "unat (here ba') < unat (here ba) + unat sz + 16"
proof -
  obtain n where n: "unat (align sz data_alignment) = n" "0 < n" "n mod 16 = 0" "unat sz \<le> n" "n < unat sz + 16"
    by (rule request_aligned [OF sz])
  note e = bump_wf_end [OF wf]
  have h: "unat (here ba) \<le> unat (ba_end ba)" "unat (here ba) mod 16 = 0" using wf unfolding bump_wf_def by blast+
  have "unat (here ba) + unat sz < 2 ^ 64" using h(1) e(2) sz by (simp add: request_ok_def)
  then have "unat (here ba + sz) = unat (here ba) + unat sz" by (rule unat_add_exact)
  then have le: "unat (here ba) + unat sz \<le> unat (ba_end ba)" using fits by (simp add: word_less_nat_alt)
  obtain q where q0: "unat (ba_end ba) = 16 * q" using e(3) by auto
  obtain m where m0: "unat (here ba) = 16 * m" using h(2) by auto
  obtain k where k0: "n = 16 * k" using n(3) by auto
  note q = q0 m0 k0
  have fit: "unat (here ba) + n \<le> unat (ba_end ba)"
  proof -
    have "16 * (m + k) < 16 * (q + 1)" using le n(5) q by simp
    then have "m + k \<le> q" by simp
    then show ?thesis using q by simp
  qed
  let ?ba = "ba\<lparr>here := here ba + align sz data_alignment\<rparr>"
  have hn: "unat (here ?ba) = unat (here ba) + n" using fit n(1) by (simp add: unat_add_le)
  have "bump_wf ?ba" using wf hn fit q unfolding bump_wf_def by simp
  moreover have "bump_free ba = bump_free ?ba \<union> {unat (here ba) ..< unat (here ?ba)}"
    using hn fit unfolding bump_free_def by auto
  ultimately show ?thesis using that [of ?ba] hn n by (simp add: ba_allot_def Let_def)
qed

definition starts_at :: "object_start_map \<Rightarrow> cell \<Rightarrow> cell \<Rightarrow> bool" where
  "starts_at m start sz \<longleftrightarrow> osm_start m = start \<and> osm_size m = sz"

definition aging_wf :: "aging_space \<Rightarrow> bool" where
  "aging_wf as \<longleftrightarrow> bump_wf (as_bump as) \<and> starts_at (as_starts as) (ba_start (as_bump as)) (ba_size (as_bump as)) \<and>
     (\<exists>objs. osm_ok (as_starts as) objs)"

lemma record_start:
  assumes ok: "osm_ok m objs" and st: "starts_at m start sz"
    and b: "unat start \<le> unat b" "unat b < unat start + unat sz" "unat b mod 16 = 0"
  shows "\<exists>m'. record_object_start_offset m b = Some m' \<and> osm_ok m' (insert ((unat b - unat start) div 16) objs) \<and> starts_at m' start sz"
proof -
  have s: "osm_start m = start" "unat start mod 256 = 0" "unat sz = 256 * length (object_start_offsets m)"
    using ok st by (auto simp: osm_ok_def starts_at_def)
  obtain c where c: "unat start = 256 * c" using s(2) by auto
  obtain d where d: "unat b = 16 * d" using b(3) by auto
  have p: "unat b = unat start + 16 * (d - 16 * c)" using b(1) c d by simp
  let ?p = "d - 16 * c"
  have "?p < 16 * length (object_start_offsets m)" using p b(2) s(3) by simp
  then obtain m' where m': "record_object_start_offset m b = Some m'" "osm_ok m' (insert ?p objs)"
    using record_object_start_offset_ok [OF ok, of b ?p] p s(1) by auto
  then have "starts_at m' start sz" using st
    by (auto simp: record_object_start_offset_def starts_at_def Let_def split: if_splits)
  then show ?thesis using m' p by auto
qed

lemma as_allot_wf:
  assumes wf: "aging_wf as" and sz: "request_ok sz"
  shows "(\<exists>as'. as_allot as sz = Some (as', Some (here (as_bump as))) \<and> aging_wf as' \<and>
      ba_start (as_bump as') = ba_start (as_bump as) \<and> ba_end (as_bump as') = ba_end (as_bump as) \<and>
      bump_free (as_bump as) = bump_free (as_bump as') \<union> {unat (here (as_bump as)) ..< unat (here (as_bump as'))} \<and>
      unat (here (as_bump as)) + unat sz \<le> unat (here (as_bump as')) \<and> unat (here (as_bump as')) < unat (here (as_bump as)) + unat sz + 16) \<or>
    as_allot as sz = Some (as, None) \<and> unat (ba_end (as_bump as)) < unat (here (as_bump as)) + unat sz"
proof (cases "here (as_bump as) + sz > ba_end (as_bump as)")
  case True
  have "unat (here (as_bump as) + sz) \<le> unat (here (as_bump as)) + unat sz" by (simp add: unat_word_ariths mod_less_eq_dividend)
  then show ?thesis using True by (simp add: as_allot_def word_less_nat_alt)
next
  case False
  have b: "bump_wf (as_bump as)" "starts_at (as_starts as) (ba_start (as_bump as)) (ba_size (as_bump as))"
    using wf by (simp_all add: aging_wf_def)
  obtain objs where objs: "osm_ok (as_starts as) objs" using wf by (auto simp: aging_wf_def)
  obtain ba where ba: "ba_allot (as_bump as) sz = (ba, here (as_bump as))" "bump_wf ba" "ba_start ba = ba_start (as_bump as)"
    "ba_end ba = ba_end (as_bump as)" "ba_size ba = ba_size (as_bump as)"
    "bump_free (as_bump as) = bump_free ba \<union> {unat (here (as_bump as)) ..< unat (here ba)}"
    "unat (here (as_bump as)) + unat sz \<le> unat (here ba)" "unat (here ba) < unat (here (as_bump as)) + unat sz + 16"
    by (rule ba_allot_wf [OF b(1) sz False])
  have h: "unat (ba_start (as_bump as)) \<le> unat (here (as_bump as))" "unat (here (as_bump as)) mod 16 = 0"
    "unat (here ba) \<le> unat (ba_end ba)" using b(1) ba(2) unfolding bump_wf_def by blast+
  have "unat (here (as_bump as)) < unat (ba_start (as_bump as)) + unat (ba_size (as_bump as))"
    using h(3) ba(4,7) sz bump_wf_end(1) [OF b(1)] by (simp add: request_ok_def)
  then obtain m where m: "record_object_start_offset (as_starts as) (here (as_bump as)) = Some m" "\<exists>objs. osm_ok m objs"
    "starts_at m (ba_start (as_bump as)) (ba_size (as_bump as))" using record_start [OF objs b(2) h(1) _ h(2)] by blast
  have "as_allot as sz = Some (\<lparr>as_bump = ba, as_starts = m\<rparr>, Some (here (as_bump as)))"
    using False ba(1) m(1) by (simp add: as_allot_def)
  moreover have "aging_wf \<lparr>as_bump = ba, as_starts = m\<rparr>" using ba(2,3,5) m(2,3) by (simp add: aging_wf_def)
  ultimately show ?thesis using ba(3,4,6-) by auto
qed

lemma bump_block:
  assumes a: "bump_free A = bump_free B \<union> {unat b ..< unat (here B)}" "unat b + unat sz \<le> unat (here B)"
  shows "block_bytes b sz \<subseteq> bump_free A \<and> bump_free B \<subseteq> bump_free A - block_bytes b sz"
proof -
  have "block_bytes b sz \<subseteq> {unat b ..< unat (here B)}" using a(2) by (auto simp: block_bytes_def)
  moreover have "{unat b ..< unat (here B)} \<inter> bump_free B = {}" by (auto simp: bump_free_def)
  ultimately show ?thesis using a(1) by blast
qed

definition as_allot_op :: "memory \<times> aging_space \<Rightarrow> cell \<Rightarrow> ((memory \<times> aging_space) \<times> cell option) option" where
  "as_allot_op h sz = map_option (\<lambda>(as, r). ((fst h, as), r)) (as_allot (snd h) sz)"

interpretation aging: block_allocator "\<lambda>h. aging_wf (snd h)" "\<lambda>h. bump_free (as_bump (snd h))" fst as_allot_op
proof
  fix s s' :: "memory \<times> aging_space" and sz b :: cell
  assume s: "aging_wf (snd s)" "request_ok sz"
  note al = as_allot_wf [OF s]
  show "\<exists>s' r. as_allot_op s sz = Some (s', r)" using al by (auto simp: as_allot_op_def)
  show "s' = s" if "as_allot_op s sz = Some (s', None)" using al that by (cases s) (auto simp: as_allot_op_def)
  show "aging_wf (snd s') \<and> unat b mod 16 = 0 \<and> block_bytes b sz \<subseteq> bump_free (as_bump (snd s)) \<and>
      bump_free (as_bump (snd s')) \<subseteq> bump_free (as_bump (snd s)) - block_bytes b sz"
    if "as_allot_op s sz = Some (s', Some b)"
  proof -
    have r: "as_allot (snd s) sz = Some (snd s', Some b)" using that by (auto simp: as_allot_op_def)
    then have a: "aging_wf (snd s')" "b = here (as_bump (snd s))" "bump_free (as_bump (snd s)) =
        bump_free (as_bump (snd s')) \<union> {unat b ..< unat (here (as_bump (snd s')))}"
      "unat b + unat sz \<le> unat (here (as_bump (snd s')))" using al by auto
    have "unat b mod 16 = 0" unfolding a(2) using s(1) unfolding aging_wf_def bump_wf_def by blast
    then show ?thesis using a(1) bump_block [OF a(3,4)] by blast
  qed
next
  fix s s' :: "memory \<times> aging_space" and sz r and a :: cell
  assume "as_allot_op s sz = Some (s', r)"
  then show "fst s' a = fst s a" by (auto simp: as_allot_op_def)
qed

definition tenured_wf :: "memory \<times> tenured_space \<Rightarrow> bool" where
  "tenured_wf h \<longleftrightarrow> free_wf (fst h, ts_free (snd h)) \<and>
     starts_at (ts_starts (snd h)) (fl_start (ts_free (snd h))) (fl_size (ts_free (snd h))) \<and> (\<exists>objs. osm_ok (ts_starts (snd h)) objs)"

definition tenured_free :: "memory \<times> tenured_space \<Rightarrow> nat set" where
  "tenured_free h = free_bytes (fst h, ts_free (snd h))"

lemma ts_allot_wf:
  assumes wf: "tenured_wf (mem, ts)" and sz: "request_ok sz"
  shows "(\<exists>mem' ts' b. ts_allot (mem, ts) sz = Some ((mem', ts'), Some b) \<and> tenured_wf (mem', ts') \<and>
      allot (mem, ts_free ts) sz = Some ((mem', ts_free ts'), Some b)) \<or>
    ts_allot (mem, ts) sz = Some ((mem, ts), None) \<and> allot (mem, ts_free ts) sz = Some ((mem, ts_free ts), None)"
proof -
  have f: "free_wf (mem, ts_free ts)" "starts_at (ts_starts ts) (fl_start (ts_free ts)) (fl_size (ts_free ts))"
    using wf by (simp_all add: tenured_wf_def)
  obtain objs where objs: "osm_ok (ts_starts ts) objs" using wf by (auto simp: tenured_wf_def)
  obtain n where n: "unat (align sz data_alignment) = n" "0 < n" "n mod 16 = 0" by (rule request_aligned [OF sz])
  from allot_wf [OF f(1) n] show ?thesis
  proof (elim disjE exE conjE)
    fix mem' fl' b
    assume a: "allot (mem, ts_free ts) sz = Some ((mem', fl'), Some b)" "taken (mem, ts_free ts) (mem', fl') b"
      "unat (header_size mem' b) = n"
    have r: "same_region (ts_free ts) fl'" "block_ok mem' fl' b" using a(2) by (simp_all add: taken_def detached_def)
    then have b: "unat (fl_start (ts_free ts)) \<le> unat b" "unat b < unat (fl_start (ts_free ts)) + unat (fl_size (ts_free ts))" "unat b mod 16 = 0"
      using heap_bounds_unat(1) [of "ts_free ts"] f(1) by (auto simp: block_ok_def same_region_def free_wf_def)
    obtain m where m: "record_object_start_offset (ts_starts ts) b = Some m" "\<exists>objs. osm_ok m objs"
      "starts_at m (fl_start (ts_free ts)) (fl_size (ts_free ts))" using record_start [OF objs f(2) b] by blast
    have "ts_allot (mem, ts) sz = Some ((mem', \<lparr>ts_free = fl', ts_starts = m\<rparr>), Some b)"
      using a(1) m(1) by (simp add: ts_allot_def)
    moreover have "tenured_wf (mem', \<lparr>ts_free = fl', ts_starts = m\<rparr>)"
      using a(2) m(2,3) r(1) by (simp add: tenured_wf_def taken_def same_region_def)
    ultimately show ?thesis using a(1) by auto
  next
    assume "allot (mem, ts_free ts) sz = Some ((mem, ts_free ts), None)"
    then show ?thesis by (simp add: ts_allot_def)
  qed
qed

interpretation tenured: block_allocator tenured_wf tenured_free fst ts_allot
proof
  fix s s' :: "memory \<times> tenured_space" and sz b :: cell
  assume s: "tenured_wf s" "request_ok sz"
  obtain mem ts where sp: "s = (mem, ts)" by (cases s)
  note al = ts_allot_wf [OF s(1) [unfolded sp] s(2)]
  show "\<exists>s' r. ts_allot s sz = Some (s', r)" using al sp by blast
  show "s' = s" if "ts_allot s sz = Some (s', None)" using al sp that by auto
  have f: "free_wf (mem, ts_free ts)" using s(1) sp by (simp add: tenured_wf_def)
  show "tenured_wf s' \<and> unat b mod 16 = 0 \<and> block_bytes b sz \<subseteq> tenured_free s \<and> tenured_free s' \<subseteq> tenured_free s - block_bytes b sz"
    if "ts_allot s sz = Some (s', Some b)"
  proof -
    have "tenured_wf s'" "allot (mem, ts_free ts) sz = Some ((fst s', ts_free (snd s')), Some b)" using al sp that by auto
    then show ?thesis using fl_allocator.allot_block [OF f s(2)] sp by (auto simp: tenured_free_def)
  qed
next
  fix s s' :: "memory \<times> tenured_space" and sz r and a :: cell
  assume s: "tenured_wf s" "request_ok sz" "ts_allot s sz = Some (s', r)" "unat a \<notin> tenured_free s"
  obtain mem ts where sp: "s = (mem, ts)" by (cases s)
  have f: "free_wf (mem, ts_free ts)" using s(1) sp by (simp add: tenured_wf_def)
  have "allot (mem, ts_free ts) sz = Some ((fst s', ts_free (snd s')), r)"
    using ts_allot_wf [OF s(1) [unfolded sp] s(2)] s(3) sp by auto
  from fl_allocator.allot_frame [OF f s(2) this] show "fst s' a = fst s a" using s(4) sp by (simp add: tenured_free_def)
qed

subsection \<open>Walking a space\<close>

text \<open>
  A stretch of memory from \<open>a\<close> to \<open>e\<close> that consists of consecutive blocks: the list of their
  addresses, each followed by the next after its size.
\<close>

fun chain :: "(cell \<Rightarrow> cell option) \<Rightarrow> cell \<Rightarrow> cell list \<Rightarrow> cell \<Rightarrow> bool" where
  "chain size_of a [] e \<longleftrightarrow> a = e"
| "chain size_of a (x # xs) e \<longleftrightarrow>
     x = a \<and> (\<exists>n. size_of a = Some n \<and> a < a + n \<and> a + n \<le> e \<and> chain size_of (a + n) xs e)"

lemma chain_above: "chain size_of a xs e \<Longrightarrow> x \<in> set xs \<Longrightarrow> a \<le> x \<and> x < e"
  by (induction xs arbitrary: a) (auto, fastforce)

fun first_or_null :: "cell list \<Rightarrow> cell" where
  "first_or_null [] = 0"
| "first_or_null (x # xs) = x"

declare next_allocated_object_after.simps [simp del]

lemma object_size_free: "free_p (mem x) \<Longrightarrow> object_size mem x = free_block_size mem x"
  by (simp add: object_size_def object_size_fixup_def)

lemma next_allocated_chain:
  "chain (object_size mem) a xs e \<Longrightarrow>
   next_allocated_object_after mem e a = Some (first_or_null (dropWhile (\<lambda>x. free_p (mem x)) xs))"
proof (induction xs arbitrary: a)
  case Nil
  then show ?case by (subst next_allocated_object_after.simps) simp
next
  case (Cons x xs)
  then obtain n where n: "x = a" "a \<noteq> e" "object_size mem a = Some n" "chain (object_size mem) (a + n) xs e" by auto
  show ?case
  proof (cases "free_p (mem a)")
    case True
    then have "free_block_size mem a = Some n" using n(3) object_size_free by metis
    then show ?thesis using n True Cons.IH [OF n(4)] by (subst next_allocated_object_after.simps) simp
  next
    case False
    then show ?thesis using n by (subst next_allocated_object_after.simps) simp
  qed
qed

lemma first_allocated: "first_or_null (dropWhile P xs) = first_or_null (filter (\<lambda>x. \<not> P x) xs)"
  by (induction xs) auto

lemma chain_split:
  "chain size_of a (xs @ x # ys) e \<Longrightarrow> \<exists>n. size_of x = Some n \<and> x + n \<le> e \<and> chain size_of (x + n) ys e"
  by (induction xs arbitrary: a) auto

text \<open>\<open>factor_vm::each_object\<close> on one generation: the state is memory with whatever the iterator keeps.\<close>

partial_function (option) each_object_loop ::
    "(memory \<Rightarrow> cell \<Rightarrow> cell option) \<Rightarrow> (cell \<Rightarrow> memory \<times> 'x \<Rightarrow> (memory \<times> 'x) option) \<Rightarrow> cell \<Rightarrow> memory \<times> 'x \<Rightarrow> (memory \<times> 'x) option" where
  "each_object_loop next_object iterator obj s =
     (if obj = 0 then Some s
      else do {
        s' \<leftarrow> iterator obj s;
        obj' \<leftarrow> next_object (fst s') obj;
        each_object_loop next_object iterator obj' s' })"

definition each_object_tenured :: "tenured_space \<Rightarrow> (cell \<Rightarrow> memory \<times> 'x \<Rightarrow> (memory \<times> 'x) option) \<Rightarrow> memory \<times> 'x \<Rightarrow> (memory \<times> 'x) option" where
  "each_object_tenured ts iterator s = do {
     obj \<leftarrow> ts_first_object (fst s) ts;
     each_object_loop (\<lambda>mem. ts_next_object_after mem ts) iterator obj s }"

definition each_object_aging :: "aging_space \<Rightarrow> (cell \<Rightarrow> memory \<times> 'x \<Rightarrow> (memory \<times> 'x) option) \<Rightarrow> memory \<times> 'x \<Rightarrow> (memory \<times> 'x) option" where
  "each_object_aging as iterator s =
     each_object_loop (\<lambda>mem. as_next_object_after mem as) iterator (as_first_object as) s"

definition each_object :: "bump_allocator \<Rightarrow> tenured_space \<Rightarrow> aging_space \<Rightarrow>
    (cell \<Rightarrow> memory \<times> 'x \<Rightarrow> (memory \<times> 'x) option) \<Rightarrow> memory \<times> 'x \<Rightarrow> (memory \<times> 'x) option" where
  "each_object nursery ts as iterator s =
     (if ba_occupied_space nursery = 0
      then do { s' \<leftarrow> each_object_tenured ts iterator s; each_object_aging as iterator s' }
      else None)"

declare each_object_loop.simps [simp del]

text \<open>An iterator that only reads memory is applied to the objects of the list in turn.\<close>

lemma each_object_loop_list:
  assumes "\<And>ys x zs. xs = ys @ x # zs \<Longrightarrow> x \<noteq> 0 \<and> next_object mem x = Some (first_or_null zs)"
    and "\<And>obj x. iterator obj (mem, x) = Some (mem, f obj x)"
  shows "each_object_loop next_object iterator (first_or_null xs) (mem, x) = Some (mem, fold f xs x)"
  using assms(1)
proof (induction xs arbitrary: x)
  case Nil
  then show ?case by (subst each_object_loop.simps) simp
next
  case (Cons y xs)
  have y: "y \<noteq> 0" "next_object mem y = Some (first_or_null xs)" using Cons.prems [of "[]" y xs] by simp_all
  have "each_object_loop next_object iterator (first_or_null xs) (mem, f y x) = Some (mem, fold f xs (f y x))"
    using Cons.prems [of "y # _"] by (intro Cons.IH) simp
  then show ?case using y assms(2) by (subst each_object_loop.simps) simp
qed

lemma filter_split:
  "filter P xs = ys @ y # zs \<Longrightarrow> \<exists>us vs. xs = us @ y # vs \<and> filter P vs = zs"
proof (induction ys arbitrary: xs)
  case (Cons w ys)
  then obtain us xs' where "xs = us @ w # xs'" "filter P xs' = ys @ y # zs" by (auto simp: filter_eq_Cons_iff)
  then show ?case using Cons.IH [of xs'] by (metis append.assoc append_Cons)
qed (auto simp: filter_eq_Cons_iff)

lemma each_object_tenured_chain:
  assumes ch: "chain (object_size mem) (fl_start (ts_free ts)) xs (fl_end (ts_free ts))" and nz: "fl_start (ts_free ts) \<noteq> 0"
    and it: "\<And>obj x. iterator obj (mem, x) = Some (mem, f obj x)"
  shows "each_object_tenured ts iterator (mem, x) = Some (mem, fold f (filter (\<lambda>x. \<not> free_p (mem x)) xs) x)"
proof -
  have "each_object_loop (\<lambda>mem. ts_next_object_after mem ts) iterator (first_or_null (filter (\<lambda>x. \<not> free_p (mem x)) xs)) (mem, x) =
      Some (mem, fold f (filter (\<lambda>x. \<not> free_p (mem x)) xs) x)"
  proof (rule each_object_loop_list)
    fix ys y zs
    assume xs0: "filter (\<lambda>x. \<not> free_p (mem x)) xs = ys @ y # zs"
    obtain us vs where xs: "xs = us @ y # vs" "filter (\<lambda>x. \<not> free_p (mem x)) vs = zs"
      using filter_split [OF xs0] by blast
    obtain n where n: "object_size mem y = Some n" "chain (object_size mem) (y + n) vs (fl_end (ts_free ts))"
      using chain_split [OF ch [unfolded xs(1)]] by blast
    have "y \<noteq> 0" using chain_above [OF ch, of y] xs(1) nz by (auto simp: word_le_0_iff)
    then show "y \<noteq> 0 \<and> ts_next_object_after mem ts y = Some (first_or_null zs)"
      using xs n next_allocated_chain [OF n(2)] by (auto simp: ts_next_object_after_def first_allocated)
  qed (rule it)
  then show ?thesis using next_allocated_chain [OF ch] by (simp add: each_object_tenured_def ts_first_object_def first_allocated)
qed

lemma each_object_aging_chain:
  assumes ch: "chain (object_size mem) (ba_start (as_bump as)) xs (here (as_bump as))" and nz: "ba_start (as_bump as) \<noteq> 0"
    and it: "\<And>obj x. iterator obj (mem, x) = Some (mem, f obj x)"
  shows "each_object_aging as iterator (mem, x) = Some (mem, fold f xs x)"
proof -
  have "as_first_object as = first_or_null xs" using ch by (cases xs) (auto simp: as_first_object_def)
  moreover have "each_object_loop (\<lambda>mem. as_next_object_after mem as) iterator (first_or_null xs) (mem, x) = Some (mem, fold f xs x)"
  proof (rule each_object_loop_list)
    fix ys y zs
    assume xs: "xs = ys @ y # zs"
    obtain n where n: "object_size mem y = Some n" "y + n \<le> here (as_bump as)" "chain (object_size mem) (y + n) zs (here (as_bump as))"
      using chain_split [OF ch [unfolded xs]] by blast
    have "y \<noteq> 0" using chain_above [OF ch, of y] xs nz by (auto simp: word_le_0_iff)
    moreover have "y + n < here (as_bump as) \<longleftrightarrow> zs \<noteq> []" using n(2,3) by (cases zs) auto
    ultimately show "y \<noteq> 0 \<and> as_next_object_after mem as y = Some (first_or_null zs)"
      using n by (cases zs) (auto simp: as_next_object_after_def)
  qed (rule it)
  ultimately show ?thesis by (simp add: each_object_aging_def)
qed

end
