(* ===== verification/Data_Heap.thy ===== *)
theory Data_Heap
  imports Spaces
begin

text \<open>
  The data heap (\<open>vm/data_heap.cpp\<close>, \<open>vm/data_heap.hpp\<close>), the write barrier of \<open>vm/vm.hpp\<close>
  and the segment predicates of \<open>vm/segments.hpp\<close>. The three generations lie in one segment:
  tenured space, the two aging spaces, the nursery. The card and deck arrays are lists; an
  access outside them is \<open>None\<close>.

  A segment is obtained from the operating system: its start is the argument \<open>seg_start\<close>, and
  the fresh contents of arrays are the arguments \<open>garbage\<close> and \<open>mem\<close>.
\<close>

unbundle bit_operations_syntax

subsection \<open>Segments\<close>

record segment =
  seg_start :: cell
  seg_size :: cell
  seg_end :: cell

definition underflow_p :: "cell \<Rightarrow> segment \<Rightarrow> cell \<Rightarrow> bool" where
  "underflow_p pagesize seg addr \<longleftrightarrow> addr \<ge> seg_start seg - pagesize \<and> addr < seg_start seg"

definition overflow_p :: "cell \<Rightarrow> segment \<Rightarrow> cell \<Rightarrow> bool" where
  "overflow_p pagesize seg addr \<longleftrightarrow> addr \<ge> seg_end seg \<and> addr < seg_end seg + pagesize"

definition in_segment_p :: "segment \<Rightarrow> cell \<Rightarrow> bool" where
  "in_segment_p seg addr \<longleftrightarrow> addr \<ge> seg_start seg \<and> addr < seg_end seg"

definition align_page :: "cell \<Rightarrow> cell \<Rightarrow> cell" where
  "align_page pagesize a = align a pagesize"

subsection \<open>The heap\<close>

record data_heap =
  dh_start :: cell
  young_size :: cell
  aging_size :: cell
  tenured_size :: cell
  dh_seg :: segment
  nursery :: bump_allocator
  aging :: aging_space
  aging_semispace :: aging_space
  tenured :: tenured_space
  cards :: "card list"
  decks :: "card_deck list"

text \<open>\<open>alloc_segment\<close> stands for the constructor of \<open>segment\<close>: the start of a region of that size.\<close>

definition new_data_heap :: "(cell \<Rightarrow> cell) \<Rightarrow> card \<Rightarrow> memory \<Rightarrow> cell \<Rightarrow> cell \<Rightarrow> cell \<Rightarrow> (memory \<times> data_heap) option" where
  "new_data_heap alloc_segment garbage mem young0 aging0 tenured0 =
     (let young = align young0 deck_size;
          aging = align aging0 deck_size;
          tenured = align tenured0 deck_size;
          total_size = young + 2 * aging + tenured + deck_size;
          base = alloc_segment total_size;
          seg = \<lparr>seg_start = base, seg_size = total_size, seg_end = base + total_size\<rparr>;
          start = align (seg_start seg) deck_size
      in do {
        (mem', ts) \<leftarrow> new_tenured_space garbage mem tenured start;
        let as = new_aging_space garbage aging (fl_end (ts_free ts));
            semi = new_aging_space garbage aging (ba_end (as_bump as));
            nursery = new_bump_allocator young (ba_end (as_bump semi))
        in if seg_end seg - ba_end nursery \<le> deck_size
           then Some (mem',
             \<lparr>dh_start = start, young_size = young, aging_size = aging, tenured_size = tenured, dh_seg = seg,
              nursery = nursery, aging = as, aging_semispace = semi, tenured = ts,
              cards = replicate (unat (total_size div card_size)) 0,
              decks = replicate (unat (total_size div deck_size)) 0\<rparr>)
           else None })"

definition grow :: "(cell \<Rightarrow> cell) \<Rightarrow> card \<Rightarrow> memory \<Rightarrow> data_heap \<Rightarrow> cell \<Rightarrow> (memory \<times> data_heap) option" where
  "grow alloc_segment garbage mem d requested_bytes =
     (if ba_occupied_space (nursery d) = 0
      then new_data_heap alloc_segment garbage mem (young_size d) (aging_size d) (2 * tenured_size d + requested_bytes)
      else None)"

text \<open>\<open>memset\<close> on a range of one of the two arrays.\<close>

definition fill_range :: "8 word \<Rightarrow> nat \<Rightarrow> nat \<Rightarrow> 8 word list \<Rightarrow> 8 word list option" where
  "fill_range v first len xs =
     (if first + len \<le> length xs then Some (take first xs @ replicate len v @ drop (first + len) xs) else None)"

definition clear_cards :: "cell \<Rightarrow> cell \<Rightarrow> data_heap \<Rightarrow> data_heap option" where
  "clear_cards gen_start gen_end d =
     (let first_card = addr_to_card (gen_start - dh_start d); last_card = addr_to_card (gen_end - dh_start d) in do {
        cs \<leftarrow> fill_range 0 (unat first_card) (unat (last_card - first_card)) (cards d);
        Some (d\<lparr>cards := cs\<rparr>) })"

definition clear_decks :: "cell \<Rightarrow> cell \<Rightarrow> data_heap \<Rightarrow> data_heap option" where
  "clear_decks gen_start gen_end d =
     (let first_deck = addr_to_deck (gen_start - dh_start d); last_deck = addr_to_deck (gen_end - dh_start d) in do {
        ds \<leftarrow> fill_range 0 (unat first_deck) (unat (last_deck - first_deck)) (decks d);
        Some (d\<lparr>decks := ds\<rparr>) })"

definition reset_nursery :: "bool \<Rightarrow> memory \<times> data_heap \<Rightarrow> memory \<times> data_heap" where
  "reset_nursery debug h = (let (mem, d) = h; (mem', ba) = ba_flush debug mem (nursery d) in (mem', d\<lparr>nursery := ba\<rparr>))"

definition reset_aging :: "bool \<Rightarrow> memory \<times> data_heap \<Rightarrow> (memory \<times> data_heap) option" where
  "reset_aging debug h =
     (let (mem, d) = h; (mem', ba) = ba_flush debug mem (as_bump (aging d));
          d1 = d\<lparr>aging := (aging d)\<lparr>as_bump := ba\<rparr>\<rparr> in do {
        d2 \<leftarrow> clear_cards (ba_start ba) (ba_end ba) d1;
        d3 \<leftarrow> clear_decks (ba_start ba) (ba_end ba) d2;
        Some (mem', d3\<lparr>aging := (aging d3)\<lparr>as_starts := clear_object_start_offsets (as_starts (aging d3))\<rparr>\<rparr>) })"

definition reset_tenured :: "data_heap \<Rightarrow> data_heap option" where
  "reset_tenured d = do {
     d' \<leftarrow> clear_cards (fl_start (ts_free (tenured d))) (fl_end (ts_free (tenured d))) d;
     clear_decks (fl_start (ts_free (tenured d))) (fl_end (ts_free (tenured d))) d' }"

definition high_water_mark :: "data_heap \<Rightarrow> cell" where
  "high_water_mark d = ba_size (nursery d) + ba_size (as_bump (aging d))"

definition high_fragmentation_p :: "memory \<times> data_heap \<Rightarrow> bool option" where
  "high_fragmentation_p h = (let (mem, d) = h in do {
     n \<leftarrow> largest_free_block (mem, ts_free (tenured d));
     Some (n \<le> high_water_mark d) })"

definition low_memory_p :: "data_heap \<Rightarrow> bool" where
  "low_memory_p d \<longleftrightarrow> free_space (ts_free (tenured d)) \<le> high_water_mark d"

definition mark_all_cards :: "data_heap \<Rightarrow> data_heap" where
  "mark_all_cards d =
     d\<lparr>cards := replicate (length (cards d)) 0xff, decks := replicate (length (decks d)) 0xff\<rparr>"

record data_heap_room =
  room_nursery_size :: cell
  room_nursery_occupied :: cell
  room_nursery_free :: cell
  room_aging_size :: cell
  room_aging_occupied :: cell
  room_aging_free :: cell
  room_tenured_size :: cell
  room_tenured_occupied :: cell
  room_tenured_total_free :: cell
  room_tenured_contiguous_free :: cell
  room_tenured_free_block_count :: cell
  room_cards :: cell
  room_decks :: cell
  room_mark_stack :: cell

text \<open>The capacity of the mark stack is that of its vector, not its length.\<close>

definition data_room :: "cell \<Rightarrow> memory \<times> data_heap \<Rightarrow> data_heap_room option" where
  "data_room mark_stack_capacity h = (let (mem, d) = h; ts = ts_free (tenured d); as = as_bump (aging d) in do {
     contiguous \<leftarrow> largest_free_block (mem, ts);
     Some
       \<lparr>room_nursery_size = ba_size (nursery d), room_nursery_occupied = ba_occupied_space (nursery d),
        room_nursery_free = ba_free_space (nursery d), room_aging_size = ba_size as,
        room_aging_occupied = ba_occupied_space as, room_aging_free = ba_free_space as,
        room_tenured_size = fl_size ts, room_tenured_occupied = fl_occupied_space ts,
        room_tenured_total_free = free_space ts, room_tenured_contiguous_free = contiguous,
        room_tenured_free_block_count = free_block_count ts, room_cards = of_nat (length (cards d)),
        room_decks = of_nat (length (decks d)), room_mark_stack = mark_stack_capacity * sizeof_cell\<rparr> })"

subsection \<open>The write barrier\<close>

text \<open>
  \<open>set_data_heap\<close> stores the addresses of the two arrays minus the card and deck number of
  the heap's start; a barrier adds the number of the slot. The index into the array is the
  difference of the two numbers.
\<close>

definition card_index :: "data_heap \<Rightarrow> cell \<Rightarrow> nat" where
  "card_index d addr = unat (addr_to_card addr - addr_to_card (dh_start d))"

definition deck_index :: "data_heap \<Rightarrow> cell \<Rightarrow> nat" where
  "deck_index d addr = unat (addr_to_deck addr - addr_to_deck (dh_start d))"

definition write_barrier :: "data_heap \<Rightarrow> cell \<Rightarrow> data_heap option" where
  "write_barrier d slot_ptr =
     (let c = card_index d slot_ptr; k = deck_index d slot_ptr in
      if c < length (cards d) \<and> k < length (decks d)
      then Some (d\<lparr>cards := (cards d)[c := ucast card_mark_mask], decks := (decks d)[k := ucast card_mark_mask]\<rparr>)
      else None)"

function write_barrier_loop :: "data_heap \<Rightarrow> cell \<Rightarrow> cell \<Rightarrow> data_heap option" where
  "write_barrier_loop d offset limit =
     (if offset < limit then do {
        d' \<leftarrow> write_barrier d offset;
        if offset + card_size > offset then write_barrier_loop d' (offset + card_size) limit else None }
      else Some d)"
  by pat_completeness auto

termination
  by (relation "measure (\<lambda>(d, offset, limit). 2 ^ 64 - unat offset)")
    (simp_all add: word_less_nat_alt diff_less_mono2)

definition write_barrier_object :: "data_heap \<Rightarrow> cell \<Rightarrow> cell \<Rightarrow> data_heap option" where
  "write_barrier_object d obj sz =
     (let start = obj AND (NOT card_size + 1); limit = (obj + sz + card_size - 1) AND (NOT card_size + 1) in
      write_barrier_loop d start limit)"

subsection \<open>Geometry\<close>

text \<open>
  Everything is aligned to decks: tenured space at the start of the heap, then the two
  aging spaces in either order, then the nursery, and the arrays have an entry for every
  card and deck of the heap.
\<close>

definition heap_total :: "data_heap \<Rightarrow> nat" where
  "heap_total d = unat (tenured_size d) + 2 * unat (aging_size d) + unat (young_size d)"

definition aging_at :: "aging_space \<Rightarrow> nat \<Rightarrow> cell \<Rightarrow> bool" where
  "aging_at as a sz \<longleftrightarrow> aging_wf as \<and> unat (ba_start (as_bump as)) = a \<and> ba_size (as_bump as) = sz"

definition heap_wf :: "memory \<times> data_heap \<Rightarrow> bool" where
  "heap_wf h \<longleftrightarrow> (let d = snd h; s = unat (dh_start d); t = unat (tenured_size d); a = unat (aging_size d) in
     s mod 2 ^ 18 = 0 \<and> t mod 2 ^ 18 = 0 \<and> a mod 2 ^ 18 = 0 \<and> unat (young_size d) mod 2 ^ 18 = 0 \<and>
     0 < s \<and> s + heap_total d < 2 ^ 63 \<and>
     tenured_wf (fst h, tenured d) \<and> fl_start (ts_free (tenured d)) = dh_start d \<and> fl_size (ts_free (tenured d)) = tenured_size d \<and>
     (aging_at (aging d) (s + t) (aging_size d) \<and> aging_at (aging_semispace d) (s + t + a) (aging_size d) \<or>
      aging_at (aging_semispace d) (s + t) (aging_size d) \<and> aging_at (aging d) (s + t + a) (aging_size d)) \<and>
     bump_wf (nursery d) \<and> unat (ba_start (nursery d)) = s + t + 2 * a \<and> ba_size (nursery d) = young_size d \<and>
     heap_total d \<le> 256 * length (cards d) \<and> heap_total d \<le> 2 ^ 18 * length (decks d))"

lemma deck_size_exp: "deck_size = 2 ^ 18"
  by (simp add: deck_size_def)

lemma align_deck:
  assumes "unat a < 2 ^ 62"
  obtains n where "unat (align a deck_size) = n" "n mod 2 ^ 18 = 0" "unat a \<le> n" "n < unat a + 2 ^ 18"
proof
  have "unat (align a (2 ^ 18)) = (unat a + (2 ^ 18 - 1)) div 2 ^ 18 * 2 ^ 18"
    using assms by (intro align_unat) simp_all
  then show "unat (align a deck_size) = (unat a + (2 ^ 18 - 1)) div 2 ^ 18 * 2 ^ 18" by (simp only: deck_size_exp)
  have "x \<le> (x + 262143) div 262144 * 262144" "(x + 262143) div 262144 * 262144 < x + 262144" for x :: nat
    using div_mult_mod_eq [of "x + 262143" 262144] mod_less_divisor [of 262144 "x + 262143"] by linarith+
  then show "unat a \<le> (unat a + (2 ^ 18 - 1)) div 2 ^ 18 * 2 ^ 18" "(unat a + (2 ^ 18 - 1)) div 2 ^ 18 * 2 ^ 18 < unat a + 2 ^ 18"
    by simp_all
qed simp

lemma new_aging_space_wf:
  assumes "unat start + unat sz < 2 ^ 63" "unat start mod 2 ^ 18 = 0" "unat sz mod 2 ^ 18 = 0"
  shows "aging_at (new_aging_space g sz start) (unat start) sz" "bump_free (as_bump (new_aging_space g sz start)) = {unat start ..< unat start + unat sz}"
    "unat (ba_end (as_bump (new_aging_space g sz start))) = unat start + unat sz"
proof -
  obtain i j where ij: "unat start = 2 ^ 18 * i" "unat sz = 2 ^ 18 * j" using assms(2,3) by (auto simp: mod_eq_0_iff_dvd elim!: dvdE)
  then have m: "unat start mod 16 = 0" "unat sz mod 16 = 0" "unat start mod 256 = 0" "unat sz mod 256 = 0" by simp_all
  have "osm_ok (new_object_start_map g sz start) {}" using assms(1) m by (intro new_object_start_map_ok) simp_all
  moreover have "starts_at (new_object_start_map g sz start) start sz"
    by (simp add: starts_at_def new_object_start_map_def clear_object_start_offsets_def)
  moreover note b = new_bump_allocator_wf [OF assms(1) m(1,2)]
  ultimately show "aging_at (new_aging_space g sz start) (unat start) sz"
    unfolding aging_at_def aging_wf_def new_aging_space_def by (auto simp: new_bump_allocator_def)
  show "bump_free (as_bump (new_aging_space g sz start)) = {unat start ..< unat start + unat sz}"
    using b(2) by (simp add: new_aging_space_def)
  show "unat (ba_end (as_bump (new_aging_space g sz start))) = unat start + unat sz"
    using bump_wf_end(1) [OF b(1)] by (simp add: new_aging_space_def new_bump_allocator_def)
qed

lemma new_tenured_space_wf:
  assumes "unat start + unat sz < 2 ^ 63" "unat start mod 2 ^ 18 = 0" "unat sz mod 2 ^ 18 = 0"
  shows "\<exists>mem' ts. new_tenured_space g mem sz start = Some (mem', ts) \<and> tenured_wf (mem', ts) \<and>
    fl_start (ts_free ts) = start \<and> fl_size (ts_free ts) = sz \<and> tenured_free (mem', ts) = {unat start ..< unat start + unat sz} \<and>
    unat (fl_end (ts_free ts)) = unat start + unat sz"
proof -
  obtain i j where ij: "unat start = 2 ^ 18 * i" "unat sz = 2 ^ 18 * j" using assms(2,3) by (auto simp: mod_eq_0_iff_dvd elim!: dvdE)
  then have m: "unat start mod 16 = 0" "unat sz mod 1024 = 0" "unat start mod 256 = 0" "unat sz mod 256 = 0" by simp_all
  obtain mem' fl where fl: "new_free_list_allocator mem sz start = Some (mem', fl)" "free_wf (mem', fl)" "fl_start fl = start" "fl_size fl = sz"
    "free_bytes (mem', fl) = {unat start ..< unat start + unat sz}"
    using new_free_list_allocator_wf [OF m(2) _ m(1), of mem] assms(1) by auto
  have "osm_ok (new_object_start_map g sz start) {}" using assms(1) m by (intro new_object_start_map_ok) simp_all
  moreover have "starts_at (new_object_start_map g sz start) start sz"
    by (simp add: starts_at_def new_object_start_map_def clear_object_start_offsets_def)
  moreover have "unat (fl_end fl) = unat start + unat sz" using fl(2-4) heap_bounds_unat(1) [of fl] by (simp add: free_wf_def)
  ultimately show ?thesis using fl
    by (auto simp: new_tenured_space_def tenured_wf_def tenured_free_def)
qed

lemma deck_add: "(x::nat) mod 2 ^ 18 = 0 \<Longrightarrow> y mod 2 ^ 18 = 0 \<Longrightarrow> (x + y) mod 2 ^ 18 = 0"
  by (simp add: mod_eq_0_iff_dvd)

lemma deck_mod_16: "(x::nat) mod 2 ^ 18 = 0 \<Longrightarrow> x mod 16 = 0"
  by (auto simp: mod_eq_0_iff_dvd elim!: dvdE)

text \<open>
  The requested sizes are rounded up to decks; a segment with room for all of them and one
  deck more has an aligned start such that they fit, which is what the constructor asserts.
\<close>

definition segment_ok :: "(cell \<Rightarrow> cell) \<Rightarrow> bool" where
  "segment_ok alloc_segment \<longleftrightarrow>
     (\<forall>sz. 0 < unat (alloc_segment sz) \<and> (unat sz < 2 ^ 60 \<longrightarrow> unat (alloc_segment sz) + unat sz < 2 ^ 62))"

lemma new_data_heap_wf:
  assumes seg: "segment_ok alloc_segment" and sz: "unat young < 2 ^ 56" "unat aging0 < 2 ^ 56" "unat tenured0 < 2 ^ 56"
  shows "\<exists>mem' d. new_data_heap alloc_segment g mem young aging0 tenured0 = Some (mem', d) \<and> heap_wf (mem', d) \<and>
    unat young \<le> unat (young_size d) \<and> unat aging0 \<le> unat (aging_size d) \<and> unat tenured0 \<le> unat (tenured_size d) \<and>
    unat (seg_start (dh_seg d)) \<le> unat (dh_start d) \<and> unat (dh_start d) + heap_total d \<le> unat (seg_end (dh_seg d)) \<and>
    tenured_free (mem', tenured d) = {unat (dh_start d) ..< unat (dh_start d) + unat (tenured_size d)} \<and>
    ba_occupied_space (nursery d) = 0"
proof -
  define Y A T where YAT: "Y = align young deck_size" "A = align aging0 deck_size" "T = align tenured0 deck_size"
  obtain y where y: "unat Y = y" "y mod 2 ^ 18 = 0" "unat young \<le> y" "y < unat young + 2 ^ 18"
    unfolding YAT by (rule align_deck [of young]) (use sz(1) in auto)
  obtain a where a: "unat A = a" "a mod 2 ^ 18 = 0" "unat aging0 \<le> a" "a < unat aging0 + 2 ^ 18"
    unfolding YAT by (rule align_deck [of aging0]) (use sz(2) in auto)
  obtain t where t: "unat T = t" "t mod 2 ^ 18 = 0" "unat tenured0 \<le> t" "t < unat tenured0 + 2 ^ 18"
    unfolding YAT by (rule align_deck [of tenured0]) (use sz(3) in auto)
  define total where "total = Y + 2 * A + T + deck_size"
  have bound: "y < 2 ^ 57" "a < 2 ^ 57" "t < 2 ^ 57" using y(4) a(4) t(4) sz by simp_all
  have total: "unat total = y + 2 * a + t + 2 ^ 18"
    using bound by (simp add: total_def unat_word_ariths y(1) a(1) t(1) deck_size_exp)
  define base where "base = alloc_segment total"
  have base: "0 < unat base" "unat base + (y + 2 * a + t + 2 ^ 18) < 2 ^ 62"
    using seg total bound unfolding base_def segment_ok_def by (auto dest!: spec [of _ total])
  define S where "S = align base deck_size"
  obtain s where s: "unat S = s" "s mod 2 ^ 18 = 0" "unat base \<le> s" "s < unat base + 2 ^ 18"
    unfolding S_def by (rule align_deck [of base]) (use base(2) in auto)
  have fit: "s + (y + 2 * a + t) < 2 ^ 63" using base(2) s(4) by simp
  obtain mem' ts where ts: "new_tenured_space g mem T S = Some (mem', ts)" "tenured_wf (mem', ts)" "fl_start (ts_free ts) = S"
    "fl_size (ts_free ts) = T" "tenured_free (mem', ts) = {s ..< s + t}" "unat (fl_end (ts_free ts)) = s + t"
    using new_tenured_space_wf [of S T g mem] fit s(1,2) t(1,2) by auto
  have st: "(s + t) mod 2 ^ 18 = 0" using s(2) t(2) by (rule deck_add)
  have sta: "(s + t + a) mod 2 ^ 18 = 0" using st a(2) by (rule deck_add)
  have "(s + t + a + a) mod 2 ^ 18 = 0" using sta a(2) by (rule deck_add)
  then have staa: "(s + t + 2 * a) mod 16 = 0" "y mod 16 = 0" using y(2) by (auto simp: mult_2 add.assoc intro: deck_mod_16)
  define as where "as = new_aging_space g A (fl_end (ts_free ts))"
  have as: "aging_at as (s + t) A" "unat (ba_end (as_bump as)) = s + t + a"
    using new_aging_space_wf(1,3) [of "fl_end (ts_free ts)" A g] fit st a(1,2) by (simp_all add: as_def ts(6))
  define semi where "semi = new_aging_space g A (ba_end (as_bump as))"
  have semi: "aging_at semi (s + t + a) A" "unat (ba_end (as_bump semi)) = s + t + 2 * a"
    using new_aging_space_wf(1,3) [of "ba_end (as_bump as)" A g] fit sta a(1,2) by (simp_all add: semi_def as(2))
  define n where "n = new_bump_allocator Y (ba_end (as_bump semi))"
  have n: "bump_wf n" "ba_start n = ba_end (as_bump semi)" "ba_size n = Y" "ba_occupied_space n = 0" "unat (ba_end n) = s + t + 2 * a + y"
  proof -
    show "bump_wf n" using new_bump_allocator_wf(1) [of "ba_end (as_bump semi)" Y] fit staa y(1) by (simp add: n_def semi(2))
    from bump_wf_end(1) [OF this] show "unat (ba_end n) = s + t + 2 * a + y" by (simp add: n_def new_bump_allocator_def semi(2) y(1))
  qed (simp_all add: n_def new_bump_allocator_def ba_occupied_space_def)
  have "unat (base + total) = unat base + (y + 2 * a + t + 2 ^ 18)"
    using base(2) total by (simp add: unat_word_ariths)
  then have se: "unat (base + total) = unat base + (y + 2 * a + t + 2 ^ 18)" .
  have le: "ba_end n \<le> base + total" using s(4) by (simp add: word_le_nat_alt se n(5))
  have "unat (base + total - ba_end n) \<le> 2 ^ 18"
    unfolding unat_sub [OF le] se n(5) using s(3) by simp
  then have fits: "base + total - ba_end n \<le> deck_size" by (simp add: word_le_nat_alt deck_size_exp)
  define d where "d = \<lparr>dh_start = S, young_size = Y, aging_size = A, tenured_size = T,
    dh_seg = \<lparr>seg_start = base, seg_size = total, seg_end = base + total\<rparr>,
    nursery = n, aging = as, aging_semispace = semi, tenured = ts,
    cards = replicate (unat (total div card_size)) 0, decks = replicate (unat (total div deck_size)) 0\<rparr>"
  have new: "new_data_heap alloc_segment g mem young aging0 tenured0 = Some (mem', d)"
    unfolding new_data_heap_def Let_def YAT [symmetric] total_def [symmetric] base_def [symmetric]
    by (simp add: S_def [symmetric] ts(1) as_def [symmetric] semi_def [symmetric] n_def [symmetric] fits d_def)
  have len: "heap_total d \<le> 256 * length (cards d)" "heap_total d \<le> 2 ^ 18 * length (decks d)"
  proof -
    have "(t + (a + a) + y + 2 ^ 18) mod 2 ^ 18 = 0" using t(2) a(2) y(2) by (intro deck_add) simp_all
    then obtain k where k: "unat total = 2 ^ 18 * k"
      unfolding total by (auto simp: mod_eq_0_iff_dvd mult_2 ac_simps elim!: dvdE)
    then have "256 * unat (total div 256) = unat total" "2 ^ 18 * unat (total div 2 ^ 18) = unat total"
      by (simp_all add: unat_div)
    moreover have "heap_total d \<le> unat total" by (simp add: total d_def heap_total_def y(1) a(1) t(1))
    ultimately show "heap_total d \<le> 256 * length (cards d)" "heap_total d \<le> 2 ^ 18 * length (decks d)"
      by (simp_all add: d_def card_size_def deck_size_exp)
  qed
  have wf: "heap_wf (mem', d)"
    unfolding heap_wf_def Let_def using len fit base(1) s(3) y(2) a(2) t(2) s(2)
    by (simp add: d_def heap_total_def y(1) a(1) t(1) s(1) ts(2-4) as(1) semi n(1-3))
  from new wf show ?thesis using y(3) a(3) t(3) s(3) n(4) ts(5) le
    by (auto simp: d_def heap_total_def y(1) a(1) t(1) s(1) se word_le_nat_alt n(5))
qed

subsection \<open>What the write barrier marks\<close>

definition heap_bytes :: "data_heap \<Rightarrow> nat set" where
  "heap_bytes d = {unat (dh_start d) ..< unat (dh_start d) + heap_total d}"

lemma heap_wf_simps:
  assumes "heap_wf (mem, d)"
  shows "unat (dh_start d) mod 2 ^ 18 = 0" "unat (dh_start d) + heap_total d < 2 ^ 63"
    "heap_total d \<le> 256 * length (cards d)" "heap_total d \<le> 2 ^ 18 * length (decks d)"
    "(unat (dh_start d) + heap_total d) mod 2 ^ 18 = 0"
proof -
  have m: "unat (dh_start d) mod 2 ^ 18 = 0" "unat (tenured_size d) mod 2 ^ 18 = 0" "unat (aging_size d) mod 2 ^ 18 = 0"
    "unat (young_size d) mod 2 ^ 18 = 0"
    using assms unfolding heap_wf_def Let_def by simp_all
  then have "(unat (dh_start d) + (unat (tenured_size d) + (unat (aging_size d) + unat (aging_size d)) + unat (young_size d))) mod 2 ^ 18 = 0"
    by (intro deck_add) simp_all
  then show "(unat (dh_start d) + heap_total d) mod 2 ^ 18 = 0" by (simp add: heap_total_def mult_2)
qed (use assms in \<open>simp_all add: heap_wf_def Let_def\<close>)

lemma block_number:
  fixes a s n k :: nat
  assumes "s mod n = 0" "s \<le> a" "0 < n" "a < s + n * k"
  shows "a div n - s div n = (a - s) div n" "(a - s) div n < k" "s div n \<le> a div n"
proof -
  obtain q where q: "s = n * q" using assms(1) by (auto simp: mod_eq_0_iff_dvd elim!: dvdE)
  obtain r where r: "a = s + r" using assms(2) le_iff_add by auto
  have "a div n = q + r div n" "s div n = q" using assms(3) by (simp_all add: q r)
  then show "a div n - s div n = (a - s) div n" by (simp add: r)
  show "(a - s) div n < k" using assms(4) by (simp add: r less_mult_imp_div_less mult.commute)
  show "s div n \<le> a div n" using assms(2) by (rule div_le_mono)
qed

lemma barrier_index:
  assumes "heap_wf (mem, d)" "unat a \<in> heap_bytes d"
  shows "card_index d a = (unat a - unat (dh_start d)) div 256" "card_index d a < length (cards d)"
    "deck_index d a = (unat a - unat (dh_start d)) div 2 ^ 18" "deck_index d a < length (decks d)"
proof -
  note w = heap_wf_simps [OF assms(1)]
  have m: "unat (dh_start d) mod 256 = 0" using w(1) by (auto simp: mod_eq_0_iff_dvd elim!: dvdE)
  have a: "unat (dh_start d) \<le> unat a" "unat a < unat (dh_start d) + 256 * length (cards d)" "unat a < unat (dh_start d) + 2 ^ 18 * length (decks d)"
    using assms(2) w(3,4) by (auto simp: heap_bytes_def)
  note c = block_number [OF m a(1) _ a(2)] and k = block_number [OF w(1) a(1) _ a(3)]
  have "addr_to_card (dh_start d) \<le> addr_to_card a" using c(3) by (simp add: word_le_nat_alt card_consts)
  then show ci: "card_index d a = (unat a - unat (dh_start d)) div 256"
    using c(1) by (simp add: card_index_def unat_sub card_consts)
  have u: "unat (addr_to_deck x) = unat x div 2 ^ 18" for x
    by (simp add: addr_to_deck_def unat_drop_bit_eq drop_bit_nat_def)
  have "addr_to_deck (dh_start d) \<le> addr_to_deck a" using k(3) by (simp add: word_le_nat_alt u)
  then show ki: "deck_index d a = (unat a - unat (dh_start d)) div 2 ^ 18"
    using k(1) by (simp only: deck_index_def unat_sub u zero_less_power zero_less_numeral)
  show "card_index d a < length (cards d)" using c(2) by (simp add: ci)
  show "deck_index d a < length (decks d)" using k(2) by (simp only: ki zero_less_power zero_less_numeral)
qed

definition card_marked :: "data_heap \<Rightarrow> cell \<Rightarrow> bool" where
  "card_marked d a \<longleftrightarrow> cards d ! card_index d a AND ucast card_mark_mask = ucast card_mark_mask \<and>
     decks d ! deck_index d a AND ucast card_mark_mask = ucast card_mark_mask"

lemma write_barrier_marks:
  assumes "heap_wf (mem, d)" "unat a \<in> heap_bytes d"
  shows "\<exists>cs ds. write_barrier d a = Some (d\<lparr>cards := cs, decks := ds\<rparr>) \<and> heap_wf (mem, d\<lparr>cards := cs, decks := ds\<rparr>) \<and>
    card_marked (d\<lparr>cards := cs, decks := ds\<rparr>) a \<and>
    (\<forall>b. unat b \<in> heap_bytes d \<longrightarrow> card_marked d b \<longrightarrow> card_marked (d\<lparr>cards := cs, decks := ds\<rparr>) b)"
proof (intro exI conjI allI impI)
  let ?d = "d\<lparr>cards := (cards d)[card_index d a := ucast card_mark_mask], decks := (decks d)[deck_index d a := ucast card_mark_mask]\<rparr>"
  note i = barrier_index [OF assms]
  show "write_barrier d a = Some ?d" using i(2,4) by (simp add: write_barrier_def)
  show "heap_wf (mem, ?d)" using assms(1) by (simp add: heap_wf_def heap_total_def)
  have [simp]: "card_index ?d x = card_index d x" "deck_index ?d x = deck_index d x" for x
    by (simp_all add: card_index_def deck_index_def)
  show "card_marked ?d a" using i(2,4) by (simp add: card_marked_def)
  fix b assume b: "unat b \<in> heap_bytes d" "card_marked d b"
  show "card_marked ?d b" using b(2) i(2,4) by (simp add: card_marked_def nth_list_update)
qed

text \<open>The loop over the cards of a block that starts and ends on a card boundary.\<close>

definition keeps_marks :: "data_heap \<Rightarrow> data_heap \<Rightarrow> bool" where
  "keeps_marks d d' \<longleftrightarrow> d'\<lparr>cards := [], decks := []\<rparr> = d\<lparr>cards := [], decks := []\<rparr> \<and> heap_bytes d' = heap_bytes d \<and>
     (\<forall>b. unat b \<in> heap_bytes d \<longrightarrow> card_marked d b \<longrightarrow> card_marked d' b)"

lemma keeps_marks_refl: "keeps_marks d d"
  by (simp add: keeps_marks_def)

lemma keeps_marks_trans: "keeps_marks d d1 \<Longrightarrow> keeps_marks d1 d2 \<Longrightarrow> keeps_marks d d2"
  by (simp add: keeps_marks_def)

lemma card_marked_same_card:
  assumes "heap_wf (mem, d)" "unat a \<in> heap_bytes d" "unat b \<in> heap_bytes d" "unat a mod 256 = 0" "unat a \<le> unat b" "unat b < unat a + 256"
  shows "card_marked d b = card_marked d a"
proof -
  obtain q where q: "unat (dh_start d) = 2 ^ 18 * q" using heap_wf_simps(1) [OF assms(1)] by (auto simp: mod_eq_0_iff_dvd elim!: dvdE)
  have "unat (dh_start d) \<le> unat a" using assms(2) by (simp add: heap_bytes_def)
  then obtain r where r: "unat a = 2 ^ 18 * q + r" unfolding q by (auto simp: le_iff_add)
  moreover from r have "r mod 256 = 0" using assms(4) by (simp add: mod_add_eq [symmetric])
  then obtain p where p: "r = 256 * p" by (auto simp: mod_eq_0_iff_dvd elim!: dvdE)
  ultimately obtain e where e: "unat b = 2 ^ 18 * q + 256 * p + e" "e < 256"
    using assms(5,6) by (auto simp: le_iff_add)
  have "(256 * p + e) div 256 = p" using e(2) by simp
  moreover have "(256 * p + e) div 2 ^ 18 = (256 * p) div 2 ^ 18"
    using div_mult2_eq [of "256 * p + e" 256 1024] div_mult2_eq [of "256 * p" 256 1024] e(2) by simp
  ultimately have "card_index d b = card_index d a" "deck_index d b = deck_index d a"
    unfolding barrier_index(1,3) [OF assms(1,2)] barrier_index(1,3) [OF assms(1,3)] r p e(1) q by simp_all
  then show ?thesis by (simp add: card_marked_def)
qed

lemma write_barrier_loop_marks:
  assumes "heap_wf (mem, d)" "unat (dh_start d) \<le> unat off" "unat limit \<le> unat (dh_start d) + heap_total d" "unat off mod 256 = 0"
    "unat limit mod 256 = 0"
  shows "\<exists>d'. write_barrier_loop d off limit = Some d' \<and> heap_wf (mem, d') \<and> keeps_marks d d' \<and>
    (\<forall>b. unat off \<le> unat b \<and> unat b < unat limit \<longrightarrow> card_marked d' b)"
  using assms
proof (induction d off limit rule: write_barrier_loop.induct)
  case (1 d off limit)
  show ?case
  proof (cases "off < limit")
    case False
    then show ?thesis using 1(2) keeps_marks_refl by (auto simp: word_less_nat_alt)
  next
    case True
    then have ol: "unat off < unat limit" by (simp add: word_less_nat_alt)
    with 1(3-) have off: "unat off \<in> heap_bytes d" by (simp add: heap_bytes_def)
    obtain cs ds where w: "write_barrier d off = Some (d\<lparr>cards := cs, decks := ds\<rparr>)" "heap_wf (mem, d\<lparr>cards := cs, decks := ds\<rparr>)"
      "card_marked (d\<lparr>cards := cs, decks := ds\<rparr>) off"
      "\<forall>b. unat b \<in> heap_bytes d \<longrightarrow> card_marked d b \<longrightarrow> card_marked (d\<lparr>cards := cs, decks := ds\<rparr>) b"
      using write_barrier_marks [OF 1(2) off] by (elim exE conjE)
    let ?d = "d\<lparr>cards := cs, decks := ds\<rparr>"
    have hb: "heap_bytes ?d = heap_bytes d" by (simp add: heap_bytes_def heap_total_def)
    have k: "keeps_marks d ?d" unfolding keeps_marks_def using w(4) hb by simp
    have next_card: "unat (off + card_size) = unat off + 256"
      using off heap_wf_simps(2) [OF 1(2)] by (simp add: unat_word_ariths card_consts heap_bytes_def)
    then have lt: "off + card_size > off" by (simp add: word_less_nat_alt)
    obtain d' where d': "write_barrier_loop ?d (off + card_size) limit = Some d'" "heap_wf (mem, d')" "keeps_marks ?d d'"
      "\<forall>b. unat (off + card_size) \<le> unat b \<and> unat b < unat limit \<longrightarrow> card_marked d' b"
      using 1(1) [OF True w(1) lt w(2)] 1(3-) by (auto simp: next_card heap_total_def)
    have "card_marked d' b" if b: "unat off \<le> unat b" "unat b < unat limit" for b
    proof (cases "unat off + 256 \<le> unat b")
      case True with d'(4) b show ?thesis by (simp add: next_card)
    next
      case False
      have "unat b \<in> heap_bytes d'" "unat off \<in> heap_bytes d'" "card_marked d' off"
        using b off 1(4) w(3) d'(3) hb by (auto simp: keeps_marks_def heap_bytes_def)
      then show ?thesis using card_marked_same_card [OF d'(2), of off b] b(1) False 1(5) by simp
    qed
    with d' keeps_marks_trans [OF k d'(3)] show ?thesis using True w(1) lt by (subst write_barrier_loop.simps) auto
  qed
qed

lemma card_floor: "unat (a AND (NOT card_size + 1)) = unat a div 256 * 256"
proof -
  have m: "NOT card_size + 1 = NOT (mask 8)" by (simp add: card_size_def not_eq_complement mask_eq_exp_minus_1)
  show ?thesis unfolding m unat_and_not_mask by simp
qed

lemma floor_ceiling:
  fixes x n q :: nat
  shows "x div 256 * 256 \<le> x" "n \<le> (n + 255) div 256 * 256" "256 * q \<le> x \<Longrightarrow> 256 * q \<le> x div 256 * 256"
    "n \<le> 256 * q \<Longrightarrow> (n + 255) div 256 * 256 \<le> 256 * q"
proof -
  show "n \<le> (n + 255) div 256 * 256"
    using div_mult_mod_eq [of "n + 255" 256] mod_less_divisor [of 256 "n + 255"] by linarith
  show "256 * q \<le> x div 256 * 256" if "256 * q \<le> x" using div_le_mono [OF that, of 256] by simp
  have "(n + 255) div 256 \<le> q" if "n \<le> 256 * q" using div_le_mono [of "n + 255" "256 * q + 255" 256] that by simp
  then show "(n + 255) div 256 * 256 \<le> 256 * q" if "n \<le> 256 * q" using that by simp
qed simp

lemma write_barrier_object_marks:
  assumes wf: "heap_wf (mem, d)" and obj: "unat (dh_start d) \<le> unat obj" "unat obj + unat sz \<le> unat (dh_start d) + heap_total d"
  shows "\<exists>d'. write_barrier_object d obj sz = Some d' \<and> heap_wf (mem, d') \<and> keeps_marks d d' \<and>
    (\<forall>b. unat obj \<le> unat b \<and> unat b < unat obj + unat sz \<longrightarrow> card_marked d' b)"
proof -
  define first limit where fl: "first = obj AND (NOT card_size + 1)" "limit = (obj + sz + card_size - 1) AND (NOT card_size + 1)"
  note w = heap_wf_simps [OF wf]
  obtain q where q: "unat (dh_start d) = 256 * q" using w(1) by (auto simp: mod_eq_0_iff_dvd elim!: dvdE)
  obtain p where p: "unat (dh_start d) + heap_total d = 256 * p" using heap_wf_simps(5) [OF wf] by (auto simp: mod_eq_0_iff_dvd elim!: dvdE)
  have e: "obj + sz + card_size - 1 = obj + sz + 255" by (simp add: card_size_def)
  have "unat (obj + sz + 255) = unat obj + unat sz + 255" using obj(2) w(2) by (simp add: unat_word_ariths)
  then have u: "unat first = unat obj div 256 * 256" "unat limit = (unat obj + unat sz + 255) div 256 * 256"
    unfolding fl card_floor e by simp_all
  have "256 * q \<le> unat first" "unat limit \<le> 256 * p" "unat first mod 256 = 0" "unat limit mod 256 = 0"
    unfolding u using obj p q by ((intro floor_ceiling; simp)+, simp_all)
  from write_barrier_loop_marks [OF wf, unfolded p, unfolded q, OF this] obtain d' where d': "write_barrier_loop d first limit = Some d'" "heap_wf (mem, d')" "keeps_marks d d'"
    "\<forall>b. unat first \<le> unat b \<and> unat b < unat limit \<longrightarrow> card_marked d' b"
    by (elim exE conjE)
  moreover have "unat first \<le> unat obj" "unat obj + unat sz \<le> unat limit" unfolding u by (rule floor_ceiling)+
  ultimately show ?thesis unfolding write_barrier_object_def Let_def fl [symmetric] by fastforce
qed

subsection \<open>Emptying a generation\<close>

lemma fill_range_nth:
  assumes "f + n \<le> length xs"
  obtains ys where "fill_range v f n xs = Some ys" "length ys = length xs"
    "\<forall>i<length xs. ys ! i = (if f \<le> i \<and> i < f + n then v else xs ! i)"
  using assms by (intro that [of "take f xs @ replicate n v @ drop (f + n) xs"]) (auto simp: fill_range_def nth_append)

lemma deck_number: "unat (addr_to_deck a) = unat a div 2 ^ 18"
  by (simp add: addr_to_deck_def unat_drop_bit_eq drop_bit_nat_def)

lemma range_number:
  fixes s x y n k :: nat
  assumes "s mod n = 0" "x mod n = 0" "y mod n = 0" "s \<le> x" "x \<le> y" "0 < n" "y \<le> s + n * k"
  shows "(x - s) div n + ((y - s) div n - (x - s) div n) \<le> k"
    "s \<le> b \<Longrightarrow> ((x - s) div n \<le> (b - s) div n \<and> (b - s) div n < (x - s) div n + ((y - s) div n - (x - s) div n)) \<longleftrightarrow> x \<le> b \<and> b < y"
proof -
  obtain q where q: "s = n * q" using assms(1) by (auto simp: mod_eq_0_iff_dvd elim!: dvdE)
  obtain p where p: "x = n * p" using assms(2) by (auto simp: mod_eq_0_iff_dvd elim!: dvdE)
  obtain r where r: "y = n * r" using assms(3) by (auto simp: mod_eq_0_iff_dvd elim!: dvdE)
  have o: "q \<le> p" "p \<le> r" "r \<le> q + k" using assms(4-7) unfolding p q r by (simp_all flip: distrib_left)
  have d: "(x - s) div n = p - q" "(y - s) div n = r - q" using assms(6) by (simp_all add: p q r flip: diff_mult_distrib2)
  show "(x - s) div n + ((y - s) div n - (x - s) div n) \<le> k" unfolding d using o by simp
  assume "s \<le> b"
  then obtain c where c: "b = n * q + c" unfolding q by (auto simp: le_iff_add)
  have "x \<le> b \<longleftrightarrow> n * (p - q) \<le> c" "b < y \<longleftrightarrow> c < n * (r - q)" using o by (auto simp: c p r diff_mult_distrib2 le_diff_conv less_diff_conv ac_simps)
  moreover have "p - q \<le> c div n \<longleftrightarrow> n * (p - q) \<le> c" "c div n < r - q \<longleftrightarrow> c < n * (r - q)"
    using assms(6) by (simp_all add: less_eq_div_iff_mult_less_eq div_less_iff_less_mult mult.commute)
  moreover have "(b - s) div n = c div n" by (simp add: c q)
  ultimately show "((x - s) div n \<le> (b - s) div n \<and> (b - s) div n < (x - s) div n + ((y - s) div n - (x - s) div n)) \<longleftrightarrow> x \<le> b \<and> b < y"
    unfolding d using o by simp
qed

definition cleared :: "data_heap \<Rightarrow> data_heap \<Rightarrow> nat set \<Rightarrow> bool" where
  "cleared d d' region \<longleftrightarrow> d'\<lparr>cards := [], decks := []\<rparr> = d\<lparr>cards := [], decks := []\<rparr> \<and>
     length (cards d') = length (cards d) \<and> length (decks d') = length (decks d) \<and>
     (\<forall>b. unat b \<in> heap_bytes d \<longrightarrow>
       cards d' ! card_index d b = (if unat b \<in> region then 0 else cards d ! card_index d b) \<and>
       decks d' ! deck_index d b = (if unat b \<in> region then 0 else decks d ! deck_index d b))"

lemma clear_generation:
  assumes wf: "heap_wf (mem, d)" and g: "unat (dh_start d) \<le> unat x" "unat x \<le> unat y" "unat y \<le> unat (dh_start d) + heap_total d"
    "unat x mod 2 ^ 18 = 0" "unat y mod 2 ^ 18 = 0"
  shows "\<exists>d1 d2. clear_cards x y d = Some d1 \<and> clear_decks x y d1 = Some d2 \<and> cleared d d2 {unat x ..< unat y}"
proof -
  note w = heap_wf_simps [OF wf]
  have m: "n mod 256 = 0" if "n mod 2 ^ 18 = 0" for n :: nat using that by (auto simp: mod_eq_0_iff_dvd elim!: dvdE)
  have le: "unat y \<le> unat (dh_start d) + 256 * length (cards d)" "unat y \<le> unat (dh_start d) + 2 ^ 18 * length (decks d)"
    using g(3) w(3,4) by simp_all
  let ?s = "unat (dh_start d)"
  have sub: "unat (x - dh_start d) = unat x - ?s" "unat (y - dh_start d) = unat y - ?s"
    using g(1,2) by (simp_all add: unat_sub word_le_nat_alt)
  note rc = range_number [OF m [OF w(1)] m [OF g(4)] m [OF g(5)] g(1,2) _ le(1), simplified]
    and rd = range_number [OF w(1) g(4,5) g(1,2) _ le(2)]
  have mono: "(unat x - ?s) div n \<le> (unat y - ?s) div n" for n using g(2) by (intro div_le_mono diff_le_mono)
  have cn: "unat (addr_to_card (y - dh_start d) - addr_to_card (x - dh_start d)) = (unat y - ?s) div 256 - (unat x - ?s) div 256"
    using mono [of 256] by (simp add: unat_sub word_le_nat_alt card_consts sub)
  have dn: "unat (addr_to_deck (y - dh_start d) - addr_to_deck (x - dh_start d)) = (unat y - ?s) div 2 ^ 18 - (unat x - ?s) div 2 ^ 18"
    using mono [of "2 ^ 18"] by (simp only: unat_sub word_le_nat_alt deck_number sub)
  obtain cs where cs: "fill_range 0 ((unat x - ?s) div 256) ((unat y - ?s) div 256 - (unat x - ?s) div 256) (cards d) = Some cs"
    "length cs = length (cards d)" "\<forall>i<length (cards d). cs ! i = (if (unat x - ?s) div 256 \<le> i \<and>
      i < (unat x - ?s) div 256 + ((unat y - ?s) div 256 - (unat x - ?s) div 256) then 0 else cards d ! i)"
    by (rule fill_range_nth [OF rc(1)])
  obtain ds where ds: "fill_range 0 ((unat x - ?s) div 2 ^ 18) ((unat y - ?s) div 2 ^ 18 - (unat x - ?s) div 2 ^ 18) (decks d) = Some ds"
    "length ds = length (decks d)" "\<forall>i<length (decks d). ds ! i = (if (unat x - ?s) div 2 ^ 18 \<le> i \<and>
      i < (unat x - ?s) div 2 ^ 18 + ((unat y - ?s) div 2 ^ 18 - (unat x - ?s) div 2 ^ 18) then 0 else decks d ! i)"
    by (rule fill_range_nth [OF rd(1)]) simp
  have "clear_cards x y d = Some (d\<lparr>cards := cs\<rparr>)"
    using cs(1) by (simp only: clear_cards_def Let_def cn card_consts sub bind.bind_lunit)
  moreover have "clear_decks x y (d\<lparr>cards := cs\<rparr>) = Some (d\<lparr>cards := cs, decks := ds\<rparr>)"
    using ds(1) by (simp add: clear_decks_def Let_def dn deck_number sub)
  moreover have "cleared d (d\<lparr>cards := cs, decks := ds\<rparr>) {unat x ..< unat y}"
    unfolding cleared_def
  proof (intro conjI allI impI)
    fix b :: cell assume b: "unat b \<in> heap_bytes d"
    then have sb: "?s \<le> unat b" by (simp add: heap_bytes_def)
    note i = barrier_index [OF wf b]
    show "cards (d\<lparr>cards := cs, decks := ds\<rparr>) ! card_index d b = (if unat b \<in> {unat x ..< unat y} then 0 else cards d ! card_index d b)"
      using cs(3) i(1,2) rc(2) [OF sb] by simp
    show "decks (d\<lparr>cards := cs, decks := ds\<rparr>) ! deck_index d b = (if unat b \<in> {unat x ..< unat y} then 0 else decks d ! deck_index d b)"
      using ds(3) i(3,4) rd(2) [OF _ sb] by simp
  qed (use cs(2) ds(2) in simp_all)
  ultimately show ?thesis by blast
qed

lemma cleared_heap_wf: "cleared d d' r \<Longrightarrow> heap_wf (mem, d') = heap_wf (mem, d)"
proof -
  assume "cleared d d' r"
  then have eq: "d'\<lparr>cards := [], decks := []\<rparr> = d\<lparr>cards := [], decks := []\<rparr>" "length (cards d') = length (cards d)" "length (decks d') = length (decks d)"
    by (simp_all add: cleared_def)
  from eq(1) show ?thesis using eq(2,3) by (cases d; cases d') (simp add: heap_wf_def heap_total_def)
qed

lemma cleared_nth:
  "cleared d d' r \<Longrightarrow> unat b \<in> heap_bytes d \<Longrightarrow> cards d' ! card_index d b = (if unat b \<in> r then 0 else cards d ! card_index d b) \<and>
     decks d' ! deck_index d b = (if unat b \<in> r then 0 else decks d ! deck_index d b)"
  unfolding cleared_def by blast

lemma cleared_aging: "cleared d d' r \<Longrightarrow> aging d' = aging d"
  unfolding cleared_def by (elim conjE, drule arg_cong [of _ _ aging]) simp

text \<open>The free list only depends on the headers of the free blocks.\<close>

lemma free_wf_cong:
  assumes "\<forall>b\<in>set (blocks fl). mem' b = mem b"
  shows "free_wf (mem', fl) = free_wf (mem, fl)" "free_bytes (mem', fl) = free_bytes (mem, fl)"
proof -
  have h: "header_size mem' b = header_size mem b" "free_block_p mem' b = free_block_p mem b" "span mem' b = span mem b" if "b \<in> set (blocks fl)" for b
    using assms that by (simp_all add: header_size_def free_block_p_def span_def)
  have sm: "set (small_blocks fl ! i) \<subseteq> set (blocks fl)" if "i < 32" "length (small_blocks fl) = 32" for i
    using that by (auto simp: blocks_def intro!: bexI [of _ "small_blocks fl ! i"])
  have "spans_ok mem' fl (blocks fl) = spans_ok mem fl (blocks fl)"
    unfolding spans_ok_def block_ok_def using h by simp
  moreover have "buckets_ok mem' fl = buckets_ok mem fl"
  proof (cases "length (small_blocks fl) = 32")
    case True
    have "map (header_size mem') (large_blocks fl) = map (header_size mem) (large_blocks fl)"
      using h by (auto simp: blocks_def)
    moreover have "(\<forall>b\<in>set (large_blocks fl). 512 \<le> unat (header_size mem' b)) = (\<forall>b\<in>set (large_blocks fl). 512 \<le> unat (header_size mem b))"
      using h by (auto simp: blocks_def)
    moreover have "(\<forall>i<32. \<forall>b\<in>set (small_blocks fl ! i). unat (header_size mem' b) = 16 * i) =
        (\<forall>i<32. \<forall>b\<in>set (small_blocks fl ! i). unat (header_size mem b) = 16 * i)"
      by (intro all_cong1 imp_cong ball_cong refl) (simp add: h(1) [OF subsetD [OF sm [OF _ True]]])
    ultimately show ?thesis unfolding buckets_ok_def by (simp only:)
  qed (simp add: buckets_ok_def)
  moreover have "map (header_size mem') (blocks fl) = map (header_size mem) (blocks fl)" using h by auto
  ultimately show "free_wf (mem', fl) = free_wf (mem, fl)" by (simp only: free_wf_def counters_ok_def fst_conv snd_conv)
  show "free_bytes (mem', fl) = free_bytes (mem, fl)" using h by (simp add: free_bytes_def free_set_def)
qed

lemma tenured_wf_cong:
  assumes wf: "tenured_wf (mem, ts)" and eq: "\<And>a. unat (fl_start (ts_free ts)) \<le> unat a \<Longrightarrow> unat a < unat (fl_end (ts_free ts)) \<Longrightarrow> mem' a = mem a"
  shows "tenured_wf (mem', ts)" "tenured_free (mem', ts) = tenured_free (mem, ts)"
proof -
  have "\<forall>b\<in>set (blocks (ts_free ts)). mem' b = mem b"
  proof
    fix b assume "b \<in> set (blocks (ts_free ts))"
    then have "block_ok mem (ts_free ts) b" using wf by (simp add: tenured_wf_def free_wf_def spans_ok_def)
    then show "mem' b = mem b" by (intro eq) (simp_all add: block_ok_def)
  qed
  note c = free_wf_cong [OF this]
  show "tenured_wf (mem', ts)" "tenured_free (mem', ts) = tenured_free (mem, ts)"
    using wf c by (simp_all add: tenured_wf_def tenured_free_def)
qed

lemma ba_flush_wf:
  assumes "bump_wf ba" "ba_flush debug mem ba = (mem', ba')"
  shows "bump_wf ba'" "ba_start ba' = ba_start ba" "ba_end ba' = ba_end ba" "ba_size ba' = ba_size ba" "ba_occupied_space ba' = 0"
    "bump_free ba' = {unat (ba_start ba) ..< unat (ba_end ba)}"
    "\<forall>a. unat a < unat (ba_start ba) \<or> unat (ba_start ba) + unat (ba_size ba) \<le> unat a \<longrightarrow> mem' a = mem a"
proof -
  have b: "ba' = ba\<lparr>here := ba_start ba\<rparr>" and m: "mem' = (if debug then memset_cell mem (ba_start ba) 0xbaadbaad (ba_size ba) else mem)"
    using assms(2) by (auto simp: ba_flush_def)
  note e = bump_wf_end [OF assms(1)]
  have "unat (ba_start ba) mod 16 = 0" using assms(1) unfolding bump_wf_def by blast
  then show "bump_wf ba'" using assms(1) e(1) unfolding bump_wf_def b by (elim conjE) simp
  show "\<forall>a. unat a < unat (ba_start ba) \<or> unat (ba_start ba) + unat (ba_size ba) \<le> unat a \<longrightarrow> mem' a = mem a"
    by (auto simp: m memset_cell_def)
qed (use assms in \<open>auto simp: ba_flush_def ba_occupied_space_def bump_free_def\<close>)

lemma heap_wf_layout:
  assumes "heap_wf (mem, d)"
  shows "tenured_wf (mem, tenured d)" "fl_start (ts_free (tenured d)) = dh_start d" "fl_size (ts_free (tenured d)) = tenured_size d"
    "unat (fl_end (ts_free (tenured d))) = unat (dh_start d) + unat (tenured_size d)"
    "aging_wf (aging d)" "ba_size (as_bump (aging d)) = aging_size d"
    "unat (ba_start (as_bump (aging d))) = unat (dh_start d) + unat (tenured_size d) \<or>
      unat (ba_start (as_bump (aging d))) = unat (dh_start d) + unat (tenured_size d) + unat (aging_size d)"
    "bump_wf (nursery d)" "unat (ba_start (nursery d)) = unat (dh_start d) + unat (tenured_size d) + 2 * unat (aging_size d)"
    "ba_size (nursery d) = young_size d"
proof -
  show t: "tenured_wf (mem, tenured d)" "fl_start (ts_free (tenured d)) = dh_start d" "fl_size (ts_free (tenured d)) = tenured_size d"
    using assms unfolding heap_wf_def Let_def by simp_all
  then show "unat (fl_end (ts_free (tenured d))) = unat (dh_start d) + unat (tenured_size d)"
    using heap_bounds_unat(1) [of "ts_free (tenured d)"] by (simp add: tenured_wf_def free_wf_def)
  show "aging_wf (aging d)" "ba_size (as_bump (aging d)) = aging_size d" "unat (ba_start (as_bump (aging d))) = unat (dh_start d) + unat (tenured_size d) \<or>
      unat (ba_start (as_bump (aging d))) = unat (dh_start d) + unat (tenured_size d) + unat (aging_size d)"
    using assms unfolding heap_wf_def Let_def aging_at_def by auto
qed (use assms in \<open>simp_all add: heap_wf_def Let_def\<close>)

lemma heap_wf_nursery:
  assumes wf: "heap_wf (mem, d)" and b: "bump_wf ba" "ba_start ba = ba_start (nursery d)" "ba_size ba = ba_size (nursery d)"
    and eq: "\<forall>a. unat a < unat (ba_start ba) \<or> unat (ba_start ba) + unat (ba_size ba) \<le> unat a \<longrightarrow> mem' a = mem a"
  shows "heap_wf (mem', d\<lparr>nursery := ba\<rparr>)"
proof -
  note l = heap_wf_layout [OF wf]
  have "tenured_wf (mem', tenured d)"
  proof (rule tenured_wf_cong [OF l(1)])
    fix a :: cell assume "unat a < unat (fl_end (ts_free (tenured d)))"
    then have "unat a < unat (ba_start ba)" unfolding b(2) l(4,9) by linarith
    then show "mem' a = mem a" using eq by blast
  qed
  then show ?thesis using wf b by (simp add: heap_wf_def Let_def heap_total_def)
qed

lemma reset_nursery_wf:
  assumes wf: "heap_wf (mem, d)"
  obtains mem' ba where "reset_nursery debug (mem, d) = (mem', d\<lparr>nursery := ba\<rparr>)" "heap_wf (mem', d\<lparr>nursery := ba\<rparr>)" "ba_occupied_space ba = 0"
    "\<forall>a. unat a < unat (ba_start (nursery d)) \<longrightarrow> mem' a = mem a"
proof -
  obtain mem' ba where f: "ba_flush debug mem (nursery d) = (mem', ba)" by (cases "ba_flush debug mem (nursery d)")
  note b = ba_flush_wf [OF heap_wf_layout(8) [OF wf] f]
  have "heap_wf (mem', d\<lparr>nursery := ba\<rparr>)" by (rule heap_wf_nursery [OF wf b(1,2,4)]) (use b(2,4,7) in simp)
  then show ?thesis using that [of mem' ba] b(5,7) f by (simp add: reset_nursery_def)
qed

lemma reset_tenured_wf:
  assumes wf: "heap_wf (mem, d)"
  obtains d' where "reset_tenured d = Some d'" "heap_wf (mem, d')"
    "cleared d d' {unat (dh_start d) ..< unat (dh_start d) + unat (tenured_size d)}"
proof -
  note l = heap_wf_layout [OF wf] and w = heap_wf_simps [OF wf]
  have "unat (tenured_size d) mod 2 ^ 18 = 0" using wf by (simp add: heap_wf_def Let_def)
  then have m: "unat (fl_end (ts_free (tenured d))) mod 2 ^ 18 = 0" unfolding l(4) using w(1) by (intro deck_add)
  have le: "unat (fl_end (ts_free (tenured d))) \<le> unat (dh_start d) + heap_total d" "unat (dh_start d) \<le> unat (fl_end (ts_free (tenured d)))"
    unfolding l(4) by (simp_all add: heap_total_def)
  obtain d1 d' where d: "clear_cards (dh_start d) (fl_end (ts_free (tenured d))) d = Some d1"
    "clear_decks (dh_start d) (fl_end (ts_free (tenured d))) d1 = Some d'" "cleared d d' {unat (dh_start d) ..< unat (fl_end (ts_free (tenured d)))}"
    using clear_generation [OF wf order_refl le(2,1) w(1) m] by blast
  show ?thesis
  proof
    show "reset_tenured d = Some d'" using d(1,2) by (simp add: reset_tenured_def l(2))
    show "heap_wf (mem, d')" using cleared_heap_wf [OF d(3)] wf by simp
    show "cleared d d' {unat (dh_start d) ..< unat (dh_start d) + unat (tenured_size d)}" using d(3) by (simp only: l(4))
  qed
qed

text \<open>Replacing the aging space by another one on the same range of addresses.\<close>

lemma heap_wf_aging:
  assumes wf: "heap_wf (mem, d)" and a: "aging_wf as" "ba_start (as_bump as) = ba_start (as_bump (aging d))" "ba_size (as_bump as) = ba_size (as_bump (aging d))"
    and eq: "\<forall>a. unat a < unat (ba_start (as_bump as)) \<longrightarrow> mem' a = mem a"
  shows "heap_wf (mem', d\<lparr>aging := as\<rparr>)"
proof -
  note l = heap_wf_layout [OF wf]
  have "tenured_wf (mem', tenured d)"
  proof (rule tenured_wf_cong [OF l(1)])
    fix a :: cell assume "unat a < unat (fl_end (ts_free (tenured d)))"
    then have "unat a < unat (ba_start (as_bump as))" using l(7) unfolding a(2) l(4) by linarith
    then show "mem' a = mem a" using eq by blast
  qed
  then show ?thesis using wf a by (auto simp: heap_wf_def Let_def heap_total_def aging_at_def)
qed

lemma reset_aging_wf:
  assumes wf: "heap_wf (mem, d)"
  obtains mem' d' where "reset_aging debug (mem, d) = Some (mem', d')" "heap_wf (mem', d')"
    "bump_free (as_bump (aging d')) = {unat (ba_start (as_bump (aging d))) ..< unat (ba_end (as_bump (aging d)))}"
    "\<forall>a. unat a < unat (ba_start (as_bump (aging d))) \<or> unat (ba_end (as_bump (aging d))) \<le> unat a \<longrightarrow> mem' a = mem a"
    "\<forall>b. unat b \<in> {unat (ba_start (as_bump (aging d))) ..< unat (ba_end (as_bump (aging d)))} \<longrightarrow>
      cards d' ! card_index d b = 0 \<and> decks d' ! deck_index d b = 0"
proof -
  note l = heap_wf_layout [OF wf] and w = heap_wf_simps [OF wf]
  let ?as = "aging d"
  have bw: "bump_wf (as_bump ?as)" "starts_at (as_starts ?as) (ba_start (as_bump ?as)) (ba_size (as_bump ?as))"
    using l(5) by (simp_all add: aging_wf_def)
  obtain mem' ba where f: "ba_flush debug mem (as_bump ?as) = (mem', ba)" by (cases "ba_flush debug mem (as_bump ?as)")
  note b = ba_flush_wf [OF bw(1) f] and e = bump_wf_end [OF bw(1)]
  let ?d = "d\<lparr>aging := ?as\<lparr>as_bump := ba\<rparr>\<rparr>"
  have "aging_wf (?as\<lparr>as_bump := ba\<rparr>)" using l(5) b(1,2,4) by (simp add: aging_wf_def)
  then have wf1: "heap_wf (mem', ?d)" using b(2,4,7) by (intro heap_wf_aging [OF wf]) simp_all
  have m: "unat (tenured_size d) mod 2 ^ 18 = 0" "unat (aging_size d) mod 2 ^ 18 = 0" using wf by (simp_all add: heap_wf_def Let_def)
  have s: "unat (ba_start ba) mod 2 ^ 18 = 0" unfolding b(2) using l(7) w(1) m by (elim disjE) (simp_all only: deck_add)
  have t: "unat (ba_end ba) mod 2 ^ 18 = 0" using deck_add [OF s m(2)] by (simp add: b(2,3) e(1) l(6))
  have "heap_total ?d = heap_total d" by (simp add: heap_total_def)
  then obtain d1 d2 where d: "clear_cards (ba_start ba) (ba_end ba) ?d = Some d1" "clear_decks (ba_start ba) (ba_end ba) d1 = Some d2"
    "cleared ?d d2 {unat (ba_start ba) ..< unat (ba_end ba)}"
    using clear_generation [OF wf1 _ _ _ s t] l(7) by (auto simp: b(2,3) e(1) l(6) heap_total_def)
  have a2: "aging d2 = ?as\<lparr>as_bump := ba\<rparr>" using cleared_aging [OF d(3)] by simp
  let ?as2 = "?as\<lparr>as_bump := ba, as_starts := clear_object_start_offsets (as_starts ?as)\<rparr>"
  have "aging_wf ?as2"
  proof -
    obtain objs where "osm_ok (as_starts ?as) objs" using l(5) by (auto simp: aging_wf_def)
    then have "osm_ok (clear_object_start_offsets (as_starts ?as)) {}"
      by (intro clear_object_start_offsets_ok) (simp_all add: osm_ok_def)
    then show ?thesis using b(1,2,4) bw(2) by (auto simp: aging_wf_def starts_at_def clear_object_start_offsets_def)
  qed
  then have wf2: "heap_wf (mem', d2\<lparr>aging := ?as2\<rparr>)"
    using cleared_heap_wf [OF d(3)] wf1 by (intro heap_wf_aging [of mem']) (simp_all add: a2)
  show ?thesis
  proof
    show "reset_aging debug (mem, d) = Some (mem', d2\<lparr>aging := ?as2\<rparr>)"
      using d(1,2) f by (simp add: reset_aging_def a2)
    show "bump_free (as_bump (aging (d2\<lparr>aging := ?as2\<rparr>))) = {unat (ba_start (as_bump ?as)) ..< unat (ba_end (as_bump ?as))}"
      using b(6) by simp
    show "\<forall>a. unat a < unat (ba_start (as_bump ?as)) \<or> unat (ba_end (as_bump ?as)) \<le> unat a \<longrightarrow> mem' a = mem a"
      using b(7) by (simp add: e(1))
    show "\<forall>b. unat b \<in> {unat (ba_start (as_bump ?as)) ..< unat (ba_end (as_bump ?as))} \<longrightarrow>
      cards (d2\<lparr>aging := ?as2\<rparr>) ! card_index d b = 0 \<and> decks (d2\<lparr>aging := ?as2\<rparr>) ! deck_index d b = 0"
    proof (intro allI impI)
      fix c :: cell assume c: "unat c \<in> {unat (ba_start (as_bump ?as)) ..< unat (ba_end (as_bump ?as))}"
      moreover from c have "unat c \<in> heap_bytes ?d" using l(7) by (auto simp: heap_bytes_def heap_total_def e(1) l(6))
      moreover have "card_index ?d c = card_index d c" "deck_index ?d c = deck_index d c" by (simp_all add: card_index_def deck_index_def)
      ultimately show "cards (d2\<lparr>aging := ?as2\<rparr>) ! card_index d c = 0 \<and> decks (d2\<lparr>aging := ?as2\<rparr>) ! deck_index d c = 0"
        using cleared_nth [OF d(3), of c] by (simp add: b(2,3))
    qed
  qed (rule wf2)
qed

end
