(* ===== verification/Byte_Memory.thy ===== *)
theory Byte_Memory
  imports Layouts
begin

text \<open>
  Bytes of memory. The other theories see memory as cells at addresses that are multiples of
  eight; the code heap, byte arrays and strings are accessed by bytes and by 16- and 32-bit
  units at any address. On the little-endian processors the development is about, byte \<open>i\<close>
  of a cell holds its bits \<open>8 * i\<close> to \<open>8 * i + 7\<close>.
\<close>

unbundle bit_operations_syntax

definition load_u8 :: "memory \<Rightarrow> cell \<Rightarrow> 8 word" where
  "load_u8 mem a = ucast (drop_bit (8 * unat (a AND 7)) (mem (a AND NOT 7)))"

definition store_u8 :: "memory \<Rightarrow> cell \<Rightarrow> 8 word \<Rightarrow> memory" where
  "store_u8 mem a v =
     (let c = a AND NOT 7; k = 8 * unat (a AND 7) in
      mem(c := mem c AND NOT (push_bit k (mask 8)) OR push_bit k (ucast v)))"

primrec load_le :: "nat \<Rightarrow> memory \<Rightarrow> cell \<Rightarrow> cell" where
  "load_le 0 mem a = 0"
| "load_le (Suc n) mem a = ucast (load_u8 mem a) OR push_bit 8 (load_le n mem (a + 1))"

primrec store_le :: "nat \<Rightarrow> memory \<Rightarrow> cell \<Rightarrow> cell \<Rightarrow> memory" where
  "store_le 0 mem a v = mem"
| "store_le (Suc n) mem a v = store_le n (store_u8 mem a (ucast v)) (a + 1) (drop_bit 8 v)"

definition load_u16 :: "memory \<Rightarrow> cell \<Rightarrow> 16 word" where
  "load_u16 mem a = ucast (load_le 2 mem a)"

definition load_u32 :: "memory \<Rightarrow> cell \<Rightarrow> 32 word" where
  "load_u32 mem a = ucast (load_le 4 mem a)"

definition load_cell :: "memory \<Rightarrow> cell \<Rightarrow> cell" where
  "load_cell mem a = load_le 8 mem a"

definition store_u16 :: "memory \<Rightarrow> cell \<Rightarrow> 16 word \<Rightarrow> memory" where
  "store_u16 mem a v = store_le 2 mem a (ucast v)"

definition store_u32 :: "memory \<Rightarrow> cell \<Rightarrow> 32 word \<Rightarrow> memory" where
  "store_u32 mem a v = store_le 4 mem a (ucast v)"

definition store_cell :: "memory \<Rightarrow> cell \<Rightarrow> cell \<Rightarrow> memory" where
  "store_cell mem a v = store_le 8 mem a v"

text \<open>\<open>memcpy\<close> and \<open>memset\<close> at byte granularity; the ranges of a copy do not overlap.\<close>

definition copy_bytes :: "cell \<Rightarrow> cell \<Rightarrow> nat \<Rightarrow> memory \<Rightarrow> memory" where
  "copy_bytes dest src n mem =
     fold (\<lambda>i m. store_u8 m (dest + of_nat i) (load_u8 mem (src + of_nat i))) [0..<n] mem"

definition fill_bytes :: "cell \<Rightarrow> 8 word \<Rightarrow> nat \<Rightarrow> memory \<Rightarrow> memory" where
  "fill_bytes dest v n mem = fold (\<lambda>i m. store_u8 m (dest + of_nat i) v) [0..<n] mem"

subsection \<open>What a load returns after a store\<close>

lemma address_split: "a = b \<longleftrightarrow> a AND NOT 7 = b AND NOT 7 \<and> a AND 7 = b AND 7" for a b :: cell
proof
  assume "a AND NOT 7 = b AND NOT 7 \<and> a AND 7 = b AND 7"
  moreover have "x = (x AND NOT 7) OR (x AND 7)" for x :: cell by (simp add: bit_eq_iff bit_simps) blast
  ultimately show "a = b" by metis
qed simp

lemma byte_index: "unat (a AND 7) < 8" for a :: cell
proof -
  have "unat (a AND mask 3) < 8" by (simp add: unat_and_mask)
  then show ?thesis by (simp add: mask_eq_exp_minus_1)
qed

lemma load_u8_store_u8: "load_u8 (store_u8 mem a v) b = (if b = a then v else load_u8 mem b)"
proof (cases "b AND NOT 7 = a AND NOT 7")
  case False
  then show ?thesis by (auto simp: load_u8_def store_u8_def Let_def)
next
  case True
  let ?i = "unat (a AND 7)" and ?j = "unat (b AND 7)"
  have ij: "?i < 8" "?j < 8" by (rule byte_index)+
  show ?thesis
  proof (cases "?i = ?j")
    case eq: True
    then have "b AND 7 = a AND 7" by (simp add: word_unat_eq_iff)
    then have "b = a" using True address_split [of b a] by blast
    moreover have "load_u8 (store_u8 mem a v) a = v"
      unfolding load_u8_def store_u8_def Let_def by (rule bit_word_eqI) (use ij in \<open>auto simp: bit_simps\<close>)
    ultimately show ?thesis by simp
  next
    case neq: False
    then have "b \<noteq> a" by auto
    moreover have "load_u8 (store_u8 mem a v) b = load_u8 mem b"
      unfolding load_u8_def store_u8_def Let_def
      by (rule bit_word_eqI) (use neq ij True in \<open>auto simp: bit_simps linorder_neq_iff dest: bit_imp_le_length\<close>)
    ultimately show ?thesis by simp
  qed
qed

text \<open>The bytes of a multi-byte unit at address \<open>a\<close>; addresses wrap around.\<close>

definition unit_bytes :: "nat \<Rightarrow> cell \<Rightarrow> cell set" where
  "unit_bytes n a = (\<lambda>i. a + of_nat i) ` {..<n}"

lemma unit_bytes_Suc: "unit_bytes (Suc n) a = insert a (unit_bytes n (a + 1))"
  by (auto simp: unit_bytes_def lessThan_Suc_eq_insert_0 image_image ac_simps)

lemma unit_bytes_fresh: "n < 2 ^ 64 \<Longrightarrow> a \<notin> unit_bytes n (a + 1)"
proof
  assume n: "n < 2 ^ 64" and "a \<in> unit_bytes n (a + 1)"
  then obtain i where i: "i < n" "of_nat (Suc i) = (0 :: cell)" by (auto simp: unit_bytes_def)
  then have "unat (of_nat (Suc i) :: cell) = 0" by (simp only: unsigned_0)
  then show False using i(1) n by (simp add: unat_of_nat del: of_nat_Suc)
qed

lemma load_u8_store_le: "b \<notin> unit_bytes n a \<Longrightarrow> load_u8 (store_le n mem a v) b = load_u8 mem b"
  by (induction n arbitrary: mem a v) (simp_all add: unit_bytes_Suc load_u8_store_u8)

lemma load_le_cong: "(\<And>b. b \<in> unit_bytes n a \<Longrightarrow> load_u8 mem' b = load_u8 mem b) \<Longrightarrow> load_le n mem' a = load_le n mem a"
  by (induction n arbitrary: a) (simp_all add: unit_bytes_Suc)

lemma load_le_store_le: "n < 2 ^ 64 \<Longrightarrow> load_le n (store_le n mem a v) a = take_bit (8 * n) v"
proof (induction n arbitrary: mem a v)
  case (Suc n)
  then have "a \<notin> unit_bytes n (a + 1)" by (intro unit_bytes_fresh) simp
  then have "load_u8 (store_le (Suc n) mem a v) a = ucast v" by (simp add: load_u8_store_le load_u8_store_u8)
  moreover have "load_le n (store_le (Suc n) mem a v) (a + 1) = take_bit (8 * n) (drop_bit 8 v)" using Suc by simp
  ultimately show ?case by (simp only: load_le.simps) (rule bit_word_eqI, auto simp: bit_simps)
qed simp

lemma load_le_disjoint: "unit_bytes n a \<inter> unit_bytes m b = {} \<Longrightarrow> load_le n (store_le m mem b v) a = load_le n mem a"
  by (rule load_le_cong) (auto intro: load_u8_store_le)

lemma load_store_units [simp]:
  "load_u8 (store_u8 mem a v8) a = v8" "load_u16 (store_u16 mem a v16) a = v16"
  "load_u32 (store_u32 mem a v32) a = v32" "load_cell (store_cell mem a v) a = v"
proof -
  have "take_bit 16 (ucast v16 :: cell) = ucast v16" "take_bit 32 (ucast v32 :: cell) = ucast v32"
    by (auto simp: bit_eq_iff bit_simps dest: bit_imp_le_length)
  moreover have "ucast (ucast v16 :: cell) = v16" "ucast (ucast v32 :: cell) = v32" "take_bit 64 v = v"
    by (rule bit_word_eqI, simp add: bit_simps)+
  ultimately show "load_u8 (store_u8 mem a v8) a = v8" "load_u16 (store_u16 mem a v16) a = v16"
      "load_u32 (store_u32 mem a v32) a = v32" "load_cell (store_cell mem a v) a = v"
    unfolding load_u16_def store_u16_def load_u32_def store_u32_def load_cell_def store_cell_def
    by (simp_all add: load_u8_store_u8 load_le_store_le del: load_le.simps store_le.simps)
qed

lemma store_range:
  assumes "n \<le> 2 ^ 64"
  shows "load_u8 (fold (\<lambda>i m. store_u8 m (dest + of_nat i) (f i)) [0..<n] mem) a =
    (if unat (a - dest) < n then f (unat (a - dest)) else load_u8 mem a)"
  using assms
proof (induction n)
  case (Suc n)
  have "a = dest + of_nat n \<longleftrightarrow> a - dest = of_nat n" by (auto simp: diff_eq_eq add.commute)
  also have "\<dots> \<longleftrightarrow> unat (a - dest) = n" using Suc.prems by (simp add: word_unat_eq_iff unat_of_nat)
  finally have "a = dest + of_nat n \<longleftrightarrow> unat (a - dest) = n" .
  then show ?case using Suc by (auto simp: load_u8_store_u8 less_Suc_eq)
qed simp

lemma load_copy_bytes:
  "n \<le> 2 ^ 64 \<Longrightarrow> load_u8 (copy_bytes dest src n mem) a = (if unat (a - dest) < n then load_u8 mem (src + (a - dest)) else load_u8 mem a)"
  using store_range [of n dest "\<lambda>i. load_u8 mem (src + of_nat i)" mem a] by (simp add: copy_bytes_def)

lemma load_fill_bytes:
  "n \<le> 2 ^ 64 \<Longrightarrow> load_u8 (fill_bytes dest v n mem) a = (if unat (a - dest) < n then v else load_u8 mem a)"
  using store_range [of n dest "\<lambda>i. v" mem a] by (simp add: fill_bytes_def)

text \<open>At a multiple of eight the eight bytes are the cell.\<close>

lemma byte_in_cell:
  assumes a: "a AND 7 = (0 :: cell)" and i: "i < 8"
  shows "(a + of_nat i) AND 7 = of_nat i" "(a + of_nat i) AND NOT 7 = a"
proof -
  have m: "(7 :: cell) = mask 3" by (simp add: mask_eq_exp_minus_1)
  have an: "\<not> bit a n" if "n < 3" for n using arg_cong [OF a, of "\<lambda>x. bit x n"] that by (simp add: m bit_simps)
  define w :: cell where "w = of_nat i"
  have "unat (w AND mask 3) = unat w" using i by (simp add: w_def unat_and_mask unat_of_nat)
  then have "w = w AND mask 3" by (simp only: word_unat_eq_iff)
  then have w_n: "bit w n \<Longrightarrow> n < 3" for n by (metis bit_and_iff bit_mask_iff)
  have "a + w = a OR w" by (rule disjunctive_add) (use an w_n in blast)
  then have "(a + w) AND 7 = w" "(a + w) AND NOT 7 = a"
    unfolding m by (auto intro!: bit_word_eqI simp: bit_simps dest: an w_n)
  then show "(a + of_nat i) AND 7 = of_nat i" "(a + of_nat i) AND NOT 7 = a" by (simp_all only: w_def)
qed

lemma load_le_aligned:
  assumes "a AND 7 = 0"
  shows "i + n \<le> 8 \<Longrightarrow> load_le n mem (a + of_nat i) = take_bit (8 * n) (drop_bit (8 * i) (mem a))"
proof (induction n arbitrary: i)
  case (Suc n)
  then have "load_u8 mem (a + of_nat i) = ucast (drop_bit (8 * i) (mem a))"
    using byte_in_cell [OF assms, of i] by (simp add: load_u8_def unat_of_nat)
  moreover have "load_le n mem (a + of_nat i + 1) = take_bit (8 * n) (drop_bit (8 * Suc i) (mem a))"
    using Suc.IH [of "Suc i"] Suc.prems by (simp add: ac_simps)
  ultimately show ?case by (simp only: load_le.simps) (rule bit_word_eqI, auto simp: bit_simps ac_simps)
qed simp

lemma load_cell_aligned: "a AND 7 = 0 \<Longrightarrow> load_cell mem a = mem a"
  using load_le_aligned [of a 0 8 mem] by (simp add: load_cell_def) (rule bit_word_eqI, simp add: bit_simps)

end
