(* ===== verification/Instruction_Operands.thy ===== *)
theory Instruction_Operands
  imports Byte_Memory
begin

text \<open>
  Operands of machine instructions (\<open>vm/instruction_operands.hpp\<close> and \<open>.cpp\<close>).

  A relocation entry is a packed 32-bit word; an operand is an entry together with the code
  block it belongs to, the index of its first parameter and the address just behind the
  bytes it occupies. Values are the 64-bit patterns of the \<open>fixnum\<close>s of the source. An
  unknown class or type is a critical error, \<open>None\<close>.
\<close>

unbundle bit_operations_syntax

datatype relocation_type =
    RT_DLSYM | RT_ENTRY_POINT | RT_ENTRY_POINT_PIC | RT_ENTRY_POINT_PIC_TAIL | RT_HERE | RT_THIS
  | RT_LITERAL | RT_UNTAGGED | RT_MEGAMORPHIC_CACHE_HITS | RT_VM | RT_CARDS_OFFSET | RT_DECKS_OFFSET
  | RT_UNUSED | RT_DLSYM_TOC | RT_INLINE_CACHE_MISS | RT_SAFEPOINT

datatype relocation_class =
    RC_ABSOLUTE_CELL | RC_ABSOLUTE | RC_RELATIVE | RC_ABSOLUTE_PPC_2_2 | RC_ABSOLUTE_PPC_2
  | RC_RELATIVE_PPC_2_PC | RC_RELATIVE_PPC_3_PC | RC_RELATIVE_ARM_3 | RC_INDIRECT_ARM
  | RC_INDIRECT_ARM_PC | RC_ABSOLUTE_2 | RC_ABSOLUTE_1 | RC_ABSOLUTE_PPC_2_2_2_2

text \<open>The numbers of the enumerations.\<close>

definition relocation_types :: "relocation_type list" where
  "relocation_types =
     [RT_DLSYM, RT_ENTRY_POINT, RT_ENTRY_POINT_PIC, RT_ENTRY_POINT_PIC_TAIL, RT_HERE, RT_THIS, RT_LITERAL,
      RT_UNTAGGED, RT_MEGAMORPHIC_CACHE_HITS, RT_VM, RT_CARDS_OFFSET, RT_DECKS_OFFSET, RT_UNUSED, RT_DLSYM_TOC,
      RT_INLINE_CACHE_MISS, RT_SAFEPOINT]"

definition relocation_classes :: "relocation_class list" where
  "relocation_classes =
     [RC_ABSOLUTE_CELL, RC_ABSOLUTE, RC_RELATIVE, RC_ABSOLUTE_PPC_2_2, RC_ABSOLUTE_PPC_2, RC_RELATIVE_PPC_2_PC,
      RC_RELATIVE_PPC_3_PC, RC_RELATIVE_ARM_3, RC_INDIRECT_ARM, RC_INDIRECT_ARM_PC, RC_ABSOLUTE_2, RC_ABSOLUTE_1,
      RC_ABSOLUTE_PPC_2_2_2_2]"

definition rel_absolute_ppc_2_mask :: cell where
  "rel_absolute_ppc_2_mask = 0x0000ffff"

definition rel_relative_ppc_2_mask :: cell where
  "rel_relative_ppc_2_mask = 0x0000fffc"

definition rel_relative_ppc_3_mask :: cell where
  "rel_relative_ppc_3_mask = 0x03fffffc"

definition rel_indirect_arm_mask :: cell where
  "rel_indirect_arm_mask = 0x00000fff"

definition rel_relative_arm_3_mask :: cell where
  "rel_relative_arm_3_mask = 0x00ffffff"

subsection \<open>Relocation entries\<close>

type_synonym relocation_entry = "32 word"

fun position :: "'a \<Rightarrow> 'a list \<Rightarrow> nat" where
  "position x [] = 0"
| "position x (y # ys) = (if x = y then 0 else Suc (position x ys))"

definition new_relocation_entry :: "relocation_type \<Rightarrow> relocation_class \<Rightarrow> cell \<Rightarrow> relocation_entry" where
  "new_relocation_entry ty cl offset =
     ucast (push_bit 28 (of_nat (position ty relocation_types)) OR push_bit 24 (of_nat (position cl relocation_classes)) OR offset :: cell)"

definition rel_type :: "relocation_entry \<Rightarrow> relocation_type" where
  "rel_type v = relocation_types ! unat (drop_bit 28 (v AND 0xf0000000))"

definition rel_klass :: "relocation_entry \<Rightarrow> relocation_class option" where
  "rel_klass v =
     (let n = unat (drop_bit 24 (v AND 0x0f000000)) in
      if n < length relocation_classes then Some (relocation_classes ! n) else None)"

definition rel_offset :: "relocation_entry \<Rightarrow> cell" where
  "rel_offset v = ucast (v AND 0x00ffffff)"

fun number_of_parameters :: "relocation_type \<Rightarrow> nat option" where
  "number_of_parameters RT_VM = Some 1"
| "number_of_parameters RT_DLSYM = Some 2"
| "number_of_parameters RT_DLSYM_TOC = Some 2"
| "number_of_parameters RT_UNUSED = None"
| "number_of_parameters _ = Some 0"

subsection \<open>Loads and stores\<close>

record instruction_operand =
  op_rel :: relocation_entry
  op_compiled :: cell
  op_index :: cell
  op_pointer :: cell

definition sizeof_code_block :: cell where
  "sizeof_code_block = 32"

definition block_entry_point :: "cell \<Rightarrow> cell" where
  "block_entry_point compiled = compiled + sizeof_code_block"

definition new_instruction_operand :: "relocation_entry \<Rightarrow> cell \<Rightarrow> cell \<Rightarrow> instruction_operand" where
  "new_instruction_operand r compiled index =
     \<lparr>op_rel = r, op_compiled = compiled, op_index = index, op_pointer = block_entry_point compiled + rel_offset r\<rparr>"

text \<open>\<open>ptr[-k]\<close> for a pointer to 32-bit units.\<close>

definition u32_before :: "memory \<Rightarrow> cell \<Rightarrow> cell \<Rightarrow> 32 word" where
  "u32_before mem ptr k = load_u32 mem (ptr - 4 * k)"

definition load_value_2_2 :: "memory \<Rightarrow> cell \<Rightarrow> cell" where
  "load_value_2_2 mem ptr =
     (let hi = ucast (u32_before mem ptr 2 AND 0xffff); lo = ucast (u32_before mem ptr 1 AND 0xffff) in
      push_bit 16 hi OR lo)"

definition load_value_2_2_2_2 :: "memory \<Rightarrow> cell \<Rightarrow> cell" where
  "load_value_2_2_2_2 mem ptr =
     (let hhi = ucast (u32_before mem ptr 5 AND 0xffff); hlo = ucast (u32_before mem ptr 4 AND 0xffff);
          lhi = ucast (u32_before mem ptr 2 AND 0xffff); llo = ucast (u32_before mem ptr 1 AND 0xffff) in
      push_bit 48 hhi OR push_bit 32 hlo OR push_bit 16 lhi OR llo)"

text \<open>The field of an instruction is shifted up and back down to extend its sign in 32 bits.\<close>

definition load_value_masked :: "memory \<Rightarrow> cell \<Rightarrow> cell \<Rightarrow> nat \<Rightarrow> nat \<Rightarrow> cell" where
  "load_value_masked mem ptr msk bits shift =
     scast (push_bit shift (signed_drop_bit bits (push_bit bits (u32_before mem ptr 1 AND ucast msk))))"

definition load_value :: "memory \<Rightarrow> instruction_operand \<Rightarrow> cell \<Rightarrow> cell option" where
  "load_value mem op relative_to =
     (let ptr = op_pointer op in
      map_option (\<lambda>cl. case cl of
          RC_ABSOLUTE_CELL \<Rightarrow> load_cell mem (ptr - 8)
        | RC_ABSOLUTE \<Rightarrow> ucast (load_u32 mem (ptr - 4))
        | RC_RELATIVE \<Rightarrow> scast (load_u32 mem (ptr - 4)) + relative_to
        | RC_ABSOLUTE_PPC_2_2 \<Rightarrow> load_value_2_2 mem ptr
        | RC_ABSOLUTE_PPC_2 \<Rightarrow> load_value_masked mem ptr rel_absolute_ppc_2_mask 16 0
        | RC_RELATIVE_PPC_2_PC \<Rightarrow> load_value_masked mem ptr rel_relative_ppc_2_mask 16 0 + relative_to - 4
        | RC_RELATIVE_PPC_3_PC \<Rightarrow> load_value_masked mem ptr rel_relative_ppc_3_mask 6 0 + relative_to - 4
        | RC_RELATIVE_ARM_3 \<Rightarrow> load_value_masked mem ptr rel_relative_arm_3_mask 6 2 + relative_to + 8
        | RC_INDIRECT_ARM \<Rightarrow> load_value_masked mem ptr rel_indirect_arm_mask 20 0 + relative_to
        | RC_INDIRECT_ARM_PC \<Rightarrow> load_value_masked mem ptr rel_indirect_arm_mask 20 0 + relative_to + 8
        | RC_ABSOLUTE_2 \<Rightarrow> ucast (load_u16 mem (ptr - 2))
        | RC_ABSOLUTE_1 \<Rightarrow> ucast (load_u8 mem (ptr - 1))
        | RC_ABSOLUTE_PPC_2_2_2_2 \<Rightarrow> load_value_2_2_2_2 mem ptr)
      (rel_klass (op_rel op)))"

definition load_code_block :: "memory \<Rightarrow> instruction_operand \<Rightarrow> cell option" where
  "load_code_block mem op = map_option (\<lambda>v. v - sizeof_code_block) (load_value mem op (op_pointer op))"

text \<open>Replaces the low half of \<open>ptr[-k]\<close>.\<close>

definition store_low_half :: "memory \<Rightarrow> cell \<Rightarrow> cell \<Rightarrow> cell \<Rightarrow> memory" where
  "store_low_half mem ptr k v = store_u32 mem (ptr - 4 * k) (u32_before mem ptr k AND NOT 0xffff OR ucast (v AND 0xffff))"

definition store_value_2_2 :: "memory \<Rightarrow> cell \<Rightarrow> cell \<Rightarrow> memory" where
  "store_value_2_2 mem ptr v =
     (let mem1 = store_low_half mem ptr 2 (signed_drop_bit 16 v) in store_low_half mem1 ptr 1 v)"

definition store_value_2_2_2_2 :: "memory \<Rightarrow> cell \<Rightarrow> cell \<Rightarrow> memory" where
  "store_value_2_2_2_2 mem ptr v =
     (let mem1 = store_low_half mem ptr 5 (drop_bit 48 v); mem2 = store_low_half mem1 ptr 4 (drop_bit 32 v);
          mem3 = store_low_half mem2 ptr 2 (drop_bit 16 v) in store_low_half mem3 ptr 1 v)"

definition store_value_masked :: "memory \<Rightarrow> cell \<Rightarrow> cell \<Rightarrow> cell \<Rightarrow> nat \<Rightarrow> memory" where
  "store_value_masked mem ptr v msk shift =
     store_u32 mem (ptr - 4)
       (ucast (ucast (load_u32 mem (ptr - 4)) AND NOT msk OR signed_drop_bit shift v AND msk :: cell))"

definition store_value :: "memory \<Rightarrow> instruction_operand \<Rightarrow> cell \<Rightarrow> memory option" where
  "store_value mem op absolute_value =
     (let ptr = op_pointer op; relative_value = absolute_value - ptr in
      map_option (\<lambda>cl. case cl of
          RC_ABSOLUTE_CELL \<Rightarrow> store_cell mem (ptr - 8) absolute_value
        | RC_ABSOLUTE \<Rightarrow> store_u32 mem (ptr - 4) (ucast absolute_value)
        | RC_RELATIVE \<Rightarrow> store_u32 mem (ptr - 4) (ucast relative_value)
        | RC_ABSOLUTE_PPC_2_2 \<Rightarrow> store_value_2_2 mem ptr absolute_value
        | RC_ABSOLUTE_PPC_2 \<Rightarrow> store_value_masked mem ptr absolute_value rel_absolute_ppc_2_mask 0
        | RC_RELATIVE_PPC_2_PC \<Rightarrow> store_value_masked mem ptr (relative_value + 4) rel_relative_ppc_2_mask 0
        | RC_RELATIVE_PPC_3_PC \<Rightarrow> store_value_masked mem ptr (relative_value + 4) rel_relative_ppc_3_mask 0
        | RC_RELATIVE_ARM_3 \<Rightarrow> store_value_masked mem ptr (relative_value - 8) rel_relative_arm_3_mask 2
        | RC_INDIRECT_ARM \<Rightarrow> store_value_masked mem ptr relative_value rel_indirect_arm_mask 0
        | RC_INDIRECT_ARM_PC \<Rightarrow> store_value_masked mem ptr (relative_value - 8) rel_indirect_arm_mask 0
        | RC_ABSOLUTE_2 \<Rightarrow> store_u16 mem (ptr - 2) (ucast absolute_value)
        | RC_ABSOLUTE_1 \<Rightarrow> store_u8 mem (ptr - 1) (ucast absolute_value)
        | RC_ABSOLUTE_PPC_2_2_2_2 \<Rightarrow> store_value_2_2_2_2 mem ptr absolute_value)
      (rel_klass (op_rel op)))"

subsection \<open>Round trips\<close>

text \<open>A value that fits a signed field of \<open>n\<close> bits.\<close>

definition fits_signed :: "nat \<Rightarrow> cell \<Rightarrow> bool" where
  "fits_signed n v \<longleftrightarrow> - (2 ^ (n - 1)) \<le> sint v \<and> sint v < 2 ^ (n - 1)"

lemma fits_signed_bits:
  assumes "fits_signed n v" "0 < n" "n \<le> 64" "n - 1 \<le> i" "i < 64"
  shows "bit v i = bit v (n - 1)"
proof -
  have t: "signed_take_bit (n - 1) (sint v) = sint v"
    using assms(1) by (simp add: fits_signed_def signed_take_bit_int_eq_self)
  have "bit (signed_take_bit (n - 1) (sint v)) i = bit (sint v) (n - 1)"
    using assms(4) by (simp add: bit_signed_take_bit_iff min_absorb2)
  then have "bit (sint v) i = bit (sint v) (n - 1)" by (simp only: t)
  moreover have "bit (sint v) j = bit v j" if "j < 64" for j using that by (simp add: bit_simps min_absorb2)
  ultimately show ?thesis using assms by simp
qed

lemma masked_value:
  fixes v :: cell
  assumes b: "0 < b" "b < 32" and low: "\<And>i. i < l \<Longrightarrow> \<not> bit v i" and high: "fits_signed (32 - b) v"
  shows "scast (signed_drop_bit b (push_bit b (ucast (v AND (mask (32 - b) AND NOT (mask l))) :: 32 word))) = v"
proof (rule bit_word_eqI)
  fix i assume i: "i < LENGTH(64)"
  have h: "bit v j = bit v (31 - b)" if "31 - b \<le> j" "j < 64" for j
    using fits_signed_bits [OF high, of j] b that by simp
  show "bit (scast (signed_drop_bit b (push_bit b (ucast (v AND (mask (32 - b) AND NOT (mask l))) :: 32 word))) :: cell) i = bit v i"
  proof (cases "i < 32 - b")
    case True
    then have "min 31 i = i" by simp
    then show ?thesis using i b low [of i] True by (auto simp: bit_simps)
  next
    case False
    then have "31 - b \<le> i" "32 - b \<le> min 31 i" "min 31 i < 32" using b by simp_all
    then show ?thesis using i b low [of "31 - b"] h [of i] by (auto simp: bit_simps)
  qed
qed

lemma load_masked_store_masked:
  assumes "0 < b" "b < 32" "\<And>i. i < l \<Longrightarrow> \<not> bit v i" "fits_signed (32 - b) v" "msk = mask (32 - b) AND NOT (mask l)"
  shows "load_value_masked (store_value_masked mem ptr v msk 0) ptr msk b 0 = v"
proof -
  have "ucast (ucast w AND NOT msk OR v AND msk :: cell) AND ucast msk = (ucast (v AND msk) :: 32 word)" for w :: "32 word"
    by (rule bit_word_eqI) (auto simp: bit_simps)
  then show ?thesis using masked_value [OF assms(1-4)]
    by (simp add: load_value_masked_def store_value_masked_def u32_before_def assms(5))
qed

text \<open>
  The 24-bit field of an ARM branch is extended from bit 25, which the mask has cleared: only
  forward branches come back.
\<close>

lemma load_store_arm_3:
  assumes "\<And>i. i < 2 \<or> 26 \<le> i \<Longrightarrow> \<not> bit v i"
  shows "load_value_masked (store_value_masked mem ptr v rel_relative_arm_3_mask 2) ptr rel_relative_arm_3_mask 6 2 = v"
proof -
  have m: "rel_relative_arm_3_mask = mask 24" by (simp add: rel_relative_arm_3_mask_def mask_eq_exp_minus_1)
  have "ucast (ucast w AND NOT (mask 24) OR signed_drop_bit 2 v AND mask 24 :: cell) AND ucast (mask 24 :: cell) = (ucast (signed_drop_bit 2 v AND mask 24) :: 32 word)" for w :: "32 word"
    by (rule bit_word_eqI) (auto simp: bit_simps)
  moreover define x :: "32 word" where "x = ucast (signed_drop_bit 2 v AND mask 24)"
  have x: "bit x n \<longleftrightarrow> n < 24 \<and> bit v (n + 2)" for n by (auto simp: x_def bit_simps)
  have "signed_drop_bit 6 (push_bit 6 x) = x" by (rule bit_word_eqI) (auto simp: bit_simps x)
  moreover have "scast (push_bit 2 x) = v"
  proof (rule bit_word_eqI)
    fix i assume i: "i < LENGTH(64)"
    have "bit (scast (push_bit 2 x) :: cell) i \<longleftrightarrow> 2 \<le> min 31 i \<and> bit x (min 31 i - 2)" using i by (simp add: bit_simps min_less_iff_disj)
    also have "\<dots> \<longleftrightarrow> 2 \<le> i \<and> i < 26 \<and> bit v i"
    proof (cases "i < 26")
      case True
      then have "min 31 i = i" by simp
      then show ?thesis using True by (auto simp: x le_add_diff_inverse2 simp del: add_2_eq_Suc')
    qed (auto simp: x min_def)
    finally show "bit (scast (push_bit 2 x) :: cell) i = bit v i" using assms [of i] by auto
  qed
  ultimately show ?thesis by (simp add: load_value_masked_def store_value_masked_def u32_before_def m x_def)
qed

lemma unit_bytes_disjoint:
  assumes "b = a + of_nat d" "n \<le> d" "d + m \<le> 2 ^ 64"
  shows "unit_bytes n a \<inter> unit_bytes m b = {}"
proof -
  have "a + of_nat i \<noteq> b + of_nat j" if "i < n" "j < m" for i j
  proof
    assume "a + of_nat i = b + of_nat j"
    then have "of_nat i = (of_nat (d + j) :: cell)" by (simp add: assms(1))
    then have "unat (of_nat i :: cell) = unat (of_nat (d + j) :: cell)" by (simp only:)
    then have "i mod 2 ^ 64 = (d + j) mod 2 ^ 64" by (simp only: unat_of_nat len_num1 len_bit0 len_bit1) simp
    then show False using that assms(2,3) by simp
  qed
  then show ?thesis by (auto simp: unit_bytes_def)
qed

lemma u32_before_store:
  assumes "j \<in> {1, 2, 4, 5}" "k \<in> {1, 2, 4, 5}"
  shows "u32_before (store_u32 mem (ptr - 4 * k) w) ptr j = (if j = k then w else u32_before mem ptr j)"
proof (cases "j = k")
  case False
  have "unit_bytes 4 (ptr - 4 * j) \<inter> unit_bytes 4 (ptr - 4 * k) = {}"
  proof (cases "k < j")
    case True
    then have "ptr - 4 * k = ptr - 4 * j + of_nat (4 * unat (j - k))" "4 \<le> 4 * unat (j - k)" "4 * unat (j - k) + 4 \<le> 2 ^ 64"
      using assms by auto
    then show ?thesis by (rule unit_bytes_disjoint)
  next
    case F: False
    then have "ptr - 4 * j = ptr - 4 * k + of_nat (4 * unat (k - j))" "4 \<le> 4 * unat (k - j)" "4 * unat (k - j) + 4 \<le> 2 ^ 64"
      using assms False by auto
    then show ?thesis using unit_bytes_disjoint by (metis Int_commute)
  qed
  then show ?thesis using False by (simp add: u32_before_def load_u32_def store_u32_def load_le_disjoint)
qed (simp add: u32_before_def)

text \<open>
  The values each class can hold, relative to the address behind the operand, and the number
  of bytes before that address a store may touch.
\<close>

fun representable :: "relocation_class \<Rightarrow> cell \<Rightarrow> cell \<Rightarrow> bool" where
  "representable RC_ABSOLUTE_CELL ptr v \<longleftrightarrow> True"
| "representable RC_ABSOLUTE ptr v \<longleftrightarrow> unat v < 2 ^ 32"
| "representable RC_RELATIVE ptr v \<longleftrightarrow> fits_signed 32 (v - ptr)"
| "representable RC_ABSOLUTE_PPC_2_2 ptr v \<longleftrightarrow> unat v < 2 ^ 32"
| "representable RC_ABSOLUTE_PPC_2 ptr v \<longleftrightarrow> fits_signed 16 v"
| "representable RC_RELATIVE_PPC_2_PC ptr v \<longleftrightarrow> (v - ptr) AND 3 = 0 \<and> fits_signed 16 (v - ptr + 4)"
| "representable RC_RELATIVE_PPC_3_PC ptr v \<longleftrightarrow> (v - ptr) AND 3 = 0 \<and> fits_signed 26 (v - ptr + 4)"
| "representable RC_RELATIVE_ARM_3 ptr v \<longleftrightarrow> (v - ptr) AND 3 = 0 \<and> unat (v - ptr - 8) < 2 ^ 26"
| "representable RC_INDIRECT_ARM ptr v \<longleftrightarrow> fits_signed 12 (v - ptr)"
| "representable RC_INDIRECT_ARM_PC ptr v \<longleftrightarrow> fits_signed 12 (v - ptr - 8)"
| "representable RC_ABSOLUTE_2 ptr v \<longleftrightarrow> unat v < 2 ^ 16"
| "representable RC_ABSOLUTE_1 ptr v \<longleftrightarrow> unat v < 2 ^ 8"
| "representable RC_ABSOLUTE_PPC_2_2_2_2 ptr v \<longleftrightarrow> True"

lemma unat_less_bits: "unat v < 2 ^ n \<Longrightarrow> n \<le> i \<Longrightarrow> \<not> bit v i" for v :: cell
proof -
  assume "unat v < 2 ^ n" "n \<le> i"
  then have "take_bit n (unat v) = unat v" by (simp add: take_bit_nat_eq_self)
  then have "\<not> bit (unat v) i" using \<open>n \<le> i\<close> by (metis bit_take_bit_iff not_le)
  then show ?thesis by (simp add: bit_simps)
qed

lemma ucast_small:
  fixes v :: cell
  assumes "unat v < 2 ^ LENGTH('b::len)" 
  shows "ucast (ucast v :: 'b word) = v"
  by (rule bit_word_eqI) (use unat_less_bits [OF assms] in \<open>auto simp: bit_simps simp flip: not_le\<close>)

lemma aligned_4:
  assumes "x AND 3 = (0 :: cell)" "k AND 3 = 0"
  shows "i < 2 \<Longrightarrow> \<not> bit (x + k) i"
proof -
  have four: "y = push_bit 2 (drop_bit 2 y)" if "y AND 3 = 0" for y :: cell
  proof -
    have m: "y AND mask 2 = 0" using that by (simp add: mask_eq_exp_minus_1)
    have low: "\<not> bit y i" if "i < 2" for i using arg_cong [OF m, of "\<lambda>x. bit x i"] that by (simp add: bit_simps)
    show ?thesis
    proof (rule bit_word_eqI)
      fix n assume n: "n < LENGTH(64)"
      show "bit y n = bit (push_bit 2 (drop_bit 2 y)) n"
      proof (cases "n < 2")
        case False
        then obtain j where "n = 2 + j" by (auto simp: not_less le_iff_add)
        then show ?thesis using n by (simp add: bit_simps)
      qed (simp add: low bit_simps)
    qed
  qed
  have "x + k = push_bit 2 (drop_bit 2 x) + push_bit 2 (drop_bit 2 k)"
    by (rule arg_cong2 [of _ _ _ _ "(+)"]) (rule four, fact)+
  also have "\<dots> = push_bit 2 (drop_bit 2 x + drop_bit 2 k)" by (simp add: push_bit_eq_mult distrib_right)
  finally have "x + k = push_bit 2 (drop_bit 2 x + drop_bit 2 k)" .
  then show "i < 2 \<Longrightarrow> \<not> bit (x + k) i" by (simp add: bit_push_bit_iff)
qed

lemma low_half_store:
  assumes "j \<in> {1, 2, 4, 5}" "k \<in> {1, 2, 4, 5}"
  shows "u32_before (store_low_half mem ptr k v) ptr j AND 0xffff = (if j = k then ucast (v AND 0xffff) else u32_before mem ptr j AND 0xffff)"
proof -
  have m: "(0xffff :: cell) = mask 16" "(0xffff :: 32 word) = mask 16" by (simp_all add: mask_eq_exp_minus_1)
  have "(w AND NOT (mask 16) OR ucast (v AND mask 16)) AND mask 16 = ucast (v AND mask 16)" for w :: "32 word"
    by (rule bit_word_eqI) (auto simp: bit_simps)
  then show ?thesis unfolding store_low_half_def u32_before_store [OF assms] m by simp
qed

lemma load_store_halves:
  "unat v < 2 ^ 32 \<Longrightarrow> load_value_2_2 (store_value_2_2 mem ptr v) ptr = v"
  "load_value_2_2_2_2 (store_value_2_2_2_2 mem ptr v) ptr = v"
proof -
  have m: "(0xffff :: cell) = mask 16" by (simp add: mask_eq_exp_minus_1)
  show "load_value_2_2 (store_value_2_2 mem ptr v) ptr = v" if "unat v < 2 ^ 32"
    unfolding load_value_2_2_def store_value_2_2_def Let_def
    by (simp add: low_half_store m, rule bit_word_eqI) (use unat_less_bits [OF that] in \<open>auto simp: bit_simps simp flip: not_le\<close>)
  show "load_value_2_2_2_2 (store_value_2_2_2_2 mem ptr v) ptr = v"
    unfolding load_value_2_2_2_2_def store_value_2_2_2_2_def Let_def
    by (simp add: low_half_store m, rule bit_word_eqI, rename_tac n, case_tac "n < 32"; case_tac "n < 48") (auto simp: bit_simps)
qed

lemma store_load_value:
  assumes cl: "rel_klass (op_rel op) = Some cl" and v: "representable cl (op_pointer op) v"
  shows "\<exists>mem'. store_value mem op v = Some mem' \<and> load_value mem' op (op_pointer op) = Some v"
proof -
  let ?ptr = "op_pointer op"
  have masks: "rel_absolute_ppc_2_mask = mask (32 - 16) AND NOT (mask 0)" "rel_relative_ppc_2_mask = mask (32 - 16) AND NOT (mask 2)"
    "rel_relative_ppc_3_mask = mask (32 - 6) AND NOT (mask 2)" "rel_indirect_arm_mask = mask (32 - 20) AND NOT (mask 0)"
    by (simp_all add: rel_absolute_ppc_2_mask_def rel_relative_ppc_2_mask_def rel_relative_ppc_3_mask_def rel_indirect_arm_mask_def mask_eq_exp_minus_1)
  have low: "i < 2 \<Longrightarrow> \<not> bit (v - ?ptr + 4) i" "i < 2 \<Longrightarrow> \<not> bit (v - ?ptr - 8) i" if "(v - ?ptr) AND 3 = 0" for i
    using aligned_4 [OF that, of 4 i] aligned_4 [OF that, of "- 8" i] by simp_all
  show ?thesis
  proof (cases cl)
    case RC_RELATIVE
    then have "bit (v - ?ptr) (min 31 i) = bit (v - ?ptr) i" if "i < 64" for i
      using fits_signed_bits [of 32 "v - ?ptr" i] that v by (auto simp: min_def)
    then have "scast (ucast (v - ?ptr) :: 32 word) = v - ?ptr" by (intro bit_word_eqI) (simp add: bit_simps min_less_iff_disj)
    then show ?thesis using RC_RELATIVE cl by (simp add: store_value_def load_value_def Let_def)
  next
    case RC_ABSOLUTE_PPC_2
    then show ?thesis using cl v load_masked_store_masked [of 16 0 v _ mem ?ptr, OF _ _ _ _ masks(1)]
      by (simp add: store_value_def load_value_def Let_def)
  next
    case RC_RELATIVE_PPC_2_PC
    then show ?thesis using cl v low(1) load_masked_store_masked [of 16 2 "v - ?ptr + 4" _ mem ?ptr, OF _ _ _ _ masks(2)]
      by (simp add: store_value_def load_value_def Let_def)
  next
    case RC_RELATIVE_PPC_3_PC
    then show ?thesis using cl v low(1) load_masked_store_masked [of 6 2 "v - ?ptr + 4" _ mem ?ptr, OF _ _ _ _ masks(3)]
      by (simp add: store_value_def load_value_def Let_def)
  next
    case RC_RELATIVE_ARM_3
    then have "\<not> bit (v - ?ptr - 8) i" if "i < 2 \<or> 26 \<le> i" for i
      using v low(2) [of i] unat_less_bits [of "v - ?ptr - 8" 26 i] that by auto
    then show ?thesis using RC_RELATIVE_ARM_3 cl load_store_arm_3 [of "v - ?ptr - 8" mem ?ptr]
      by (simp add: store_value_def load_value_def Let_def)
  next
    case RC_INDIRECT_ARM
    then show ?thesis using cl v load_masked_store_masked [of 20 0 "v - ?ptr" _ mem ?ptr, OF _ _ _ _ masks(4)]
      by (simp add: store_value_def load_value_def Let_def)
  next
    case RC_INDIRECT_ARM_PC
    then show ?thesis using cl v load_masked_store_masked [of 20 0 "v - ?ptr - 8" _ mem ?ptr, OF _ _ _ _ masks(4)]
      by (simp add: store_value_def load_value_def Let_def)
  qed (use cl v in \<open>simp_all add: store_value_def load_value_def Let_def load_store_halves ucast_small\<close>)
qed

lemma arm_3_backward_branch:
  assumes "rel_klass (op_rel op) = Some RC_RELATIVE_ARM_3"
  shows "\<exists>mem'. store_value mem op (op_pointer op + 4) = Some mem' \<and>
    load_value mem' op (op_pointer op) = Some (op_pointer op + 4 + 2 ^ 26)"
proof -
  let ?ptr = "op_pointer op"
  have "load_value_masked (store_value_masked mem ?ptr (- 4) rel_relative_arm_3_mask 2) ?ptr rel_relative_arm_3_mask 6 2 = 2 ^ 26 - 4"
  proof -
    have m: "rel_relative_arm_3_mask = mask 24" by (simp add: rel_relative_arm_3_mask_def mask_eq_exp_minus_1)
    have n: "(- 4 :: cell) = NOT (mask 2)" by (simp add: mask_eq_exp_minus_1)
    have "ucast (ucast w AND NOT (mask 24) OR signed_drop_bit 2 (- 4) AND mask 24 :: cell) AND ucast (mask 24 :: cell) = (mask 24 :: 32 word)" for w :: "32 word"
      unfolding n by (rule bit_word_eqI) (auto simp: bit_simps)
    moreover have "scast (push_bit 2 (signed_drop_bit 6 (push_bit 6 (mask 24 :: 32 word)))) = (2 ^ 26 - 4 :: cell)" by (simp add: mask_eq_exp_minus_1)
    ultimately show ?thesis by (simp add: load_value_masked_def store_value_masked_def u32_before_def m)
  qed
  then show ?thesis using assms by (simp add: store_value_def load_value_def Let_def)
qed

lemma relocation_fields:
  fixes a b off :: cell
  assumes "unat a < 2 ^ 4" "unat b < 2 ^ 4" "unat off < 2 ^ 24"
  defines "v \<equiv> ucast (push_bit 28 a OR push_bit 24 b OR off) :: 32 word"
  shows "ucast (drop_bit 28 (v AND 0xf0000000)) = a" "ucast (drop_bit 24 (v AND 0x0f000000)) = b" "ucast (v AND 0x00ffffff) = off"
proof -
  have m: "(0xf0000000 :: 32 word) = push_bit 28 (mask 4)" "(0x0f000000 :: 32 word) = push_bit 24 (mask 4)" "(0x00ffffff :: 32 word) = mask 24"
    by (simp_all add: mask_eq_exp_minus_1)
  note n = unat_less_bits [OF assms(1)] unat_less_bits [OF assms(2)] unat_less_bits [OF assms(3)]
  show "ucast (drop_bit 28 (v AND 0xf0000000)) = a" "ucast (drop_bit 24 (v AND 0x0f000000)) = b" "ucast (v AND 0x00ffffff) = off"
    unfolding m v_def by (rule bit_word_eqI; use n in \<open>auto simp: bit_simps simp flip: not_le\<close>)+
qed

lemma position_relocation:
  "position ty relocation_types < 2 ^ 4" "relocation_types ! position ty relocation_types = ty"
  "position cl relocation_classes < length relocation_classes" "relocation_classes ! position cl relocation_classes = cl"
  "length relocation_classes < 2 ^ 4"
  by (cases ty; simp add: relocation_types_def)+ (cases cl; simp add: relocation_classes_def)+

lemma relocation_entry_fields:
  assumes "unat off < 2 ^ 24"
  shows "rel_type (new_relocation_entry ty cl off) = ty" "rel_klass (new_relocation_entry ty cl off) = Some cl"
    "rel_offset (new_relocation_entry ty cl off) = off"
proof -
  have u: "unat (of_nat n :: cell) = n" if "n < 2 ^ 4" for n using that by (simp add: unat_of_nat)
  have c: "position cl relocation_classes < 2 ^ 4" using position_relocation(3,5) by (rule order_less_trans)
  note p = position_relocation(1) [of ty] c
  note f = relocation_fields [of "of_nat (position ty relocation_types)" "of_nat (position cl relocation_classes)" off,
      unfolded u [OF p(1)] u [OF p(2)], OF p assms]
  have e: "unat x = n" if "ucast x = (of_nat n :: cell)" "n < 2 ^ 4" for x :: "32 word" and n
  proof -
    have "unat x < 2 ^ LENGTH(32)" by (rule unsigned_less)
    then have "unat (ucast x :: cell) = unat x" by (simp add: unsigned_ucast_eq take_bit_nat_eq_self)
    then show ?thesis using that u by simp
  qed
  show "rel_type (new_relocation_entry ty cl off) = ty"
    unfolding rel_type_def new_relocation_entry_def e [OF f(1) p(1)] by (rule position_relocation)
  show "rel_klass (new_relocation_entry ty cl off) = Some cl"
    unfolding rel_klass_def new_relocation_entry_def e [OF f(2) p(2)] using position_relocation(3,4) by simp
  show "rel_offset (new_relocation_entry ty cl off) = off"
    unfolding rel_offset_def new_relocation_entry_def using f(3) by simp
qed

end
