(* ===== verification/VM_State.thy ===== *)
theory VM_State
  imports Data_Heap Instruction_Operands
begin

text \<open>
  The state of the virtual machine that the collectors see (the fields of \<open>factor_vm\<close> in
  \<open>vm/vm.hpp\<close> with \<open>context\<close>, \<open>code_heap\<close>, \<open>callback_heap\<close>, \<open>code_root\<close> and
  \<open>profiling_sample\<close>), and the way its code is run: a computation maps a state to \<open>None\<close>
  (a failed assertion or critical error, or no return) or to the next state with either a
  value or, where the source throws \<open>must_start_gc_again\<close> or leaves through
  \<open>general_error\<close>, the exception.

  A \<open>std::set\<close> of addresses is a sorted list without duplicates, a \<open>std::map\<close> a list of
  pairs sorted by key, and a \<open>std::vector\<close> a list. A data root is the value of the C++
  variable it points to. A context is found by its address. The two fingers of a running
  compaction, local variables there that the fix-up object points to, are kept with the
  state. Timers and the log of collection events are left out.
\<close>

section \<open>Computations\<close>

datatype vm_exception = must_start_gc_again | general_error vm_error_type cell cell

type_synonym ('s, 'a) visit = "'s \<Rightarrow> ('s \<times> (vm_exception + 'a)) option"

definition vreturn :: "'a \<Rightarrow> ('s, 'a) visit" where
  "vreturn x s = Some (s, Inr x)"

definition vthrow :: "vm_exception \<Rightarrow> ('s, 'a) visit" where
  "vthrow e s = Some (s, Inl e)"

definition vlift :: "'a option \<Rightarrow> ('s, 'a) visit" where
  "vlift x s = map_option (\<lambda>a. (s, Inr a)) x"

definition vassert :: "bool \<Rightarrow> ('s, unit) visit" where
  "vassert b = vlift (if b then Some () else None)"

definition vget :: "('s \<Rightarrow> 'a) \<Rightarrow> ('s, 'a) visit" where
  "vget f s = Some (s, Inr (f s))"

definition vmodify :: "('s \<Rightarrow> 's) \<Rightarrow> ('s, unit) visit" where
  "vmodify f s = Some (f s, Inr ())"

definition vbind :: "('s, 'a) visit \<Rightarrow> ('a \<Rightarrow> ('s, 'b) visit) \<Rightarrow> ('s, 'b) visit" where
  "vbind m f s =
     Option.bind (m s) (\<lambda>(s', r). case r of Inl e \<Rightarrow> Some (s', Inl e) | Inr x \<Rightarrow> f x s')"

definition vthen :: "('s, 'a) visit \<Rightarrow> ('s, 'b) visit \<Rightarrow> ('s, 'b) visit" where
  "vthen m n = vbind m (\<lambda>_. n)"

definition vwhen :: "bool \<Rightarrow> ('s, unit) visit \<Rightarrow> ('s, unit) visit" where
  "vwhen b m = (if b then m else vreturn ())"

primrec vfor_each :: "('a \<Rightarrow> ('s, unit) visit) \<Rightarrow> 'a list \<Rightarrow> ('s, unit) visit" where
  "vfor_each f [] = vreturn ()"
| "vfor_each f (x # xs) = vthen (f x) (vfor_each f xs)"

text \<open>Applies a computation to every element of a list and returns the results.\<close>

primrec vmap :: "('a \<Rightarrow> ('s, 'b) visit) \<Rightarrow> 'a list \<Rightarrow> ('s, 'b list) visit" where
  "vmap f [] = vreturn []"
| "vmap f (x # xs) = vbind (f x) (\<lambda>y. vbind (vmap f xs) (\<lambda>ys. vreturn (y # ys)))"

text \<open>A step of a component that returns the new component and a value, or aborts.\<close>

definition vcomponent :: "('s \<Rightarrow> 'c) \<Rightarrow> ('c \<Rightarrow> 's \<Rightarrow> 's) \<Rightarrow> ('c \<Rightarrow> ('c \<times> 'a) option) \<Rightarrow> ('s, 'a) visit" where
  "vcomponent get put f s = map_option (\<lambda>(c, x). (put c s, Inr x)) (f (get s))"

named_theorems visit_simps "running computations on a state"

lemmas visit_defs [visit_simps] = vreturn_def vthrow_def vlift_def vassert_def vget_def vmodify_def vthen_def vwhen_def

lemma vbind_simps [visit_simps]:
  "m s = None \<Longrightarrow> vbind m f s = None"
  "m s = Some (s', Inl e) \<Longrightarrow> vbind m f s = Some (s', Inl e)"
  "m s = Some (s', Inr x) \<Longrightarrow> vbind m f s = f x s'"
  by (simp_all add: vbind_def)

lemma vbind_mono [partial_function_mono]:
  assumes "mono_option (\<lambda>f. B f s)" "\<And>y t. mono_option (\<lambda>f. C y f t)"
  shows "mono_option (\<lambda>f. vbind (B f) (\<lambda>y. C y f) s)"
proof -
  have "mono_option (\<lambda>f. case r of Inl e \<Rightarrow> Some (t, Inl e) | Inr x \<Rightarrow> C x f t)" for r t
    using assms(2) by (cases r) (simp_all add: option.const_mono)
  then have "mono_option (\<lambda>f. case y of (t, r) \<Rightarrow> case r of Inl e \<Rightarrow> Some (t, Inl e) | Inr x \<Rightarrow> C x f t)" for y
    by (cases y) simp
  then show ?thesis unfolding vbind_def using assms(1) by (intro bind_mono)
qed

lemma vthen_mono [partial_function_mono]:
  assumes "mono_option (\<lambda>f. B f s)" "\<And>t. mono_option (\<lambda>f. C f t)"
  shows "mono_option (\<lambda>f. vthen (B f) (C f) s)"
  unfolding vthen_def using assms by (rule vbind_mono)

lemma vif_mono [partial_function_mono]:
  assumes "mono_option (\<lambda>f. B f s)" "mono_option (\<lambda>f. C f s)"
  shows "mono_option (\<lambda>f. (if b then B f else C f) s)"
  using assms by (cases b) simp_all

lemma vlet_mono [partial_function_mono]:
  assumes "mono_option (\<lambda>f. C b f s)"
  shows "mono_option (\<lambda>f. (let x = b in C x f) s)"
  using assms by simp

lemma vbind_assoc: "vbind (vbind m f) g = vbind m (\<lambda>x. vbind (f x) g)"
  by (rule ext) (auto simp: vbind_def split: sum.splits bind_splits)

lemma vfor_each_append: "vfor_each f (xs @ ys) = vthen (vfor_each f xs) (vfor_each f ys)"
  by (induction xs) (simp_all add: vthen_def vbind_assoc, simp add: vbind_def vreturn_def fun_eq_iff)

section \<open>Sets and maps of addresses\<close>

definition set_insert :: "cell \<Rightarrow> cell list \<Rightarrow> cell list" where
  "set_insert x xs = (if x \<in> set xs then xs else insort x xs)"

definition set_erase :: "cell \<Rightarrow> cell list \<Rightarrow> cell list" where
  "set_erase x xs = filter (\<lambda>y. y \<noteq> x) xs"

text \<open>\<open>erase(lower_bound(from), lower_bound(to))\<close>.\<close>

definition set_erase_range :: "cell \<Rightarrow> cell \<Rightarrow> cell list \<Rightarrow> cell list" where
  "set_erase_range from to xs = filter (\<lambda>y. \<not> (from \<le> y \<and> y < to)) xs"

text \<open>\<open>--upper_bound(x)\<close>: the greatest element that is not above \<open>x\<close>.\<close>

definition set_last_le :: "cell \<Rightarrow> cell list \<Rightarrow> cell option" where
  "set_last_le x xs = (let ys = takeWhile (\<lambda>y. y \<le> x) xs in if ys = [] then None else Some (List.last ys))"

text \<open>\<open>std::map::insert\<close> leaves an existing key alone.\<close>

fun map_insert :: "cell \<Rightarrow> cell \<Rightarrow> (cell \<times> cell) list \<Rightarrow> (cell \<times> cell) list" where
  "map_insert k v [] = [(k, v)]"
| "map_insert k v ((k', v') # kvs) =
     (if k < k' then (k, v) # (k', v') # kvs else if k = k' then (k', v') # kvs else (k', v') # map_insert k v kvs)"

section \<open>The state\<close>

record vm_context =
  callstack_top :: cell
  callstack_bottom :: cell
  datastack :: cell
  retainstack :: cell
  callstack_save :: cell
  datastack_seg :: segment
  retainstack_seg :: segment
  callstack_seg :: segment
  context_objects :: "cell list"

record code_heap =
  ch_seg :: segment
  safepoint_page :: cell
  ch_allocator :: free_list
  all_blocks :: "cell list"
  uninitialized_blocks :: "(cell \<times> cell) list"
  points_to_nursery :: "cell list"
  points_to_aging :: "cell list"

record callback_heap =
  cb_seg :: segment
  cb_allocator :: free_list

record code_root =
  root_value :: cell
  root_valid :: bool

record profiling_sample =
  sample_thread :: cell
  callstack_begin :: cell
  callstack_end :: cell
  sample_count :: fixnum
  gc_sample_count :: fixnum
  jit_sample_count :: fixnum
  foreign_sample_count :: fixnum
  foreign_thread_sample_count :: fixnum

record dispatch_statistics =
  megamorphic_cache_hits :: cell
  megamorphic_cache_misses :: cell
  cold_call_to_ic_transitions :: cell
  ic_to_pic_transitions :: cell
  pic_to_mega_transitions :: cell
  pic_tag_count :: cell
  pic_tuple_count :: cell

datatype gc_op =
    COLLECT_NURSERY_OP | COLLECT_AGING_OP | COLLECT_TO_TENURED_OP | COLLECT_FULL_OP | COLLECT_COMPACT_OP
  | COLLECT_GROWING_DATA_HEAP_OP

record factor_vm =
  vm_memory :: memory
  ctx :: "cell option"
  spare_ctx :: "cell option"
  contexts :: "cell \<Rightarrow> vm_context"
  signal_handler_addr :: cell
  special_objects :: "cell list"
  datastack_size :: cell
  retainstack_size :: cell
  callstack_size :: cell
  callback_ids :: "fixnum list"
  callback_id :: fixnum
  unused_contexts :: "cell list"
  active_contexts :: "cell list"
  signal_resumable :: bool
  samples :: "profiling_sample list"
  gc_off :: bool
  vm_data :: data_heap
  vm_code :: code_heap
  callbacks :: callback_heap
  current_gc :: "gc_op option"
  mark_stack :: "cell list"
  data_roots :: "cell list"
  code_roots :: "code_root list"
  max_pic_size :: cell
  object_counter :: cell
  dispatch_stats :: dispatch_statistics
  current_jit_count :: fixnum
  faulting_p :: bool
  signal_number :: cell
  signal_fault_addr :: cell
  signal_fault_pc :: cell
  signal_fpu_status :: "32 word"
  sampling_profiler_p :: bool
  samples_per_second :: fixnum
  current_sample :: profiling_sample
  safepoint_guard :: bool
  safepoint_fep_p :: bool
  fep_p :: bool
  stop_on_ctrl_break :: bool
  data_finger :: cell
  code_finger :: cell

abbreviation vm_mem :: "(factor_vm, memory) visit" where
  "vm_mem \<equiv> vget vm_memory"

definition vm_read :: "cell \<Rightarrow> (factor_vm, cell) visit" where
  "vm_read a = vget (\<lambda>vm. vm_memory vm a)"

definition vm_write :: "cell \<Rightarrow> cell \<Rightarrow> (factor_vm, unit) visit" where
  "vm_write a v = vmodify (vm_memory_update (\<lambda>mem. mem(a := v)))"

text \<open>Steps of the data heap, which work on memory and heap together.\<close>

definition vm_data_step :: "(memory \<times> data_heap \<Rightarrow> ((memory \<times> data_heap) \<times> 'a) option) \<Rightarrow> (factor_vm, 'a) visit" where
  "vm_data_step = vcomponent (\<lambda>vm. (vm_memory vm, vm_data vm)) (\<lambda>(mem, d) vm. vm\<lparr>vm_memory := mem, vm_data := d\<rparr>)"

end
