(* ===== verification/Code_Heap.thy ===== *)
theory Code_Heap
  imports VM_State
begin

text \<open>
  Code blocks and the code heap (\<open>vm/code_blocks.hpp\<close>, \<open>vm/gc_info.hpp\<close>, \<open>vm/code_heap.hpp\<close>
  and the operations of \<open>vm/code_heap.cpp\<close> that manage blocks).

  A code block is its address: a header, three tagged fields, the machine code, and at the
  end of the block the tables that tell the collector which spill slots of a frame hold
  pointers.
\<close>

unbundle bit_operations_syntax

section \<open>Code blocks\<close>

datatype code_block_type = CODE_BLOCK_UNOPTIMIZED | CODE_BLOCK_OPTIMIZED | CODE_BLOCK_PIC

fun code_block_type_number :: "code_block_type \<Rightarrow> cell" where
  "code_block_type_number CODE_BLOCK_UNOPTIMIZED = 0"
| "code_block_type_number CODE_BLOCK_OPTIMIZED = 1"
| "code_block_type_number CODE_BLOCK_PIC = 2"

definition LEAF_FRAME_SIZE :: cell where
  "LEAF_FRAME_SIZE = 16"

definition block_owner_field :: "cell \<Rightarrow> cell" where
  "block_owner_field b = b + 8"

definition block_parameters_field :: "cell \<Rightarrow> cell" where
  "block_parameters_field b = b + 16"

definition block_relocation_field :: "cell \<Rightarrow> cell" where
  "block_relocation_field b = b + 24"

definition code_block_free_p :: "memory \<Rightarrow> cell \<Rightarrow> bool" where
  "code_block_free_p mem b \<longleftrightarrow> mem b AND 1 = 1"

definition block_type :: "memory \<Rightarrow> cell \<Rightarrow> cell" where
  "block_type mem b = drop_bit 1 (mem b) AND 3"

definition set_block_type :: "memory \<Rightarrow> cell \<Rightarrow> code_block_type \<Rightarrow> memory" where
  "set_block_type mem b ty = mem(b := mem b AND NOT 7 OR push_bit 1 (code_block_type_number ty))"

definition pic_p :: "memory \<Rightarrow> cell \<Rightarrow> bool" where
  "pic_p mem b \<longleftrightarrow> block_type mem b = code_block_type_number CODE_BLOCK_PIC"

definition block_size :: "memory \<Rightarrow> cell \<Rightarrow> cell option" where
  "block_size mem b =
     (let sz = (if code_block_free_p mem b then mem b AND NOT 7 else mem b AND 0xFFFFF8) in
      if sz > 0 then Some sz else None)"

definition stack_frame_size :: "memory \<Rightarrow> cell \<Rightarrow> cell" where
  "stack_frame_size mem b = (if code_block_free_p mem b then 0 else drop_bit 20 (mem b) AND 0xFF0)"

definition stack_frame_size_for_address :: "memory \<Rightarrow> cell \<Rightarrow> cell \<Rightarrow> cell" where
  "stack_frame_size_for_address mem b addr =
     (let natural_frame_size = stack_frame_size mem b in
      if natural_frame_size = 0 \<or> addr = block_entry_point b then LEAF_FRAME_SIZE else natural_frame_size)"

definition set_stack_frame_size :: "memory \<Rightarrow> cell \<Rightarrow> cell \<Rightarrow> memory option" where
  "set_stack_frame_size mem b frame_size = do {
     sz \<leftarrow> block_size mem b;
     if sz < 0xFFFFFF \<and> \<not> code_block_free_p mem b \<and> frame_size mod 16 = 0 \<and> frame_size \<le> 0xFF0
     then Some (mem(b := mem b AND 0xFFFFFF OR push_bit 20 frame_size)) else None }"

definition block_offset :: "cell \<Rightarrow> cell \<Rightarrow> cell" where
  "block_offset b addr = addr - block_entry_point b"

definition address_for_offset :: "cell \<Rightarrow> cell \<Rightarrow> cell" where
  "address_for_offset b offset = block_entry_point b + offset"

definition word_code :: "memory \<Rightarrow> cell \<Rightarrow> cell option" where
  "word_code mem w =
     (let entry_point = mem (word_entry_point_field w) in
      if entry_point \<noteq> 0 then Some (entry_point - sizeof_code_block) else None)"

definition quotation_code :: "memory \<Rightarrow> cell \<Rightarrow> cell option" where
  "quotation_code mem q =
     (let entry_point = mem (quotation_entry_point_field q) in
      if entry_point \<noteq> 0 then Some (entry_point - sizeof_code_block) else None)"

definition to_boolean :: "cell \<Rightarrow> bool" where
  "to_boolean v \<longleftrightarrow> v \<noteq> false_object"

text \<open>
  The loop over the relocation entries of a block; the array of entries is found once, the
  entries are read as the loop goes. The index counts the parameters of the entries before.
  A callback with state of its own threads it through the operands.
\<close>

primrec each_operand_loop ::
  "(instruction_operand \<Rightarrow> 'x \<Rightarrow> (factor_vm, 'x) visit) \<Rightarrow> cell \<Rightarrow> cell \<Rightarrow> nat \<Rightarrow> cell \<Rightarrow> cell \<Rightarrow> 'x \<Rightarrow> (factor_vm, 'x) visit" where
  "each_operand_loop iter rels compiled 0 i index x = vreturn x"
| "each_operand_loop iter rels compiled (Suc n) i index x =
     vbind (vget (\<lambda>vm. load_u32 (vm_memory vm) (array_data rels + 4 * i))) (\<lambda>r.
     vbind (iter (new_instruction_operand r compiled index) x) (\<lambda>x'.
     vbind (vlift (number_of_parameters (rel_type r))) (\<lambda>k.
     each_operand_loop iter rels compiled n (i + 1) (index + of_nat k) x')))"

definition fold_instruction_operands ::
  "(instruction_operand \<Rightarrow> 'x \<Rightarrow> (factor_vm, 'x) visit) \<Rightarrow> cell \<Rightarrow> 'x \<Rightarrow> (factor_vm, 'x) visit" where
  "fold_instruction_operands iter compiled x =
     vbind (vm_read (block_relocation_field compiled)) (\<lambda>relocation.
     if \<not> to_boolean relocation then vreturn x
     else
       vbind (vlift (untagged (Some BYTE_ARRAY_TYPE) relocation)) (\<lambda>rels.
       vbind (vm_read (array_capacity_field rels)) (\<lambda>capacity.
       vbind (vlift (untag_length capacity)) (\<lambda>n.
       each_operand_loop iter rels compiled (unat (n div 4)) 0 0 x))))"

definition each_instruction_operand ::
  "(instruction_operand \<Rightarrow> (factor_vm, unit) visit) \<Rightarrow> cell \<Rightarrow> (factor_vm, unit) visit" where
  "each_instruction_operand iter compiled = fold_instruction_operands (\<lambda>op x. iter op) compiled ()"

section \<open>Tables for the collector\<close>

definition sizeof_gc_info :: cell where
  "sizeof_gc_info = 12"

definition block_gc_info :: "memory \<Rightarrow> cell \<Rightarrow> cell option" where
  "block_gc_info mem b = map_option (\<lambda>sz. b + sz - sizeof_gc_info) (block_size mem b)"

definition gc_root_count :: "memory \<Rightarrow> cell \<Rightarrow> cell" where
  "gc_root_count mem info = ucast (load_u32 mem info)"

definition derived_root_count :: "memory \<Rightarrow> cell \<Rightarrow> cell" where
  "derived_root_count mem info = ucast (load_u32 mem (info + 4))"

definition return_address_count :: "memory \<Rightarrow> cell \<Rightarrow> cell" where
  "return_address_count mem info = ucast (load_u32 mem (info + 8))"

definition callsite_bitmap_size :: "memory \<Rightarrow> cell \<Rightarrow> cell" where
  "callsite_bitmap_size mem info = gc_root_count mem info"

definition total_bitmap_size :: "memory \<Rightarrow> cell \<Rightarrow> cell" where
  "total_bitmap_size mem info = return_address_count mem info * callsite_bitmap_size mem info"

definition total_bitmap_bytes :: "memory \<Rightarrow> cell \<Rightarrow> cell" where
  "total_bitmap_bytes mem info = (total_bitmap_size mem info + 7) div 8"

definition return_addresses :: "memory \<Rightarrow> cell \<Rightarrow> cell" where
  "return_addresses mem info = info - 4 * return_address_count mem info"

text \<open>The product of the two 32-bit counts is computed in 32 bits.\<close>

definition base_pointer_map :: "memory \<Rightarrow> cell \<Rightarrow> cell" where
  "base_pointer_map mem info =
     return_addresses mem info - 4 * ucast (load_u32 mem (info + 8) * load_u32 mem (info + 4))"

definition gc_info_bitmap :: "memory \<Rightarrow> cell \<Rightarrow> cell" where
  "gc_info_bitmap mem info = base_pointer_map mem info - total_bitmap_bytes mem info"

definition callsite_gc_roots :: "memory \<Rightarrow> cell \<Rightarrow> cell \<Rightarrow> cell" where
  "callsite_gc_roots mem info index = index * gc_root_count mem info"

definition lookup_base_pointer :: "memory \<Rightarrow> cell \<Rightarrow> cell \<Rightarrow> cell \<Rightarrow> 32 word" where
  "lookup_base_pointer mem info index derived_root =
     load_u32 mem (base_pointer_map mem info + 4 * (index * derived_root_count mem info + derived_root))"

fun return_address_scan :: "memory \<Rightarrow> cell \<Rightarrow> cell \<Rightarrow> nat \<Rightarrow> cell \<Rightarrow> cell" where
  "return_address_scan mem table return_address 0 i = - 1"
| "return_address_scan mem table return_address (Suc n) i =
     (if return_address = ucast (load_u32 mem (table + 4 * i)) then i
      else return_address_scan mem table return_address n (i + 1))"

definition return_address_index :: "memory \<Rightarrow> cell \<Rightarrow> cell \<Rightarrow> cell" where
  "return_address_index mem info return_address =
     return_address_scan mem (return_addresses mem info) return_address (unat (return_address_count mem info)) 0"

section \<open>The code heap\<close>

text \<open>
  The segment is obtained from the operating system; a heap that is too large is a fatal
  error. The structured-exception area exists on Windows only and is empty here.
\<close>

definition seh_area_size :: cell where
  "seh_area_size = 0"

definition new_code_heap :: "(cell \<Rightarrow> cell) \<Rightarrow> cell \<Rightarrow> memory \<Rightarrow> cell \<Rightarrow> (memory \<times> code_heap) option" where
  "new_code_heap alloc_segment pagesize mem sz =
     (if sz > push_bit 59 1 then None
      else
        (let n = align_page pagesize sz; base = alloc_segment n;
             seg = \<lparr>seg_start = base, seg_size = n, seg_end = base + n\<rparr>;
             start = seg_start seg + pagesize + seh_area_size
         in do {
           (mem', fl) \<leftarrow> new_free_list_allocator mem (seg_end seg - start) start;
           Some (mem', \<lparr>ch_seg = seg, safepoint_page = seg_start seg, ch_allocator = fl, all_blocks = [],
             uninitialized_blocks = [], points_to_nursery = [], points_to_aging = []\<rparr>) }))"

definition code_write_barrier :: "cell \<Rightarrow> code_heap \<Rightarrow> code_heap" where
  "code_write_barrier compiled ch =
     ch\<lparr>points_to_nursery := set_insert compiled (points_to_nursery ch),
        points_to_aging := set_insert compiled (points_to_aging ch)\<rparr>"

definition clear_remembered_set :: "code_heap \<Rightarrow> code_heap" where
  "clear_remembered_set ch = ch\<lparr>points_to_nursery := [], points_to_aging := []\<rparr>"

definition uninitialized_p :: "code_heap \<Rightarrow> cell \<Rightarrow> bool" where
  "uninitialized_p ch compiled \<longleftrightarrow> compiled \<in> set (map fst (uninitialized_blocks ch))"

definition code_free :: "memory \<times> code_heap \<Rightarrow> cell \<Rightarrow> (memory \<times> code_heap) option" where
  "code_free h compiled =
     (let (mem, ch) = h in
      if uninitialized_p ch compiled then None
      else do {
        sz \<leftarrow> block_size mem compiled;
        (mem', fl) \<leftarrow> free_block (\<lambda>_ _. sz) (mem, ch_allocator ch) compiled;
        Some (mem', ch\<lparr>points_to_nursery := set_erase compiled (points_to_nursery ch),
          points_to_aging := set_erase compiled (points_to_aging ch),
          all_blocks := set_erase compiled (all_blocks ch), ch_allocator := fl\<rparr>) })"

definition verify_all_blocks_set :: "memory \<Rightarrow> code_heap \<Rightarrow> unit option" where
  "verify_all_blocks_set mem ch =
     map_option (\<lambda>_. ())
       (iterate (\<lambda>ms b. block_size (fst ms) b)
         (\<lambda>block sz ms. if block \<in> set (all_blocks ch) then Some ms else None) (ch_allocator ch) (mem, ()))"

definition code_sweep :: "bool \<Rightarrow> memory \<times> code_heap \<Rightarrow> (memory \<times> code_heap) option" where
  "code_sweep debug h =
     (let (mem, ch) = h in do {
        ((mem', fl), blocks) \<leftarrow>
          sweep_iter (\<lambda>block sz bs. set_erase_range block (block + sz) bs) (mem, ch_allocator ch) (all_blocks ch);
        let ch' = ch\<lparr>ch_allocator := fl, all_blocks := blocks\<rparr> in do {
          () \<leftarrow> (if debug then verify_all_blocks_set mem' ch' else Some ());
          Some (mem', ch') } })"

definition code_block_for_address :: "code_heap \<Rightarrow> cell \<Rightarrow> cell option" where
  "code_block_for_address ch address = do {
     found_block \<leftarrow> set_last_le address (all_blocks ch);
     if block_entry_point found_block \<le> address then Some found_block else None }"

definition frame_predecessor :: "memory \<Rightarrow> code_heap \<Rightarrow> cell \<Rightarrow> cell option" where
  "frame_predecessor mem ch frame_top =
     (let addr = mem frame_top in
      if in_segment_p (ch_seg ch) addr then do {
        owner \<leftarrow> code_block_for_address ch addr;
        Some (frame_top + stack_frame_size_for_address mem owner addr) }
      else None)"

definition initialize_all_blocks_set :: "bool \<Rightarrow> memory \<Rightarrow> code_heap \<Rightarrow> code_heap option" where
  "initialize_all_blocks_set debug mem ch = do {
     (_, blocks) \<leftarrow> iterate (\<lambda>ms b. block_size (fst ms) b) (\<lambda>block sz ms. Some (fst ms, set_insert block (snd ms)))
       (ch_allocator ch) (mem, []);
     let ch' = ch\<lparr>all_blocks := blocks\<rparr> in do {
       () \<leftarrow> (if debug then verify_all_blocks_set mem ch' else Some ());
       Some ch' } }"

definition code_high_water_mark :: "code_heap \<Rightarrow> cell" where
  "code_high_water_mark ch = fl_size (ch_allocator ch) div 20"

definition safepoint_p :: "cell \<Rightarrow> code_heap \<Rightarrow> cell \<Rightarrow> bool" where
  "safepoint_p pagesize ch addr \<longleftrightarrow> addr AND NOT (pagesize - 1) = safepoint_page ch"

section \<open>Headers\<close>

lemma frame_size_bits:
  assumes "frame_size mod 16 = 0" "frame_size \<le> 0xFF0" "n < 4 \<or> 12 \<le> n"
  shows "\<not> bit (frame_size :: cell) n"
proof (cases "12 \<le> n")
  case True
  moreover have "unat frame_size < 2 ^ 12" using assms(2) by (simp add: word_le_nat_alt)
  ultimately show ?thesis by (intro unat_less_bits)
next
  case False
  have "unat (frame_size mod 16) = 0" by (simp add: assms(1))
  then have "take_bit 4 (unat frame_size) = 0" by (simp add: unat_mod take_bit_nat_def)
  then have "\<not> bit (unat frame_size) n" using False assms(3) by (metis bit_0_eq bit_take_bit_iff bot_apply bot_bool_def)
  then show ?thesis by (simp add: bit_simps)
qed

lemma set_stack_frame_size_header:
  assumes "set_stack_frame_size mem b frame_size = Some mem'"
  shows "stack_frame_size mem' b = frame_size" "block_size mem' b = block_size mem b" "block_type mem' b = block_type mem b"
    "\<not> code_block_free_p mem' b" "\<forall>a. a \<noteq> b \<longrightarrow> mem' a = mem a"
proof -
  have h: "\<not> code_block_free_p mem b" "frame_size mod 16 = 0" "frame_size \<le> 0xFF0"
    "mem' = mem(b := mem b AND mask 24 OR push_bit 20 frame_size)"
    using assms by (auto simp: set_stack_frame_size_def mask_eq_exp_minus_1 split: Option.bind_splits if_splits)
  note f = frame_size_bits [OF h(2,3)]
  have bits: "bit (mem' b) n \<longleftrightarrow> n < 24 \<and> bit (mem b) n \<or> 24 \<le> n \<and> n < 64 \<and> bit frame_size (n - 20)" for n
  proof -
    have "\<not> bit frame_size (n - 20)" if "n < 24" using that by (intro f) auto
    then show ?thesis by (cases "n < 24") (auto simp: h(4) bit_simps)
  qed
  have masks: "(0xFFFFF8 :: cell) = mask 24 AND NOT (mask 3)" "(3 :: cell) = mask 2" "(0xFF0 :: cell) = mask 12 AND NOT (mask 4)"
    by (simp_all add: mask_eq_exp_minus_1)
  have odd: "x AND 1 = 1 \<longleftrightarrow> bit x 0" for x :: cell by (simp add: and_one_eq odd_iff_mod_2_eq_one bit_0)
  have p: "code_block_free_p mem' b = code_block_free_p mem b" by (simp add: code_block_free_p_def odd bits)
  then show "\<not> code_block_free_p mem' b" using h(1) by simp
  have "mem' b AND 0xFFFFF8 = mem b AND 0xFFFFF8" unfolding masks by (rule bit_word_eqI) (auto simp: bit_simps bits)
  then show "block_size mem' b = block_size mem b" using h(1) p by (simp add: block_size_def)
  show "block_type mem' b = block_type mem b"
    unfolding block_type_def masks by (rule bit_word_eqI) (auto simp: bit_simps bits)
  have "drop_bit 20 (mem' b) AND 0xFF0 = frame_size" unfolding masks
  proof (rule bit_word_eqI)
    fix n assume "n < LENGTH(64)"
    show "bit (drop_bit 20 (mem' b) AND (mask 12 AND NOT (mask 4))) n = bit frame_size n"
      using f [of n] by (cases "n < 4 \<or> 12 \<le> n") (auto simp: bit_simps bits)
  qed
  then show "stack_frame_size mem' b = frame_size" using p h(1) by (simp add: stack_frame_size_def)
  show "\<forall>a. a \<noteq> b \<longrightarrow> mem' a = mem a" by (simp add: h(4))
qed

section \<open>Lookup of the block of an address\<close>

lemma set_takeWhile_sorted: "sorted xs \<Longrightarrow> set (takeWhile (\<lambda>y. y \<le> x) xs) = {y \<in> set xs. y \<le> x}" for x :: "'a::linorder"
proof (induction xs)
  case (Cons a xs)
  show ?case
  proof (cases "a \<le> x")
    case True
    have "set (takeWhile (\<lambda>y. y \<le> x) xs) = {y \<in> set xs. y \<le> x}" using Cons by simp
    then show ?thesis using True by auto
  next
    case False
    then have "\<not> y \<le> x" if "y \<in> set (a # xs)" for y using Cons.prems that by force
    then show ?thesis using False by auto
  qed
qed simp

lemma sorted_le_last: "sorted ys \<Longrightarrow> y \<in> set ys \<Longrightarrow> y \<le> List.last ys"
  by (induction ys rule: rev_induct) (auto simp: sorted_append)

lemma set_last_le_eq:
  assumes "sorted xs" "b \<in> set xs" "b \<le> x" "\<forall>c\<in>set xs. c \<le> x \<longrightarrow> c \<le> b"
  shows "set_last_le x xs = Some b"
proof -
  let ?ys = "takeWhile (\<lambda>y. y \<le> x) xs"
  have s: "set ?ys = {y \<in> set xs. y \<le> x}" by (rule set_takeWhile_sorted [OF assms(1)])
  then have b: "b \<in> set ?ys" using assms(2,3) by simp
  then have ne: "?ys \<noteq> []" by auto
  have "sorted ?ys" using assms(1) by (rule sorted_takeWhile)
  then have "b \<le> List.last ?ys" using b by (rule sorted_le_last)
  moreover have "List.last ?ys \<in> set ?ys" using ne by simp
  then have "List.last ?ys \<le> b" using s assms(4) by simp
  ultimately show ?thesis using ne by (simp add: set_last_le_def)
qed

text \<open>
  A set of blocks: addresses in order, headers with a size, no two overlapping. Every address
  of the machine code of a block finds that block.
\<close>

definition blocks_wf :: "memory \<Rightarrow> code_heap \<Rightarrow> bool" where
  "blocks_wf mem ch \<longleftrightarrow> sorted (all_blocks ch) \<and> distinct (all_blocks ch) \<and>
     (\<forall>b\<in>set (all_blocks ch). \<exists>sz. block_size mem b = Some sz \<and> 32 \<le> unat sz \<and> unat b + unat sz < 2 ^ 64 \<and>
       (\<forall>c\<in>set (all_blocks ch). b < c \<longrightarrow> unat b + unat sz \<le> unat c))"

lemma code_block_for_address_finds:
  assumes wf: "blocks_wf mem ch" and b: "b \<in> set (all_blocks ch)" "block_size mem b = Some sz"
    and a: "unat b + 32 \<le> unat address" "unat address < unat b + unat sz"
  shows "code_block_for_address ch address = Some b"
proof -
  have sz: "32 \<le> unat sz" "unat b + unat sz < 2 ^ 64" "\<forall>c\<in>set (all_blocks ch). b < c \<longrightarrow> unat b + unat sz \<le> unat c"
    using wf b by (auto simp: blocks_wf_def)
  have e: "unat (block_entry_point b) = unat b + 32"
    using sz by (simp add: block_entry_point_def sizeof_code_block_def unat_word_ariths)
  have "c \<le> b" if "c \<in> set (all_blocks ch)" "c \<le> address" for c
    using sz(3) that a(2) by (auto simp: word_le_nat_alt word_less_nat_alt not_le [symmetric])
  then have "set_last_le address (all_blocks ch) = Some b"
    using wf b(1) a(1) by (intro set_last_le_eq) (auto simp: blocks_wf_def word_le_nat_alt)
  then show ?thesis using a(1) by (simp add: code_block_for_address_def word_le_nat_alt e)
qed

lemma set_insert_wf: "sorted xs \<Longrightarrow> distinct xs \<Longrightarrow> sorted (set_insert x xs) \<and> distinct (set_insert x xs) \<and> set (set_insert x xs) = insert x (set xs)"
  by (auto simp: set_insert_def sorted_insort distinct_insort set_insort_key)

text \<open>The first return address of the table that matches.\<close>

lemma return_address_scan_found:
  assumes "k < n" "\<forall>j<k. ucast (load_u32 mem (table + 4 * (i + of_nat j))) \<noteq> addr" "ucast (load_u32 mem (table + 4 * (i + of_nat k))) = addr"
  shows "return_address_scan mem table addr n i = i + of_nat k"
  using assms
proof (induction n arbitrary: i k)
  case (Suc n)
  show ?case
  proof (cases k)
    case (Suc l)
    have "return_address_scan mem table addr n (i + 1) = i + 1 + of_nat l"
      using Suc.prems Suc by (intro Suc.IH) (auto simp: ac_simps)
    moreover have "ucast (load_u32 mem (table + 4 * i)) \<noteq> addr" using Suc.prems(2) Suc by (auto dest: spec [of _ 0])
    ultimately show ?thesis using Suc by (simp add: ac_simps)
  qed (use Suc.prems in simp)
qed simp

end
