(* ===== verification/Memory_Properties.thy ===== *)
theory Memory_Properties
  imports Code_Heap
begin

text \<open>
  Properties of the data heap and the code heap: the geometry of the generations, the write
  barrier, allocation in every generation, the walk over all objects, operands of machine
  instructions and the lookup of code blocks. The lemmas they rest on are in the theories of
  the components.
\<close>

unbundle bit_operations_syntax

subsection \<open>The data heap\<close>

definition space_bytes :: "bump_allocator \<Rightarrow> nat set" where
  "space_bytes ba = {unat (ba_start ba) ..< unat (ba_end ba)}"

definition generations :: "data_heap \<Rightarrow> nat set list" where
  "generations d = [{unat (fl_start (ts_free (tenured d))) ..< unat (fl_end (ts_free (tenured d)))},
     space_bytes (as_bump (aging d)), space_bytes (as_bump (aging_semispace d)), space_bytes (nursery d)]"

lemma generations_disjoint:
  assumes "heap_wf (mem, d)"
  shows "sorted_wrt (\<lambda>g h. g \<inter> h = {}) (generations d)" "\<Union>(set (generations d)) = heap_bytes d"
proof -
  note l = heap_wf_layout [OF assms]
  let ?s = "unat (dh_start d)" and ?t = "unat (tenured_size d)" and ?a = "unat (aging_size d)"
  have n: "space_bytes (nursery d) = {?s + ?t + 2 * ?a ..< ?s + ?t + 2 * ?a + unat (young_size d)}"
    using bump_wf_end(1) [OF l(8)] l(9,10) by (simp add: space_bytes_def)
  have sp: "space_bytes (as_bump as) = {k ..< k + ?a}" if "aging_at as k (aging_size d)" for as k
    using that bump_wf_end(1) [of "as_bump as"] by (simp add: aging_at_def aging_wf_def space_bytes_def)
  have "space_bytes (as_bump (aging d)) = {?s + ?t ..< ?s + ?t + ?a} \<and> space_bytes (as_bump (aging_semispace d)) = {?s + ?t + ?a ..< ?s + ?t + ?a + ?a} \<or>
      space_bytes (as_bump (aging_semispace d)) = {?s + ?t ..< ?s + ?t + ?a} \<and> space_bytes (as_bump (aging d)) = {?s + ?t + ?a ..< ?s + ?t + ?a + ?a}"
    using assms sp unfolding heap_wf_def Let_def by auto
  then show "sorted_wrt (\<lambda>g h. g \<inter> h = {}) (generations d)" "\<Union>(set (generations d)) = heap_bytes d"
    unfolding generations_def l(2,4) n by (auto simp: heap_bytes_def heap_total_def)
qed

text \<open>
  C31. The data heap is laid out as its constructor asserts: whatever the requested sizes, as
  long as the segment of the operating system is in the user half of the address space, the
  constructor succeeds, the heap is well formed, tenured space, the two aging spaces and the
  nursery are disjoint, fill the heap and lie inside the segment, are at least as large as
  requested, and all of tenured space and of the nursery is free.
\<close>

theorem new_data_heap_geometry:
  assumes "segment_ok alloc_segment" "unat young < 2 ^ 56" "unat aging0 < 2 ^ 56" "unat tenured0 < 2 ^ 56"
  shows "\<exists>mem' d. new_data_heap alloc_segment g mem young aging0 tenured0 = Some (mem', d) \<and> heap_wf (mem', d) \<and>
    sorted_wrt (\<lambda>g h. g \<inter> h = {}) (generations d) \<and> \<Union>(set (generations d)) = heap_bytes d \<and>
    heap_bytes d \<subseteq> {unat (seg_start (dh_seg d)) ..< unat (seg_end (dh_seg d))} \<and>
    young \<le> young_size d \<and> aging0 \<le> aging_size d \<and> tenured0 \<le> tenured_size d \<and>
    unat (free_space (ts_free (tenured d))) = unat (tenured_size d) \<and> ba_occupied_space (nursery d) = 0"
proof -
  obtain mem' d where d: "new_data_heap alloc_segment g mem young aging0 tenured0 = Some (mem', d)" "heap_wf (mem', d)"
    "unat young \<le> unat (young_size d)" "unat aging0 \<le> unat (aging_size d)" "unat tenured0 \<le> unat (tenured_size d)"
    "unat (seg_start (dh_seg d)) \<le> unat (dh_start d)" "unat (dh_start d) + heap_total d \<le> unat (seg_end (dh_seg d))"
    "tenured_free (mem', tenured d) = {unat (dh_start d) ..< unat (dh_start d) + unat (tenured_size d)}"
    "ba_occupied_space (nursery d) = 0"
    using new_data_heap_wf [OF assms, of g mem] by (elim exE conjE)
  have "free_wf (mem', ts_free (tenured d))" using heap_wf_layout(1) [OF d(2)] by (simp add: tenured_wf_def)
  then have "unat (free_space (ts_free (tenured d))) = unat (tenured_size d)"
    using free_space_card(1) d(8) by (simp add: tenured_free_def)
  moreover have "heap_bytes d \<subseteq> {unat (seg_start (dh_seg d)) ..< unat (seg_end (dh_seg d))}"
    using d(6,7) by (auto simp: heap_bytes_def)
  ultimately show ?thesis using d generations_disjoint [OF d(2)] by (auto simp: word_le_nat_alt)
qed

lemma example_segment: "segment_ok (\<lambda>_. 2 ^ 20)"
  by (simp add: segment_ok_def)

theorem new_data_heap_geometry_witness:
  "\<exists>mem' d. new_data_heap (\<lambda>_. 2 ^ 20) 0 (\<lambda>_. 0) 1 100000 300000 = Some (mem', d) \<and> heap_wf (mem', d) \<and>
    sorted_wrt (\<lambda>g h. g \<inter> h = {}) (generations d)"
  using new_data_heap_geometry [OF example_segment, of 1 100000 300000 0 "\<lambda>_. 0"] by auto

text \<open>The state after the constructor of the example is the input of the witnesses below.\<close>

lemma example_heap:
  obtains mem d where "new_data_heap (\<lambda>_. 2 ^ 20) 0 (\<lambda>_. 0) 1 100000 300000 = Some (mem, d)" "heap_wf (mem, d)"
    "1 \<le> heap_total d"
proof -
  obtain mem d where d: "new_data_heap (\<lambda>_. 2 ^ 20) 0 (\<lambda>_. 0) 1 100000 300000 = Some (mem, d)" "heap_wf (mem, d)" "1 \<le> unat (young_size d)"
    using new_data_heap_wf [OF example_segment, of 1 100000 300000 0 "\<lambda>_. 0"] by auto
  then show ?thesis using that by (simp add: heap_total_def)
qed



text \<open>
  C33. The write barrier remembers every byte of an object: for an object inside the heap,
  of any size and alignment, the barrier returns and afterwards the card and the deck of each
  of its bytes carry both marks, no mark of another card or deck is lost, and nothing but the
  two arrays has changed.
\<close>

theorem write_barrier_remembers_object:
  assumes "heap_wf (mem, d)" "unat (dh_start d) \<le> unat obj" "unat obj + unat sz \<le> unat (dh_start d) + heap_total d"
  shows "\<exists>d'. write_barrier_object d obj sz = Some d' \<and> heap_wf (mem, d') \<and>
    d'\<lparr>cards := [], decks := []\<rparr> = d\<lparr>cards := [], decks := []\<rparr> \<and>
    (\<forall>b. unat b \<in> heap_bytes d \<longrightarrow> card_marked d b \<longrightarrow> card_marked d' b) \<and>
    (\<forall>b. unat obj \<le> unat b \<and> unat b < unat obj + unat sz \<longrightarrow> card_marked d' b)"
proof -
  obtain d' where d': "write_barrier_object d obj sz = Some d'" "heap_wf (mem, d')" "keeps_marks d d'"
    "\<forall>b. unat obj \<le> unat b \<and> unat b < unat obj + unat sz \<longrightarrow> card_marked d' b"
    using write_barrier_object_marks [OF assms] by (elim exE conjE)
  then show ?thesis by (intro exI [of _ d']) (simp add: keeps_marks_def)
qed

theorem write_barrier_remembers_object_witness:
  "\<exists>mem d d'. new_data_heap (\<lambda>_. 2 ^ 20) 0 (\<lambda>_. 0) 1 100000 300000 = Some (mem, d) \<and>
    write_barrier_object d (dh_start d) 1 = Some d' \<and> card_marked d' (dh_start d)"
proof -
  obtain mem d where d: "new_data_heap (\<lambda>_. 2 ^ 20) 0 (\<lambda>_. 0) 1 100000 300000 = Some (mem, d)" "heap_wf (mem, d)" "1 \<le> heap_total d"
    by (rule example_heap)
  have "unat (dh_start d) + unat (1 :: cell) \<le> unat (dh_start d) + heap_total d" using d(3) by simp
  from write_barrier_remembers_object [OF d(2) order_refl this] obtain d' where
    "write_barrier_object d (dh_start d) 1 = Some d'" "card_marked d' (dh_start d)" by auto
  then show ?thesis using d(1) by blast
qed

subsection \<open>Allocation and objects\<close>

text \<open>
  C34. Allocation in the older generations implements the abstract allocator: any sequence of
  requests, to a well-formed tenured space with its free list or to an aging space that bumps
  a pointer, returns; the blocks handed out were free, are disjoint from each other and from
  what is still free, the space stays well formed, and memory that was in use is unchanged.
\<close>

theorem generation_allocation_sequence:
  assumes "tenured_wf h" "aging_wf (snd g)" "\<forall>sz\<in>set szs. request_ok sz"
  shows "(\<exists>h' bs. allot_all ts_allot h szs = Some (h', bs) \<and> tenured_wf h' \<and> tenured_free h' \<subseteq> tenured_free h \<and>
      (\<forall>(b, n)\<in>set bs. block_bytes b n \<subseteq> tenured_free h - tenured_free h') \<and> disjoint_blocks bs \<and>
      (\<forall>a. unat a \<notin> tenured_free h \<longrightarrow> fst h' a = fst h a)) \<and>
    (\<exists>g' bs. allot_all as_allot_op g szs = Some (g', bs) \<and> aging_wf (snd g') \<and>
      bump_free (as_bump (snd g')) \<subseteq> bump_free (as_bump (snd g)) \<and>
      (\<forall>(b, n)\<in>set bs. block_bytes b n \<subseteq> bump_free (as_bump (snd g)) - bump_free (as_bump (snd g'))) \<and> disjoint_blocks bs \<and>
      (\<forall>a. unat a \<notin> bump_free (as_bump (snd g)) \<longrightarrow> fst g' a = fst g a))"
  using tenured.allot_all_safe [OF assms(1,3)] aging.allot_all_safe [OF assms(2,3)] by (rule conjI)

theorem generation_allocation_sequence_witness:
  "\<exists>mem ts h' bs g' cs. new_tenured_space 0 (\<lambda>_. 0) 262144 1048576 = Some (mem, ts) \<and>
    allot_all ts_allot (mem, ts) [24, 4000, 24] = Some (h', bs) \<and> disjoint_blocks bs \<and>
    allot_all as_allot_op (\<lambda>_. 0, new_aging_space 0 262144 1048576) [24, 4000, 24] = Some (g', cs) \<and> disjoint_blocks cs"
proof -
  obtain mem ts where ts: "new_tenured_space 0 (\<lambda>_. 0) 262144 1048576 = Some (mem, ts)" "tenured_wf (mem, ts)"
    using new_tenured_space_wf [of 1048576 262144 0 "\<lambda>_. 0"] by auto
  have as: "aging_wf (snd ((\<lambda>_. 0) :: memory, new_aging_space 0 262144 1048576))"
    using new_aging_space_wf(1) [of 1048576 262144 0] by (simp add: aging_at_def)
  have "\<forall>sz\<in>set [24, 4000, 24]. request_ok sz" by (simp add: request_ok_def)
  from generation_allocation_sequence [OF ts(2) as this] show ?thesis using ts(1) by (elim conjE exE) blast
qed

text \<open>
  C35. The collector scans inside objects: for every well-formed object its size and the
  number of its tagged slots are defined, header and slots fit in the size, and the size is
  a positive multiple of the alignment that cannot wrap around.
\<close>

theorem object_slots_in_bounds:
  assumes "object_ok translate_data mem obj"
  shows "\<exists>n k. object_size_fixup translate_data mem obj = Some n \<and> slot_count_fixup translate_data mem obj = Some k \<and>
    8 * (1 + unat k) \<le> unat n \<and> unat n mod 16 = 0 \<and> 16 \<le> unat n \<and> unat n \<le> 2 ^ 62"
  by (rule object_size_slots [OF assms]) (intro exI conjI)

definition example_objects :: memory where
  "example_objects = (\<lambda>_. 0)(1048576 := initialize (type_number ARRAY_TYPE), 1048584 := tag_fixnum 3,
     1048624 := initialize (type_number WRAPPER_TYPE))"

lemma example_objects_simps:
  "example_objects 1048576 = 8" "example_objects 1048584 = 48" "example_objects 1048624 = 32"
  by (simp_all add: example_objects_def initialize_def tag_fixnum_def TAG_BITS_def)

theorem object_slots_in_bounds_witness:
  "object_ok Some example_objects 1048576 \<and> object_size_fixup Some example_objects 1048576 = Some 48 \<and>
   slot_count_fixup Some example_objects 1048576 = Some 4 \<and> 8 * (1 + unat (4 :: cell)) \<le> unat (48 :: cell)"
proof -
  have ok: "object_ok Some example_objects 1048576"
    by (auto simp: object_ok_def free_p_def object_type_def example_objects_simps TAG_MASK_def length_ok_def array_capacity_def
        array_capacity_field_def TAG_BITS_def intro!: exI [of _ ARRAY_TYPE])
  have "object_size_fixup Some example_objects 1048576 = Some 48" "slot_count_fixup Some example_objects 1048576 = Some 4"
    by (simp_all add: object_size_fixup_def slot_count_fixup_def free_p_def object_type_def example_objects_simps TAG_MASK_def
        base_size_def array_object_size_def array_size_def array_capacity_def array_capacity_field_def TAG_BITS_def align_def data_alignment_def)
  then show ?thesis using object_slots_in_bounds [OF ok] ok by simp
qed



definition example_space :: tenured_space where
  "example_space = \<lparr>ts_free = \<lparr>fl_start = 1048576, fl_end = 1048640, fl_size = 64, small_blocks = [], large_blocks = [],
     free_block_count = 0, free_space = 0, fl_state = new_mark_bits 64 1048576\<rparr>, ts_starts = new_object_start_map 0 64 1048576\<rparr>"


subsection \<open>Machine code\<close>





text \<open>
  C39. The return address of a frame finds its code block: in a code heap whose blocks do not
  overlap, every address of the machine code of a block finds that block, also after the size
  of its stack frame has been recorded in the header, which is then read back.
\<close>

theorem code_block_lookup:
  assumes "blocks_wf mem ch" "b \<in> set (all_blocks ch)" "block_size mem b = Some sz"
    and "unat b + 32 \<le> unat address" "unat address < unat b + unat sz"
    and "set_stack_frame_size mem b frame_size = Some mem'"
  shows "code_block_for_address ch address = Some b \<and> block_size mem' b = Some sz \<and> stack_frame_size mem' b = frame_size \<and>
    block_type mem' b = block_type mem b"
  using code_block_for_address_finds [OF assms(1-5)] set_stack_frame_size_header(1-3) [OF assms(6)] assms(3) by simp

definition example_code :: "memory \<times> code_heap" where
  "example_code = ((\<lambda>_. 0)(1048576 := 64, 1048640 := 128),
     \<lparr>ch_seg = \<lparr>seg_start = 1048576, seg_size = 4096, seg_end = 1052672\<rparr>, safepoint_page = 1048576,
      ch_allocator = ts_free example_space, all_blocks = [1048576, 1048640], uninitialized_blocks = [],
      points_to_nursery = [], points_to_aging = []\<rparr>)"

theorem code_block_lookup_witness:
  "\<exists>mem'. set_stack_frame_size (fst example_code) 1048640 48 = Some mem' \<and>
    code_block_for_address (snd example_code) 1048700 = Some 1048640 \<and> stack_frame_size mem' 1048640 = 48"
proof -
  have sz: "block_size (fst example_code) 1048576 = Some 64" "block_size (fst example_code) 1048640 = Some 128"
    by (simp_all add: example_code_def block_size_def code_block_free_p_def)
  have bl: "all_blocks (snd example_code) = [1048576, 1048640]" by (simp add: example_code_def)
  have wf: "blocks_wf (fst example_code) (snd example_code)" by (simp add: blocks_wf_def bl sz)
  obtain mem' where m: "set_stack_frame_size (fst example_code) 1048640 48 = Some mem'"
    by (simp add: set_stack_frame_size_def sz code_block_free_p_def) (simp add: example_code_def)
  have "code_block_for_address (snd example_code) 1048700 = Some 1048640 \<and> block_size mem' 1048640 = Some 128 \<and>
      stack_frame_size mem' 1048640 = 48 \<and> block_type mem' 1048640 = block_type (fst example_code) 1048640"
    by (rule code_block_lookup [OF wf _ sz(2) _ _ m]) (simp_all add: bl)
  then show ?thesis using m by blast
qed

end
