(* ===== verification/Special_Objects.thy ===== *)
theory Special_Objects
  imports VM_State
begin

text \<open>
  The table of special objects (\<open>vm/objects.hpp\<close>): the objects the virtual machine and the
  compiled code know by index.
\<close>

definition special_object_count :: nat where
  "special_object_count = 85"

datatype special_object =
    OBJ_WALKER_HOOK | OBJ_CALLCC_1 | ERROR_HANDLER_QUOT | OBJ_CELL_SIZE | OBJ_CPU | OBJ_OS | OBJ_ARGS
  | OBJ_STDIN | OBJ_STDOUT | OBJ_IMAGE | OBJ_EXECUTABLE | OBJ_EMBEDDED | OBJ_EVAL_CALLBACK
  | OBJ_YIELD_CALLBACK | OBJ_SLEEP_CALLBACK | OBJ_STARTUP_QUOT | OBJ_GLOBAL | OBJ_SHUTDOWN_QUOT | JIT_PROLOG
  | JIT_PRIMITIVE_WORD | JIT_PRIMITIVE | JIT_WORD_JUMP | JIT_WORD_CALL | JIT_IF_WORD | JIT_IF | JIT_SAFEPOINT
  | JIT_EPILOG | JIT_RETURN | JIT_UNUSED | JIT_PUSH_LITERAL | JIT_DIP_WORD | JIT_DIP | JIT_2DIP_WORD
  | JIT_2DIP | JIT_3DIP_WORD | JIT_3DIP | JIT_EXECUTE | JIT_DECLARE_WORD | C_TO_FACTOR_WORD
  | LAZY_JIT_COMPILE_WORD | UNWIND_NATIVE_FRAMES_WORD | GET_FPU_STATE_WORD | SET_FPU_STATE_WORD
  | SIGNAL_HANDLER_WORD | LEAF_SIGNAL_HANDLER_WORD | WIN_EXCEPTION_HANDLER | OBJ_SAMPLE_CALLSTACKS
  | REDEFINITION_COUNTER | CALLBACK_STUB | PIC_LOAD | PIC_TAG | PIC_TUPLE | PIC_CHECK_TAG | PIC_CHECK_TUPLE
  | PIC_HIT | PIC_MISS_WORD | PIC_MISS_TAIL_WORD | MEGA_LOOKUP | MEGA_LOOKUP_WORD | MEGA_MISS_WORD
  | OBJ_UNDEFINED | OBJ_STDERR | OBJ_STAGE2 | OBJ_CURRENT_THREAD | OBJ_THREADS | OBJ_RUN_QUEUE
  | OBJ_SLEEP_QUEUE | OBJ_VM_COMPILER | OBJ_WAITING_CALLBACKS | OBJ_SIGNAL_PIPE | OBJ_VM_COMPILE_TIME
  | OBJ_VM_VERSION | OBJ_VM_GIT_LABEL | OBJ_CANONICAL_TRUE | OBJ_BIGNUM_ZERO | OBJ_BIGNUM_POS_ONE
  | OBJ_BIGNUM_NEG_ONE

primrec special_object_index :: "special_object \<Rightarrow> nat" where
  "special_object_index OBJ_WALKER_HOOK = 3"
| "special_object_index OBJ_CALLCC_1 = 4"
| "special_object_index ERROR_HANDLER_QUOT = 5"
| "special_object_index OBJ_CELL_SIZE = 7"
| "special_object_index OBJ_CPU = 8"
| "special_object_index OBJ_OS = 9"
| "special_object_index OBJ_ARGS = 10"
| "special_object_index OBJ_STDIN = 11"
| "special_object_index OBJ_STDOUT = 12"
| "special_object_index OBJ_IMAGE = 13"
| "special_object_index OBJ_EXECUTABLE = 14"
| "special_object_index OBJ_EMBEDDED = 15"
| "special_object_index OBJ_EVAL_CALLBACK = 16"
| "special_object_index OBJ_YIELD_CALLBACK = 17"
| "special_object_index OBJ_SLEEP_CALLBACK = 18"
| "special_object_index OBJ_STARTUP_QUOT = 20"
| "special_object_index OBJ_GLOBAL = 21"
| "special_object_index OBJ_SHUTDOWN_QUOT = 22"
| "special_object_index JIT_PROLOG = 23"
| "special_object_index JIT_PRIMITIVE_WORD = 24"
| "special_object_index JIT_PRIMITIVE = 25"
| "special_object_index JIT_WORD_JUMP = 26"
| "special_object_index JIT_WORD_CALL = 27"
| "special_object_index JIT_IF_WORD = 28"
| "special_object_index JIT_IF = 29"
| "special_object_index JIT_SAFEPOINT = 30"
| "special_object_index JIT_EPILOG = 31"
| "special_object_index JIT_RETURN = 32"
| "special_object_index JIT_UNUSED = 33"
| "special_object_index JIT_PUSH_LITERAL = 34"
| "special_object_index JIT_DIP_WORD = 35"
| "special_object_index JIT_DIP = 36"
| "special_object_index JIT_2DIP_WORD = 37"
| "special_object_index JIT_2DIP = 38"
| "special_object_index JIT_3DIP_WORD = 39"
| "special_object_index JIT_3DIP = 40"
| "special_object_index JIT_EXECUTE = 41"
| "special_object_index JIT_DECLARE_WORD = 42"
| "special_object_index C_TO_FACTOR_WORD = 43"
| "special_object_index LAZY_JIT_COMPILE_WORD = 44"
| "special_object_index UNWIND_NATIVE_FRAMES_WORD = 45"
| "special_object_index GET_FPU_STATE_WORD = 46"
| "special_object_index SET_FPU_STATE_WORD = 47"
| "special_object_index SIGNAL_HANDLER_WORD = 48"
| "special_object_index LEAF_SIGNAL_HANDLER_WORD = 49"
| "special_object_index WIN_EXCEPTION_HANDLER = 50"
| "special_object_index OBJ_SAMPLE_CALLSTACKS = 51"
| "special_object_index REDEFINITION_COUNTER = 52"
| "special_object_index CALLBACK_STUB = 53"
| "special_object_index PIC_LOAD = 54"
| "special_object_index PIC_TAG = 55"
| "special_object_index PIC_TUPLE = 56"
| "special_object_index PIC_CHECK_TAG = 57"
| "special_object_index PIC_CHECK_TUPLE = 58"
| "special_object_index PIC_HIT = 59"
| "special_object_index PIC_MISS_WORD = 60"
| "special_object_index PIC_MISS_TAIL_WORD = 61"
| "special_object_index MEGA_LOOKUP = 62"
| "special_object_index MEGA_LOOKUP_WORD = 63"
| "special_object_index MEGA_MISS_WORD = 64"
| "special_object_index OBJ_UNDEFINED = 65"
| "special_object_index OBJ_STDERR = 66"
| "special_object_index OBJ_STAGE2 = 67"
| "special_object_index OBJ_CURRENT_THREAD = 68"
| "special_object_index OBJ_THREADS = 69"
| "special_object_index OBJ_RUN_QUEUE = 70"
| "special_object_index OBJ_SLEEP_QUEUE = 71"
| "special_object_index OBJ_VM_COMPILER = 72"
| "special_object_index OBJ_WAITING_CALLBACKS = 73"
| "special_object_index OBJ_SIGNAL_PIPE = 74"
| "special_object_index OBJ_VM_COMPILE_TIME = 75"
| "special_object_index OBJ_VM_VERSION = 76"
| "special_object_index OBJ_VM_GIT_LABEL = 77"
| "special_object_index OBJ_CANONICAL_TRUE = 78"
| "special_object_index OBJ_BIGNUM_ZERO = 79"
| "special_object_index OBJ_BIGNUM_POS_ONE = 80"
| "special_object_index OBJ_BIGNUM_NEG_ONE = 81"

definition save_special_p :: "nat \<Rightarrow> bool" where
  "save_special_p i \<longleftrightarrow>
     special_object_index OBJ_STARTUP_QUOT \<le> i \<and> i \<le> special_object_index LEAF_SIGNAL_HANDLER_WORD \<or>
     special_object_index REDEFINITION_COUNTER \<le> i \<and> i \<le> special_object_index OBJ_UNDEFINED \<or>
     i = special_object_index OBJ_STAGE2 \<or>
     special_object_index OBJ_CANONICAL_TRUE \<le> i \<and> i \<le> special_object_index OBJ_BIGNUM_NEG_ONE"

text \<open>An index outside the table is undefined behaviour, an abort here.\<close>

definition special_object_at :: "nat \<Rightarrow> (factor_vm, cell) visit" where
  "special_object_at n =
     vbind (vget special_objects) (\<lambda>xs. if n < length xs then vreturn (xs ! n) else vlift None)"

definition set_special_object_at :: "nat \<Rightarrow> cell \<Rightarrow> (factor_vm, unit) visit" where
  "set_special_object_at n v =
     vbind (vget special_objects) (\<lambda>xs.
     if n < length xs then vmodify (\<lambda>vm. vm\<lparr>special_objects := xs[n := v]\<rparr>) else vlift None)"

abbreviation special :: "special_object \<Rightarrow> (factor_vm, cell) visit" where
  "special obj \<equiv> special_object_at (special_object_index obj)"

lemma special_object_index_bound: "special_object_index obj < special_object_count"
  by (cases obj) (simp_all add: special_object_count_def)

end
