(* ===== verification/Contexts.thy ===== *)
theory Contexts
  imports Code_Heap Special_Objects Bignum_Conv
begin

unbundle bit_operations_syntax

text \<open>
  Contexts, their stacks and the frames of callstacks (\<open>vm/contexts.hpp\<close> and \<open>.cpp\<close>,
  \<open>vm/callstack.hpp\<close>, \<open>vm/cpu-x86.hpp\<close>).

  The stacks are memory; a context holds the addresses of the topmost cells. Operations of a
  single context work on memory and context; operations of the virtual machine work on its
  state. Debug builds fill the unused part of a stack with a pattern.
\<close>

section \<open>A context\<close>

definition context_object_count :: nat where
  "context_object_count = 4"

datatype context_object = OBJ_NAMESTACK | OBJ_CATCHSTACK | OBJ_CONTEXT | OBJ_IN_CALLBACK_P

fun context_object_index :: "context_object \<Rightarrow> nat" where
  "context_object_index OBJ_NAMESTACK = 0"
| "context_object_index OBJ_CATCHSTACK = 1"
| "context_object_index OBJ_CONTEXT = 2"
| "context_object_index OBJ_IN_CALLBACK_P = 3"

definition stack_reserved :: cell where
  "stack_reserved = 16384"

definition CALLSTACK_BOTTOM :: "vm_context \<Rightarrow> cell" where
  "CALLSTACK_BOTTOM c = seg_end (callstack_seg c) - sizeof_cell * 5"

type_synonym context_state = "memory \<times> vm_context"

definition peek :: "context_state \<Rightarrow> cell" where
  "peek s = fst s (datastack (snd s))"

definition replace :: "cell \<Rightarrow> context_state \<Rightarrow> context_state" where
  "replace tagged s = ((fst s)(datastack (snd s) := tagged), snd s)"

definition pop :: "context_state \<Rightarrow> context_state \<times> cell" where
  "pop s = ((fst s, (snd s)\<lparr>datastack := datastack (snd s) - sizeof_cell\<rparr>), peek s)"

definition push :: "cell \<Rightarrow> context_state \<Rightarrow> context_state" where
  "push tagged s = replace tagged (fst s, (snd s)\<lparr>datastack := datastack (snd s) + sizeof_cell\<rparr>)"

definition fill_stack_seg :: "bool \<Rightarrow> cell \<Rightarrow> segment \<Rightarrow> cell \<Rightarrow> memory \<Rightarrow> memory" where
  "fill_stack_seg debug top_ptr seg pattern mem =
     (if debug then
        (let clear_start = top_ptr + sizeof_cell; clear_size = seg_end seg - clear_start in
         memset_cell mem clear_start pattern clear_size)
      else mem)"

definition reset_datastack :: "bool \<Rightarrow> context_state \<Rightarrow> context_state" where
  "reset_datastack debug s =
     (let (mem, c) = s; seg = datastack_seg c; top_ptr = seg_start seg - sizeof_cell in
      (fill_stack_seg debug top_ptr seg 0x11111111 mem, c\<lparr>datastack := top_ptr\<rparr>))"

definition reset_retainstack :: "bool \<Rightarrow> context_state \<Rightarrow> context_state" where
  "reset_retainstack debug s =
     (let (mem, c) = s; seg = retainstack_seg c; top_ptr = seg_start seg - sizeof_cell in
      (fill_stack_seg debug top_ptr seg 0x22222222 mem, c\<lparr>retainstack := top_ptr\<rparr>))"

definition reset_callstack :: "vm_context \<Rightarrow> vm_context" where
  "reset_callstack c = c\<lparr>callstack_top := CALLSTACK_BOTTOM c, callstack_bottom := CALLSTACK_BOTTOM c\<rparr>"

definition reset_context_objects :: "vm_context \<Rightarrow> vm_context" where
  "reset_context_objects c = c\<lparr>context_objects := replicate context_object_count false_object\<rparr>"

definition reset_stacks :: "bool \<Rightarrow> context_state \<Rightarrow> context_state" where
  "reset_stacks debug s =
     (let (mem, c) = reset_retainstack debug (reset_datastack debug s) in
      (mem, reset_context_objects (reset_callstack c)))"

definition address_to_error :: "cell \<Rightarrow> vm_context \<Rightarrow> cell \<Rightarrow> vm_error_type" where
  "address_to_error pagesize c addr =
     (if underflow_p pagesize (datastack_seg c) addr then ERROR_DATASTACK_UNDERFLOW
      else if overflow_p pagesize (datastack_seg c) addr then ERROR_DATASTACK_OVERFLOW
      else if underflow_p pagesize (retainstack_seg c) addr then ERROR_RETAINSTACK_UNDERFLOW
      else if overflow_p pagesize (retainstack_seg c) addr then ERROR_RETAINSTACK_OVERFLOW
      else if underflow_p pagesize (callstack_seg c) addr then ERROR_CALLSTACK_OVERFLOW
      else if overflow_p pagesize (callstack_seg c) addr then ERROR_CALLSTACK_UNDERFLOW
      else ERROR_MEMORY)"

definition fix_stacks :: "bool \<Rightarrow> context_state \<Rightarrow> context_state" where
  "fix_stacks debug s =
     (let c = snd s;
          s1 = (if datastack c + sizeof_cell < seg_start (datastack_seg c) \<or>
                   datastack c + stack_reserved \<ge> seg_end (datastack_seg c)
                then reset_datastack debug s else s);
          c1 = snd s1
      in if retainstack c1 + sizeof_cell < seg_start (retainstack_seg c1) \<or>
            retainstack c1 + stack_reserved \<ge> seg_end (retainstack_seg c1)
         then reset_retainstack debug s1 else s1)"

text \<open>The segments come from the operating system.\<close>

definition new_segment :: "(cell \<Rightarrow> cell) \<Rightarrow> cell \<Rightarrow> segment" where
  "new_segment alloc_segment n = (let base = alloc_segment n in \<lparr>seg_start = base, seg_size = n, seg_end = base + n\<rparr>)"

definition construct_context :: "bool \<Rightarrow> (cell \<Rightarrow> cell) \<Rightarrow> cell \<Rightarrow> cell \<Rightarrow> cell \<Rightarrow> memory \<Rightarrow> context_state" where
  "construct_context debug alloc_segment ds_size rs_size cs_size mem =
     reset_stacks debug (mem,
       \<lparr>callstack_top = 0, callstack_bottom = 0, datastack = 0, retainstack = 0, callstack_save = 0,
        datastack_seg = new_segment alloc_segment ds_size, retainstack_seg = new_segment alloc_segment rs_size,
        callstack_seg = new_segment alloc_segment cs_size, context_objects = []\<rparr>)"

section \<open>The contexts of the virtual machine\<close>

definition vm_ctx_step :: "cell \<Rightarrow> (context_state \<Rightarrow> context_state \<times> 'a) \<Rightarrow> (factor_vm, 'a) visit" where
  "vm_ctx_step a f vm =
     (let ((mem, c), x) = f (vm_memory vm, contexts vm a) in
      Some (vm\<lparr>vm_memory := mem, contexts := (contexts vm)(a := c)\<rparr>, Inr x))"

definition current_ctx :: "(factor_vm, cell) visit" where
  "current_ctx = vbind (vget ctx) vlift"

definition ctx_pop :: "(factor_vm, cell) visit" where
  "ctx_pop = vbind current_ctx (\<lambda>a. vm_ctx_step a pop)"

definition ctx_push :: "cell \<Rightarrow> (factor_vm, unit) visit" where
  "ctx_push v = vbind current_ctx (\<lambda>a. vm_ctx_step a (\<lambda>s. (push v s, ())))"

definition ctx_peek :: "(factor_vm, cell) visit" where
  "ctx_peek = vbind current_ctx (\<lambda>a. vm_ctx_step a (\<lambda>s. (s, peek s)))"

definition ctx_replace :: "cell \<Rightarrow> (factor_vm, unit) visit" where
  "ctx_replace v = vbind current_ctx (\<lambda>a. vm_ctx_step a (\<lambda>s. (replace v s, ())))"

text \<open>
  A new context is taken from the pool or constructed at an address the C++ allocator
  chooses.
\<close>

definition new_context :: "bool \<Rightarrow> (cell \<Rightarrow> cell) \<Rightarrow> cell \<Rightarrow> (factor_vm, cell) visit" where
  "new_context debug alloc_segment fresh vm =
     (let (vm1, a) =
        (if unused_contexts vm = [] then
           (let (mem, c) = construct_context debug alloc_segment (datastack_size vm) (retainstack_size vm) (callstack_size vm) (vm_memory vm)
            in (vm\<lparr>vm_memory := mem, contexts := (contexts vm)(fresh := c)\<rparr>, fresh))
         else (vm\<lparr>unused_contexts := butlast (unused_contexts vm)\<rparr>, List.last (unused_contexts vm)));
        (mem2, c2) = reset_stacks debug (vm_memory vm1, contexts vm1 a)
      in Some (vm1\<lparr>vm_memory := mem2, contexts := (contexts vm1)(a := c2), active_contexts := set_insert a (active_contexts vm1)\<rparr>,
               Inr a))"

definition delete_context :: "(factor_vm, unit) visit" where
  "delete_context =
     vbind current_ctx (\<lambda>a.
     vmodify (\<lambda>vm.
       let unused = unused_contexts vm @ [a] in
       vm\<lparr>unused_contexts := drop (length unused - 10) unused, active_contexts := set_erase a (active_contexts vm)\<rparr>))"

definition end_callback :: "(factor_vm, unit) visit" where
  "end_callback = vthen (vmodify (\<lambda>vm. vm\<lparr>callback_ids := butlast (callback_ids vm)\<rparr>)) delete_context"

definition primitive_current_callback :: "(factor_vm, unit) visit" where
  "primitive_current_callback =
     vbind (vget callback_ids) (\<lambda>ids. if ids = [] then vlift None else ctx_push (tag_fixnum (List.last ids)))"

text \<open>Indexing outside the four context objects is undefined behaviour, an abort here.\<close>

definition context_object_at :: "cell list \<Rightarrow> fixnum \<Rightarrow> cell option" where
  "context_object_at xs n = (if 0 \<le> n \<and> nat n < length xs then Some (xs ! nat n) else None)"

definition primitive_context_object :: "(factor_vm, unit) visit" where
  "primitive_context_object =
     vbind ctx_peek (\<lambda>v. vbind (vlift (untag_fixnum v)) (\<lambda>n.
     vbind current_ctx (\<lambda>a. vbind (vget (\<lambda>vm. context_objects (contexts vm a))) (\<lambda>xs.
     vbind (vlift (context_object_at xs n)) ctx_replace))))"

definition primitive_set_context_object :: "(factor_vm, unit) visit" where
  "primitive_set_context_object =
     vbind ctx_pop (\<lambda>i. vbind (vlift (untag_fixnum i)) (\<lambda>n. vbind ctx_pop (\<lambda>v.
     vbind current_ctx (\<lambda>a. vbind (vget (\<lambda>vm. contexts vm a)) (\<lambda>c.
     vthen (vlift (context_object_at (context_objects c) n))
       (vmodify (\<lambda>vm. vm\<lparr>contexts := (contexts vm)(a := c\<lparr>context_objects := (context_objects c)[nat n := v]\<rparr>)\<rparr>)))))))"

section \<open>Checked arguments\<close>

text \<open>\<open>type_error\<close> and \<open>untag_check\<close>: a value with another tag leaves through an error.\<close>

definition type_error :: "vm_type \<Rightarrow> cell \<Rightarrow> (factor_vm, 'a) visit" where
  "type_error ty v = vthrow (general_error ERROR_TYPE (tag_fixnum (uint (type_number ty))) v)"

definition check_tagged :: "vm_type \<Rightarrow> cell \<Rightarrow> (factor_vm, unit) visit" where
  "check_tagged ty v = (if tagged_type_p (Some ty) v then vreturn () else type_error ty v)"

definition untag_check :: "vm_type \<Rightarrow> cell \<Rightarrow> (factor_vm, cell) visit" where
  "untag_check ty v = vthen (check_tagged ty v) (vreturn (UNTAG v))"

text \<open>
  The number a bignum object holds: the first element of its data is the sign, the others
  are the digits.
\<close>

definition bignum_at :: "memory \<Rightarrow> cell \<Rightarrow> bignum option" where
  "bignum_at mem a = do {
     capacity \<leftarrow> array_capacity BIGNUM_TYPE mem a;
     Some (mk_bignum (mem (array_data a) \<noteq> 0)
       (map (\<lambda>i. sint (mem (array_data a + sizeof_cell * of_nat (Suc i)))) [0..<unat capacity - 1])) }"

definition vm_to_fixnum :: "cell \<Rightarrow> (factor_vm, fixnum) visit" where
  "vm_to_fixnum tagged =
     (if TAG tagged = type_number FIXNUM_TYPE then vlift (untag_fixnum tagged)
      else if TAG tagged = type_number BIGNUM_TYPE then
        vbind (vget (\<lambda>vm. bignum_at (vm_memory vm) (UNTAG tagged))) (\<lambda>b.
        vbind (vlift b) (\<lambda>n. vreturn (bignum_to_fixnum n)))
      else type_error FIXNUM_TYPE tagged)"

definition array_nth :: "memory \<Rightarrow> cell \<Rightarrow> cell \<Rightarrow> cell option" where
  "array_nth mem a slot = do {
     n \<leftarrow> array_capacity ARRAY_TYPE mem a;
     if slot < n then Some (mem (array_data a + slot * sizeof_cell)) else None }"

section \<open>Whole stacks\<close>

definition array_to_stack :: "memory \<Rightarrow> cell \<Rightarrow> cell \<Rightarrow> (memory \<times> cell) option" where
  "array_to_stack mem a bottom = do {
     n \<leftarrow> array_capacity ARRAY_TYPE mem a;
     let depth = n * sizeof_cell in
     Some (memmove bottom (array_data a) depth mem, bottom + depth - sizeof_cell) }"

definition vm_ctx_update :: "cell \<Rightarrow> (vm_context \<Rightarrow> vm_context) \<Rightarrow> (factor_vm, unit) visit" where
  "vm_ctx_update a f = vmodify (\<lambda>vm. vm\<lparr>contexts := (contexts vm)(a := f (contexts vm a))\<rparr>)"

definition load_stack :: "cell \<Rightarrow> cell \<Rightarrow> (factor_vm, cell) visit" where
  "load_stack a bottom =
     vcomponent vm_memory (\<lambda>mem. vm_memory_update (\<lambda>_. mem)) (\<lambda>mem. array_to_stack mem a bottom)"

definition primitive_set_datastack :: "(factor_vm, unit) visit" where
  "primitive_set_datastack =
     vbind ctx_pop (\<lambda>v. vbind (untag_check ARRAY_TYPE v) (\<lambda>arr.
     vbind current_ctx (\<lambda>a. vbind (vget (\<lambda>vm. seg_start (datastack_seg (contexts vm a)))) (\<lambda>bottom.
     vbind (load_stack arr bottom) (\<lambda>top. vm_ctx_update a (datastack_update (\<lambda>_. top)))))))"

definition primitive_set_retainstack :: "(factor_vm, unit) visit" where
  "primitive_set_retainstack =
     vbind ctx_pop (\<lambda>v. vbind (untag_check ARRAY_TYPE v) (\<lambda>arr.
     vbind current_ctx (\<lambda>a. vbind (vget (\<lambda>vm. seg_start (retainstack_seg (contexts vm a)))) (\<lambda>bottom.
     vbind (load_stack arr bottom) (\<lambda>top. vm_ctx_update a (retainstack_update (\<lambda>_. top)))))))"

text \<open>The comparison of the saved elements with the bottom of the data stack.\<close>

primrec same_elements :: "memory \<Rightarrow> cell \<Rightarrow> cell \<Rightarrow> nat \<Rightarrow> cell \<Rightarrow> bool option" where
  "same_elements mem ds_bot saved 0 i = Some True"
| "same_elements mem ds_bot saved (Suc n) i = do {
     v \<leftarrow> array_nth mem saved i;
     if mem (ds_bot + i * sizeof_cell) \<noteq> v then Some False else same_elements mem ds_bot saved n (i + 1) }"

definition stack_height :: "vm_context \<Rightarrow> fixnum" where
  "stack_height c = sint ((datastack c - seg_start (datastack_seg c) + sizeof_cell) div sizeof_cell)"

definition primitive_check_datastack :: "(factor_vm, unit) visit" where
  "primitive_check_datastack =
     vbind ctx_pop (\<lambda>x. vbind (vm_to_fixnum x) (\<lambda>out.
     vbind ctx_pop (\<lambda>y. vbind (vm_to_fixnum y) (\<lambda>inp.
     vbind ctx_pop (\<lambda>z. vbind (untag_check ARRAY_TYPE z) (\<lambda>saved_datastack.
     vbind current_ctx (\<lambda>a. vbind (vget id) (\<lambda>vm.
     let height = fx (out - inp); c = contexts vm a in
     vbind (vlift (array_capacity ARRAY_TYPE (vm_memory vm) saved_datastack)) (\<lambda>capacity.
     let saved_height = sint capacity in
     if fx (stack_height c - height) \<noteq> saved_height then ctx_push false_object
     else
       vbind (vlift (same_elements (vm_memory vm) (seg_start (datastack_seg c)) saved_datastack
         (nat (fx (saved_height - inp))) 0)) (\<lambda>same.
       if same then vbind (special OBJ_CANONICAL_TRUE) ctx_push
       else ctx_push false_object))))))))))"

definition primitive_load_locals :: "(factor_vm, unit) visit" where
  "primitive_load_locals =
     vbind ctx_pop (\<lambda>v. vbind (vlift (untag_fixnum v)) (\<lambda>n. vbind current_ctx (\<lambda>a.
     let count = (word_of_int n :: cell) in
     vm_ctx_step a (\<lambda>(mem, c).
       ((memmove (retainstack c + sizeof_cell) (datastack c - sizeof_cell * (count - 1)) (sizeof_cell * count) mem,
         c\<lparr>datastack := datastack c - sizeof_cell * count, retainstack := retainstack c + sizeof_cell * count\<rparr>), ())))))"

section \<open>Primitives on special objects and slots\<close>

definition primitive_special_object :: "(factor_vm, unit) visit" where
  "primitive_special_object =
     vbind ctx_peek (\<lambda>v. vbind (vlift (untag_fixnum v)) (\<lambda>n.
     vthen (vassert (0 \<le> n)) (vbind (special_object_at (nat n)) ctx_replace)))"

definition primitive_set_special_object :: "(factor_vm, unit) visit" where
  "primitive_set_special_object =
     vbind ctx_pop (\<lambda>v. vbind (vlift (untag_fixnum v)) (\<lambda>n. vbind ctx_pop (\<lambda>x.
     vthen (vassert (0 \<le> n)) (set_special_object_at (nat n) x))))"

definition primitive_identity_hashcode :: "(factor_vm, unit) visit" where
  "primitive_identity_hashcode =
     vbind ctx_peek (\<lambda>tagged. vbind (vm_read (UNTAG tagged)) (\<lambda>header.
     ctx_replace (tag_fixnum (uint (hashcode header)))))"

definition primitive_compute_identity_hashcode :: "(factor_vm, unit) visit" where
  "primitive_compute_identity_hashcode =
     vbind ctx_pop (\<lambda>tagged. let obj = UNTAG tagged in
     vthen (vmodify (\<lambda>vm. let n = object_counter vm + 1 in vm\<lparr>object_counter := if n = 0 then n + 1 else n\<rparr>))
     (vbind (vget object_counter) (\<lambda>n. vbind (vm_read obj) (\<lambda>header.
      vm_write obj (set_hashcode header (obj XOR n))))))"

definition vm_write_barrier :: "cell \<Rightarrow> (factor_vm, unit) visit" where
  "vm_write_barrier slot_ptr =
     vcomponent vm_data (\<lambda>d. vm_data_update (\<lambda>_. d)) (\<lambda>d. map_option (\<lambda>d'. (d', ())) (write_barrier d slot_ptr))"

definition primitive_set_slot :: "(factor_vm, unit) visit" where
  "primitive_set_slot =
     vbind ctx_pop (\<lambda>s. vbind (vlift (untag_fixnum s)) (\<lambda>slot. vbind ctx_pop (\<lambda>tagged. vbind ctx_pop (\<lambda>v.
     let slot_ptr = UNTAG tagged + sizeof_cell * word_of_int slot in
     vthen (vm_write slot_ptr v) (vm_write_barrier slot_ptr)))))"

section \<open>The stacks\<close>

lemma push_pop: "pop (push v s) = (((fst s)(datastack (snd s) + sizeof_cell := v), snd s), v)"
  by (simp add: pop_def push_def peek_def replace_def)

lemma push_peek: "peek (push v s) = v"
  by (simp add: push_def peek_def replace_def)

lemma fill_stack_seg_below:
  assumes "unat a < unat (top_ptr + sizeof_cell)"
  shows "fill_stack_seg debug top_ptr seg pattern mem a = mem a"
  using assms by (simp add: fill_stack_seg_def memset_cell_def Let_def)

text \<open>A reset context has empty stacks and no context objects.\<close>

lemma reset_stacks_empty:
  assumes "reset_stacks debug s = (mem', c)"
  shows "datastack c = seg_start (datastack_seg (snd s)) - sizeof_cell" "retainstack c = seg_start (retainstack_seg (snd s)) - sizeof_cell"
    "callstack_top c = CALLSTACK_BOTTOM c" "callstack_bottom c = CALLSTACK_BOTTOM c" "context_objects c = replicate 4 false_object"
    "stack_height c = 0" "datastack_seg c = datastack_seg (snd s)" "retainstack_seg c = retainstack_seg (snd s)" "callstack_seg c = callstack_seg (snd s)"
  using assms
  by (auto simp: reset_stacks_def reset_datastack_def reset_retainstack_def reset_callstack_def reset_context_objects_def
      context_object_count_def stack_height_def CALLSTACK_BOTTOM_def Let_def split: prod.splits)

text \<open>
  A stack is in bounds when the topmost cell is not below the cell before the segment and
  there is room for the reserve. Where a segment has that room, an error leaves both
  stacks in bounds.
\<close>

definition stack_in_bounds :: "cell \<Rightarrow> segment \<Rightarrow> bool" where
  "stack_in_bounds top_ptr seg \<longleftrightarrow> seg_start seg \<le> top_ptr + sizeof_cell \<and> top_ptr + stack_reserved < seg_end seg"

definition stack_segment_ok :: "segment \<Rightarrow> bool" where
  "stack_segment_ok seg \<longleftrightarrow> unat (seg_start seg) + 16384 < unat (seg_end seg)"

lemma empty_stack_in_bounds: "stack_segment_ok seg \<Longrightarrow> stack_in_bounds (seg_start seg - sizeof_cell) seg"
  by (auto simp: stack_in_bounds_def stack_segment_ok_def stack_reserved_def word_less_nat_alt unat_word_ariths
      add.commute [of _ "16376 :: cell"] diff_add_eq [symmetric])

lemma fix_stacks_in_bounds:
  assumes "stack_segment_ok (datastack_seg (snd s))" "stack_segment_ok (retainstack_seg (snd s))"
  shows "stack_in_bounds (datastack (snd (fix_stacks debug s))) (datastack_seg (snd s))"
    "stack_in_bounds (retainstack (snd (fix_stacks debug s))) (retainstack_seg (snd s))"
    "stack_in_bounds (datastack (snd s)) (datastack_seg (snd s)) \<Longrightarrow> stack_in_bounds (retainstack (snd s)) (retainstack_seg (snd s)) \<Longrightarrow>
     fix_stacks debug s = s"
  using empty_stack_in_bounds [OF assms(1)] empty_stack_in_bounds [OF assms(2)]
  by (cases s; auto simp: fix_stacks_def reset_datastack_def reset_retainstack_def stack_in_bounds_def Let_def)+

section \<open>The pool of contexts\<close>

text \<open>
  Active and unused contexts are disjoint, and at most ten unused ones are kept. A context
  taken from the pool has empty stacks.
\<close>

definition pool_wf :: "factor_vm \<Rightarrow> bool" where
  "pool_wf vm \<longleftrightarrow> sorted (active_contexts vm) \<and> distinct (active_contexts vm) \<and> distinct (unused_contexts vm) \<and>
     set (active_contexts vm) \<inter> set (unused_contexts vm) = {} \<and> length (unused_contexts vm) \<le> 10"

lemma new_context_pool:
  assumes "pool_wf vm" "fresh \<notin> set (active_contexts vm)"
  shows "\<exists>vm' a. new_context debug alloc_segment fresh vm = Some (vm', Inr a) \<and> pool_wf vm' \<and>
    a \<notin> set (active_contexts vm) \<and> set (active_contexts vm') = insert a (set (active_contexts vm)) \<and>
    stack_height (contexts vm' a) = 0 \<and> (\<forall>b. b \<noteq> a \<longrightarrow> contexts vm' b = contexts vm b)"
proof (cases "unused_contexts vm = []")
  case True
  obtain mem c where c: "construct_context debug alloc_segment (datastack_size vm) (retainstack_size vm) (callstack_size vm) (vm_memory vm) = (mem, c)"
    by fastforce
  obtain mem2 c2 where c2: "reset_stacks debug (mem, c) = (mem2, c2)" by fastforce
  show ?thesis using assms True reset_stacks_empty(6) [OF c2]
    by (auto simp: new_context_def c c2 pool_wf_def set_insert_def set_insort_key sorted_insort distinct_insort)
next
  case False
  let ?a = "List.last (unused_contexts vm)"
  have u: "unused_contexts vm = butlast (unused_contexts vm) @ [?a]" using False by simp
  have a: "?a \<in> set (unused_contexts vm)" using False by simp
  have d: "distinct (butlast (unused_contexts vm))" "?a \<notin> set (butlast (unused_contexts vm))"
    using assms(1) u unfolding pool_wf_def by (metis distinct_append distinct.simps(2) disjoint_iff list.set_intros(1))+
  obtain mem2 c2 where c2: "reset_stacks debug (vm_memory vm, contexts vm ?a) = (mem2, c2)" by fastforce
  have dis: "?a \<notin> set (active_contexts vm)" "set (active_contexts vm) \<inter> set (butlast (unused_contexts vm)) = {}"
    using assms(1) a in_set_butlastD by (fastforce simp: pool_wf_def)+
  show ?thesis using assms(1) False reset_stacks_empty(6) [OF c2] d dis
    by (auto simp: new_context_def c2 pool_wf_def set_insert_def set_insort_key sorted_insort distinct_insort)
qed

lemma delete_context_pool:
  assumes "pool_wf vm" "ctx vm = Some a" "a \<in> set (active_contexts vm)"
  shows "\<exists>vm'. delete_context vm = Some (vm', Inr ()) \<and> pool_wf vm' \<and> set (active_contexts vm') = set (active_contexts vm) - {a} \<and>
    set (unused_contexts vm') \<subseteq> insert a (set (unused_contexts vm)) \<and> List.last (unused_contexts vm') = a"
proof -
  let ?u = "unused_contexts vm @ [a]"
  let ?u' = "drop (length ?u - 10) ?u"
  have "a \<notin> set (unused_contexts vm)" using assms(1,3) by (auto simp: pool_wf_def)
  then have "distinct ?u" using assms(1) by (simp add: pool_wf_def)
  then have "distinct ?u'" by (rule distinct_drop)
  moreover have sub: "set ?u' \<subseteq> set ?u" by (rule set_drop_subset)
  moreover have "List.last ?u' = a" using assms(1) by (simp add: pool_wf_def last_drop del: drop_append)
  ultimately show ?thesis using assms
    by (auto simp: delete_context_def current_ctx_def visit_simps pool_wf_def set_erase_def sorted_filter [where f = "\<lambda>x. x", simplified] simp del: drop_append)
qed

end
