(* ===== verification/Relocation.thy ===== *)
theory Relocation
  imports Contexts
begin

text \<open>
  The values of instruction operands (\<open>vm/code_blocks.cpp\<close>), the stubs of callbacks
  (\<open>vm/callbacks.cpp\<close>) and call sites (\<open>vm/cpu-x86.hpp\<close>).

  What the C++ program gets from its surroundings is the record \<open>host\<close>: addresses of the
  virtual machine itself, of a counter, of two functions and of the card arrays, the dynamic
  linker, the page size, the allocator of segments, what uninitialised memory holds, and
  whether the build is a debug build. Flushing the instruction cache has no effect on x86.
\<close>

unbundle bit_operations_syntax

record host =
  host_debug :: bool
  host_pagesize :: cell
  host_alloc_segment :: "cell \<Rightarrow> cell"
  host_garbage :: card
  host_vm_address :: cell
  host_cache_hits :: cell
  host_undefined_symbol :: cell
  host_inline_cache_miss :: cell
  host_cards :: "data_heap \<Rightarrow> cell"
  host_decks :: "data_heap \<Rightarrow> cell"
  host_dlsym :: "cell option \<Rightarrow> memory \<Rightarrow> cell \<Rightarrow> cell"

definition cards_offset :: "host \<Rightarrow> data_heap \<Rightarrow> cell" where
  "cards_offset h d = host_cards h d - addr_to_card (dh_start d)"

definition decks_offset :: "host \<Rightarrow> data_heap \<Rightarrow> cell" where
  "decks_offset h d = host_decks h d - addr_to_deck (dh_start d)"

section \<open>Fields\<close>

definition word_def_field :: "cell \<Rightarrow> cell" where
  "word_def_field w = w + 32"

definition word_pic_def_field :: "cell \<Rightarrow> cell" where
  "word_pic_def_field w = w + 48"

definition word_pic_tail_def_field :: "cell \<Rightarrow> cell" where
  "word_pic_tail_def_field w = w + 56"

definition quotation_array_field :: "cell \<Rightarrow> cell" where
  "quotation_array_field q = q + 8"

definition wrapper_object_field :: "cell \<Rightarrow> cell" where
  "wrapper_object_field w = w + 8"

definition dll_handle_field :: "cell \<Rightarrow> cell" where
  "dll_handle_field d = d + 16"

definition vm_array_nth :: "cell \<Rightarrow> cell \<Rightarrow> (factor_vm, cell) visit" where
  "vm_array_nth a slot = vbind vm_mem (\<lambda>mem. vlift (array_nth mem a slot))"

definition vm_store_value :: "instruction_operand \<Rightarrow> cell \<Rightarrow> (factor_vm, unit) visit" where
  "vm_store_value op v =
     vcomponent vm_memory (\<lambda>mem. vm_memory_update (\<lambda>_. mem)) (\<lambda>mem. map_option (\<lambda>mem'. (mem', ())) (store_value mem op v))"

definition vm_load_value :: "instruction_operand \<Rightarrow> cell \<Rightarrow> (factor_vm, cell) visit" where
  "vm_load_value op relative_to = vbind vm_mem (\<lambda>mem. vlift (load_value mem op relative_to))"

definition vm_load_code_block :: "instruction_operand \<Rightarrow> (factor_vm, cell) visit" where
  "vm_load_code_block op = vbind vm_mem (\<lambda>mem. vlift (load_code_block mem op))"

section \<open>Owners and entry points\<close>

text \<open>
  A cold call site points to a quotation that wraps the generic word; the owner of such a
  block is the word.
\<close>

definition code_block_owner :: "cell \<Rightarrow> (factor_vm, cell) visit" where
  "code_block_owner compiled =
     vbind (vm_read (block_owner_field compiled)) (\<lambda>owner.
     if TAG owner \<noteq> type_number QUOTATION_TYPE then vreturn owner
     else
       vbind (vm_read (quotation_array_field (UNTAG owner))) (\<lambda>a.
       let elements = UNTAG a in
       vbind (vbind vm_mem (\<lambda>mem. vlift (array_capacity ARRAY_TYPE mem elements))) (\<lambda>capacity.
       vthen (vassert (capacity = 5))
       (vbind (vm_array_nth elements 0) (\<lambda>wrap. vm_read (wrapper_object_field (UNTAG wrap)))))))"

definition compute_entry_point_address :: "cell \<Rightarrow> (factor_vm, cell) visit" where
  "compute_entry_point_address obj =
     (if TAG obj = type_number WORD_TYPE then vm_read (word_entry_point_field (UNTAG obj))
      else if TAG obj = type_number QUOTATION_TYPE then vm_read (quotation_entry_point_field (UNTAG obj))
      else vlift None)"

definition compute_here_address :: "cell \<Rightarrow> cell \<Rightarrow> cell \<Rightarrow> cell option" where
  "compute_here_address arg offset compiled =
     map_option (\<lambda>n. if n \<ge> 0 then block_entry_point compiled + offset + word_of_int n
       else block_entry_point compiled - word_of_int n) (untag_fixnum arg)"

definition owner_quot :: "cell \<Rightarrow> (factor_vm, cell) visit" where
  "owner_quot compiled =
     vbind (vm_read (block_owner_field compiled)) (\<lambda>owner.
     vbind vm_mem (\<lambda>mem.
     if block_type mem compiled \<noteq> code_block_type_number CODE_BLOCK_OPTIMIZED \<and> TAG owner = type_number WORD_TYPE
     then vm_read (word_def_field (UNTAG owner)) else vreturn owner))"

definition lazy_jit_compile_entry_point :: "(factor_vm, cell) visit" where
  "lazy_jit_compile_entry_point =
     vbind (special LAZY_JIT_COMPILE_WORD) (\<lambda>w. vm_read (word_entry_point_field (UNTAG w)))"

definition quotation_compiled_p :: "cell \<Rightarrow> (factor_vm, bool) visit" where
  "quotation_compiled_p quot =
     vbind (vm_read (quotation_entry_point_field quot)) (\<lambda>entry_point.
     if entry_point = 0 then vreturn False
     else vbind lazy_jit_compile_entry_point (\<lambda>lazy. vreturn (entry_point \<noteq> lazy)))"

definition compute_pic_address :: "cell \<Rightarrow> cell \<Rightarrow> (factor_vm, cell) visit" where
  "compute_pic_address w tagged_quot =
     vbind (vget max_pic_size) (\<lambda>n.
     if \<not> to_boolean tagged_quot \<or> n = 0 then vm_read (word_entry_point_field w)
     else
       vbind (quotation_compiled_p (UNTAG tagged_quot)) (\<lambda>compiled.
       if compiled then vm_read (quotation_entry_point_field (UNTAG tagged_quot))
       else vm_read (word_entry_point_field w)))"

definition compute_entry_point_pic_address :: "cell \<Rightarrow> (factor_vm, cell) visit" where
  "compute_entry_point_pic_address w =
     vbind (vlift (untagged (Some WORD_TYPE) w)) (\<lambda>a.
     vbind (vm_read (word_pic_def_field a)) (compute_pic_address a))"

definition compute_entry_point_pic_tail_address :: "cell \<Rightarrow> (factor_vm, cell) visit" where
  "compute_entry_point_pic_tail_address w =
     vbind (vlift (untagged (Some WORD_TYPE) w)) (\<lambda>a.
     vbind (vm_read (word_pic_tail_def_field a)) (compute_pic_address a))"

section \<open>External addresses\<close>

text \<open>
  A library that is not open, or a symbol the linker does not find, gives the address of the
  function that reports it.
\<close>

definition compute_dlsym_address :: "host \<Rightarrow> cell \<Rightarrow> cell \<Rightarrow> (factor_vm, cell) visit" where
  "compute_dlsym_address h parameters index =
     vbind (vm_array_nth parameters index) (\<lambda>symbol.
     vbind (vm_array_nth parameters (index + 1)) (\<lambda>library.
     let undef = host_undefined_symbol h in
     vbind (if to_boolean library then vbind (vm_read (dll_handle_field (UNTAG library))) (\<lambda>hd. vreturn (Some hd))
            else vreturn None) (\<lambda>d.
     if d = Some 0 then vreturn undef
     else
       vthen (vassert (TAG symbol = type_number BYTE_ARRAY_TYPE))
       (vbind vm_mem (\<lambda>mem.
        let sym = host_dlsym h d mem (array_data (UNTAG symbol)) in
        vreturn (if sym \<noteq> 0 then sym else undef))))))"

definition lookup_external_address ::
  "host \<Rightarrow> relocation_type \<Rightarrow> cell \<Rightarrow> cell option \<Rightarrow> cell \<Rightarrow> (factor_vm, cell) visit" where
  "lookup_external_address h ty compiled parameters index =
     (case ty of
        RT_DLSYM \<Rightarrow> vbind (vlift parameters) (\<lambda>p. compute_dlsym_address h p index)
      | RT_THIS \<Rightarrow> vreturn (block_entry_point compiled)
      | RT_MEGAMORPHIC_CACHE_HITS \<Rightarrow> vreturn (host_cache_hits h)
      | RT_VM \<Rightarrow>
          vbind (vlift parameters) (\<lambda>p. vbind (vm_array_nth p index) (\<lambda>x.
          vbind (vlift (untag_fixnum x)) (\<lambda>n. vreturn (host_vm_address h + word_of_int n))))
      | RT_CARDS_OFFSET \<Rightarrow> vget (\<lambda>vm. cards_offset h (vm_data vm))
      | RT_DECKS_OFFSET \<Rightarrow> vget (\<lambda>vm. decks_offset h (vm_data vm))
      | RT_INLINE_CACHE_MISS \<Rightarrow> vreturn (host_inline_cache_miss h)
      | RT_SAFEPOINT \<Rightarrow> vget (\<lambda>vm. safepoint_page (vm_code vm))
      | _ \<Rightarrow> vreturn (- 1))"

definition compute_external_address :: "host \<Rightarrow> instruction_operand \<Rightarrow> (factor_vm, cell) visit" where
  "compute_external_address h op =
     (let compiled = op_compiled op in
      vbind (vm_read (block_parameters_field compiled)) (\<lambda>p.
      vbind (lookup_external_address h (rel_type (op_rel op)) compiled
        (if to_boolean p then Some (UNTAG p) else None) (op_index op)) (\<lambda>ext_addr.
      vthen (vassert (ext_addr \<noteq> - 1)) (vreturn ext_addr))))"

section \<open>Initial values\<close>

text \<open>
  The literals of a block are consumed in the order of its operands; the index of the next
  one is the state of the visitor.
\<close>

definition compute_operand_value :: "host \<Rightarrow> cell \<Rightarrow> instruction_operand \<Rightarrow> cell \<Rightarrow> (factor_vm, cell \<times> cell) visit" where
  "compute_operand_value h literals op literal_index =
     (let next_literal = (\<lambda>f. vbind (vm_array_nth (UNTAG literals) literal_index) (\<lambda>x.
            vbind (f x) (\<lambda>v. vreturn (v, literal_index + 1)))) in
      case rel_type (op_rel op) of
        RT_LITERAL \<Rightarrow> next_literal vreturn
      | RT_ENTRY_POINT \<Rightarrow> next_literal compute_entry_point_address
      | RT_ENTRY_POINT_PIC \<Rightarrow> next_literal compute_entry_point_pic_address
      | RT_ENTRY_POINT_PIC_TAIL \<Rightarrow> next_literal compute_entry_point_pic_tail_address
      | RT_HERE \<Rightarrow> next_literal (\<lambda>x. vlift (compute_here_address x (rel_offset (op_rel op)) (op_compiled op)))
      | RT_UNTAGGED \<Rightarrow> next_literal (\<lambda>x. vlift (map_option word_of_int (untag_fixnum x)))
      | _ \<Rightarrow> vbind (compute_external_address h op) (\<lambda>v. vreturn (v, literal_index)))"

definition code_heap_modify :: "(code_heap \<Rightarrow> code_heap) \<Rightarrow> (factor_vm, unit) visit" where
  "code_heap_modify f = vmodify (\<lambda>vm. vm\<lparr>vm_code := f (vm_code vm)\<rparr>)"

definition initialize_code_block_with :: "host \<Rightarrow> cell \<Rightarrow> cell \<Rightarrow> (factor_vm, unit) visit" where
  "initialize_code_block_with h compiled literals =
     vthen (fold_instruction_operands
       (\<lambda>op k. vbind (compute_operand_value h literals op k) (\<lambda>(v, k'). vthen (vm_store_value op v) (vreturn k'))) compiled 0)
     (code_heap_modify (code_write_barrier compiled))"

text \<open>Initialising a block that is not waiting for it dereferences the end of the map.\<close>

definition initialize_code_block :: "host \<Rightarrow> cell \<Rightarrow> (factor_vm, unit) visit" where
  "initialize_code_block h compiled =
     vbind (vget (\<lambda>vm. map_of (uninitialized_blocks (vm_code vm)) compiled)) (\<lambda>found.
     vbind (vlift found) (\<lambda>literals.
     vthen (initialize_code_block_with h compiled literals)
     (code_heap_modify (\<lambda>ch. ch\<lparr>uninitialized_blocks := filter (\<lambda>(b, _). b \<noteq> compiled) (uninitialized_blocks ch)\<rparr>))))"

text \<open>\<open>labels\<close> holds triples of a relocation class, an offset and a target.\<close>

function fixup_labels_loop :: "cell \<Rightarrow> cell \<Rightarrow> nat \<Rightarrow> nat \<Rightarrow> (factor_vm, unit) visit" where
  "fixup_labels_loop labels compiled n i =
     (if i < n then
        vbind (vm_array_nth labels (of_nat i)) (\<lambda>x. vbind (vlift (untag_fixnum x)) (\<lambda>cl.
        vbind (vm_array_nth labels (of_nat (i + 1))) (\<lambda>y. vbind (vlift (untag_fixnum y)) (\<lambda>offset.
        vbind (vm_array_nth labels (of_nat (i + 2))) (\<lambda>z. vbind (vlift (untag_fixnum z)) (\<lambda>target.
        vthen (vassert (0 \<le> cl \<and> nat cl < length relocation_classes))
        (vthen (vm_store_value (new_instruction_operand (new_relocation_entry RT_HERE (relocation_classes ! nat cl) (word_of_int offset)) compiled 0)
           (word_of_int target + block_entry_point compiled))
         (fixup_labels_loop labels compiled n (i + 3)))))))))
      else vreturn ())"
  by pat_completeness auto

termination by (relation "measure (\<lambda>(labels, compiled, n, i). n - i)") auto

definition fixup_labels :: "cell \<Rightarrow> cell \<Rightarrow> (factor_vm, unit) visit" where
  "fixup_labels labels compiled =
     vbind (vbind vm_mem (\<lambda>mem. vlift (array_capacity ARRAY_TYPE mem labels))) (\<lambda>n.
     fixup_labels_loop labels compiled (unat n) 0)"

section \<open>Updating references to words\<close>

definition vm_pic_p :: "cell \<Rightarrow> (factor_vm, bool) visit" where
  "vm_pic_p b = vget (\<lambda>vm. pic_p (vm_memory vm) b)"

definition update_word_operand :: "bool \<Rightarrow> instruction_operand \<Rightarrow> (factor_vm, unit) visit" where
  "update_word_operand reset_inline_caches op =
     (let update = (\<lambda>owner_of address.
        vbind (vm_load_code_block op) (\<lambda>dest. vbind (owner_of dest) (\<lambda>owner.
        vwhen (to_boolean owner) (vbind (address owner) (vm_store_value op)))));
        unless_pic = (\<lambda>m. vbind (vm_load_code_block op) (\<lambda>dest. vbind (vm_pic_p dest) (\<lambda>p.
        vwhen (reset_inline_caches \<or> \<not> p) m)))
      in case rel_type (op_rel op) of
        RT_ENTRY_POINT \<Rightarrow> update (\<lambda>dest. vm_read (block_owner_field dest)) compute_entry_point_address
      | RT_ENTRY_POINT_PIC \<Rightarrow> unless_pic (update code_block_owner compute_entry_point_pic_address)
      | RT_ENTRY_POINT_PIC_TAIL \<Rightarrow> unless_pic (update code_block_owner compute_entry_point_pic_tail_address)
      | _ \<Rightarrow> vreturn ())"

definition vm_code_step :: "(memory \<times> code_heap \<Rightarrow> (memory \<times> code_heap) option) \<Rightarrow> (factor_vm, unit) visit" where
  "vm_code_step f =
     vcomponent (\<lambda>vm. (vm_memory vm, vm_code vm)) (\<lambda>(mem, ch) vm. vm\<lparr>vm_memory := mem, vm_code := ch\<rparr>)
       (\<lambda>s. map_option (\<lambda>s'. (s', ())) (f s))"

definition update_word_references :: "host \<Rightarrow> cell \<Rightarrow> bool \<Rightarrow> (factor_vm, unit) visit" where
  "update_word_references h compiled reset_inline_caches =
     vbind (vget (\<lambda>vm. uninitialized_p (vm_code vm) compiled)) (\<lambda>uninitialized.
     vbind (vm_pic_p compiled) (\<lambda>pic.
     if uninitialized then initialize_code_block h compiled
     else if reset_inline_caches \<and> pic then vm_code_step (\<lambda>s. code_free s compiled)
     else each_instruction_operand (update_word_operand reset_inline_caches) compiled))"

section \<open>Undefined symbols\<close>

definition find_symbol_operand :: "cell \<Rightarrow> cell \<Rightarrow> instruction_operand \<Rightarrow> cell \<times> cell \<Rightarrow> (factor_vm, cell \<times> cell) visit" where
  "find_symbol_operand compiled return_address op found =
     (if rel_type (op_rel op) = RT_DLSYM \<and> op_pointer op \<le> return_address then
        vbind (vm_read (block_parameters_field compiled)) (\<lambda>p.
        vbind (vm_array_nth (UNTAG p) (op_index op)) (\<lambda>symbol.
        vbind (vm_array_nth (UNTAG p) (op_index op + 1)) (\<lambda>library. vreturn (symbol, library))))
      else vreturn found)"

definition undefined_symbol :: "(factor_vm, unit) visit" where
  "undefined_symbol =
     vbind current_ctx (\<lambda>a. vbind (vget (\<lambda>vm. callstack_top (contexts vm a))) (\<lambda>frame.
     vbind (vm_read frame) (\<lambda>return_address.
     vbind (vget (\<lambda>vm. code_block_for_address (vm_code vm) return_address)) (\<lambda>found.
     vbind (vlift found) (\<lambda>compiled.
     vbind (fold_instruction_operands (find_symbol_operand compiled return_address) compiled (false_object, false_object)) (\<lambda>(symbol, library).
     if \<not> to_boolean symbol then vlift None
     else vthrow (general_error ERROR_UNDEFINED_SYMBOL symbol library)))))))"

section \<open>Callback stubs\<close>

definition return_takes_param_p :: bool where
  "return_takes_param_p = True"

definition new_callback_heap :: "host \<Rightarrow> memory \<Rightarrow> cell \<Rightarrow> (memory \<times> callback_heap) option" where
  "new_callback_heap h mem sz =
     (let seg = new_segment (host_alloc_segment h) sz in do {
        (mem', fl) \<leftarrow> new_free_list_allocator mem sz (seg_start seg);
        Some (mem', \<lparr>cb_seg = seg, cb_allocator = fl\<rparr>) })"

definition callback_operand :: "cell \<Rightarrow> cell \<Rightarrow> (factor_vm, instruction_operand) visit" where
  "callback_operand stub index =
     vbind (special CALLBACK_STUB) (\<lambda>t. vbind (vlift (untagged (Some ARRAY_TYPE) t)) (\<lambda>code_template.
     vbind (vm_array_nth code_template 0) (\<lambda>r. vbind (vlift (untagged (Some BYTE_ARRAY_TYPE) r)) (\<lambda>relocation_template.
     vbind vm_mem (\<lambda>mem.
     vreturn (new_instruction_operand (load_u32 mem (array_data relocation_template + 4 * index)) stub 0))))))"

definition store_callback_operand :: "cell \<Rightarrow> cell \<Rightarrow> cell \<Rightarrow> (factor_vm, unit) visit" where
  "store_callback_operand stub index v = vbind (callback_operand stub index) (\<lambda>op. vm_store_value op v)"

definition callback_update :: "cell \<Rightarrow> (factor_vm, unit) visit" where
  "callback_update stub =
     vbind (vm_read (block_owner_field stub)) (\<lambda>owner.
     vbind (vm_read (word_entry_point_field (UNTAG owner))) (store_callback_operand stub 1))"

definition vm_callback_step :: "(fl_heap \<Rightarrow> (fl_heap \<times> 'a) option) \<Rightarrow> (factor_vm, 'a) visit" where
  "vm_callback_step =
     vcomponent (\<lambda>vm. (vm_memory vm, cb_allocator (callbacks vm)))
       (\<lambda>(mem, fl) vm. vm\<lparr>vm_memory := mem, callbacks := (callbacks vm)\<lparr>cb_allocator := fl\<rparr>\<rparr>)"

definition callback_add :: "host \<Rightarrow> cell \<Rightarrow> cell \<Rightarrow> (factor_vm, cell) visit" where
  "callback_add h owner return_rewind =
     vbind (special CALLBACK_STUB) (\<lambda>t. vbind (vlift (untagged (Some ARRAY_TYPE) t)) (\<lambda>code_template.
     vbind (vm_array_nth code_template 1) (\<lambda>i. vbind (vlift (untagged (Some BYTE_ARRAY_TYPE) i)) (\<lambda>insns.
     vbind (vbind vm_mem (\<lambda>mem. vlift (array_capacity BYTE_ARRAY_TYPE mem insns))) (\<lambda>sz.
     let bump = align (sz + sizeof_code_block) data_alignment in
     vbind (vm_callback_step (\<lambda>s. allot s bump)) (\<lambda>found.
     case found of
       None \<Rightarrow> vthrow (general_error ERROR_CALLBACK_SPACE_OVERFLOW false_object false_object)
     | Some stub \<Rightarrow>
         vthen (vm_write stub (bump AND NOT 7))
         (vthen (vm_write (block_owner_field stub) owner)
         (vthen (vm_write (block_parameters_field stub) false_object)
         (vthen (vm_write (block_relocation_field stub) false_object)
         (vthen (vmodify (\<lambda>vm. vm\<lparr>vm_memory := copy_bytes (block_entry_point stub) (array_data insns) (unat sz) (vm_memory vm)\<rparr>))
         (vthen (store_callback_operand stub 0 (host_vm_address h))
         (vthen (store_callback_operand stub 2 (host_vm_address h))
         (vthen (vwhen return_takes_param_p (store_callback_operand stub 3 return_rewind))
         (vthen (callback_update stub) (vreturn stub)))))))))))))))"

section \<open>Call sites\<close>

definition call_opcode :: "8 word" where
  "call_opcode = 0xe8"

definition jmp_opcode :: "8 word" where
  "jmp_opcode = 0xe9"

definition xt_tail_pic_offset :: cell where
  "xt_tail_pic_offset = 4 + 1"

definition call_site_opcode :: "memory \<Rightarrow> cell \<Rightarrow> 8 word" where
  "call_site_opcode mem return_address = load_u8 mem (return_address - 5)"

definition check_call_site :: "memory \<Rightarrow> cell \<Rightarrow> unit option" where
  "check_call_site mem return_address =
     (let opcode = call_site_opcode mem return_address in
      if opcode = call_opcode \<or> opcode = jmp_opcode then Some () else None)"

definition get_call_target :: "memory \<Rightarrow> cell \<Rightarrow> cell option" where
  "get_call_target mem return_address = do {
     _ \<leftarrow> check_call_site mem return_address;
     Some (scast (load_u32 mem (return_address - 4)) + return_address) }"

definition set_call_target :: "memory \<Rightarrow> cell \<Rightarrow> cell \<Rightarrow> memory option" where
  "set_call_target mem return_address target = do {
     _ \<leftarrow> check_call_site mem return_address;
     Some (store_u32 mem (return_address - 4) (ucast (target - return_address))) }"

definition tail_call_site_p :: "memory \<Rightarrow> cell \<Rightarrow> bool option" where
  "tail_call_site_p mem return_address =
     (let opcode = call_site_opcode mem return_address in
      if opcode = jmp_opcode then Some True else if opcode = call_opcode then Some False else None)"

text \<open>
  Patching a call site keeps the instruction and, for a target within reach of a 32-bit
  displacement, makes it call the target.
\<close>

lemma call_target_roundtrip:
  assumes "set_call_target mem r target = Some mem'" "fits_signed 32 (target - r)"
  shows "get_call_target mem' r = Some target" "call_site_opcode mem' r = call_site_opcode mem r"
    "tail_call_site_p mem' r = tail_call_site_p mem r"
proof -
  have c: "check_call_site mem r = Some ()"
    using assms(1) by (cases "check_call_site mem r") (simp_all add: set_call_target_def)
  have m: "mem' = store_u32 mem (r - 4) (ucast (target - r))" using assms(1) by (simp add: set_call_target_def c)
  have "r - 5 \<notin> unit_bytes 4 (r - 5 + 1)" by (rule unit_bytes_fresh) simp
  then show op: "call_site_opcode mem' r = call_site_opcode mem r"
    unfolding call_site_opcode_def m store_u32_def by (intro load_u8_store_le) simp
  then show "tail_call_site_p mem' r = tail_call_site_p mem r" by (simp add: tail_call_site_p_def)
  define d where "d = target - r"
  have "bit d (min 31 i) = bit d i" if "i < 64" for i
    using fits_signed_bits [of 32 d i] that assms(2) by (auto simp: min_def d_def)
  then have "scast (ucast d :: 32 word) = d" by (intro bit_word_eqI) (simp add: bit_simps min_less_iff_disj)
  moreover have "check_call_site mem' r = Some ()" using op c by (simp add: check_call_site_def)
  ultimately show "get_call_target mem' r = Some target" by (simp add: get_call_target_def m d_def)
qed

end
