(* ===== verification/Slot_Visitor.thy ===== *)
theory Slot_Visitor
  imports Relocation
begin

text \<open>
  The visitor that updates every pointer the virtual machine holds (\<open>vm/slot_visitor.hpp\<close>),
  and the walk over the frames of a callstack (\<open>vm/callstack.hpp\<close>).

  The class is a template over a fix-up object, which says where data and code go: a record
  of four functions here. \<open>fixup_data\<close> and \<open>fixup_code\<close> may change the state (a copying
  collector copies the object) and may throw; the two \<open>translate\<close> functions only look.
  Counters of scanned cards and decks are statistics and left out.
\<close>

unbundle bit_operations_syntax

record fixup =
  translated_code_block_map :: bool
  fixup_data :: "cell \<Rightarrow> (factor_vm, cell) visit"
  fixup_code :: "cell \<Rightarrow> (factor_vm, cell) visit"
  translate_data :: "factor_vm \<Rightarrow> cell \<Rightarrow> cell option"
  translate_code :: "factor_vm \<Rightarrow> cell \<Rightarrow> cell option"

text \<open>The copying collectors inherit the last two from \<open>no_fixup\<close>.\<close>

definition no_fixup :: fixup where
  "no_fixup =
     \<lparr>translated_code_block_map = False, fixup_data = vreturn, fixup_code = vreturn,
      translate_data = (\<lambda>vm. Some), translate_code = (\<lambda>vm. Some)\<rparr>"

definition vm_translate_code :: "fixup \<Rightarrow> cell \<Rightarrow> (factor_vm, cell) visit" where
  "vm_translate_code fu a = vbind (vget (\<lambda>vm. translate_code fu vm a)) vlift"

definition vm_slot_count :: "fixup \<Rightarrow> cell \<Rightarrow> (factor_vm, cell) visit" where
  "vm_slot_count fu obj = vbind (vget (\<lambda>vm. slot_count_fixup (translate_data fu vm) (vm_memory vm) obj)) vlift"

definition vm_object_size :: "cell \<Rightarrow> (factor_vm, cell) visit" where
  "vm_object_size obj = vbind (vget (\<lambda>vm. object_size (vm_memory vm) obj)) vlift"

definition vm_object_type :: "cell \<Rightarrow> (factor_vm, cell) visit" where
  "vm_object_type obj = vget (\<lambda>vm. object_type (vm_memory vm obj))"

definition vm_block_for_address :: "cell \<Rightarrow> (factor_vm, cell) visit" where
  "vm_block_for_address addr = vbind (vget (\<lambda>vm. code_block_for_address (vm_code vm) addr)) vlift"

section \<open>Data roots\<close>

text \<open>
  A local variable registered as a root, found by its position; the destructor removes it,
  also when an exception passes through.
\<close>

definition with_data_root :: "cell \<Rightarrow> (nat \<Rightarrow> (factor_vm, 'a) visit) \<Rightarrow> (factor_vm, 'a) visit" where
  "with_data_root v body vm =
     map_option (\<lambda>(vm', r). (vm'\<lparr>data_roots := butlast (data_roots vm')\<rparr>, r))
       (body (length (data_roots vm)) (vm\<lparr>data_roots := data_roots vm @ [v]\<rparr>))"

definition root_value_at :: "nat \<Rightarrow> (factor_vm, cell) visit" where
  "root_value_at i = vbind (vget data_roots) (\<lambda>roots. vlift (if i < length roots then Some (roots ! i) else None))"

section \<open>Frames\<close>

type_synonym 'x frame_fold = "cell \<Rightarrow> cell \<Rightarrow> cell \<Rightarrow> cell \<Rightarrow> 'x \<Rightarrow> (factor_vm, 'x) visit"

type_synonym frame_iterator = "cell \<Rightarrow> cell \<Rightarrow> cell \<Rightarrow> cell \<Rightarrow> (factor_vm, unit) visit"

text \<open>The state of an iterator is passed from frame to frame; most iterators have none.\<close>

abbreviation stateless :: "frame_iterator \<Rightarrow> unit frame_fold" where
  "stateless iterator \<equiv> \<lambda>frame_top sz owner addr _. iterator frame_top sz owner addr"

partial_function (option) callstack_object_loop ::
  "fixup \<Rightarrow> 'x frame_fold \<Rightarrow> nat \<Rightarrow> fixnum \<Rightarrow> fixnum \<Rightarrow> 'x \<Rightarrow> factor_vm \<Rightarrow> (factor_vm \<times> (vm_exception + fixnum \<times> 'x)) option" where
  "callstack_object_loop fu iterator root frame_length frame_offset acc s =
     (if frame_offset < frame_length then
        vbind (root_value_at root) (\<lambda>stack.
        let frame_top = frame_top_at (UNTAG stack) (word_of_int frame_offset) in
        vbind (vm_read frame_top) (\<lambda>addr.
        vbind (if translated_code_block_map fu then vm_translate_code fu addr else vreturn addr) (\<lambda>fixed_addr.
        vbind (vm_block_for_address fixed_addr) (\<lambda>owner.
        vbind (vget (\<lambda>vm. stack_frame_size_for_address (vm_memory vm) owner fixed_addr)) (\<lambda>frame_size.
        vbind (iterator frame_top frame_size owner fixed_addr acc)
          (callstack_object_loop fu iterator root frame_length (fx (frame_offset + uint frame_size))))))))
      else vreturn (frame_offset, acc)) s"

definition fold_callstack_object :: "fixup \<Rightarrow> 'x frame_fold \<Rightarrow> cell \<Rightarrow> 'x \<Rightarrow> (factor_vm, 'x) visit" where
  "fold_callstack_object fu iterator stack x =
     with_data_root (tag_pointer CALLSTACK_TYPE stack) (\<lambda>root.
     vbind (vm_read (callstack_length_field stack)) (\<lambda>n. vbind (vlift (untag_fixnum n)) (\<lambda>frame_length.
     vbind (callstack_object_loop fu iterator root frame_length 0 x) (\<lambda>(frame_offset, x').
     vthen (vassert (frame_offset = frame_length)) (vreturn x')))))"

definition iterate_callstack_object :: "fixup \<Rightarrow> frame_iterator \<Rightarrow> cell \<Rightarrow> (factor_vm, unit) visit" where
  "iterate_callstack_object fu iterator stack = fold_callstack_object fu (stateless iterator) stack ()"

partial_function (option) callstack_loop ::
  "fixup \<Rightarrow> 'x frame_fold \<Rightarrow> cell \<Rightarrow> cell \<Rightarrow> 'x \<Rightarrow> factor_vm \<Rightarrow> (factor_vm \<times> (vm_exception + cell \<times> 'x)) option" where
  "callstack_loop fu iterator bottom frame acc s =
     (if frame < bottom then
        vbind (vm_read frame) (\<lambda>addr.
        vthen (vassert (addr \<noteq> 0))
        (vbind (vm_block_for_address addr) (\<lambda>owner.
        vbind (vm_translate_code fu owner) (\<lambda>fixed_owner.
        vbind (vget (\<lambda>vm. stack_frame_size (vm_memory vm) fixed_owner)) (\<lambda>natural_frame_size.
        let delta = addr - owner - sizeof_code_block;
            sz = (if natural_frame_size > 0 \<and> delta > 0 then natural_frame_size else LEAF_FRAME_SIZE) in
        vbind (iterator frame sz owner addr acc) (callstack_loop fu iterator bottom (frame + sz)))))))
      else vreturn (frame, acc)) s"

definition fold_callstack :: "fixup \<Rightarrow> 'x frame_fold \<Rightarrow> cell \<Rightarrow> 'x \<Rightarrow> (factor_vm, 'x) visit" where
  "fold_callstack fu iterator c x =
     vbind (vget (\<lambda>vm. callstack_top (contexts vm c))) (\<lambda>frame.
     vbind (vget (\<lambda>vm. callstack_bottom (contexts vm c))) (\<lambda>bottom.
     vthen (vassert (\<not> translated_code_block_map fu \<or> frame = bottom))
     (vbind (callstack_loop fu iterator bottom frame x) (\<lambda>(frame', x'). vthen (vassert (frame' = bottom)) (vreturn x')))))"

definition iterate_callstack :: "fixup \<Rightarrow> frame_iterator \<Rightarrow> cell \<Rightarrow> (factor_vm, unit) visit" where
  "iterate_callstack fu iterator c = fold_callstack fu (stateless iterator) c ()"

section \<open>Handles\<close>

definition visit_pointer :: "fixup \<Rightarrow> cell \<Rightarrow> (factor_vm, cell) visit" where
  "visit_pointer fu pointer =
     vbind (fixup_data fu (UNTAG pointer)) (\<lambda>a. vreturn (RETAG a (TAG pointer)))"

definition visit_value :: "fixup \<Rightarrow> cell \<Rightarrow> (factor_vm, cell) visit" where
  "visit_value fu v = (if \<not> immediate_p v then visit_pointer fu v else vreturn v)"

definition visit_handle :: "fixup \<Rightarrow> cell \<Rightarrow> (factor_vm, unit) visit" where
  "visit_handle fu handle =
     vbind (vm_read handle) (\<lambda>v. vwhen (\<not> immediate_p v) (vbind (visit_pointer fu v) (vm_write handle)))"

text \<open>The addresses \<open>start, start + 8, \<dots>\<close> below \<open>limit\<close>.\<close>

definition cell_range :: "cell \<Rightarrow> cell \<Rightarrow> cell list" where
  "cell_range start limit =
     (if start < limit then map (\<lambda>i. start + sizeof_cell * of_nat i) [0..<(unat (limit - start) + 7) div 8] else [])"

definition visit_object_array :: "fixup \<Rightarrow> cell \<Rightarrow> cell \<Rightarrow> (factor_vm, unit) visit" where
  "visit_object_array fu start limit = vfor_each (visit_handle fu) (cell_range start limit)"

text \<open>
  Handles that are not in modelled memory are fields of the elements of a list in the
  state; each is written back before the next is visited.
\<close>

definition visit_list ::
  "(factor_vm \<Rightarrow> 'e list) \<Rightarrow> ('e list \<Rightarrow> factor_vm \<Rightarrow> factor_vm) \<Rightarrow> ('e \<Rightarrow> (factor_vm, 'e) visit) \<Rightarrow> (factor_vm, unit) visit" where
  "visit_list get put f =
     vbind (vget (\<lambda>vm. length (get vm))) (\<lambda>n.
     vfor_each (\<lambda>i. vbind (vget (\<lambda>vm. get vm ! i)) (\<lambda>e. vbind (f e) (\<lambda>e'.
       vmodify (\<lambda>vm. put ((get vm)[i := e']) vm)))) [0..<n])"

section \<open>Spill slots of a frame\<close>

definition memory_bitmap_p :: "memory \<Rightarrow> cell \<Rightarrow> cell \<Rightarrow> bool" where
  "memory_bitmap_p mem bitmap index = bit (load_u8 mem (bitmap + drop_bit 3 index)) (unat (index AND 7))"

definition spill_slot_address :: "cell \<Rightarrow> cell \<Rightarrow> cell" where
  "spill_slot_address frame_top k = frame_top + sizeof_cell * k"

definition adjust_derived :: "(cell \<Rightarrow> cell \<Rightarrow> cell) \<Rightarrow> cell \<Rightarrow> cell \<Rightarrow> cell \<Rightarrow> nat \<Rightarrow> (factor_vm, unit) visit" where
  "adjust_derived f info frame_top callsite spill_slot =
     vbind vm_mem (\<lambda>mem.
     let base_pointer = lookup_base_pointer mem info callsite (of_nat spill_slot); a = spill_slot_address frame_top (of_nat spill_slot) in
     vwhen (base_pointer \<noteq> - 1) (vm_write a (f (mem a) (mem (spill_slot_address frame_top (ucast base_pointer))))))"

definition call_frame_slot_visitor :: "fixup \<Rightarrow> frame_iterator" where
  "call_frame_slot_visitor fu frame_top sz owner addr =
     (let return_address = block_offset owner addr in
      vbind (if translated_code_block_map fu then vreturn owner else vm_translate_code fu owner) (\<lambda>compiled.
      vbind vm_mem (\<lambda>mem.
      vbind (vlift (block_gc_info mem compiled)) (\<lambda>info.
      vbind (vlift (block_size mem compiled)) (\<lambda>n.
      vthen (vassert (return_address < n))
      (let callsite = return_address_index mem info return_address in
       if callsite = - 1 then vreturn ()
       else
         vthen (vfor_each (adjust_derived (-) info frame_top callsite) [0..<unat (derived_root_count mem info)])
         (vthen (vfor_each (\<lambda>spill_slot. vbind vm_mem (\<lambda>mem'.
            vwhen (memory_bitmap_p mem' (gc_info_bitmap mem info) (callsite_gc_roots mem info callsite + of_nat spill_slot))
              (visit_handle fu (spill_slot_address frame_top (of_nat spill_slot))))) [0..<unat (gc_root_count mem info)])
         (vfor_each (adjust_derived (+) info frame_top callsite) [0..<unat (derived_root_count mem info)]))))))))"

definition visit_callstack_object :: "fixup \<Rightarrow> cell \<Rightarrow> (factor_vm, unit) visit" where
  "visit_callstack_object fu stack = iterate_callstack_object fu (call_frame_slot_visitor fu) stack"

definition visit_callstack :: "fixup \<Rightarrow> cell \<Rightarrow> (factor_vm, unit) visit" where
  "visit_callstack fu c = iterate_callstack fu (call_frame_slot_visitor fu) c"

section \<open>Objects\<close>

definition visit_slots :: "fixup \<Rightarrow> cell \<Rightarrow> (factor_vm, unit) visit" where
  "visit_slots fu obj =
     vbind (vm_object_type obj) (\<lambda>ty.
     if ty = type_number CALLSTACK_TYPE then visit_callstack_object fu obj
     else
       vbind (vm_slot_count fu obj) (\<lambda>n.
       let start = obj + sizeof_cell in visit_object_array fu start (start + sizeof_cell * n)))"

definition visit_object :: "fixup \<Rightarrow> cell \<Rightarrow> (factor_vm, unit) visit" where
  "visit_object fu obj =
     vthen (visit_slots fu obj)
     (vbind (vm_object_type obj) (\<lambda>ty.
      vwhen (ty = type_number ALIEN_TYPE) (vmodify (\<lambda>vm. vm\<lparr>vm_memory := update_address (vm_memory vm) obj\<rparr>))))"

definition visit_partial_objects :: "fixup \<Rightarrow> cell \<Rightarrow> cell \<Rightarrow> cell \<Rightarrow> (factor_vm, unit) visit" where
  "visit_partial_objects fu start card_start card_end =
     (let scan_start = start + sizeof_cell in
      vbind (vbind (vget (\<lambda>vm. slot_count (vm_memory vm) start)) vlift) (\<lambda>n.
      visit_object_array fu (max scan_start card_start) (min (scan_start + sizeof_cell * n) card_end)))"

section \<open>Roots\<close>

text \<open>
  \<open>free_list_allocator::iterate\<close> with a callback that may throw.
\<close>

partial_function (option) iterate_blocks ::
  "(factor_vm \<Rightarrow> cell \<Rightarrow> cell option) \<Rightarrow> (cell \<Rightarrow> cell \<Rightarrow> (factor_vm, unit) visit) \<Rightarrow> cell \<Rightarrow> cell \<Rightarrow>
   factor_vm \<Rightarrow> (factor_vm \<times> (vm_exception + unit)) option" where
  "iterate_blocks size_of iter until scan s =
     (if scan \<noteq> until then
        vbind (vbind (vget (\<lambda>vm. size_of vm scan)) vlift) (\<lambda>sz.
        vbind (vget (\<lambda>vm. free_block_p (vm_memory vm) scan)) (\<lambda>free.
        vthen (vwhen (\<not> free) (iter scan sz)) (iterate_blocks size_of iter until (scan + sz))))
      else vreturn ()) s"

definition each_block :: "(factor_vm \<Rightarrow> free_list) \<Rightarrow> (cell \<Rightarrow> cell \<Rightarrow> (factor_vm, unit) visit) \<Rightarrow> (factor_vm, unit) visit" where
  "each_block allocator iter =
     vbind (vget allocator) (\<lambda>fl. iterate_blocks (\<lambda>vm. block_size (vm_memory vm)) iter (fl_end fl) (fl_start fl))"

abbreviation each_callback_stub :: "(cell \<Rightarrow> cell \<Rightarrow> (factor_vm, unit) visit) \<Rightarrow> (factor_vm, unit) visit" where
  "each_callback_stub \<equiv> each_block (\<lambda>vm. cb_allocator (callbacks vm))"

abbreviation each_code_block :: "(cell \<Rightarrow> cell \<Rightarrow> (factor_vm, unit) visit) \<Rightarrow> (factor_vm, unit) visit" where
  "each_code_block \<equiv> each_block (\<lambda>vm. ch_allocator (vm_code vm))"

definition visit_stack_elements :: "fixup \<Rightarrow> segment \<Rightarrow> cell \<Rightarrow> (factor_vm, unit) visit" where
  "visit_stack_elements fu region top_ptr = visit_object_array fu (seg_start region) (top_ptr + sizeof_cell)"

definition visit_context :: "host \<Rightarrow> fixup \<Rightarrow> cell \<Rightarrow> (factor_vm, unit) visit" where
  "visit_context h fu c =
     vthen (visit_callstack fu c)
     (vbind (vget (\<lambda>vm. contexts vm c)) (\<lambda>cx.
      let ds_ptr = datastack cx; rs_ptr = retainstack cx; ds_seg = datastack_seg cx; rs_seg = retainstack_seg cx;
          fill = (\<lambda>p seg pattern. vmodify (\<lambda>vm. vm\<lparr>vm_memory := fill_stack_seg (host_debug h) p seg pattern (vm_memory vm)\<rparr>)) in
      vthen (visit_stack_elements fu ds_seg ds_ptr)
      (vthen (visit_stack_elements fu rs_seg rs_ptr)
      (vthen (visit_list (\<lambda>vm. context_objects (contexts vm c))
         (\<lambda>xs vm. vm\<lparr>contexts := (contexts vm)(c := (contexts vm c)\<lparr>context_objects := xs\<rparr>)\<rparr>) (visit_value fu))
      (vthen (fill ds_ptr ds_seg 0xbaadbadd) (fill rs_ptr rs_seg 0xdaabdabb))))))"

definition visit_all_roots :: "host \<Rightarrow> fixup \<Rightarrow> (factor_vm, unit) visit" where
  "visit_all_roots h fu =
     vthen (visit_list data_roots (\<lambda>xs vm. vm\<lparr>data_roots := xs\<rparr>) (visit_value fu))
     (vthen (each_callback_stub (\<lambda>stub sz. visit_handle fu (block_owner_field stub)))
     (vthen (visit_list (\<lambda>vm. uninitialized_blocks (vm_code vm))
        (\<lambda>xs vm. vm\<lparr>vm_code := (vm_code vm)\<lparr>uninitialized_blocks := xs\<rparr>\<rparr>)
        (\<lambda>(b, literals). vbind (visit_pointer fu literals) (\<lambda>v. vreturn (b, v))))
     (vthen (visit_list samples (\<lambda>xs vm. vm\<lparr>samples := xs\<rparr>)
        (\<lambda>e. vbind (visit_value fu (sample_thread e)) (\<lambda>v. vreturn (e\<lparr>sample_thread := v\<rparr>))))
     (vthen (visit_list special_objects (\<lambda>xs vm. vm\<lparr>special_objects := xs\<rparr>) (visit_value fu))
     (vbind (vget active_contexts) (vfor_each (visit_context h fu)))))))"

section \<open>Code blocks\<close>

definition visit_code_block_objects :: "fixup \<Rightarrow> cell \<Rightarrow> (factor_vm, unit) visit" where
  "visit_code_block_objects fu compiled =
     vthen (visit_handle fu (block_owner_field compiled))
     (vthen (visit_handle fu (block_parameters_field compiled)) (visit_handle fu (block_relocation_field compiled)))"

definition unless_uninitialized :: "cell \<Rightarrow> (factor_vm, unit) visit \<Rightarrow> (factor_vm, unit) visit" where
  "unless_uninitialized compiled m =
     vbind (vget (\<lambda>vm. uninitialized_p (vm_code vm) compiled)) (\<lambda>u. vwhen (\<not> u) m)"

definition visit_embedded_literals :: "fixup \<Rightarrow> cell \<Rightarrow> (factor_vm, unit) visit" where
  "visit_embedded_literals fu compiled =
     unless_uninitialized compiled
       (each_instruction_operand (\<lambda>op.
          vwhen (rel_type (op_rel op) = RT_LITERAL)
            (vbind (vm_load_value op (op_pointer op)) (\<lambda>v.
             vwhen (\<not> immediate_p v) (vbind (visit_pointer fu v) (vm_store_value op))))) compiled)"

definition entry_point_type_p :: "relocation_type \<Rightarrow> bool" where
  "entry_point_type_p ty \<longleftrightarrow> ty \<in> {RT_ENTRY_POINT, RT_ENTRY_POINT_PIC, RT_ENTRY_POINT_PIC_TAIL}"

definition visit_embedded_code_pointers :: "fixup \<Rightarrow> cell \<Rightarrow> (factor_vm, unit) visit" where
  "visit_embedded_code_pointers fu compiled =
     unless_uninitialized compiled
       (each_instruction_operand (\<lambda>op.
          vwhen (entry_point_type_p (rel_type (op_rel op)))
            (vbind (vm_load_code_block op) (\<lambda>b. vbind (fixup_code fu b) (\<lambda>b'.
             vm_store_value op (block_entry_point b'))))) compiled)"

definition call_frame_code_block_visitor :: "fixup \<Rightarrow> frame_iterator" where
  "call_frame_code_block_visitor fu frame_top sz owner addr =
     vbind (if translated_code_block_map fu then vreturn owner else fixup_code fu owner) (\<lambda>compiled.
     vm_write frame_top (address_for_offset compiled (block_offset owner addr)))"

text \<open>\<open>fixup_entry_point\<close> is the step for a word or quotation with an entry point.\<close>

definition fixup_entry_point :: "fixup \<Rightarrow> cell \<Rightarrow> (factor_vm, unit) visit" where
  "fixup_entry_point fu field =
     vbind (vm_read field) (\<lambda>entry_point.
     vwhen (entry_point \<noteq> 0)
       (vbind (fixup_code fu (entry_point - sizeof_code_block)) (\<lambda>b. vm_write field (block_entry_point b))))"

definition visit_object_code_block :: "fixup \<Rightarrow> cell \<Rightarrow> (factor_vm, unit) visit" where
  "visit_object_code_block fu obj =
     vbind (vm_object_type obj) (\<lambda>ty.
     if ty = type_number WORD_TYPE then fixup_entry_point fu (word_entry_point_field obj)
     else if ty = type_number QUOTATION_TYPE then fixup_entry_point fu (quotation_entry_point_field obj)
     else if ty = type_number CALLSTACK_TYPE then iterate_callstack_object fu (call_frame_code_block_visitor fu) obj
     else vreturn ())"

definition visit_context_code_blocks :: "fixup \<Rightarrow> (factor_vm, unit) visit" where
  "visit_context_code_blocks fu =
     vbind (vget active_contexts) (vfor_each (iterate_callstack fu (call_frame_code_block_visitor fu)))"

definition visit_uninitialized_code_blocks :: "fixup \<Rightarrow> (factor_vm, unit) visit" where
  "visit_uninitialized_code_blocks fu =
     vbind (vget (\<lambda>vm. uninitialized_blocks (vm_code vm))) (\<lambda>blocks.
     vbind (vmap (\<lambda>(b, literals). vbind (fixup_code fu b) (\<lambda>b'. vreturn (b', literals))) blocks) (\<lambda>moved.
     code_heap_modify (\<lambda>ch. ch\<lparr>uninitialized_blocks := fold (\<lambda>(k, v). map_insert k v) moved []\<rparr>)))"

definition visit_instruction_operand :: "host \<Rightarrow> fixup \<Rightarrow> cell \<Rightarrow> instruction_operand \<Rightarrow> (factor_vm, unit) visit" where
  "visit_instruction_operand h fu rel_base op =
     vbind (vm_load_value op (rel_base + rel_offset (op_rel op))) (\<lambda>old_value.
     let ty = rel_type (op_rel op) in
     if ty = RT_LITERAL then vwhen (\<not> immediate_p old_value) (vbind (visit_pointer fu old_value) (vm_store_value op))
     else if entry_point_type_p ty \<or> ty = RT_HERE then
       vbind (fixup_code fu (UNTAG old_value)) (\<lambda>b. vm_store_value op (RETAG b (TAG old_value)))
     else if ty = RT_UNTAGGED then vreturn ()
     else vbind (compute_external_address h op) (vm_store_value op))"

definition visit_instruction_operands :: "host \<Rightarrow> fixup \<Rightarrow> cell \<Rightarrow> cell \<Rightarrow> (factor_vm, unit) visit" where
  "visit_instruction_operands h fu block rel_base =
     unless_uninitialized block (each_instruction_operand (visit_instruction_operand h fu rel_base) block)"

definition visit_code_heap_roots :: "fixup \<Rightarrow> cell list \<Rightarrow> (factor_vm, unit) visit" where
  "visit_code_heap_roots fu remembered_set =
     vfor_each (\<lambda>compiled. vthen (visit_code_block_objects fu compiled) (visit_embedded_literals fu compiled)) remembered_set"

section \<open>The mark stack\<close>

text \<open>A code block is on the mark stack with its lowest bit set.\<close>

definition visit_marked :: "fixup \<Rightarrow> cell \<Rightarrow> (factor_vm, unit) visit" where
  "visit_marked fu ptr =
     (if ptr AND 1 \<noteq> 0 then
        (let compiled = ptr - 1 in
         vthen (visit_code_block_objects fu compiled)
         (vthen (visit_embedded_literals fu compiled) (visit_embedded_code_pointers fu compiled)))
      else vthen (visit_object fu ptr) (visit_object_code_block fu ptr))"

partial_function (option) visit_mark_stack :: "fixup \<Rightarrow> factor_vm \<Rightarrow> (factor_vm \<times> (vm_exception + unit)) option" where
  "visit_mark_stack fu s =
     vbind (vget mark_stack) (\<lambda>stack.
     if stack = [] then vreturn ()
     else
       vthen (vmodify (\<lambda>vm. vm\<lparr>mark_stack := butlast stack\<rparr>))
       (vthen (visit_marked fu (List.last stack)) (visit_mark_stack fu))) s"

section \<open>Cards\<close>

text \<open>The two generations whose cards are scanned.\<close>

datatype source_generation = Tenured_source | Aging_source

fun source_start :: "source_generation \<Rightarrow> data_heap \<Rightarrow> cell" where
  "source_start Tenured_source d = fl_start (ts_free (tenured d))"
| "source_start Aging_source d = ba_start (as_bump (aging d))"

fun source_end :: "source_generation \<Rightarrow> data_heap \<Rightarrow> cell" where
  "source_end Tenured_source d = fl_end (ts_free (tenured d))"
| "source_end Aging_source d = ba_end (as_bump (aging d))"

fun source_starts :: "source_generation \<Rightarrow> data_heap \<Rightarrow> object_start_map" where
  "source_starts Tenured_source d = ts_starts (tenured d)"
| "source_starts Aging_source d = as_starts (aging d)"

fun source_next_object_after :: "source_generation \<Rightarrow> memory \<Rightarrow> data_heap \<Rightarrow> cell \<Rightarrow> cell option" where
  "source_next_object_after Tenured_source mem d scan = ts_next_object_after mem (tenured d) scan"
| "source_next_object_after Aging_source mem d scan = as_next_object_after mem (aging d) scan"

partial_function (option) visit_card_loop ::
  "fixup \<Rightarrow> source_generation \<Rightarrow> cell \<Rightarrow> cell \<Rightarrow> cell \<Rightarrow> factor_vm \<Rightarrow> (factor_vm \<times> (vm_exception + cell)) option" where
  "visit_card_loop fu gen start_addr end_addr start s =
     (if start \<noteq> 0 \<and> start < end_addr then
        vthen (visit_partial_objects fu start start_addr end_addr)
        (vbind (vm_object_size start) (\<lambda>sz.
         if start + sz \<ge> end_addr then vreturn start
         else
           vbind (vbind (vget (\<lambda>vm. source_next_object_after gen (vm_memory vm) (vm_data vm) start)) vlift)
             (visit_card_loop fu gen start_addr end_addr)))
      else vreturn start) s"

definition card_first_object :: "source_generation \<Rightarrow> cell \<Rightarrow> (factor_vm, cell) visit" where
  "card_first_object gen index =
     vbind (vget vm_data) (\<lambda>d.
     let gen_start_card = (source_start gen d - dh_start d) div card_size in
     vlift (find_object_containing_card (source_starts gen d) (index - gen_start_card)))"

definition visit_card :: "fixup \<Rightarrow> source_generation \<Rightarrow> cell \<Rightarrow> cell \<Rightarrow> (factor_vm, cell) visit" where
  "visit_card fu gen index start =
     vbind (vget (\<lambda>vm. dh_start (vm_data vm))) (\<lambda>heap_base.
     let start_addr = heap_base + index * card_size; end_addr = start_addr + card_size in
     vbind (if start = 0 then card_first_object gen index
            else vbind (vm_object_size start) (\<lambda>sz.
              if start + sz < start_addr then card_first_object gen index else vreturn start)) (\<lambda>start'.
     visit_card_loop fu gen start_addr end_addr start'))"

text \<open>The loops over the cards of a deck and over the decks; the flag is the early return.\<close>

primrec visit_cards_loop :: "fixup \<Rightarrow> source_generation \<Rightarrow> card \<Rightarrow> card \<Rightarrow> nat list \<Rightarrow> cell \<Rightarrow> (factor_vm, cell \<times> bool) visit" where
  "visit_cards_loop fu gen msk unmsk [] start = vreturn (start, False)"
| "visit_cards_loop fu gen msk unmsk (ci # cis) start =
     vbind (vget (\<lambda>vm. cards (vm_data vm))) (\<lambda>cs.
     vthen (vassert (ci < length cs))
     (if cs ! ci AND msk \<noteq> 0 then
        vthen (vmodify (\<lambda>vm. vm\<lparr>vm_data := (vm_data vm)\<lparr>cards := cs[ci := cs ! ci AND NOT unmsk]\<rparr>\<rparr>))
        (vbind (visit_card fu gen (of_nat ci) start) (\<lambda>start'.
         if start' = 0 then vreturn (0, True) else visit_cards_loop fu gen msk unmsk cis start'))
      else visit_cards_loop fu gen msk unmsk cis start))"

primrec visit_decks_loop :: "fixup \<Rightarrow> source_generation \<Rightarrow> card \<Rightarrow> card \<Rightarrow> nat list \<Rightarrow> cell \<Rightarrow> (factor_vm, unit) visit" where
  "visit_decks_loop fu gen msk unmsk [] start = vreturn ()"
| "visit_decks_loop fu gen msk unmsk (di # dis) start =
     vbind (vget (\<lambda>vm. decks (vm_data vm))) (\<lambda>ds.
     vthen (vassert (di < length ds))
     (if ds ! di AND msk \<noteq> 0 then
        vthen (vmodify (\<lambda>vm. vm\<lparr>vm_data := (vm_data vm)\<lparr>decks := ds[di := ds ! di AND NOT unmsk]\<rparr>\<rparr>))
        (let first_card = unat cards_per_deck * di; last_card = first_card + unat cards_per_deck in
         vbind (visit_cards_loop fu gen msk unmsk [first_card..<last_card] start) (\<lambda>(start', finished).
         if finished then vreturn () else visit_decks_loop fu gen msk unmsk dis start'))
      else visit_decks_loop fu gen msk unmsk dis start))"

definition visit_cards :: "fixup \<Rightarrow> source_generation \<Rightarrow> card \<Rightarrow> card \<Rightarrow> (factor_vm, unit) visit" where
  "visit_cards fu gen msk unmsk =
     vbind (vget vm_data) (\<lambda>d.
     let first_deck = (source_start gen d - dh_start d) div deck_size; last_deck = (source_end gen d - dh_start d) div deck_size in
     visit_decks_loop fu gen msk unmsk [unat first_deck..<unat last_deck] 0)"

section \<open>Scanning copied objects\<close>

partial_function (option) cheneys_algorithm :: "fixup \<Rightarrow> cell \<Rightarrow> factor_vm \<Rightarrow> (factor_vm \<times> (vm_exception + unit)) option" where
  "cheneys_algorithm fu scan s =
     vbind (vget (\<lambda>vm. here (as_bump (aging (vm_data vm))))) (\<lambda>limit.
     if scan \<noteq> 0 \<and> scan < limit then
       vthen (visit_object fu scan)
       (vbind (vbind (vget (\<lambda>vm. as_next_object_after (vm_memory vm) (aging (vm_data vm)) scan)) vlift) (cheneys_algorithm fu))
     else vreturn ()) s"

end
