(* ===== verification/Collectors.thy ===== *)
theory Collectors
  imports Slot_Visitor
begin

text \<open>
  The collectors (\<open>vm/nursery_collector.cpp\<close>, \<open>vm/aging_collector.cpp\<close>,
  \<open>vm/to_tenured_collector.hpp\<close> and \<open>.cpp\<close>, \<open>vm/full_collector.cpp\<close>, \<open>vm/compaction.cpp\<close>) and
  the driver that escalates from one to the next (\<open>vm/gc.cpp\<close>).

  Each copying collector is a fix-up object for the visitor. A collector that runs out of
  room in its target throws \<open>must_start_gc_again\<close>. Guard pages, timers and the event log are
  left out.
\<close>

unbundle bit_operations_syntax

section \<open>Copying\<close>

partial_function (option) follow_forwarding :: "memory \<Rightarrow> cell \<Rightarrow> cell option" where
  "follow_forwarding mem obj =
     (if forwarding_pointer_p (mem obj) then follow_forwarding mem (forwarding_pointer (mem obj)) else Some obj)"

definition vm_follow_forwarding :: "cell \<Rightarrow> (factor_vm, cell) visit" where
  "vm_follow_forwarding obj = vbind vm_mem (\<lambda>mem. vlift (follow_forwarding mem obj))"

definition copy_object :: "(cell \<Rightarrow> (factor_vm, cell option) visit) \<Rightarrow> cell \<Rightarrow> (factor_vm, cell) visit" where
  "copy_object alloc obj =
     vbind (vm_object_size obj) (\<lambda>sz.
     vbind (alloc sz) (\<lambda>newpointer.
     case newpointer of
       None \<Rightarrow> vthrow must_start_gc_again
     | Some newpointer \<Rightarrow>
         vthen (vmodify (\<lambda>vm. vm\<lparr>vm_memory := memmove newpointer obj sz (vm_memory vm)\<rparr>))
         (vthen (vm_write obj (forward_to newpointer)) (vreturn newpointer))))"

definition aging_alloc :: "cell \<Rightarrow> (factor_vm, cell option) visit" where
  "aging_alloc sz =
     vcomponent (\<lambda>vm. aging (vm_data vm)) (\<lambda>as vm. vm\<lparr>vm_data := (vm_data vm)\<lparr>aging := as\<rparr>\<rparr>) (\<lambda>as. as_allot as sz)"

definition tenured_alloc :: "cell \<Rightarrow> (factor_vm, cell option) visit" where
  "tenured_alloc sz =
     vcomponent (\<lambda>vm. (vm_memory vm, tenured (vm_data vm)))
       (\<lambda>(mem, ts) vm. vm\<lparr>vm_memory := mem, vm_data := (vm_data vm)\<lparr>tenured := ts\<rparr>\<rparr>) (\<lambda>h. ts_allot h sz)"

abbreviation in_nursery :: "cell \<Rightarrow> factor_vm \<Rightarrow> bool" where
  "in_nursery obj vm \<equiv> ba_contains_p (nursery (vm_data vm)) obj"

abbreviation in_aging :: "cell \<Rightarrow> factor_vm \<Rightarrow> bool" where
  "in_aging obj vm \<equiv> ba_contains_p (as_bump (aging (vm_data vm))) obj"

abbreviation in_tenured :: "cell \<Rightarrow> factor_vm \<Rightarrow> bool" where
  "in_tenured obj vm \<equiv> fl_contains_p (ts_free (tenured (vm_data vm))) obj"

section \<open>The nursery collector\<close>

definition nursery_fixup_data :: "cell \<Rightarrow> (factor_vm, cell) visit" where
  "nursery_fixup_data obj =
     vbind (vget (in_nursery obj)) (\<lambda>young.
     if \<not> young then vreturn obj
     else
       vbind (vm_follow_forwarding obj) (\<lambda>obj'.
       vbind (vget (in_nursery obj')) (\<lambda>young'.
       if \<not> young' then vreturn obj' else copy_object aging_alloc obj')))"

definition nursery_copier :: fixup where
  "nursery_copier = no_fixup\<lparr>fixup_data := nursery_fixup_data\<rparr>"

definition vm_reset_nursery :: "host \<Rightarrow> (factor_vm, unit) visit" where
  "vm_reset_nursery h = vm_data_step (\<lambda>s. Some (reset_nursery (host_debug h) s, ()))"

definition vm_reset_aging :: "host \<Rightarrow> (factor_vm, unit) visit" where
  "vm_reset_aging h = vm_data_step (\<lambda>s. map_option (\<lambda>s'. (s', ())) (reset_aging (host_debug h) s))"

definition vm_reset_tenured :: "(factor_vm, unit) visit" where
  "vm_reset_tenured =
     vcomponent vm_data (\<lambda>d vm. vm\<lparr>vm_data := d\<rparr>) (\<lambda>d. map_option (\<lambda>d'. (d', ())) (reset_tenured d))"

text \<open>Where the copies of a collection into aging space begin.\<close>

definition aging_scan :: "factor_vm \<Rightarrow> cell" where
  "aging_scan vm = (let as = as_bump (aging (vm_data vm)) in ba_start as + ba_occupied_space as)"

definition collect_nursery :: "host \<Rightarrow> (factor_vm, unit) visit" where
  "collect_nursery h =
     vbind (vget aging_scan) (\<lambda>scan.
     vthen (visit_all_roots h nursery_copier)
     (vthen (visit_cards nursery_copier Tenured_source (ucast card_points_to_nursery) (ucast card_points_to_nursery))
     (vthen (visit_cards nursery_copier Aging_source (ucast card_points_to_nursery) 0xff)
     (vthen (vbind (vget (\<lambda>vm. points_to_nursery (vm_code vm))) (visit_code_heap_roots nursery_copier))
     (vthen (cheneys_algorithm nursery_copier scan)
     (vthen (vm_reset_nursery h)
     (code_heap_modify (\<lambda>ch. ch\<lparr>points_to_nursery := []\<rparr>))))))))"

section \<open>Collections into tenured space\<close>

definition push_mark_stack :: "cell \<Rightarrow> (factor_vm, unit) visit" where
  "push_mark_stack ptr = vmodify (\<lambda>vm. vm\<lparr>mark_stack := mark_stack vm @ [ptr]\<rparr>)"

definition from_tenured_fixup_data :: "cell \<Rightarrow> (factor_vm, cell) visit" where
  "from_tenured_fixup_data obj =
     vbind (vget (in_tenured obj)) (\<lambda>old.
     if old then vreturn obj
     else
       vbind (vm_follow_forwarding obj) (\<lambda>obj'.
       vbind (vget (in_tenured obj')) (\<lambda>old'.
       if old' then vreturn obj'
       else
         vbind (copy_object tenured_alloc obj') (\<lambda>newpointer.
         vthen (push_mark_stack newpointer) (vreturn newpointer)))))"

definition from_tenured_refs_copier :: fixup where
  "from_tenured_refs_copier = no_fixup\<lparr>fixup_data := from_tenured_fixup_data\<rparr>"

definition collect_to_tenured :: "host \<Rightarrow> (factor_vm, unit) visit" where
  "collect_to_tenured h =
     vthen (vmodify (\<lambda>vm. vm\<lparr>mark_stack := []\<rparr>))
     (vthen (visit_all_roots h from_tenured_refs_copier)
     (vthen (visit_cards from_tenured_refs_copier Tenured_source (ucast card_points_to_aging) 0xff)
     (vthen (vbind (vget (\<lambda>vm. points_to_aging (vm_code vm))) (visit_code_heap_roots from_tenured_refs_copier))
     (vthen (visit_mark_stack from_tenured_refs_copier)
     (vthen (vm_reset_nursery h)
     (vthen (vm_reset_aging h)
     (code_heap_modify clear_remembered_set)))))))"

section \<open>The aging collector\<close>

definition to_aging_fixup_data :: "cell \<Rightarrow> (factor_vm, cell) visit" where
  "to_aging_fixup_data obj =
     vbind (vget (\<lambda>vm. in_aging obj vm \<or> in_tenured obj vm)) (\<lambda>stays.
     if stays then vreturn obj
     else
       vbind (vm_follow_forwarding obj) (\<lambda>obj'.
       vbind (vget (\<lambda>vm. in_aging obj' vm \<or> in_tenured obj' vm)) (\<lambda>stays'.
       if stays' then vreturn obj' else copy_object aging_alloc obj')))"

definition to_aging_copier :: fixup where
  "to_aging_copier = no_fixup\<lparr>fixup_data := to_aging_fixup_data\<rparr>"

definition set_gc_op :: "gc_op \<Rightarrow> (factor_vm, unit) visit" where
  "set_gc_op op = vmodify (\<lambda>vm. vm\<lparr>current_gc := Some op\<rparr>)"

definition collect_aging :: "host \<Rightarrow> (factor_vm, unit) visit" where
  "collect_aging h =
     vthen (set_gc_op COLLECT_TO_TENURED_OP)
     (vthen (visit_cards from_tenured_refs_copier Tenured_source (ucast card_points_to_aging) 0xff)
     (vthen (vbind (vget (\<lambda>vm. points_to_aging (vm_code vm))) (visit_code_heap_roots from_tenured_refs_copier))
     (vthen (visit_mark_stack from_tenured_refs_copier)
     (vthen (set_gc_op COLLECT_AGING_OP)
     (vthen (vmodify (\<lambda>vm. vm\<lparr>vm_data := (vm_data vm)\<lparr>aging := aging_semispace (vm_data vm), aging_semispace := aging (vm_data vm)\<rparr>\<rparr>))
     (vthen (vm_reset_aging h)
     (vbind (vget aging_scan) (\<lambda>scan.
      vthen (visit_all_roots h to_aging_copier)
      (vthen (cheneys_algorithm to_aging_copier scan)
      (vthen (vm_reset_nursery h)
      (code_heap_modify clear_remembered_set)))))))))))"

section \<open>Marking and sweeping\<close>

definition tenured_marked_p :: "cell \<Rightarrow> (factor_vm, bool) visit" where
  "tenured_marked_p obj = vbind (vget (\<lambda>vm. marked_p (fl_state (ts_free (tenured (vm_data vm)))) obj)) vlift"

definition tenured_state_step :: "(mark_bits \<Rightarrow> mark_bits option) \<Rightarrow> (factor_vm, unit) visit" where
  "tenured_state_step f =
     vcomponent (\<lambda>vm. fl_state (ts_free (tenured (vm_data vm))))
       (\<lambda>st vm. vm\<lparr>vm_data := (vm_data vm)\<lparr>tenured := (tenured (vm_data vm))\<lparr>ts_free := (ts_free (tenured (vm_data vm)))\<lparr>fl_state := st\<rparr>\<rparr>\<rparr>\<rparr>)
       (\<lambda>st. map_option (\<lambda>st'. (st', ())) (f st))"

definition code_state_step :: "(mark_bits \<Rightarrow> mark_bits option) \<Rightarrow> (factor_vm, unit) visit" where
  "code_state_step f =
     vcomponent (\<lambda>vm. fl_state (ch_allocator (vm_code vm)))
       (\<lambda>st vm. vm\<lparr>vm_code := (vm_code vm)\<lparr>ch_allocator := (ch_allocator (vm_code vm))\<lparr>fl_state := st\<rparr>\<rparr>\<rparr>)
       (\<lambda>st. map_option (\<lambda>st'. (st', ())) (f st))"

text \<open>The step for an object of tenured space: marked and pushed once.\<close>

definition mark_tenured :: "cell \<Rightarrow> (factor_vm, cell) visit" where
  "mark_tenured obj =
     vbind (tenured_marked_p obj) (\<lambda>m.
     vthen (vwhen (\<not> m)
       (vbind (vm_object_size obj) (\<lambda>sz.
        vthen (tenured_state_step (\<lambda>st. set_marked_p st obj sz)) (push_mark_stack obj))))
     (vreturn obj))"

definition full_fixup_data :: "cell \<Rightarrow> (factor_vm, cell) visit" where
  "full_fixup_data obj =
     vbind (vget (in_tenured obj)) (\<lambda>old.
     if old then mark_tenured obj
     else
       vbind (vm_follow_forwarding obj) (\<lambda>obj'.
       vbind (vget (in_tenured obj')) (\<lambda>old'.
       if old' then mark_tenured obj'
       else
         vbind (copy_object tenured_alloc obj') (\<lambda>newpointer.
         vbind (vm_object_size newpointer) (\<lambda>sz.
         vthen (tenured_state_step (\<lambda>st. set_marked_p st newpointer sz))
         (vthen (push_mark_stack newpointer) (vreturn newpointer)))))))"

definition full_fixup_code :: "cell \<Rightarrow> (factor_vm, cell) visit" where
  "full_fixup_code compiled =
     vbind (vbind (vget (\<lambda>vm. marked_p (fl_state (ch_allocator (vm_code vm))) compiled)) vlift) (\<lambda>m.
     vthen (vwhen (\<not> m)
       (vbind (vbind (vget (\<lambda>vm. block_size (vm_memory vm) compiled)) vlift) (\<lambda>sz.
        vthen (code_state_step (\<lambda>st. set_marked_p st compiled sz)) (push_mark_stack (compiled + 1)))))
     (vreturn compiled))"

definition full_collection_copier :: fixup where
  "full_collection_copier = no_fixup\<lparr>fixup_data := full_fixup_data, fixup_code := full_fixup_code\<rparr>"

definition collect_mark_impl :: "host \<Rightarrow> (factor_vm, unit) visit" where
  "collect_mark_impl h =
     vthen (vmodify (\<lambda>vm. vm\<lparr>mark_stack := []\<rparr>))
     (vthen (code_state_step (\<lambda>st. Some (clear_mark_bits st)))
     (vthen (tenured_state_step (\<lambda>st. Some (clear_mark_bits st)))
     (vthen (visit_all_roots h full_collection_copier)
     (vthen (visit_context_code_blocks full_collection_copier)
     (vthen (visit_uninitialized_code_blocks full_collection_copier)
     (vthen (visit_mark_stack full_collection_copier)
     (vthen vm_reset_tenured
     (vthen (vm_reset_aging h)
     (vthen (vm_reset_nursery h)
     (code_heap_modify clear_remembered_set))))))))))"

text \<open>
  A code root is the address of a call site; it is invalidated when the line of the code heap
  it lies on is not marked. The mask is the one of the source.
\<close>

definition sweep_code_root :: "mark_bits \<Rightarrow> code_root \<Rightarrow> code_root option" where
  "sweep_code_root state root =
     (let block = root_value root AND (NOT data_alignment - 1) in
      if root_valid root then map_option (\<lambda>m. if m then root else root\<lparr>root_valid := False\<rparr>) (marked_p state block)
      else Some root)"

fun map_roots :: "(code_root \<Rightarrow> code_root option) \<Rightarrow> code_root list \<Rightarrow> code_root list option" where
  "map_roots f [] = Some []"
| "map_roots f (r # rs) = do { r' \<leftarrow> f r; rs' \<leftarrow> map_roots f rs; Some (r' # rs') }"

definition code_roots_step :: "(mark_bits \<Rightarrow> code_root \<Rightarrow> code_root option) \<Rightarrow> (factor_vm, unit) visit" where
  "code_roots_step f =
     vbind (vget (\<lambda>vm. fl_state (ch_allocator (vm_code vm)))) (\<lambda>state.
     vcomponent code_roots (\<lambda>rs vm. vm\<lparr>code_roots := rs\<rparr>) (\<lambda>rs. map_option (\<lambda>rs'. (rs', ())) (map_roots (f state) rs)))"

definition collect_sweep_impl :: "host \<Rightarrow> (factor_vm, unit) visit" where
  "collect_sweep_impl h =
     vthen (vcomponent (\<lambda>vm. (vm_memory vm, tenured (vm_data vm)))
       (\<lambda>(mem, ts) vm. vm\<lparr>vm_memory := mem, vm_data := (vm_data vm)\<lparr>tenured := ts\<rparr>\<rparr>) (\<lambda>s. map_option (\<lambda>s'. (s', ())) (ts_sweep s)))
     (vthen (code_roots_step sweep_code_root)
     (vm_code_step (code_sweep (host_debug h))))"

section \<open>Compaction\<close>

definition data_forwarding_map :: "factor_vm \<Rightarrow> mark_bits" where
  "data_forwarding_map vm = fl_state (ts_free (tenured (vm_data vm)))"

definition code_forwarding_map :: "factor_vm \<Rightarrow> mark_bits" where
  "code_forwarding_map vm = fl_state (ch_allocator (vm_code vm))"

definition compaction_translate_data :: "factor_vm \<Rightarrow> cell \<Rightarrow> cell option" where
  "compaction_translate_data vm obj =
     (if obj < data_finger vm then forward_block (data_forwarding_map vm) obj else Some obj)"

definition compaction_translate_code :: "factor_vm \<Rightarrow> cell \<Rightarrow> cell option" where
  "compaction_translate_code vm compiled =
     (if compiled < code_finger vm then forward_block (code_forwarding_map vm) compiled else Some compiled)"

definition compaction_fixup :: fixup where
  "compaction_fixup =
     \<lparr>translated_code_block_map = False,
      fixup_data = (\<lambda>obj. vbind (vget (\<lambda>vm. forward_block (data_forwarding_map vm) obj)) vlift),
      fixup_code = (\<lambda>compiled. vbind (vget (\<lambda>vm. forward_block (code_forwarding_map vm) compiled)) vlift),
      translate_data = compaction_translate_data, translate_code = compaction_translate_code\<rparr>"

definition compaction_object_size :: "factor_vm \<Rightarrow> cell \<Rightarrow> cell option" where
  "compaction_object_size vm obj = do {
     m \<leftarrow> marked_p (data_forwarding_map vm) obj;
     if m then object_size_fixup (compaction_translate_data vm) (vm_memory vm) obj
     else unmarked_block_size (data_forwarding_map vm) obj }"

definition compaction_block_size :: "factor_vm \<Rightarrow> cell \<Rightarrow> cell option" where
  "compaction_block_size vm compiled = do {
     m \<leftarrow> marked_p (code_forwarding_map vm) compiled;
     if m then block_size (vm_memory vm) compiled else unmarked_block_size (code_forwarding_map vm) compiled }"

definition update_code_root_for_compaction :: "mark_bits \<Rightarrow> code_root \<Rightarrow> code_root option" where
  "update_code_root_for_compaction state root =
     (let block = root_value root AND (NOT data_alignment + 1); offset = root_value root - block in
      if root_valid root then do {
        m \<leftarrow> marked_p state block;
        if m then map_option (\<lambda>b. root\<lparr>root_value := b + offset\<rparr>) (forward_block state block)
        else Some (root\<lparr>root_valid := False\<rparr>) }
      else Some (root\<lparr>root_valid := False\<rparr>))"

text \<open>
  The allocator's loop owns memory and finger; the state is put together for the visitor,
  which throws nothing during a compaction.
\<close>

definition in_compaction ::
  "(cell \<Rightarrow> factor_vm \<Rightarrow> factor_vm) \<Rightarrow> (factor_vm, unit) visit \<Rightarrow> memory \<times> factor_vm compact_state \<Rightarrow>
   (memory \<times> factor_vm compact_state) option" where
  "in_compaction set_finger m ms =
     (let (mem, cs) = ms in
      case m (set_finger (finger cs) ((caller cs)\<lparr>vm_memory := mem\<rparr>)) of
        Some (vm', Inr _) \<Rightarrow> Some (vm_memory vm', cs\<lparr>caller := vm'\<rparr>)
      | _ \<Rightarrow> None)"

definition set_data_finger :: "cell \<Rightarrow> factor_vm \<Rightarrow> factor_vm" where
  "set_data_finger a vm = vm\<lparr>data_finger := a\<rparr>"

definition set_code_finger :: "cell \<Rightarrow> factor_vm \<Rightarrow> factor_vm" where
  "set_code_finger a vm = vm\<lparr>code_finger := a\<rparr>"

definition compact_object_func :: "cell \<Rightarrow> (factor_vm, unit) visit" where
  "compact_object_func new_addr =
     vthen (visit_slots compaction_fixup new_addr)
     (vthen (visit_object_code_block compaction_fixup new_addr)
     (vcomponent (\<lambda>vm. ts_starts (tenured (vm_data vm)))
        (\<lambda>st vm. vm\<lparr>vm_data := (vm_data vm)\<lparr>tenured := (tenured (vm_data vm))\<lparr>ts_starts := st\<rparr>\<rparr>\<rparr>)
        (\<lambda>st. map_option (\<lambda>st'. (st', ())) (record_object_start_offset st new_addr))))"

definition compact_data :: "(factor_vm, unit) visit" where
  "compact_data vm =
     map_option (\<lambda>((mem', fl'), fin, vm').
       (vm'\<lparr>vm_memory := mem', vm_data := (vm_data vm')\<lparr>tenured := (tenured (vm_data vm'))\<lparr>ts_free := fl'\<rparr>\<rparr>, data_finger := fin\<rparr>, Inr ()))
     (compact (\<lambda>(mem, cs) obj. compaction_object_size (set_data_finger (finger cs) ((caller cs)\<lparr>vm_memory := mem\<rparr>)) obj)
        (\<lambda>old_addr new_addr sz. in_compaction set_data_finger (compact_object_func new_addr))
        (data_finger vm) (vm_memory vm, ts_free (tenured (vm_data vm))) vm)"

definition compact_code_func :: "host \<Rightarrow> cell \<Rightarrow> cell \<Rightarrow> (factor_vm, unit) visit" where
  "compact_code_func h old_addr new_addr =
     vthen (visit_code_block_objects compaction_fixup new_addr)
     (visit_instruction_operands h compaction_fixup new_addr (block_entry_point old_addr))"

definition compact_code :: "host \<Rightarrow> (factor_vm, unit) visit" where
  "compact_code h vm =
     map_option (\<lambda>((mem', fl'), fin, vm').
       (vm'\<lparr>vm_memory := mem', vm_code := (vm_code vm')\<lparr>ch_allocator := fl'\<rparr>, code_finger := fin\<rparr>, Inr ()))
     (compact (\<lambda>(mem, cs) b. compaction_block_size (set_code_finger (finger cs) ((caller cs)\<lparr>vm_memory := mem\<rparr>)) b)
        (\<lambda>old_addr new_addr sz. in_compaction set_code_finger (compact_code_func h old_addr new_addr))
        (code_finger vm) (vm_memory vm, ch_allocator (vm_code vm)) vm)"

definition collect_compact_impl :: "host \<Rightarrow> (factor_vm, unit) visit" where
  "collect_compact_impl h =
     vthen (vwhen (host_debug h) (vbind (vget (\<lambda>vm. verify_all_blocks_set (vm_memory vm) (vm_code vm))) vlift))
     (vthen (tenured_state_step (\<lambda>st. Some (compute_forwarding st)))
     (vthen (code_state_step (\<lambda>st. Some (compute_forwarding st)))
     (vthen (vmodify (\<lambda>vm. vm\<lparr>data_finger := fl_start (ts_free (tenured (vm_data vm))), code_finger := fl_start (ch_allocator (vm_code vm))\<rparr>))
     (vthen (visit_uninitialized_code_blocks compaction_fixup)
     (vthen (vmodify (\<lambda>vm. vm\<lparr>vm_data := (vm_data vm)\<lparr>tenured := (tenured (vm_data vm))\<lparr>ts_starts :=
         clear_object_start_offsets (ts_starts (tenured (vm_data vm)))\<rparr>\<rparr>\<rparr>))
     (vthen compact_data
     (vthen (compact_code h)
     (vthen (visit_all_roots h compaction_fixup)
     (vthen (visit_context_code_blocks compaction_fixup)
     (vthen (code_roots_step update_code_root_for_compaction)
     (vthen (each_callback_stub (\<lambda>stub sz. callback_update stub))
     (vm_code_step (\<lambda>(mem, ch). map_option (\<lambda>ch'. (mem, ch')) (initialize_all_blocks_set (host_debug h) mem ch))))))))))))))"

section \<open>The driver\<close>

definition vm_high_fragmentation_p :: "(factor_vm, bool) visit" where
  "vm_high_fragmentation_p = vbind (vget (\<lambda>vm. high_fragmentation_p (vm_memory vm, vm_data vm))) vlift"

text \<open>The new heap replaces the old one; the marker copies everything that is live.\<close>

definition grow_data_heap :: "host \<Rightarrow> cell \<Rightarrow> (factor_vm, unit) visit" where
  "grow_data_heap h requested_size =
     vm_data_step (\<lambda>(mem, d). map_option (\<lambda>s'. (s', ())) (grow (host_alloc_segment h) (host_garbage h) mem d requested_size))"

definition collect_growing_data_heap :: "host \<Rightarrow> cell \<Rightarrow> (factor_vm, unit) visit" where
  "collect_growing_data_heap h requested_size =
     vthen (grow_data_heap h requested_size) (vthen (collect_mark_impl h) (collect_compact_impl h))"

definition collect_compact :: "host \<Rightarrow> (factor_vm, unit) visit" where
  "collect_compact h =
     vthen (collect_mark_impl h)
     (vthen (collect_compact_impl h)
     (vbind vm_high_fragmentation_p (\<lambda>high.
      vwhen high (vthen (set_gc_op COLLECT_GROWING_DATA_HEAP_OP) (collect_growing_data_heap h 0)))))"

definition collect_full :: "host \<Rightarrow> (factor_vm, unit) visit" where
  "collect_full h =
     vthen (collect_mark_impl h)
     (vthen (collect_sweep_impl h)
     (vbind (vget (\<lambda>vm. low_memory_p (vm_data vm))) (\<lambda>low.
      if low then vthen (set_gc_op COLLECT_GROWING_DATA_HEAP_OP) (collect_growing_data_heap h 0)
      else
        vbind vm_high_fragmentation_p (\<lambda>high.
        vwhen high (vthen (set_gc_op COLLECT_COMPACT_OP) (collect_compact_impl h))))))"

definition full_if_fragmented :: "host \<Rightarrow> (factor_vm, unit) visit" where
  "full_if_fragmented h =
     vbind vm_high_fragmentation_p (\<lambda>high. vwhen high (vthen (set_gc_op COLLECT_FULL_OP) (collect_full h)))"

definition start_gc_again :: "(factor_vm, unit) visit" where
  "start_gc_again =
     vbind (vget current_gc) (\<lambda>op.
     if op = Some COLLECT_NURSERY_OP then set_gc_op COLLECT_AGING_OP
     else if op = Some COLLECT_AGING_OP then set_gc_op COLLECT_TO_TENURED_OP
     else vlift None)"

text \<open>One attempt: the body of the \<open>try\<close>.\<close>

definition gc_attempt :: "host \<Rightarrow> cell \<Rightarrow> (factor_vm, unit) visit" where
  "gc_attempt h requested_size =
     vbind (vget current_gc) (\<lambda>op.
     case op of
       None \<Rightarrow> vlift None
     | Some COLLECT_NURSERY_OP \<Rightarrow> collect_nursery h
     | Some COLLECT_AGING_OP \<Rightarrow> vthen (collect_aging h) (full_if_fragmented h)
     | Some COLLECT_TO_TENURED_OP \<Rightarrow> vthen (collect_to_tenured h) (full_if_fragmented h)
     | Some COLLECT_FULL_OP \<Rightarrow> collect_full h
     | Some COLLECT_COMPACT_OP \<Rightarrow> collect_compact h
     | Some COLLECT_GROWING_DATA_HEAP_OP \<Rightarrow> collect_growing_data_heap h requested_size)"

text \<open>The handler of \<open>must_start_gc_again\<close>.\<close>

definition vcatch :: "('s, 'a) visit \<Rightarrow> ('s, 'a) visit \<Rightarrow> ('s, 'a) visit" where
  "vcatch m handler s =
     Option.bind (m s) (\<lambda>(s', r). if r = Inl must_start_gc_again then handler s' else Some (s', r))"

lemma vcatch_mono [partial_function_mono]:
  assumes "mono_option (\<lambda>f. B f s)" "\<And>t. mono_option (\<lambda>f. C f t)"
  shows "mono_option (\<lambda>f. vcatch (B f) (C f) s)"
proof -
  have "mono_option (\<lambda>f. case y of (t, r) \<Rightarrow> if r = Inl must_start_gc_again then C f t else Some (t, r))" for y
    using assms(2) by (cases y; cases "snd y = Inl must_start_gc_again") (simp_all add: option.const_mono)
  then show ?thesis unfolding vcatch_def using assms(1) by (intro bind_mono)
qed

partial_function (option) gc_loop :: "host \<Rightarrow> cell \<Rightarrow> factor_vm \<Rightarrow> (factor_vm \<times> (vm_exception + unit)) option" where
  "gc_loop h requested_size s = vcatch (gc_attempt h requested_size) (vthen start_gc_again (gc_loop h requested_size)) s"

definition gc :: "host \<Rightarrow> gc_op \<Rightarrow> cell \<Rightarrow> (factor_vm, unit) visit" where
  "gc h op requested_size =
     vbind (vget gc_off) (\<lambda>off. vthen (vassert (\<not> off))
     (vbind (vget current_gc) (\<lambda>running. vthen (vassert (running = None))
     (vbind vm_high_fragmentation_p (\<lambda>high. vthen (vassert (\<not> high))
     (vthen (set_gc_op op)
     (vthen (gc_loop h requested_size)
     (vthen (vmodify (\<lambda>vm. vm\<lparr>current_gc := None\<rparr>))
     (vbind vm_high_fragmentation_p (\<lambda>high'. vassert (\<not> high')))))))))))"

definition primitive_minor_gc :: "host \<Rightarrow> (factor_vm, unit) visit" where
  "primitive_minor_gc h = gc h COLLECT_NURSERY_OP 0"

definition primitive_full_gc :: "host \<Rightarrow> (factor_vm, unit) visit" where
  "primitive_full_gc h = gc h COLLECT_FULL_OP 0"

definition primitive_compact_gc :: "host \<Rightarrow> (factor_vm, unit) visit" where
  "primitive_compact_gc h = gc h COLLECT_COMPACT_OP 0"

end
