(* ===== verification/Allocation.thy ===== *)
theory Allocation
  imports Collectors
begin

text \<open>
  Allocation of objects (\<open>vm/allot.hpp\<close>) and the operations that allocate arrays, byte
  arrays, strings, tuples and aliens (\<open>vm/generic_arrays.hpp\<close>, \<open>vm/arrays.hpp\<close> and \<open>.cpp\<close>,
  \<open>vm/byte_arrays.cpp\<close>, \<open>vm/strings.cpp\<close>, \<open>vm/tuples.cpp\<close>, \<open>vm/alien.cpp\<close>).

  Every allocation may collect, and a collection moves objects, so values that live across
  an allocation are data roots; where the source forgets one, so does the model.
\<close>

unbundle bit_operations_syntax

section \<open>Objects\<close>

definition vm_initialize :: "cell \<Rightarrow> cell \<Rightarrow> (factor_vm, unit) visit" where
  "vm_initialize obj ty = vm_write obj (initialize ty)"

definition nursery_alloc :: "cell \<Rightarrow> (factor_vm, cell) visit" where
  "nursery_alloc sz =
     vcomponent (\<lambda>vm. nursery (vm_data vm)) (\<lambda>ba vm. vm\<lparr>vm_data := (vm_data vm)\<lparr>nursery := ba\<rparr>\<rparr>) (\<lambda>ba. Some (ba_allot ba sz))"

definition vm_can_allot_p :: "cell \<Rightarrow> (factor_vm, bool) visit" where
  "vm_can_allot_p n = vbind (vget (\<lambda>vm. can_allot_p (vm_memory vm, ts_free (tenured (vm_data vm))) n)) vlift"

definition vm_write_barrier_object :: "cell \<Rightarrow> cell \<Rightarrow> (factor_vm, unit) visit" where
  "vm_write_barrier_object obj sz =
     vcomponent vm_data (\<lambda>d vm. vm\<lparr>vm_data := d\<rparr>) (\<lambda>d. map_option (\<lambda>d'. (d', ())) (write_barrier_object d obj sz))"

text \<open>The result of the allocation in tenured space is used unchecked.\<close>

definition allot_large_object :: "host \<Rightarrow> cell \<Rightarrow> cell \<Rightarrow> (factor_vm, cell) visit" where
  "allot_large_object h ty sz =
     vbind (vget (\<lambda>vm. sz + high_water_mark (vm_data vm))) (\<lambda>required_free.
     vbind (vm_can_allot_p required_free) (\<lambda>fits.
     vthen (vwhen (\<not> fits)
       (vthen (primitive_compact_gc h)
        (vbind (vm_can_allot_p required_free) (\<lambda>fits'.
         vwhen (\<not> fits') (gc h COLLECT_GROWING_DATA_HEAP_OP sz)))))
     (vbind (tenured_alloc sz) (\<lambda>found. vbind (vlift found) (\<lambda>obj.
      vthen (vm_write_barrier_object obj sz) (vthen (vm_initialize obj ty) (vreturn obj)))))))"

definition allot_object :: "host \<Rightarrow> cell \<Rightarrow> cell \<Rightarrow> (factor_vm, cell) visit" where
  "allot_object h ty sz =
     vbind (vget current_gc) (\<lambda>running. vthen (vassert (running = None))
     (vbind (vget (\<lambda>vm. nursery (vm_data vm))) (\<lambda>n.
      if sz \<ge> ba_size n then allot_large_object h ty sz
      else
        vthen (vwhen (here n + sz > ba_end n) (primitive_minor_gc h))
        (vbind (nursery_alloc sz) (\<lambda>obj. vthen (vm_initialize obj ty) (vreturn obj))))))"

abbreviation allot_type :: "host \<Rightarrow> vm_type \<Rightarrow> cell \<Rightarrow> (factor_vm, cell) visit" where
  "allot_type h ty sz \<equiv> allot_object h (type_number ty) sz"

definition code_alloc :: "cell \<Rightarrow> (factor_vm, cell option) visit" where
  "code_alloc sz =
     vcomponent (\<lambda>vm. (vm_memory vm, ch_allocator (vm_code vm)))
       (\<lambda>(mem, fl) vm. vm\<lparr>vm_memory := mem, vm_code := (vm_code vm)\<lparr>ch_allocator := fl\<rparr>\<rparr>) (\<lambda>s. allot s sz)"

definition allot_code_block :: "host \<Rightarrow> cell \<Rightarrow> code_block_type \<Rightarrow> (factor_vm, cell) visit" where
  "allot_code_block h sz ty =
     (let n = sz + sizeof_code_block in
      vbind (code_alloc n) (\<lambda>first.
      vbind (case first of
          Some block \<Rightarrow> vreturn block
        | None \<Rightarrow> vthen (primitive_compact_gc h) (vbind (code_alloc n) vlift)) (\<lambda>block.
      vthen (code_heap_modify (code_write_barrier block))
      (vthen (vmodify (\<lambda>vm. vm\<lparr>vm_memory := set_block_type (vm_memory vm) block ty\<rparr>)) (vreturn block)))))"

section \<open>Numbers\<close>

definition vm_to_fixnum_strict :: "cell \<Rightarrow> (factor_vm, fixnum) visit" where
  "vm_to_fixnum_strict tagged =
     (if TAG tagged = type_number FIXNUM_TYPE then vlift (untag_fixnum tagged)
      else if TAG tagged = type_number BIGNUM_TYPE then
        vbind (vget (\<lambda>vm. bignum_at (vm_memory vm) (UNTAG tagged))) (\<lambda>b. vbind (vlift b) (\<lambda>n.
        vbind (vlift (bignum_to_fixnum_strict n)) (\<lambda>r.
        case r of Inr k \<Rightarrow> vreturn k | Inl e \<Rightarrow> vthrow (general_error e tagged false_object))))
      else type_error FIXNUM_TYPE tagged)"

definition vm_to_cell :: "cell \<Rightarrow> (factor_vm, cell) visit" where
  "vm_to_cell tagged =
     (if TAG tagged = type_number FIXNUM_TYPE then vbind (vlift (untag_fixnum tagged)) (\<lambda>n. vreturn (word_of_int n))
      else if TAG tagged = type_number BIGNUM_TYPE then
        vbind (vget (\<lambda>vm. bignum_at (vm_memory vm) (UNTAG tagged))) (\<lambda>b. vbind (vlift b) (\<lambda>n. vreturn (bignum_to_cell n)))
      else type_error FIXNUM_TYPE tagged)"

definition vm_unbox_array_size :: "(factor_vm, cell) visit" where
  "vm_unbox_array_size =
     vbind ctx_pop (\<lambda>obj. vbind (vm_to_fixnum_strict obj) (\<lambda>n.
     if n \<ge> 0 \<and> n < array_size_max then vreturn (word_of_int n)
     else vthrow (general_error ERROR_ARRAY_SIZE obj (tag_fixnum array_size_max))))"

section \<open>Arrays\<close>

definition allot_uninitialized_array :: "host \<Rightarrow> vm_type \<Rightarrow> cell \<Rightarrow> (factor_vm, cell) visit" where
  "allot_uninitialized_array h ty capacity =
     vbind (allot_type h ty (array_size ty capacity)) (\<lambda>a.
     vthen (vm_write (array_capacity_field a) (tag_fixnum (sint capacity))) (vreturn a))"

definition memory_step :: "(memory \<Rightarrow> memory) \<Rightarrow> (factor_vm, unit) visit" where
  "memory_step f = vmodify (\<lambda>vm. vm\<lparr>vm_memory := f (vm_memory vm)\<rparr>)"

definition allot_array :: "host \<Rightarrow> cell \<Rightarrow> cell \<Rightarrow> (factor_vm, cell) visit" where
  "allot_array h capacity fill0 =
     with_data_root fill0 (\<lambda>fill.
     vbind (allot_uninitialized_array h ARRAY_TYPE capacity) (\<lambda>a.
     vbind (root_value_at fill) (\<lambda>v.
     vthen (memory_step (\<lambda>mem. memset_cell mem (array_data a) v (capacity * sizeof_cell))) (vreturn a))))"

definition primitive_array :: "host \<Rightarrow> (factor_vm, unit) visit" where
  "primitive_array h =
     vbind ctx_pop (\<lambda>fill. vbind vm_unbox_array_size (\<lambda>capacity.
     vbind (allot_array h capacity fill) (\<lambda>a. ctx_push (tag_pointer ARRAY_TYPE a))))"

definition set_array_nth :: "cell \<Rightarrow> cell \<Rightarrow> cell \<Rightarrow> (factor_vm, unit) visit" where
  "set_array_nth a slot v =
     vbind (vbind vm_mem (\<lambda>mem. vlift (array_capacity ARRAY_TYPE mem a))) (\<lambda>n.
     vthen (vassert (slot < n))
     (let slot_ptr = array_data a + slot * sizeof_cell in vthen (vm_write slot_ptr v) (vm_write_barrier slot_ptr)))"

definition allot_array_4 :: "host \<Rightarrow> cell \<Rightarrow> cell \<Rightarrow> cell \<Rightarrow> cell \<Rightarrow> (factor_vm, cell) visit" where
  "allot_array_4 h x1 x2 x3 x4 =
     with_data_root x1 (\<lambda>v1. with_data_root x2 (\<lambda>v2. with_data_root x3 (\<lambda>v3. with_data_root x4 (\<lambda>v4.
     vbind (allot_uninitialized_array h ARRAY_TYPE 4) (\<lambda>a.
     vthen (vbind (root_value_at v1) (set_array_nth a 0))
     (vthen (vbind (root_value_at v2) (set_array_nth a 1))
     (vthen (vbind (root_value_at v3) (set_array_nth a 2))
     (vthen (vbind (root_value_at v4) (set_array_nth a 3)) (vreturn (tag_pointer ARRAY_TYPE a))))))))))"

definition vm_array_capacity :: "vm_type \<Rightarrow> cell \<Rightarrow> (factor_vm, cell) visit" where
  "vm_array_capacity ty a = vbind vm_mem (\<lambda>mem. vlift (array_capacity ty mem a))"

definition reallot_array_in_place_p :: "vm_type \<Rightarrow> cell \<Rightarrow> cell \<Rightarrow> (factor_vm, bool) visit" where
  "reallot_array_in_place_p ty a capacity =
     vbind (vget (in_nursery a)) (\<lambda>young.
     if young then vbind (vm_array_capacity ty a) (\<lambda>n. vreturn (capacity \<le> n)) else vreturn False)"

text \<open>
  The bytes after the copied elements are cleared, whatever the type: the new slots of an
  array become the fixnum zero.
\<close>

definition reallot_array :: "host \<Rightarrow> vm_type \<Rightarrow> cell \<Rightarrow> cell \<Rightarrow> (factor_vm, cell) visit" where
  "reallot_array h ty arr capacity =
     with_data_root (tag_pointer ty arr) (\<lambda>root.
     vbind (vm_array_capacity ty arr) (\<lambda>old.
     if old = capacity then vreturn arr
     else
       vbind (reallot_array_in_place_p ty arr capacity) (\<lambda>in_place.
       if in_place then vthen (vm_write (array_capacity_field arr) (tag_fixnum (sint capacity))) (vreturn arr)
       else
         (let to_copy = (if capacity < old then capacity else old) in
          vbind (allot_uninitialized_array h ty capacity) (\<lambda>new_array.
          vbind (root_value_at root) (\<lambda>v.
          vthen (memory_step (\<lambda>mem.
             fill_bytes (array_data new_array + to_copy * element_size ty) 0 (unat ((capacity - to_copy) * element_size ty))
               (copy_bytes (array_data new_array) (array_data (UNTAG v)) (unat (to_copy * element_size ty)) mem)))
          (vreturn new_array)))))))"

definition primitive_resize_array :: "host \<Rightarrow> (factor_vm, unit) visit" where
  "primitive_resize_array h =
     vbind ctx_pop (\<lambda>v. with_data_root v (\<lambda>a.
     vthen (check_tagged ARRAY_TYPE v)
     (vbind vm_unbox_array_size (\<lambda>capacity. vbind (root_value_at a) (\<lambda>v'.
      vbind (reallot_array h ARRAY_TYPE (UNTAG v') capacity) (\<lambda>r. ctx_push (tag_pointer ARRAY_TYPE r)))))))"

text \<open>
  The elements of the vector are registered as roots for the allocation and dropped
  afterwards.
\<close>

definition std_vector_to_array :: "host \<Rightarrow> cell list \<Rightarrow> (factor_vm, cell) visit" where
  "std_vector_to_array h elements vm =
     (let orig_size = length (data_roots vm) in
      vbind (allot_uninitialized_array h ARRAY_TYPE (of_nat (length elements))) (\<lambda>a.
      vbind (vget (\<lambda>vm. drop orig_size (data_roots vm))) (\<lambda>vs.
      vthen (vfor_each (\<lambda>(i, v). vm_write (array_data a + sizeof_cell * of_nat i) v) (enumerate 0 vs))
      (vthen (vmodify (\<lambda>vm. vm\<lparr>data_roots := take orig_size (data_roots vm)\<rparr>)) (vreturn (tag_pointer ARRAY_TYPE a)))))
      (vm\<lparr>data_roots := data_roots vm @ elements\<rparr>))"

section \<open>Growable arrays\<close>

text \<open>
  A growable array is the number of elements used and the position of the root that holds
  the elements.
\<close>

definition set_root :: "nat \<Rightarrow> cell \<Rightarrow> (factor_vm, unit) visit" where
  "set_root i v = vmodify (\<lambda>vm. vm\<lparr>data_roots := (data_roots vm)[i := v]\<rparr>)"

definition growable_reallot :: "host \<Rightarrow> vm_type \<Rightarrow> nat \<Rightarrow> cell \<Rightarrow> (factor_vm, unit) visit" where
  "growable_reallot h ty elements used =
     vbind (root_value_at elements) (\<lambda>v. vbind (reallot_array h ty (UNTAG v) used) (\<lambda>a.
     set_root elements (tag_pointer ty a)))"

definition growable_array_add :: "host \<Rightarrow> nat \<Rightarrow> cell \<Rightarrow> cell \<Rightarrow> (factor_vm, cell) visit" where
  "growable_array_add h elements used elt0 =
     with_data_root elt0 (\<lambda>elt.
     vbind (root_value_at elements) (\<lambda>v. vbind (vm_array_capacity ARRAY_TYPE (UNTAG v)) (\<lambda>n.
     vthen (vwhen (used = n) (growable_reallot h ARRAY_TYPE elements (2 * used)))
     (vbind (root_value_at elements) (\<lambda>v'. vbind (root_value_at elt) (\<lambda>e.
      vthen (set_array_nth (UNTAG v') used e) (vreturn (used + 1))))))))"

primrec growable_append_loop :: "nat \<Rightarrow> nat \<Rightarrow> nat \<Rightarrow> cell \<Rightarrow> cell \<Rightarrow> (factor_vm, cell) visit" where
  "growable_append_loop elements elts 0 index used = vreturn used"
| "growable_append_loop elements elts (Suc n) index used =
     vbind (root_value_at elts) (\<lambda>e. vbind (vm_array_nth (UNTAG e) index) (\<lambda>x.
     vbind (root_value_at elements) (\<lambda>v. vthen (set_array_nth (UNTAG v) used x)
     (growable_append_loop elements elts n (index + 1) (used + 1)))))"

definition growable_array_append :: "host \<Rightarrow> nat \<Rightarrow> cell \<Rightarrow> cell \<Rightarrow> (factor_vm, cell) visit" where
  "growable_array_append h elements used elts0 =
     with_data_root (tag_pointer ARRAY_TYPE elts0) (\<lambda>elts.
     vbind (vm_array_capacity ARRAY_TYPE elts0) (\<lambda>capacity.
     vbind (root_value_at elements) (\<lambda>v. vbind (vm_array_capacity ARRAY_TYPE (UNTAG v)) (\<lambda>n.
     vthen (vwhen (used + capacity > n) (growable_reallot h ARRAY_TYPE elements (2 * (used + capacity))))
     (growable_append_loop elements elts (unat capacity) 0 used)))))"

section \<open>Byte arrays\<close>

definition allot_byte_array :: "host \<Rightarrow> cell \<Rightarrow> (factor_vm, cell) visit" where
  "allot_byte_array h sz =
     vbind (allot_uninitialized_array h BYTE_ARRAY_TYPE sz) (\<lambda>a.
     vthen (memory_step (fill_bytes (array_data a) 0 (unat sz))) (vreturn a))"

definition primitive_byte_array :: "host \<Rightarrow> (factor_vm, unit) visit" where
  "primitive_byte_array h =
     vbind vm_unbox_array_size (\<lambda>sz. vbind (allot_byte_array h sz) (\<lambda>a. ctx_push (tag_pointer BYTE_ARRAY_TYPE a)))"

definition primitive_uninitialized_byte_array :: "host \<Rightarrow> (factor_vm, unit) visit" where
  "primitive_uninitialized_byte_array h =
     vbind vm_unbox_array_size (\<lambda>sz. vbind (allot_uninitialized_array h BYTE_ARRAY_TYPE sz) (\<lambda>a.
     ctx_push (tag_pointer BYTE_ARRAY_TYPE a)))"

definition primitive_resize_byte_array :: "host \<Rightarrow> (factor_vm, unit) visit" where
  "primitive_resize_byte_array h =
     vbind ctx_pop (\<lambda>v. with_data_root v (\<lambda>a.
     vthen (check_tagged BYTE_ARRAY_TYPE v)
     (vbind vm_unbox_array_size (\<lambda>capacity. vbind (root_value_at a) (\<lambda>v'.
      vbind (reallot_array h BYTE_ARRAY_TYPE (UNTAG v') capacity) (\<lambda>r. ctx_push (tag_pointer BYTE_ARRAY_TYPE r)))))))"

definition growable_capacity :: "vm_type \<Rightarrow> nat \<Rightarrow> (factor_vm, cell) visit" where
  "growable_capacity ty elements = vbind (root_value_at elements) (\<lambda>v. vm_array_capacity ty (UNTAG v))"

definition grow_bytes :: "host \<Rightarrow> nat \<Rightarrow> cell \<Rightarrow> cell \<Rightarrow> (factor_vm, cell) visit" where
  "grow_bytes h elements used len =
     (let used' = used + len in
      vbind (growable_capacity BYTE_ARRAY_TYPE elements) (\<lambda>n.
      vthen (vwhen (used' \<ge> n) (growable_reallot h BYTE_ARRAY_TYPE elements (2 * used'))) (vreturn used')))"

text \<open>The bytes appended come from outside the heap.\<close>

definition append_bytes :: "host \<Rightarrow> nat \<Rightarrow> cell \<Rightarrow> 8 word list \<Rightarrow> (factor_vm, cell) visit" where
  "append_bytes h elements used elts =
     vbind (grow_bytes h elements used (of_nat (length elts))) (\<lambda>used'.
     vbind (root_value_at elements) (\<lambda>v.
     vthen (memory_step (\<lambda>mem. fold (\<lambda>(i, b) m. store_u8 m (array_data (UNTAG v) + used + of_nat i) b) (enumerate 0 elts) mem))
     (vreturn used')))"

definition append_byte_array :: "host \<Rightarrow> nat \<Rightarrow> cell \<Rightarrow> cell \<Rightarrow> (factor_vm, cell) visit" where
  "append_byte_array h elements used ba0 =
     with_data_root ba0 (\<lambda>ba.
     vbind (vm_array_capacity BYTE_ARRAY_TYPE (UNTAG ba0)) (\<lambda>len.
     let new_size = used + len in
     vbind (growable_capacity BYTE_ARRAY_TYPE elements) (\<lambda>n.
     vthen (vwhen (new_size \<ge> n) (growable_reallot h BYTE_ARRAY_TYPE elements (2 * new_size)))
     (vbind (root_value_at elements) (\<lambda>v. vbind (root_value_at ba) (\<lambda>b.
      vthen (memory_step (copy_bytes (array_data (UNTAG v) + used) (array_data (UNTAG b)) (unat len)))
      (vreturn (used + len))))))))"

text \<open>\<open>byte_array_from_value\<close>: the bytes of a structure.\<close>

definition byte_array_from_value :: "host \<Rightarrow> cell list \<Rightarrow> (factor_vm, cell) visit" where
  "byte_array_from_value h cells =
     vbind (allot_uninitialized_array h BYTE_ARRAY_TYPE (sizeof_cell * of_nat (length cells))) (\<lambda>a.
     vthen (vfor_each (\<lambda>(i, v). vm_write (array_data a + sizeof_cell * of_nat i) v) (enumerate 0 cells)) (vreturn a))"

section \<open>Strings\<close>

definition allot_string_internal :: "host \<Rightarrow> cell \<Rightarrow> (factor_vm, cell) visit" where
  "allot_string_internal h capacity =
     vbind (allot_type h STRING_TYPE (string_size capacity)) (\<lambda>str.
     vthen (vm_write (string_length_field str) (tag_fixnum (sint capacity)))
     (vthen (vm_write (string_hashcode_field str) false_object)
     (vthen (vm_write (string_aux_field str) false_object) (vreturn str))))"

definition fill_u16 :: "cell \<Rightarrow> 16 word \<Rightarrow> nat \<Rightarrow> memory \<Rightarrow> memory" where
  "fill_u16 dest v n mem = fold (\<lambda>i m. store_u16 m (dest + 2 * of_nat i) v) [0..<n] mem"

text \<open>
  A character above \<open>0x7f\<close> keeps its low seven bits with the top bit set in the string and
  the rest, with the lowest bit flipped, in the auxiliary array.
\<close>

definition string_lo :: "cell \<Rightarrow> 8 word" where
  "string_lo ch = ucast ((ch AND 0x7f) OR 0x80)"

definition string_hi :: "cell \<Rightarrow> 16 word" where
  "string_hi ch = ucast (drop_bit 7 ch XOR 1)"

definition fill_string :: "host \<Rightarrow> cell \<Rightarrow> cell \<Rightarrow> cell \<Rightarrow> cell \<Rightarrow> (factor_vm, unit) visit" where
  "fill_string h str0 start capacity fill =
     with_data_root (tag_pointer STRING_TYPE str0) (\<lambda>root.
     if fill \<le> 0x7f then memory_step (fill_bytes (string_data str0 + start) (ucast fill) (unat (capacity - start)))
     else
       vbind (vm_read (string_aux_field str0)) (\<lambda>aux0.
       vbind (if to_boolean aux0 then vreturn (UNTAG aux0)
              else
                vbind (vm_read (string_length_field str0)) (\<lambda>n. vbind (vlift (untag_length n)) (\<lambda>len.
                vbind (allot_uninitialized_array h BYTE_ARRAY_TYPE (len * 2)) (\<lambda>aux.
                vbind (root_value_at root) (\<lambda>v.
                vthen (vm_write (string_aux_field (UNTAG v)) (tag_pointer BYTE_ARRAY_TYPE aux))
                (vthen (vm_write_barrier (string_aux_field (UNTAG v))) (vreturn aux))))))) (\<lambda>aux.
       vbind (root_value_at root) (\<lambda>v.
       memory_step (\<lambda>mem. fill_u16 (array_data aux + 2 * start) (string_hi fill) (unat (capacity - start))
         (fill_bytes (string_data (UNTAG v) + start) (string_lo fill) (unat (capacity - start)) mem))))))"

definition allot_string :: "host \<Rightarrow> cell \<Rightarrow> cell \<Rightarrow> (factor_vm, cell) visit" where
  "allot_string h capacity fill =
     vbind (allot_string_internal h capacity) (\<lambda>str0.
     with_data_root (tag_pointer STRING_TYPE str0) (\<lambda>str.
     vthen (fill_string h str0 0 capacity fill)
     (vbind (root_value_at str) (\<lambda>v. vreturn (UNTAG v)))))"

definition primitive_string :: "host \<Rightarrow> (factor_vm, unit) visit" where
  "primitive_string h =
     vbind ctx_pop (\<lambda>v. vbind (vm_to_cell v) (\<lambda>initial. vbind vm_unbox_array_size (\<lambda>n.
     vbind (allot_string h n initial) (\<lambda>str. ctx_push (tag_pointer STRING_TYPE str)))))"

definition reallot_string_in_place_p :: "cell \<Rightarrow> cell \<Rightarrow> (factor_vm, bool) visit" where
  "reallot_string_in_place_p str capacity =
     vbind (vget id) (\<lambda>vm.
     let aux = vm_memory vm (string_aux_field str) in
     if in_nursery str vm \<and> (\<not> to_boolean aux \<or> in_nursery (UNTAG aux) vm)
     then vbind (vlift (string_capacity (vm_memory vm) str)) (\<lambda>n. vreturn (capacity \<le> n))
     else vreturn False)"

definition reallot_string_aux :: "host \<Rightarrow> nat \<Rightarrow> nat \<Rightarrow> cell \<Rightarrow> cell \<Rightarrow> (factor_vm, unit) visit" where
  "reallot_string_aux h str new_str capacity to_copy =
     vbind (allot_uninitialized_array h BYTE_ARRAY_TYPE (capacity * 2)) (\<lambda>new_aux.
     vbind (root_value_at new_str) (\<lambda>nv.
     vthen (vm_write (string_aux_field (UNTAG nv)) (tag_pointer BYTE_ARRAY_TYPE new_aux))
     (vthen (vm_write_barrier (string_aux_field (UNTAG nv)))
     (vbind (root_value_at str) (\<lambda>sv. vbind (vm_read (string_aux_field (UNTAG sv))) (\<lambda>aux.
      memory_step (copy_bytes (array_data new_aux) (array_data (UNTAG aux)) (unat (to_copy * 2)))))))))"

definition reallot_string_copy :: "host \<Rightarrow> nat \<Rightarrow> cell \<Rightarrow> cell \<Rightarrow> (factor_vm, cell) visit" where
  "reallot_string_copy h str capacity to_copy =
     vbind (allot_string_internal h capacity) (\<lambda>new0.
     with_data_root (tag_pointer STRING_TYPE new0) (\<lambda>new_str.
     vbind (root_value_at str) (\<lambda>v.
     vthen (memory_step (copy_bytes (string_data new0) (string_data (UNTAG v)) (unat to_copy)))
     (vbind (vm_read (string_aux_field (UNTAG v))) (\<lambda>aux0.
      vthen (vwhen (to_boolean aux0) (reallot_string_aux h str new_str capacity to_copy))
      (vbind (root_value_at new_str) (\<lambda>nv.
       vthen (fill_string h (UNTAG nv) to_copy capacity 0)
       (vbind (root_value_at new_str) (\<lambda>r. vreturn (UNTAG r))))))))))"

definition reallot_string :: "host \<Rightarrow> cell \<Rightarrow> cell \<Rightarrow> (factor_vm, cell) visit" where
  "reallot_string h str0 capacity =
     with_data_root (tag_pointer STRING_TYPE str0) (\<lambda>str.
     vbind (reallot_string_in_place_p str0 capacity) (\<lambda>in_place.
     if in_place then
       vthen (vm_write (string_length_field str0) (tag_fixnum (sint capacity)))
       (vbind (vm_read (string_aux_field str0)) (\<lambda>aux.
        vthen (vwhen (to_boolean aux) (vm_write (array_capacity_field (UNTAG aux)) (tag_fixnum (sint (capacity * 2)))))
        (vreturn str0)))
     else
       vbind (vbind vm_mem (\<lambda>mem. vlift (string_capacity mem str0))) (\<lambda>n.
       reallot_string_copy h str capacity (if capacity < n then capacity else n))))"

definition primitive_resize_string :: "host \<Rightarrow> (factor_vm, unit) visit" where
  "primitive_resize_string h =
     vbind ctx_pop (\<lambda>v. with_data_root v (\<lambda>str.
     vthen (check_tagged STRING_TYPE v)
     (vbind vm_unbox_array_size (\<lambda>capacity. vbind (root_value_at str) (\<lambda>v'.
      vbind (reallot_string h (UNTAG v') capacity) (\<lambda>r. ctx_push (tag_pointer STRING_TYPE r)))))))"

definition primitive_set_string_nth_fast :: "(factor_vm, unit) visit" where
  "primitive_set_string_nth_fast =
     vbind ctx_pop (\<lambda>s. vbind ctx_pop (\<lambda>i. vbind (vlift (untag_fixnum i)) (\<lambda>index.
     vbind ctx_pop (\<lambda>v. vbind (vlift (untag_fixnum v)) (\<lambda>n.
     memory_step (\<lambda>mem. store_u8 mem (string_data (UNTAG s) + word_of_int index) (word_of_int n)))))))"

section \<open>Tuples\<close>

text \<open>
  The number of bytes that \<open>primitive_tuple\<close> fills is the size of the tuple less one cell,
  from the first slot on.
\<close>

definition primitive_tuple :: "host \<Rightarrow> (factor_vm, unit) visit" where
  "primitive_tuple h =
     vbind ctx_pop (\<lambda>l. with_data_root l (\<lambda>layout.
     vbind (vbind vm_mem (\<lambda>mem. vlift (tuple_size mem (UNTAG l)))) (\<lambda>sz.
     vbind (allot_type h TUPLE_TYPE sz) (\<lambda>t.
     vbind (root_value_at layout) (\<lambda>l'.
     vthen (vm_write (tuple_layout_field t) l')
     (vbind (vbind vm_mem (\<lambda>mem. vlift (tuple_size mem (UNTAG l')))) (\<lambda>sz'.
      vthen (memory_step (\<lambda>mem. memset_cell mem (tuple_data t) false_object (sz' - sizeof_cell)))
      (ctx_push (tag_pointer TUPLE_TYPE t)))))))))"

definition primitive_tuple_boa :: "host \<Rightarrow> (factor_vm, unit) visit" where
  "primitive_tuple_boa h =
     vbind ctx_pop (\<lambda>l. with_data_root l (\<lambda>layout.
     vbind (vbind vm_mem (\<lambda>mem. vlift (tuple_size mem (UNTAG l)))) (\<lambda>sz.
     vbind (allot_type h TUPLE_TYPE sz) (\<lambda>t.
     vbind (root_value_at layout) (\<lambda>l'.
     vthen (vm_write (tuple_layout_field t) l')
     (vbind (vbind vm_mem (\<lambda>mem. vlift (tuple_capacity mem (UNTAG l')))) (\<lambda>n.
      let sz' = n * sizeof_cell in
      vbind current_ctx (\<lambda>a.
      vthen (vm_ctx_step a (\<lambda>(mem, c).
        ((memmove (tuple_data t) (datastack c - sz' + sizeof_cell) sz' mem, c\<lparr>datastack := datastack c - sz'\<rparr>), ())))
      (ctx_push (tag_pointer TUPLE_TYPE t))))))))))"

section \<open>Aliens\<close>

definition alien_expired_field :: "cell \<Rightarrow> cell" where
  "alien_expired_field a = a + 16"

definition pinned_alien_offset :: "cell \<Rightarrow> (factor_vm, cell) visit" where
  "pinned_alien_offset obj =
     (if TAG obj = type_number ALIEN_TYPE then
        vbind (vm_read (alien_expired_field (UNTAG obj))) (\<lambda>expired.
        if to_boolean expired then vthrow (general_error ERROR_EXPIRED obj false_object)
        else
          vbind (vm_read (alien_base_field (UNTAG obj))) (\<lambda>base.
          if to_boolean base then type_error ALIEN_TYPE obj else vm_read (alien_address_field (UNTAG obj))))
      else if TAG obj = type_number F_TYPE then vreturn 0
      else type_error ALIEN_TYPE obj)"

definition alien_offset :: "cell \<Rightarrow> (factor_vm, cell) visit" where
  "alien_offset obj =
     (if TAG obj = type_number BYTE_ARRAY_TYPE then vreturn (array_data (UNTAG obj))
      else if TAG obj = type_number ALIEN_TYPE then vm_read (alien_address_field (UNTAG obj))
      else if TAG obj = type_number F_TYPE then vreturn 0
      else type_error ALIEN_TYPE obj)"

definition allot_displaced_alien :: "host \<Rightarrow> cell \<Rightarrow> cell \<Rightarrow> (factor_vm, cell) visit" where
  "allot_displaced_alien h delegate0 displacement =
     (if displacement = 0 then vreturn delegate0
      else
        with_data_root delegate0 (\<lambda>delegate.
        vbind (allot_type h ALIEN_TYPE sizeof_alien) (\<lambda>new0.
        with_data_root (tag_pointer ALIEN_TYPE new0) (\<lambda>new_alien.
        vbind (root_value_at delegate) (\<lambda>d.
        vbind (if TAG delegate0 = type_number ALIEN_TYPE
               then vbind (vm_read (alien_displacement_field (UNTAG d))) (\<lambda>x.
                 vbind (vm_read (alien_base_field (UNTAG d))) (\<lambda>b. vreturn (displacement + x, b)))
               else vreturn (displacement, d)) (\<lambda>(disp, base).
        vthen (vm_write (alien_base_field new0) base)
        (vthen (vm_write (alien_displacement_field new0) disp)
        (vthen (vm_write (alien_expired_field new0) false_object)
        (vthen (memory_step (\<lambda>mem. update_address mem new0)) (root_value_at new_alien))))))))))"

definition allot_alien :: "host \<Rightarrow> cell \<Rightarrow> (factor_vm, cell) visit" where
  "allot_alien h address = allot_displaced_alien h false_object address"

definition primitive_displaced_alien :: "host \<Rightarrow> (factor_vm, unit) visit" where
  "primitive_displaced_alien h =
     vbind ctx_pop (\<lambda>alien. vbind ctx_pop (\<lambda>d. vbind (vm_to_cell d) (\<lambda>displacement.
     if TAG alien \<in> {type_number BYTE_ARRAY_TYPE, type_number ALIEN_TYPE, type_number F_TYPE}
     then vbind (allot_displaced_alien h alien displacement) ctx_push
     else type_error ALIEN_TYPE alien)))"

definition alien_pointer :: "(factor_vm, cell) visit" where
  "alien_pointer =
     vbind ctx_pop (\<lambda>o1. vbind (vm_to_fixnum o1) (\<lambda>offset. vbind ctx_pop (\<lambda>a. vbind (alien_offset a) (\<lambda>p.
     vreturn (p + word_of_int offset)))))"

section \<open>What allocation in the nursery does\<close>

text \<open>
  Where the nursery has room, no collection runs: the object is at the allocation pointer,
  its header is set, the rest of memory is unchanged and the heap stays well formed.
\<close>

definition nursery_room :: "factor_vm \<Rightarrow> cell \<Rightarrow> bool" where
  "nursery_room vm sz \<longleftrightarrow> heap_wf (vm_memory vm, vm_data vm) \<and> current_gc vm = None \<and> request_ok sz \<and>
     unat sz < unat (ba_size (nursery (vm_data vm))) \<and>
     unat (here (nursery (vm_data vm))) + unat sz \<le> unat (ba_end (nursery (vm_data vm)))"

lemma allot_object_nursery:
  assumes room: "nursery_room vm sz"
  shows "\<exists>ba. allot_object h ty sz vm =
      Some (vm\<lparr>vm_memory := (vm_memory vm)(here (nursery (vm_data vm)) := initialize ty), vm_data := (vm_data vm)\<lparr>nursery := ba\<rparr>\<rparr>,
        Inr (here (nursery (vm_data vm)))) \<and>
    ba_start ba = ba_start (nursery (vm_data vm)) \<and> ba_end ba = ba_end (nursery (vm_data vm)) \<and>
    unat (here (nursery (vm_data vm))) + unat sz \<le> unat (here ba) \<and>
    unat (ba_start ba) \<le> unat (here (nursery (vm_data vm))) \<and> unat (here (nursery (vm_data vm))) mod 16 = 0 \<and>
    (\<forall>mem'. (\<forall>a. unat a < unat (ba_start ba) \<longrightarrow> mem' a = vm_memory vm a) \<longrightarrow> heap_wf (mem', (vm_data vm)\<lparr>nursery := ba\<rparr>))"
proof -
  let ?n = "nursery (vm_data vm)"
  have wf: "heap_wf (vm_memory vm, vm_data vm)" and gc: "current_gc vm = None" and sz: "request_ok sz" "unat sz < unat (ba_size ?n)"
    and fit: "unat (here ?n) + unat sz \<le> unat (ba_end ?n)" using room by (simp_all add: nursery_room_def)
  note l = heap_wf_layout [OF wf]
  have n: "unat (ba_start ?n) \<le> unat (here ?n)" "unat (here ?n) mod 16 = 0" using l(8) by (simp_all add: bump_wf_def)
  have "unat (here ?n + sz) = unat (here ?n) + unat sz"
    using fit bump_wf_end(2) [OF l(8)] by (intro unat_add_exact) simp
  then have f: "\<not> here ?n + sz > ba_end ?n" using fit by (simp add: word_less_nat_alt)
  obtain ba where ba: "ba_allot ?n sz = (ba, here ?n)" "bump_wf ba" "ba_start ba = ba_start ?n" "ba_end ba = ba_end ?n"
    "ba_size ba = ba_size ?n" "unat (here ?n) + unat sz \<le> unat (here ba)"
    using ba_allot_wf [OF l(8) sz(1) f] by blast
  have "\<not> sz \<ge> ba_size ?n" using sz(2) by (simp add: word_le_nat_alt)
  then have "allot_object h ty sz vm =
      Some (vm\<lparr>vm_memory := (vm_memory vm)(here ?n := initialize ty), vm_data := (vm_data vm)\<lparr>nursery := ba\<rparr>\<rparr>, Inr (here ?n))"
    using f gc by (simp add: allot_object_def visit_simps nursery_alloc_def vcomponent_def ba(1) vm_initialize_def vm_write_def)
  moreover have "heap_wf (mem', (vm_data vm)\<lparr>nursery := ba\<rparr>)" if "\<forall>a. unat a < unat (ba_start ba) \<longrightarrow> mem' a = vm_memory vm a" for mem'
  proof -
    have "heap_wf (vm_memory vm, (vm_data vm)\<lparr>nursery := ba\<rparr>)" using ba by (intro heap_wf_nursery [OF wf]) auto
    moreover have "unat (fl_end (ts_free (tenured (vm_data vm)))) \<le> unat (ba_start ba)" using l(4,9) ba(3) by simp
    then have "tenured_wf (mem', tenured (vm_data vm))" using that by (intro tenured_wf_cong(1) [OF l(1)]) auto
    ultimately show ?thesis by (simp add: heap_wf_def Let_def)
  qed
  ultimately show ?thesis using ba(3,4,6) n by (intro exI [of _ ba]) simp
qed

lemma array_capacity_tagged:
  assumes "object_type (mem a) = type_number ty" "mem (array_capacity_field a) = tag_fixnum (sint n)" "unat n < 2 ^ 60"
  shows "array_capacity ty mem a = Some n"
proof -
  have "bit n i \<Longrightarrow> i < 60" for i using unat_less_bits [OF assms(3)] not_le by blast
  then have "drop_bit 4 (push_bit 4 n) = n" by (intro bit_word_eqI) (auto simp: bit_simps)
  then show ?thesis using assms(1,2) by (simp add: array_capacity_def tag_fixnum_def TAG_BITS_def)
qed

lemma array_size_unat: "unat n < 2 ^ 59 \<Longrightarrow> unat (array_size ARRAY_TYPE n) = 16 + 8 * unat n"
  by (simp add: array_size_def sizeof_array_def unat_word_ariths)

text \<open>A new array has the capacity asked for and the fill value in every element.\<close>

lemma allot_array_nursery:
  assumes room: "nursery_room vm (array_size ARRAY_TYPE n)" and n: "unat n < 2 ^ 59"
  shows "\<exists>vm' a. allot_array h n fill vm = Some (vm', Inr a) \<and> array_capacity ARRAY_TYPE (vm_memory vm') a = Some n \<and>
    (\<forall>i<unat n. array_nth (vm_memory vm') a (of_nat i) = Some fill) \<and> heap_wf (vm_memory vm', vm_data vm') \<and>
    data_roots vm' = data_roots vm \<and> a = here (nursery (vm_data vm)) \<and> (\<forall>x. unat x < unat a \<longrightarrow> vm_memory vm' x = vm_memory vm x)"
proof -
  let ?vm = "vm\<lparr>data_roots := data_roots vm @ [fill]\<rparr>" and ?a = "here (nursery (vm_data vm))" and ?sz = "array_size ARRAY_TYPE n"
  have room': "nursery_room ?vm ?sz" using room by (simp add: nursery_room_def)
  obtain ba where ba: "allot_object h (type_number ARRAY_TYPE) ?sz ?vm =
      Some (?vm\<lparr>vm_memory := (vm_memory vm)(?a := initialize (type_number ARRAY_TYPE)), vm_data := (vm_data vm)\<lparr>nursery := ba\<rparr>\<rparr>, Inr ?a)"
    "unat (ba_start ba) \<le> unat ?a" "\<forall>mem'. (\<forall>x. unat x < unat (ba_start ba) \<longrightarrow> mem' x = vm_memory vm x) \<longrightarrow> heap_wf (mem', (vm_data vm)\<lparr>nursery := ba\<rparr>)"
    using allot_object_nursery [OF room', of h "type_number ARRAY_TYPE"] by auto
  define mem1 where "mem1 = (vm_memory vm)(?a := initialize (type_number ARRAY_TYPE), array_capacity_field ?a := tag_fixnum (sint n))"
  define mem2 where "mem2 = memset_cell mem1 (array_data ?a) fill (n * sizeof_cell)"
  define vm' where "vm' = vm\<lparr>vm_memory := mem2, vm_data := (vm_data vm)\<lparr>nursery := ba\<rparr>\<rparr>"
  have run: "allot_array h n fill vm = Some (vm', Inr ?a)"
    by (simp add: allot_array_def with_data_root_def allot_uninitialized_array_def visit_simps ba(1) vm_write_def root_value_at_def
        memory_step_def vm'_def mem2_def mem1_def del: type_number.simps)
  have e: "unat (ba_end (nursery (vm_data vm))) < 2 ^ 63" using room heap_wf_layout(8) bump_wf_end(2) by (auto simp: nursery_room_def)
  have b: "unat ?a + (16 + 8 * unat n) < 2 ^ 63"
    using room e array_size_unat [OF n] by (simp add: nursery_room_def)
  have u8: "unat (?a + 8) = unat ?a + 8" and ud: "unat (array_data ?a) = unat ?a + 16"
    and un: "unat (n * sizeof_cell) = 8 * unat n" using b by (simp_all add: array_data_def sizeof_array_def unat_word_ariths)
  have hd: "mem2 ?a = initialize (type_number ARRAY_TYPE)" "mem2 (array_capacity_field ?a) = tag_fixnum (sint n)"
    using u8 ud by (auto simp: mem2_def memset_cell_def mem1_def array_capacity_field_def)
  then have cap: "array_capacity ARRAY_TYPE mem2 ?a = Some n"
    using n by (intro array_capacity_tagged) (simp_all add: initialize_header del: type_number.simps)
  have el: "array_nth mem2 ?a (of_nat i) = Some fill" if "i < unat n" for i
  proof -
    have ui: "unat (of_nat i :: cell) = i" using that n by (simp add: unat_of_nat)
    then have "unat (array_data ?a + of_nat i * sizeof_cell) = unat ?a + 16 + 8 * i"
      using that b ud by (simp add: unat_word_ariths)
    then have "mem2 (array_data ?a + of_nat i * sizeof_cell) = fill"
      using that by (simp add: mem2_def memset_cell_def ud un)
    moreover have "of_nat i < n" using that ui by (simp add: word_less_nat_alt)
    ultimately show ?thesis by (simp add: array_nth_def cap)
  qed
  have fr: "mem2 x = vm_memory vm x" if "unat x < unat ?a" for x
    using that u8 ud by (auto simp: mem2_def memset_cell_def mem1_def array_capacity_field_def)
  have "heap_wf (mem2, (vm_data vm)\<lparr>nursery := ba\<rparr>)" using ba(2,3) fr by auto
  then show ?thesis using run cap el fr by (intro exI [of _ vm'] exI [of _ ?a]) (simp add: vm'_def)
qed

text \<open>
  \<open>primitive_tuple\<close> fills one cell more than the tuple has slots: the cell behind the tuple
  is overwritten.
\<close>

lemma primitive_tuple_overruns:
  fixes vm c
  defines "t \<equiv> here (nursery (vm_data vm))" and "l \<equiv> vm_memory vm (datastack (contexts vm c))"
  assumes room: "nursery_room vm sz" and c: "ctx vm = Some c" and sz: "tuple_size (vm_memory vm) (UNTAG l) = Some sz" "16 \<le> unat sz" "unat sz mod 8 = 0"
    and apart: "tuple_layout_size_field (UNTAG l) \<noteq> t" "tuple_layout_size_field (UNTAG l) \<noteq> tuple_layout_field t"
      "datastack (contexts vm c) \<noteq> t + sz"
  shows "\<exists>vm'. primitive_tuple h vm = Some (vm', Inr ()) \<and> vm_memory vm' (t + sz) = false_object"
proof -
  let ?c = "(contexts vm c)\<lparr>datastack := datastack (contexts vm c) - sizeof_cell\<rparr>"
  let ?vm = "vm\<lparr>contexts := (contexts vm)(c := ?c)\<rparr>"
  let ?vm1 = "?vm\<lparr>data_roots := data_roots vm @ [l]\<rparr>"
  have pop: "ctx_pop vm = Some (?vm, Inr l)"
    by (simp add: ctx_pop_def current_ctx_def visit_simps c vm_ctx_step_def pop_def peek_def l_def)
  have room': "nursery_room ?vm1 sz" using room by (simp add: nursery_room_def)
  obtain ba where al: "allot_object h (type_number TUPLE_TYPE) sz ?vm1 =
      Some (?vm1\<lparr>vm_memory := (vm_memory vm)(t := initialize (type_number TUPLE_TYPE)), vm_data := (vm_data vm)\<lparr>nursery := ba\<rparr>\<rparr>, Inr t)"
    using allot_object_nursery [OF room', of h "type_number TUPLE_TYPE"] by (auto simp: t_def)
  define mem1 where "mem1 = (vm_memory vm)(t := initialize (type_number TUPLE_TYPE), tuple_layout_field t := l)"
  have sz1: "tuple_size mem1 (UNTAG l) = Some sz"
    using sz(1) apart(1,2) by (simp add: tuple_size_def tuple_capacity_def mem1_def)
  define mem2 where "mem2 = memset_cell mem1 (tuple_data t) false_object (sz - sizeof_cell)"
  define vm' where "vm' = vm\<lparr>vm_memory := mem2(datastack (contexts vm c) := tag_pointer TUPLE_TYPE t), vm_data := (vm_data vm)\<lparr>nursery := ba\<rparr>,
    contexts := (contexts vm)(c := contexts vm c)\<rparr>"
  have run: "primitive_tuple h vm = Some (vm', Inr ())"
    by (simp add: primitive_tuple_def pop with_data_root_def visit_simps sz(1) al root_value_at_def vm_write_def
        mem1_def [symmetric] sz1 memory_step_def mem2_def [symmetric] ctx_push_def current_ctx_def c vm_ctx_step_def push_def replace_def vm'_def
        del: type_number.simps)
  have e: "unat (ba_end (nursery (vm_data vm))) < 2 ^ 63" using room heap_wf_layout(8) bump_wf_end(2) by (auto simp: nursery_room_def)
  then have b: "unat t + unat sz < 2 ^ 63" using room by (simp add: nursery_room_def t_def)
  have "unat (tuple_data t) = unat t + 16" "unat (t + sz) = unat t + unat sz" "unat (sz - sizeof_cell) = unat sz - 8"
    using b sz(2) by (simp_all add: tuple_data_def sizeof_tuple_def unat_word_ariths unat_sub word_le_nat_alt)
  moreover have "(n - 16) mod 8 = 0" if "16 \<le> n" "n mod 8 = 0" for n :: nat using that by presburger
  ultimately have "mem2 (t + sz) = false_object" using sz(2,3) by (simp add: mem2_def memset_cell_def)
  then show ?thesis using run apart(3) by (intro exI [of _ vm']) (simp add: vm'_def)
qed

end
