(* ===== verification/VM_Primitives.thy ===== *)
theory VM_Primitives
  imports Allocation Math_Primitives
begin

text \<open>
  Primitives over the whole state that allocate or walk the heaps: numbers as objects,
  cloning, \<open>become\<close> and heap walking (\<open>vm/objects.cpp\<close>, \<open>vm/data_heap.cpp\<close>,
  \<open>vm/vm.hpp\<close>), contexts and callbacks (\<open>vm/contexts.cpp\<close>, \<open>vm/callbacks.cpp\<close>), foreign
  memory (\<open>vm/alien.cpp\<close>) and the small allocating primitives of \<open>vm/words.cpp\<close> and
  \<open>vm/quotations.cpp\<close>.
\<close>

unbundle bit_operations_syntax

section \<open>Numbers\<close>

text \<open>A bignum as an object: the sign and the digits are the elements of an array of cells.\<close>

definition vm_allot_bignum :: "host \<Rightarrow> bignum \<Rightarrow> (factor_vm, cell) visit" where
  "vm_allot_bignum h bn =
     vbind (allot_uninitialized_array h BIGNUM_TYPE (of_nat (length (bignum_data bn)))) (\<lambda>a.
     vthen (vfor_each (\<lambda>(i, d). vm_write (array_data a + sizeof_cell * of_nat i) (word_of_int d)) (enumerate 0 (bignum_data bn)))
     (vreturn a))"

definition vm_from_unsigned_cell :: "host \<Rightarrow> cell \<Rightarrow> (factor_vm, cell) visit" where
  "vm_from_unsigned_cell h n =
     (if n > word_of_int fixnum_max then vbind (vm_allot_bignum h (cell_to_bignum n)) (\<lambda>a. vreturn (tag_pointer BIGNUM_TYPE a))
      else vreturn (tag_fixnum (sint n)))"

definition vm_from_signed_cell :: "host \<Rightarrow> fixnum \<Rightarrow> (factor_vm, cell) visit" where
  "vm_from_signed_cell h n =
     (if n < fixnum_min \<or> n > fixnum_max
      then vbind (vm_allot_bignum h (fixnum_to_bignum n)) (\<lambda>a. vreturn (tag_pointer BIGNUM_TYPE a))
      else vreturn (tag_fixnum n))"

definition vm_tag_boolean :: "bool \<Rightarrow> (factor_vm, cell) visit" where
  "vm_tag_boolean b = (if b then special OBJ_CANONICAL_TRUE else vreturn false_object)"

section \<open>Objects\<close>

definition primitive_clone :: "host \<Rightarrow> (factor_vm, unit) visit" where
  "primitive_clone h =
     vbind ctx_peek (\<lambda>v. with_data_root v (\<lambda>obj.
     if immediate_p v then vreturn ()
     else
       vbind (vm_object_size (UNTAG v)) (\<lambda>sz.
       vbind (allot_object h (TAG v) sz) (\<lambda>new_obj.
       vbind (root_value_at obj) (\<lambda>v'.
       vthen (memory_step (memmove new_obj (UNTAG v') sz))
       (vthen (memory_step (\<lambda>mem. mem(new_obj := set_hashcode (mem new_obj) 0)))
       (vbind (vget (\<lambda>vm. tag_dynamic (vm_memory vm) new_obj)) ctx_replace)))))))"

definition primitive_size :: "host \<Rightarrow> (factor_vm, unit) visit" where
  "primitive_size h =
     vbind ctx_peek (\<lambda>v.
     vbind (if immediate_p v then vreturn 0 else vm_object_size (UNTAG v)) (\<lambda>sz.
     vbind (vm_from_unsigned_cell h sz) ctx_replace))"

text \<open>
  Walking the heap: the collector is off and the nursery must be empty. The walk reads the
  memory the visitor has changed.
\<close>

definition walk_objects :: "(cell \<Rightarrow> (factor_vm, unit) visit) \<Rightarrow> (factor_vm, unit) visit" where
  "walk_objects iterator vm =
     map_option (\<lambda>(mem, vm'). (vm'\<lparr>vm_memory := mem\<rparr>, Inr ()))
       (each_object (nursery (vm_data vm)) (tenured (vm_data vm)) (aging (vm_data vm))
          (\<lambda>obj (mem, vm'). case iterator obj (vm'\<lparr>vm_memory := mem\<rparr>) of
             Some (vm'', Inr _) \<Rightarrow> Some (vm_memory vm'', vm'') | _ \<Rightarrow> None)
          (vm_memory vm, vm))"

definition vm_each_object :: "(cell \<Rightarrow> (factor_vm, unit) visit) \<Rightarrow> (factor_vm, unit) visit" where
  "vm_each_object iterator =
     vthen (vmodify (\<lambda>vm. vm\<lparr>gc_off := True\<rparr>))
     (vthen (walk_objects iterator) (vmodify (\<lambda>vm. vm\<lparr>gc_off := False\<rparr>)))"

text \<open>\<open>None\<close> stands for \<open>TYPE_COUNT\<close>: objects of every type.\<close>

definition collect_instances :: "cell option \<Rightarrow> (factor_vm, cell list) visit" where
  "collect_instances ty vm =
     map_option (\<lambda>(mem, objects). (vm, Inr objects))
       (each_object (nursery (vm_data vm)) (tenured (vm_data vm)) (aging (vm_data vm))
          (\<lambda>obj (mem, objects).
             Some (mem, if ty = None \<or> ty = Some (object_type (mem obj)) then objects @ [tag_dynamic mem obj] else objects))
          (vm_memory vm, []))"

definition instances :: "host \<Rightarrow> cell option \<Rightarrow> (factor_vm, cell) visit" where
  "instances h ty =
     vthen (primitive_full_gc h)
     (vthen (vmodify (\<lambda>vm. vm\<lparr>gc_off := True\<rparr>))
     (vbind (collect_instances ty) (\<lambda>objects.
      vthen (vmodify (\<lambda>vm. vm\<lparr>gc_off := False\<rparr>)) (std_vector_to_array h objects))))"

definition primitive_all_instances :: "host \<Rightarrow> (factor_vm, unit) visit" where
  "primitive_all_instances h = vbind (instances h None) ctx_push"

text \<open>
  \<open>become\<close> replaces objects by others: the visitor runs with a map as fix-up over the roots,
  the objects and the code blocks.
\<close>

definition slot_become_fixup :: "(cell \<Rightarrow> cell option) \<Rightarrow> fixup" where
  "slot_become_fixup become_map =
     no_fixup\<lparr>fixup_data := \<lambda>old. vreturn (case become_map old of Some new \<Rightarrow> new | None \<Rightarrow> old)\<rparr>"

primrec become_pairs :: "memory \<Rightarrow> cell \<Rightarrow> cell \<Rightarrow> nat \<Rightarrow> cell \<Rightarrow> (cell \<Rightarrow> cell option) \<Rightarrow> (cell \<Rightarrow> cell option) option" where
  "become_pairs mem old_objects new_objects 0 i become_map = Some become_map"
| "become_pairs mem old_objects new_objects (Suc n) i become_map = do {
     old_ptr \<leftarrow> array_nth mem old_objects i;
     new_ptr \<leftarrow> array_nth mem new_objects i;
     become_pairs mem old_objects new_objects n (i + 1)
       (if old_ptr \<noteq> new_ptr then become_map(UNTAG old_ptr \<mapsto> UNTAG new_ptr) else become_map) }"

definition become_references :: "host \<Rightarrow> fixup \<Rightarrow> (factor_vm, unit) visit" where
  "become_references h fu =
     vthen (visit_all_roots h fu)
     (vthen (vm_each_object (visit_slots fu))
     (each_code_block (\<lambda>compiled sz.
        vthen (visit_code_block_objects fu compiled)
        (vthen (visit_embedded_literals fu compiled) (code_heap_modify (code_write_barrier compiled))))))"

definition primitive_become :: "host \<Rightarrow> (factor_vm, unit) visit" where
  "primitive_become h =
     vthen (primitive_minor_gc h)
     (vbind ctx_pop (\<lambda>x. vbind (untag_check ARRAY_TYPE x) (\<lambda>new_objects.
      vbind ctx_pop (\<lambda>y. vbind (untag_check ARRAY_TYPE y) (\<lambda>old_objects.
      vbind (vm_array_capacity ARRAY_TYPE new_objects) (\<lambda>capacity.
      vbind (vm_array_capacity ARRAY_TYPE old_objects) (\<lambda>capacity'.
      vthen (vassert (capacity = capacity'))
      (vbind (vbind vm_mem (\<lambda>mem. vlift (become_pairs mem old_objects new_objects (unat capacity) 0 Map.empty))) (\<lambda>become_map.
       vthen (become_references h (slot_become_fixup become_map))
       (vmodify (\<lambda>vm. vm\<lparr>vm_data := mark_all_cards (vm_data vm)\<rparr>)))))))))))"

section \<open>Contexts\<close>

definition init_context :: "host \<Rightarrow> cell \<Rightarrow> (factor_vm, unit) visit" where
  "init_context h c =
     vbind (allot_alien h c) (\<lambda>v.
     vm_ctx_update c (\<lambda>x. x\<lparr>context_objects := (context_objects x)[context_object_index OBJ_CONTEXT := v]\<rparr>))"

text \<open>The address of a context that is not taken from the pool is an argument.\<close>

definition vm_new_context :: "host \<Rightarrow> cell \<Rightarrow> (factor_vm, cell) visit" where
  "vm_new_context h fresh =
     vbind (new_context (host_debug h) (host_alloc_segment h) fresh) (\<lambda>c. vthen (init_context h c) (vreturn c))"

definition reset_current_context :: "host \<Rightarrow> cell \<Rightarrow> (factor_vm, unit) visit" where
  "reset_current_context h c = vm_ctx_step c (\<lambda>s. (reset_stacks (host_debug h) s, ()))"

definition reset_context :: "host \<Rightarrow> (factor_vm, unit) visit" where
  "reset_context h =
     vbind current_ctx (\<lambda>c. vbind ctx_pop (\<lambda>arg1. vbind ctx_pop (\<lambda>arg2.
     vthen (reset_current_context h c)
     (vthen (ctx_push arg2) (vthen (ctx_push arg1) (init_context h c))))))"

definition begin_callback :: "host \<Rightarrow> cell \<Rightarrow> cell \<Rightarrow> (factor_vm, cell) visit" where
  "begin_callback h fresh quot0 =
     with_data_root quot0 (\<lambda>quot.
     vbind current_ctx (\<lambda>c.
     vthen (reset_current_context h c)
     (vbind (new_context (host_debug h) (host_alloc_segment h) fresh) (\<lambda>spare.
      vthen (vmodify (\<lambda>vm. vm\<lparr>spare_ctx := Some spare, callback_ids := callback_ids vm @ [callback_id vm],
        callback_id := callback_id vm + 1\<rparr>))
      (vthen (init_context h c) (root_value_at quot))))))"

definition primitive_context_object_for :: "(factor_vm, unit) visit" where
  "primitive_context_object_for =
     vbind ctx_pop (\<lambda>a. vbind (pinned_alien_offset a) (\<lambda>other.
     vbind ctx_peek (\<lambda>v. vbind (vlift (untag_fixnum v)) (\<lambda>n.
     vbind (vget (\<lambda>vm. context_objects (contexts vm other))) (\<lambda>xs.
     vbind (vlift (context_object_at xs n)) ctx_replace)))))"

definition stack_to_array :: "host \<Rightarrow> cell \<Rightarrow> cell \<Rightarrow> vm_error_type \<Rightarrow> (factor_vm, cell) visit" where
  "stack_to_array h bottom top_ptr error =
     (let depth = top_ptr - bottom + sizeof_cell in
      if sint depth < 0 then vthrow (general_error error false_object false_object)
      else
        vbind (allot_uninitialized_array h ARRAY_TYPE (depth div sizeof_cell)) (\<lambda>a.
        vthen (memory_step (memmove (array_data a) bottom depth)) (vreturn (tag_pointer ARRAY_TYPE a))))"

definition datastack_to_array :: "host \<Rightarrow> cell \<Rightarrow> (factor_vm, cell) visit" where
  "datastack_to_array h c =
     vbind (vget (\<lambda>vm. contexts vm c)) (\<lambda>x.
     stack_to_array h (seg_start (datastack_seg x)) (datastack x) ERROR_DATASTACK_UNDERFLOW)"

definition retainstack_to_array :: "host \<Rightarrow> cell \<Rightarrow> (factor_vm, cell) visit" where
  "retainstack_to_array h c =
     vbind (vget (\<lambda>vm. contexts vm c)) (\<lambda>x.
     stack_to_array h (seg_start (retainstack_seg x)) (retainstack x) ERROR_RETAINSTACK_UNDERFLOW)"

definition primitive_datastack_for :: "host \<Rightarrow> (factor_vm, unit) visit" where
  "primitive_datastack_for h =
     vbind ctx_pop (\<lambda>a. with_data_root a (\<lambda>root.
     vbind (pinned_alien_offset a) (\<lambda>other. vbind (datastack_to_array h other) ctx_push)))"

definition primitive_retainstack_for :: "host \<Rightarrow> (factor_vm, unit) visit" where
  "primitive_retainstack_for h =
     vbind ctx_peek (\<lambda>a. vbind (pinned_alien_offset a) (\<lambda>other. vbind (retainstack_to_array h other) ctx_replace))"

section \<open>Callbacks\<close>

definition primitive_callback :: "host \<Rightarrow> (factor_vm, unit) visit" where
  "primitive_callback h =
     vbind ctx_pop (\<lambda>r. vbind (vm_to_cell r) (\<lambda>return_rewind.
     vbind ctx_pop (\<lambda>w. vthen (check_tagged WORD_TYPE w)
     (vbind (callback_add h w return_rewind) (\<lambda>stub.
      vbind (allot_alien h (block_entry_point stub)) ctx_push)))))"

definition primitive_free_callback :: "(factor_vm, unit) visit" where
  "primitive_free_callback =
     vbind ctx_pop (\<lambda>a. vbind (alien_offset a) (\<lambda>entry_point.
     vm_callback_step (\<lambda>s. map_option (\<lambda>s'. (s', ()))
       (case block_size (fst s) (entry_point - sizeof_code_block) of
          None \<Rightarrow> None
        | Some sz \<Rightarrow> free_block (\<lambda>_ _. sz) s (entry_point - sizeof_code_block)))))"

section \<open>Foreign memory\<close>

definition primitive_alien_address :: "host \<Rightarrow> (factor_vm, unit) visit" where
  "primitive_alien_address h =
     vbind ctx_peek (\<lambda>a. vbind (pinned_alien_offset a) (\<lambda>p. vbind (vm_from_unsigned_cell h p) ctx_replace))"

text \<open>
  The integer accessors that the macro generates: their width in bytes and whether they are
  signed. On this machine the eight-byte conversions are those of cells.
\<close>

datatype alien_type =
    signed_cell | unsigned_cell | signed_8 | unsigned_8 | signed_4 | unsigned_4 | signed_2 | unsigned_2 | signed_1 | unsigned_1

fun alien_width :: "alien_type \<Rightarrow> nat" where
  "alien_width signed_4 = 4" | "alien_width unsigned_4 = 4"
| "alien_width signed_2 = 2" | "alien_width unsigned_2 = 2"
| "alien_width signed_1 = 1" | "alien_width unsigned_1 = 1"
| "alien_width _ = 8"

fun alien_signed :: "alien_type \<Rightarrow> bool" where
  "alien_signed signed_cell = True" | "alien_signed signed_8 = True" | "alien_signed signed_4 = True"
| "alien_signed signed_2 = True" | "alien_signed signed_1 = True"
| "alien_signed _ = False"

definition primitive_alien :: "host \<Rightarrow> alien_type \<Rightarrow> (factor_vm, unit) visit" where
  "primitive_alien h ty =
     vbind alien_pointer (\<lambda>p. vbind (vget (\<lambda>vm. load_le (alien_width ty) (vm_memory vm) p)) (\<lambda>v.
     vbind (if alien_signed ty then vm_from_signed_cell h (signed_take_bit (8 * alien_width ty - 1) (uint v))
            else vm_from_unsigned_cell h v) ctx_push))"

definition primitive_set_alien :: "alien_type \<Rightarrow> (factor_vm, unit) visit" where
  "primitive_set_alien ty =
     vbind alien_pointer (\<lambda>p. vbind ctx_pop (\<lambda>x.
     vbind (if alien_signed ty then vbind (vm_to_fixnum x) (\<lambda>n. vreturn (word_of_int n)) else vm_to_cell x) (\<lambda>v.
     memory_step (\<lambda>mem. store_le (alien_width ty) mem p v))))"

definition primitive_alien_cell :: "host \<Rightarrow> (factor_vm, unit) visit" where
  "primitive_alien_cell h =
     vbind alien_pointer (\<lambda>p. vbind (vget (\<lambda>vm. load_cell (vm_memory vm) p)) (\<lambda>v. vbind (allot_alien h v) ctx_push))"

definition primitive_set_alien_cell :: "(factor_vm, unit) visit" where
  "primitive_set_alien_cell =
     vbind alien_pointer (\<lambda>p. vbind ctx_pop (\<lambda>x. vbind (pinned_alien_offset x) (\<lambda>v.
     memory_step (\<lambda>mem. store_cell mem p v))))"

text \<open>The linker is asked with the characters of the name, whose address it gets.\<close>

definition primitive_dlsym :: "host \<Rightarrow> (factor_vm, unit) visit" where
  "primitive_dlsym h =
     vbind ctx_pop (\<lambda>l. with_data_root l (\<lambda>library.
     vbind ctx_peek (\<lambda>n. with_data_root n (\<lambda>nm.
     vthen (check_tagged BYTE_ARRAY_TYPE n)
     (let lookup = (\<lambda>d. vbind vm_mem (\<lambda>mem. vbind (allot_alien h (host_dlsym h d mem (array_data (UNTAG n)))) ctx_replace)) in
      if to_boolean l then
        vbind (untag_check DLL_TYPE l) (\<lambda>d. vbind (vm_read (dll_handle_field d)) (\<lambda>hd.
        if hd = 0 then ctx_replace false_object else lookup (Some hd)))
      else lookup None)))))"

definition primitive_dll_validp :: "(factor_vm, unit) visit" where
  "primitive_dll_validp =
     vbind ctx_peek (\<lambda>l.
     if to_boolean l then
       vbind (untag_check DLL_TYPE l) (\<lambda>d. vbind (vm_read (dll_handle_field d)) (\<lambda>hd.
       vbind (vm_tag_boolean (hd \<noteq> 0)) ctx_replace))
     else vbind (special OBJ_CANONICAL_TRUE) ctx_replace)"

section \<open>Words and quotations\<close>

definition primitive_wrapper :: "host \<Rightarrow> (factor_vm, unit) visit" where
  "primitive_wrapper h =
     vbind (allot_type h WRAPPER_TYPE sizeof_wrapper) (\<lambda>w.
     vbind ctx_peek (\<lambda>v. vthen (vm_write (wrapper_object_field w) v) (ctx_replace (tag_pointer WRAPPER_TYPE w))))"

definition primitive_array_to_quotation :: "host \<Rightarrow> (factor_vm, unit) visit" where
  "primitive_array_to_quotation h =
     vbind (allot_type h QUOTATION_TYPE sizeof_quotation) (\<lambda>q.
     vbind ctx_peek (\<lambda>v.
     vthen (vm_write (quotation_array_field q) v)
     (vthen (vm_write (q + 16) false_object)
     (vthen (vm_write (q + 24) false_object)
     (vbind lazy_jit_compile_entry_point (\<lambda>e.
      vthen (vm_write (quotation_entry_point_field q) e) (ctx_replace (tag_pointer QUOTATION_TYPE q))))))))"

text \<open>The entry point and the end of the code block, found again after the first allocation.\<close>

definition push_code_bounds :: "host \<Rightarrow> nat \<Rightarrow> (cell \<Rightarrow> cell) \<Rightarrow> (memory \<Rightarrow> cell \<Rightarrow> cell option) \<Rightarrow> (factor_vm, unit) visit" where
  "push_code_bounds h root entry_point_field code =
     vbind (root_value_at root) (\<lambda>v. vbind (vm_read (entry_point_field (UNTAG v))) (\<lambda>e.
     vthen (vbind (vm_from_unsigned_cell h e) ctx_push)
     (vbind (root_value_at root) (\<lambda>v'. vbind (vbind vm_mem (\<lambda>mem. vlift (code mem (UNTAG v')))) (\<lambda>compiled.
      vbind (vbind vm_mem (\<lambda>mem. vlift (block_size mem compiled))) (\<lambda>sz.
      vbind (vm_from_unsigned_cell h (compiled + sz)) ctx_push))))))"

definition primitive_word_code :: "host \<Rightarrow> (factor_vm, unit) visit" where
  "primitive_word_code h =
     vbind ctx_pop (\<lambda>w. with_data_root w (\<lambda>root.
     vthen (check_tagged WORD_TYPE w) (push_code_bounds h root word_entry_point_field word_code)))"

definition primitive_quotation_code :: "host \<Rightarrow> (factor_vm, unit) visit" where
  "primitive_quotation_code h =
     vbind ctx_pop (\<lambda>q. with_data_root q (\<lambda>root. push_code_bounds h root quotation_entry_point_field quotation_code))"

definition primitive_word_optimized_p :: "(factor_vm, unit) visit" where
  "primitive_word_optimized_p =
     vbind ctx_peek (\<lambda>v. vbind (untag_check WORD_TYPE v) (\<lambda>w.
     vbind (vbind vm_mem (\<lambda>mem. vlift (word_code mem w))) (\<lambda>compiled.
     vbind (vget (\<lambda>vm. block_type (vm_memory vm) compiled)) (\<lambda>t.
     vbind (vm_tag_boolean (t = code_block_type_number CODE_BLOCK_OPTIMIZED)) ctx_replace))))"

definition primitive_quotation_compiled_p :: "(factor_vm, unit) visit" where
  "primitive_quotation_compiled_p =
     vbind ctx_pop (\<lambda>v. vbind (untag_check QUOTATION_TYPE v) (\<lambda>q.
     vbind (quotation_compiled_p q) (\<lambda>b. vbind (vm_tag_boolean b) ctx_push)))"

end
