(* ===== verification/Image.thy ===== *)
theory Image
  imports VM_Primitives
begin

text \<open>
  Reading and writing files (\<open>vm/io.cpp\<close>) and the image (\<open>vm/image.hpp\<close>, \<open>vm/image.cpp\<close>):
  the file that holds both heaps, and the relocation of every pointer when it is loaded at
  other addresses.

  A stream of the C library is the bytes that are left and, for each of the next calls, how
  many items it transfers before a signal interrupts it. Opening, closing and renaming files
  is left to the operating system.
\<close>

unbundle bit_operations_syntax

section \<open>Streams\<close>

record stream =
  pending :: "8 word list"
  bursts :: "nat list"
  at_eof :: bool
  interrupted :: bool

text \<open>\<open>fread\<close>: the bytes delivered, the number of whole items, and the stream afterwards.\<close>

definition fread :: "nat \<Rightarrow> nat \<Rightarrow> stream \<Rightarrow> 8 word list \<times> nat \<times> stream" where
  "fread sz n st =
     (let avail = length (pending st) div sz;
          limit = (case bursts st of [] \<Rightarrow> n | b # _ \<Rightarrow> min b n);
          k = min limit avail
      in (take (k * sz) (pending st), k,
          st\<lparr>pending := drop (k * sz) (pending st), bursts := tl (bursts st), at_eof := avail < limit,
             interrupted := limit < n \<and> \<not> avail < limit\<rparr>))"

definition store_bytes :: "cell \<Rightarrow> 8 word list \<Rightarrow> memory \<Rightarrow> memory" where
  "store_bytes dest bs mem = fold (\<lambda>(i, b) m. store_u8 m (dest + of_nat i) b) (enumerate 0 bs) mem"

text \<open>
  The destination of each transfer is computed with pointers to four-byte integers, so that
  the number of bytes read so far is multiplied by four. The result is the number of items.
\<close>

partial_function (option) raw_fread_loop :: "cell \<Rightarrow> nat \<Rightarrow> nat \<Rightarrow> nat \<Rightarrow> memory \<times> stream \<Rightarrow> (nat \<times> memory \<times> stream) option" where
  "raw_fread_loop ptr sz nitems items_read ms =
     (let (mem, st) = ms;
          (bs, ret, st') = fread sz (nitems - items_read) st;
          mem' = store_bytes (ptr + 4 * of_nat (items_read * sz)) bs mem
      in if ret = 0 \<and> at_eof st' then Some (items_read, mem', st')
         else if ret = 0 \<and> \<not> interrupted st' then Some (0, mem', st')
         else if items_read + ret \<noteq> nitems then raw_fread_loop ptr sz nitems (items_read + ret) (mem', st')
         else Some (items_read + ret, mem', st'))"

definition raw_fread :: "cell \<Rightarrow> nat \<Rightarrow> nat \<Rightarrow> memory \<times> stream \<Rightarrow> (nat \<times> memory \<times> stream) option" where
  "raw_fread ptr sz nitems ms = (if nitems > 0 then raw_fread_loop ptr sz nitems 0 ms else None)"

definition memory_bytes :: "memory \<Rightarrow> cell \<Rightarrow> nat \<Rightarrow> 8 word list" where
  "memory_bytes mem a n = map (\<lambda>i. load_u8 mem (a + of_nat i)) [0..<n]"

text \<open>Writing: the number of items each call accepts, and the bytes written so far.\<close>

partial_function (option) safe_fwrite_loop :: "memory \<Rightarrow> cell \<Rightarrow> nat \<Rightarrow> nat \<Rightarrow> nat \<Rightarrow> nat list \<times> 8 word list \<Rightarrow> (nat \<times> nat list \<times> 8 word list) option" where
  "safe_fwrite_loop mem ptr sz nitems items_written out =
     (let (accepted, written) = out;
          ret = (case accepted of [] \<Rightarrow> nitems - items_written | b # _ \<Rightarrow> min b (nitems - items_written));
          out' = (tl accepted, written @ memory_bytes mem (ptr + 4 * of_nat (items_written * sz)) (ret * sz))
      in if items_written + ret \<noteq> nitems then safe_fwrite_loop mem ptr sz nitems (items_written + ret) out'
         else Some (items_written + ret, out'))"

definition safe_fwrite :: "memory \<Rightarrow> cell \<Rightarrow> nat \<Rightarrow> nat \<Rightarrow> nat list \<times> 8 word list \<Rightarrow> (nat \<times> nat list \<times> 8 word list) option" where
  "safe_fwrite mem ptr sz nitems out = safe_fwrite_loop mem ptr sz nitems 0 out"

declare raw_fread_loop.simps [simp del] safe_fwrite_loop.simps [simp del]

section \<open>The header\<close>

definition image_magic :: cell where
  "image_magic = 0x0f0e0d0c"

definition image_version :: cell where
  "image_version = 4"

record image_header =
  header_magic :: cell
  header_version :: cell
  data_relocation_base :: cell
  header_data_size :: cell
  code_relocation_base :: cell
  header_code_size :: cell
  header_special_objects :: "cell list"

definition cell_bytes :: "cell \<Rightarrow> 8 word list" where
  "cell_bytes v = map (\<lambda>k. ucast (drop_bit (8 * k) v)) [0..<8]"

text \<open>The layout of the header in the file: six cells, four reserved ones, the special objects.\<close>

definition header_cells :: "image_header \<Rightarrow> cell list" where
  "header_cells hdr =
     [header_magic hdr, header_version hdr, data_relocation_base hdr, header_data_size hdr, code_relocation_base hdr, header_code_size hdr,
      0, 0, 0, 0] @ header_special_objects hdr"

definition header_length :: nat where
  "header_length = 10 + special_object_count"

definition header_bytes :: "image_header \<Rightarrow> 8 word list" where
  "header_bytes hdr = concat (map cell_bytes (header_cells hdr))"

definition header_of_cells :: "cell list \<Rightarrow> image_header" where
  "header_of_cells cs =
     \<lparr>header_magic = cs ! 0, header_version = cs ! 1, data_relocation_base = cs ! 2, header_data_size = cs ! 3,
      code_relocation_base = cs ! 4, header_code_size = cs ! 5, header_special_objects = drop 10 cs\<rparr>"

text \<open>The header is read into a local variable.\<close>

definition read_header :: "stream \<Rightarrow> (image_header \<times> stream) option" where
  "read_header st = do {
     (k, mem, st') \<leftarrow> raw_fread 0 (8 * header_length) 1 (\<lambda>_. 0, st);
     if k = 1 then Some (header_of_cells (map (\<lambda>i. load_cell mem (8 * of_nat i)) [0..<header_length]), st') else None }"

section \<open>Loading\<close>

record vm_parameters =
  param_datastack_size :: cell
  param_retainstack_size :: cell
  param_callstack_size :: cell
  param_young_size :: cell
  param_aging_size :: cell
  param_tenured_size :: cell
  param_code_size :: cell
  param_max_pic_size :: cell
  param_callback_size :: cell

definition default_parameters :: vm_parameters where
  "default_parameters =
     \<lparr>param_datastack_size = 32 * sizeof_cell, param_retainstack_size = 32 * sizeof_cell, param_callstack_size = 128 * sizeof_cell,
      param_young_size = sizeof_cell div 4, param_aging_size = sizeof_cell div 2, param_tenured_size = 24 * sizeof_cell,
      param_code_size = 64, param_max_pic_size = 3, param_callback_size = 256\<rparr>"

text \<open>A truncated image is a fatal error.\<close>

definition read_exactly :: "cell \<Rightarrow> cell \<Rightarrow> memory \<times> stream \<Rightarrow> (memory \<times> stream) option" where
  "read_exactly dest n ms = do {
     (k, mem, st) \<leftarrow> raw_fread dest 1 (unat n) ms;
     if k = unat n then Some (mem, st) else None }"

definition load_data_heap :: "host \<Rightarrow> image_header \<Rightarrow> vm_parameters \<Rightarrow> memory \<times> stream \<Rightarrow> (data_heap \<times> memory \<times> stream) option" where
  "load_data_heap h hdr p ms =
     (let n = header_data_size hdr; sz = max (n * 3 div 2) (param_tenured_size p) in do {
        (mem1, d) \<leftarrow> new_data_heap (host_alloc_segment h) (host_garbage h) (fst ms) (param_young_size p) (param_aging_size p) sz;
        (mem2, st) \<leftarrow> read_exactly (fl_start (ts_free (tenured d))) n (mem1, snd ms);
        (mem3, fl) \<leftarrow> initial_free_list (mem2, ts_free (tenured d)) n;
        Some (d\<lparr>tenured := (tenured d)\<lparr>ts_free := fl\<rparr>\<rparr>, mem3, st) })"

definition load_code_heap :: "host \<Rightarrow> image_header \<Rightarrow> vm_parameters \<Rightarrow> memory \<times> stream \<Rightarrow> (code_heap \<times> memory \<times> stream) option" where
  "load_code_heap h hdr p ms =
     (let n = header_code_size hdr in
      if n > param_code_size p then None
      else do {
        (mem1, ch) \<leftarrow> new_code_heap (host_alloc_segment h) (host_pagesize h) (fst ms) (param_code_size p);
        (mem2, st) \<leftarrow> (if n \<noteq> 0 then read_exactly (fl_start (ch_allocator ch)) n (mem1, snd ms) else Some (mem1, snd ms));
        (mem3, fl) \<leftarrow> initial_free_list (mem2, ch_allocator ch) n;
        ch' \<leftarrow> initialize_all_blocks_set (host_debug h) mem3 (ch\<lparr>ch_allocator := fl\<rparr>);
        Some (ch', mem3, st) })"

definition startup_fixup :: "cell \<Rightarrow> cell \<Rightarrow> fixup" where
  "startup_fixup data_offset code_offset =
     \<lparr>translated_code_block_map = True, fixup_data = (\<lambda>obj. vreturn (obj + data_offset)), fixup_code = (\<lambda>b. vreturn (b + code_offset)),
      translate_data = (\<lambda>vm obj. Some (obj + data_offset)), translate_code = (\<lambda>vm b. Some (b + code_offset))\<rparr>"

text \<open>
  An alien with a base follows it; any other alien has expired. Opening a library again is an
  argument.
\<close>

definition start_object_updater :: "(cell \<Rightarrow> (factor_vm, unit) visit) \<Rightarrow> fixup \<Rightarrow> cell \<Rightarrow> (factor_vm, unit) visit" where
  "start_object_updater ffi_dlopen fu obj =
     vthen (vcomponent (\<lambda>vm. ts_starts (tenured (vm_data vm)))
        (\<lambda>st vm. vm\<lparr>vm_data := (vm_data vm)\<lparr>tenured := (tenured (vm_data vm))\<lparr>ts_starts := st\<rparr>\<rparr>\<rparr>)
        (\<lambda>st. map_option (\<lambda>st'. (st', ())) (record_object_start_offset st obj)))
     (vthen (visit_slots fu obj)
     (vbind (vm_object_type obj) (\<lambda>t.
      if t = type_number ALIEN_TYPE then
        vbind (vm_read (alien_base_field obj)) (\<lambda>base.
        if to_boolean base then memory_step (\<lambda>mem. update_address mem obj)
        else vbind (special OBJ_CANONICAL_TRUE) (vm_write (alien_expired_field obj)))
      else if t = type_number DLL_TYPE then ffi_dlopen obj
      else visit_object_code_block fu obj)))"

definition start_code_updater :: "host \<Rightarrow> fixup \<Rightarrow> cell \<Rightarrow> cell \<Rightarrow> (factor_vm, unit) visit" where
  "start_code_updater h fu code_offset compiled =
     vthen (visit_code_block_objects fu compiled)
     (visit_instruction_operands h fu compiled (block_entry_point compiled - code_offset))"

definition fixup_heaps :: "host \<Rightarrow> (cell \<Rightarrow> (factor_vm, unit) visit) \<Rightarrow> cell \<Rightarrow> cell \<Rightarrow> (factor_vm, unit) visit" where
  "fixup_heaps h ffi_dlopen data_offset code_offset =
     (let fu = startup_fixup data_offset code_offset in
      vthen (visit_all_roots h fu)
      (vthen (vbind (vget (\<lambda>vm. ts_free (tenured (vm_data vm)))) (\<lambda>fl.
         iterate_blocks (\<lambda>vm. object_size_fixup (translate_data fu vm) (vm_memory vm))
           (\<lambda>obj sz. start_object_updater ffi_dlopen fu obj) (fl_end fl) (fl_start fl)))
      (each_code_block (\<lambda>compiled sz. start_code_updater h fu code_offset compiled))))"

definition load_image :: "host \<Rightarrow> (cell \<Rightarrow> (factor_vm, unit) visit) \<Rightarrow> vm_parameters \<Rightarrow> stream \<Rightarrow> (factor_vm, unit) visit" where
  "load_image h ffi_dlopen p st0 vm =
     (case read_header st0 of
        None \<Rightarrow> None
      | Some (hdr, st1) \<Rightarrow>
          if header_magic hdr = image_magic \<and> header_version hdr = image_version then do {
            (d, mem1, st2) \<leftarrow> load_data_heap h hdr p (vm_memory vm, st1);
            (ch, mem2, st3) \<leftarrow> load_code_heap h hdr p (mem1, st2);
            fixup_heaps h ffi_dlopen (fl_start (ts_free (tenured d)) - data_relocation_base hdr)
              (fl_start (ch_allocator ch) - code_relocation_base hdr)
              (vm\<lparr>vm_memory := mem2, vm_data := d, vm_code := ch, special_objects := header_special_objects hdr\<rparr>) }
          else None)"

section \<open>Saving\<close>

definition image_header_of :: "factor_vm \<Rightarrow> image_header" where
  "image_header_of vm =
     \<lparr>header_magic = image_magic, header_version = image_version,
      data_relocation_base = fl_start (ts_free (tenured (vm_data vm))), header_data_size = fl_occupied_space (ts_free (tenured (vm_data vm))),
      code_relocation_base = fl_start (ch_allocator (vm_code vm)), header_code_size = fl_occupied_space (ch_allocator (vm_code vm)),
      header_special_objects = map (\<lambda>i. if save_special_p (of_nat i) then special_objects vm ! i else false_object) [0..<special_object_count]\<rparr>"

text \<open>The bytes of the image file.\<close>

definition save_image :: "factor_vm \<Rightarrow> 8 word list" where
  "save_image vm =
     (let hdr = image_header_of vm in
      header_bytes hdr @
      memory_bytes (vm_memory vm) (data_relocation_base hdr) (unat (header_data_size hdr)) @
      memory_bytes (vm_memory vm) (code_relocation_base hdr) (unat (header_code_size hdr)))"

definition strip_for_exit :: "(factor_vm, unit) visit" where
  "strip_for_exit =
     vthen (vmodify (\<lambda>vm. vm\<lparr>special_objects :=
         map (\<lambda>i. if save_special_p (of_nat i) then special_objects vm ! i else false_object) [0..<special_object_count],
       active_contexts := [], vm_code := (vm_code vm)\<lparr>uninitialized_blocks := []\<rparr>\<rparr>))
     (vm_callback_step (\<lambda>s. map_option (\<lambda>s'. (s', ())) (initial_free_list s 0)))"

text \<open>
  \<open>write_file\<close> says whether the file could be written and renamed, and with which error
  number otherwise. A process that ends after saving has no further state.
\<close>

definition primitive_save_image :: "host \<Rightarrow> (8 word list \<Rightarrow> fixnum option) \<Rightarrow> (factor_vm, unit) visit" where
  "primitive_save_image h write_file =
     vbind ctx_pop (\<lambda>t. vbind ctx_pop (\<lambda>path2. vthen (check_tagged BYTE_ARRAY_TYPE path2)
     (vbind ctx_pop (\<lambda>path1. vthen (check_tagged BYTE_ARRAY_TYPE path1)
     (vthen (vwhen (to_boolean t) strip_for_exit)
     (vthen (primitive_compact_gc h)
     (vbind (vget save_image) (\<lambda>bytes.
      case write_file bytes of
        None \<Rightarrow> vreturn ()
      | Some errno \<Rightarrow> vthrow (general_error ERROR_IO (tag_fixnum errno) false_object)))))))))"

end
