(* ===== verification/Pure_Fixup.thy ===== *)
theory Pure_Fixup
  imports Image
begin

text \<open>
  Visiting the slots of an object with a fix-up that only computes: every pointer is
  replaced by its image under the fix-up, keeping its tag, and nothing else changes. The
  fix-ups of \<open>become\<close> and of image loading are of this kind.
\<close>

unbundle bit_operations_syntax

definition moved :: "(cell \<Rightarrow> cell) \<Rightarrow> cell \<Rightarrow> cell" where
  "moved f v = (if immediate_p v then v else RETAG (f (UNTAG v)) (TAG v))"

definition slot_addresses :: "cell \<Rightarrow> cell \<Rightarrow> cell set" where
  "slot_addresses obj n = (\<lambda>i. obj + sizeof_cell + sizeof_cell * of_nat i) ` {..<unat n}"

lemma cell_range_slots:
  assumes "unat start + 8 * unat n < 2 ^ 64"
  shows "cell_range start (start + sizeof_cell * n) = map (\<lambda>i. start + sizeof_cell * of_nat i) [0..<unat n]"
    "distinct (cell_range start (start + sizeof_cell * n))"
proof -
  have n: "unat (sizeof_cell * n) = 8 * unat n" using assms by (simp add: unat_word_ariths)
  then have "unat (start + sizeof_cell * n) = unat start + 8 * unat n" using assms by (subst unat_add_exact) simp_all
  then have lt: "start < start + sizeof_cell * n \<longleftrightarrow> 0 < unat n" by (simp add: word_less_nat_alt)
  have "start + sizeof_cell * n - start = sizeof_cell * n" by simp
  then have "(unat (start + sizeof_cell * n - start) + 7) div 8 = unat n" using n by simp
  then show eq: "cell_range start (start + sizeof_cell * n) = map (\<lambda>i. start + sizeof_cell * of_nat i) [0..<unat n]"
    using lt by (auto simp: cell_range_def)
  have "inj_on (\<lambda>i. start + sizeof_cell * of_nat i) {0..<unat n}"
  proof (rule inj_onI)
    fix i j
    assume ij: "i \<in> {0..<unat n}" "j \<in> {0..<unat n}" and "start + sizeof_cell * of_nat i = start + sizeof_cell * of_nat j"
    then have "unat (sizeof_cell * of_nat i) = unat (sizeof_cell * of_nat j)" by simp
    moreover have "unat (sizeof_cell * of_nat k) = 8 * k" if "k < unat n" for k
      using that assms by (simp add: unat_word_ariths unat_of_nat)
    ultimately show "i = j" using ij by simp
  qed
  then show "distinct (cell_range start (start + sizeof_cell * n))" unfolding eq by (simp add: distinct_map)
qed

locale pure_fixup =
  fixes fu :: fixup and f :: "cell \<Rightarrow> cell"
  assumes data: "fixup_data fu a = vreturn (f a)"
begin

lemma handle: "visit_handle fu a vm = Some (vm\<lparr>vm_memory := (vm_memory vm)(a := moved f (vm_memory vm a))\<rparr>, Inr ())"
  by (simp add: visit_handle_def visit_pointer_def visit_simps vm_read_def vm_write_def data moved_def)

lemma handles:
  "distinct xs \<Longrightarrow> vfor_each (visit_handle fu) xs vm =
     Some (vm\<lparr>vm_memory := \<lambda>a. if a \<in> set xs then moved f (vm_memory vm a) else vm_memory vm a\<rparr>, Inr ())"
proof (induction xs arbitrary: vm)
  case Nil
  then show ?case by (simp add: visit_simps)
next
  case (Cons x xs)
  then show ?case by (auto simp: visit_simps handle fun_eq_iff intro!: arg_cong [where f = "\<lambda>m. vm\<lparr>vm_memory := m\<rparr>"])
qed

lemma slots:
  assumes "object_type (vm_memory vm obj) \<noteq> type_number CALLSTACK_TYPE"
    "slot_count_fixup (translate_data fu vm) (vm_memory vm) obj = Some n" "unat obj + 8 + 8 * unat n < 2 ^ 64"
  shows "visit_slots fu obj vm =
    Some (vm\<lparr>vm_memory := \<lambda>a. if a \<in> slot_addresses obj n then moved f (vm_memory vm a) else vm_memory vm a\<rparr>, Inr ())"
proof -
  have u: "unat (obj + sizeof_cell) = unat obj + 8" using assms(3) by (subst unat_add_exact) simp_all
  have r: "cell_range (obj + sizeof_cell) (obj + sizeof_cell + sizeof_cell * n) = map (\<lambda>i. obj + sizeof_cell + sizeof_cell * of_nat i) [0..<unat n]"
    "distinct (cell_range (obj + sizeof_cell) (obj + sizeof_cell + sizeof_cell * n))"
    using cell_range_slots [of "obj + sizeof_cell" n] assms(3) u by simp_all
  then have "set (cell_range (obj + sizeof_cell) (obj + sizeof_cell + sizeof_cell * n)) = slot_addresses obj n"
    by (auto simp: slot_addresses_def)
  then show ?thesis using assms(1,2) handles [OF r(2)]
    by (simp add: visit_slots_def vm_object_type_def vm_slot_count_def visit_object_array_def visit_simps Let_def del: type_number.simps)
qed

end

interpretation become_pure: pure_fixup "slot_become_fixup m" "\<lambda>old. case m old of Some new \<Rightarrow> new | None \<Rightarrow> old" for m
  by unfold_locales (simp add: slot_become_fixup_def)

interpretation startup_pure: pure_fixup "startup_fixup d c" "\<lambda>obj. obj + d" for d c
  by unfold_locales (simp add: startup_fixup_def)

lemma moved_offset:
  assumes "16 dvd unat d" "\<not> immediate_p v"
  shows "moved (\<lambda>obj. obj + d) v = v + d"
proof -
  have "unat (UNTAG v + d) mod 16 = (unat (UNTAG v) + unat d) mod 16" by (simp add: unat_word_ariths mod_mod_cancel)
  also have "\<dots> = 0" using assms(1) by (simp add: unat_UNTAG)
  finally have mod16: "unat (UNTAG v + d) mod 16 = 0" .
  then have zero: "take_bit 4 (UNTAG v + d) = 0"
    unfolding word_unat_eq_iff unsigned_take_bit_eq by (simp add: take_bit_eq_mod)
  have low: "\<not> bit (UNTAG v + d) i" if "i < 4" for i
    using arg_cong [OF zero, of "\<lambda>w. bit w i"] that by (simp add: bit_simps)
  have high: "\<not> bit (TAG v) i" if "\<not> i < 4" for i using that by (simp add: TAG_take_bit bit_simps)
  have "16 dvd unat (UNTAG v + d)" using mod16 by presburger
  then have "UNTAG (UNTAG v + d) = UNTAG v + d" unfolding word_unat_eq_iff unat_UNTAG by simp
  moreover have "UNTAG v + d + TAG v = (UNTAG v + d) OR TAG v" using low high by (intro disjunctive_add) blast
  moreover have "UNTAG v + TAG v = UNTAG v OR TAG v"
    by (rule disjunctive_add) (auto simp: UNTAG_shift TAG_take_bit bit_simps)
  moreover have "UNTAG v OR TAG v = v" by (rule bit_word_eqI) (auto simp: UNTAG_shift TAG_take_bit bit_simps)
  ultimately show ?thesis using assms(2) by (simp add: moved_def RETAG_def) (metis add.assoc add.commute)
qed

end
