(* ===== verification/Heap_Checker.thy ===== *)
theory Heap_Checker
  imports VM_Primitives
begin

text \<open>
  The checker of write barriers (\<open>vm/data_heap_checker.cpp\<close>): a pointer from an older to a
  younger generation lies on a marked card.
\<close>

unbundle bit_operations_syntax

datatype generation = NURSERY_GENERATION | AGING_GENERATION | TENURED_GENERATION

definition generation_of :: "factor_vm \<Rightarrow> cell \<Rightarrow> generation option" where
  "generation_of vm obj =
     (if in_nursery obj vm then Some NURSERY_GENERATION
      else if in_aging obj vm then Some AGING_GENERATION
      else if in_tenured obj vm then Some TENURED_GENERATION
      else None)"

definition check_write_barrier :: "factor_vm \<Rightarrow> cell \<Rightarrow> card \<Rightarrow> bool" where
  "check_write_barrier vm slot_ptr msk \<longleftrightarrow> cards (vm_data vm) ! card_index (vm_data vm) slot_ptr AND msk = msk"

definition check_slot :: "factor_vm \<Rightarrow> generation \<Rightarrow> cell \<Rightarrow> bool option" where
  "check_slot vm gen slot_ptr =
     (let v = vm_memory vm slot_ptr in
      if immediate_p v then Some True
      else
        map_option (\<lambda>target.
          if gen = AGING_GENERATION \<and> target = NURSERY_GENERATION then check_write_barrier vm slot_ptr (ucast card_points_to_nursery)
          else if gen = TENURED_GENERATION then
            if target = NURSERY_GENERATION then check_write_barrier vm slot_ptr (ucast card_points_to_nursery)
            else if target = AGING_GENERATION then check_write_barrier vm slot_ptr (ucast card_points_to_aging)
            else True
          else True) (generation_of vm (UNTAG v)))"

definition check_object :: "cell \<Rightarrow> factor_vm \<Rightarrow> bool option" where
  "check_object obj vm = do {
     gen \<leftarrow> generation_of vm obj;
     n \<leftarrow> slot_count_fixup Some (vm_memory vm) obj;
     fold (\<lambda>a r. do { ok \<leftarrow> r; b \<leftarrow> check_slot vm gen a; Some (ok \<and> b) })
       (cell_range (obj + sizeof_cell) (obj + sizeof_cell + n * sizeof_cell)) (Some True) }"

definition check_data_heap :: "(factor_vm, unit) visit" where
  "check_data_heap = vm_each_object (\<lambda>obj. vbind (vget (check_object obj)) (\<lambda>r. vbind (vlift r) vassert))"

end
