(* ===== verification/Code_Generation.thy ===== *)
theory Code_Generation
  imports VM_Primitives
begin

text \<open>
  The simple code generator (\<open>vm/jit.hpp\<close>, \<open>vm/jit.cpp\<close>) and the compiler of quotations
  and words that uses it (\<open>vm/quotations.hpp\<close> and \<open>.cpp\<close>, \<open>vm/words.cpp\<close>), with
  \<open>add_code_block\<close> of \<open>vm/code_blocks.cpp\<close> and the primitives of \<open>vm/code_heap.cpp\<close>.

  A generator owns five data roots; the record holds their positions, the numbers of bytes
  and elements emitted and the state of the search for a position. Machine code comes from
  templates in the special objects, which the model does not interpret.
\<close>

unbundle bit_operations_syntax

section \<open>Code blocks\<close>

text \<open>An empty relocation or parameter array is stored as \<open>f\<close>.\<close>

definition unless_empty :: "vm_type \<Rightarrow> cell \<Rightarrow> (factor_vm, cell) visit" where
  "unless_empty ty v =
     (if TAG v = type_number ty then vbind (vm_array_capacity ty (UNTAG v)) (\<lambda>n. vreturn (if n = 0 then false_object else v))
      else vreturn v)"

definition fill_code_block :: "cell \<Rightarrow> nat \<Rightarrow> nat \<Rightarrow> nat \<Rightarrow> nat \<Rightarrow> nat \<Rightarrow> cell \<Rightarrow> (factor_vm, unit) visit" where
  "fill_code_block compiled code labels owner relocation parameters code_length =
     vbind (root_value_at owner) (\<lambda>w. vthen (vm_write (block_owner_field compiled) w)
     (vbind (root_value_at relocation) (\<lambda>r. vbind (unless_empty BYTE_ARRAY_TYPE r) (\<lambda>r'.
      vthen (vm_write (block_relocation_field compiled) r')
      (vbind (root_value_at parameters) (\<lambda>p. vbind (unless_empty ARRAY_TYPE p) (\<lambda>p'.
       vthen (vm_write (block_parameters_field compiled) p')
       (vbind (root_value_at code) (\<lambda>c.
        vthen (memory_step (copy_bytes (block_entry_point compiled) (array_data (UNTAG c)) (unat code_length)))
        (vbind (root_value_at labels) (\<lambda>l. vwhen (to_boolean l) (fixup_labels (UNTAG l) compiled))))))))))))"

definition add_code_block ::
  "host \<Rightarrow> code_block_type \<Rightarrow> cell \<Rightarrow> cell \<Rightarrow> cell \<Rightarrow> cell \<Rightarrow> cell \<Rightarrow> cell \<Rightarrow> cell \<Rightarrow> (factor_vm, cell) visit" where
  "add_code_block h ty code0 labels0 owner0 relocation0 parameters0 literals0 frame_size =
     with_data_root code0 (\<lambda>code. with_data_root labels0 (\<lambda>labels. with_data_root owner0 (\<lambda>owner.
     with_data_root relocation0 (\<lambda>relocation. with_data_root parameters0 (\<lambda>parameters. with_data_root literals0 (\<lambda>literals.
     vbind (vm_array_capacity BYTE_ARRAY_TYPE (UNTAG code0)) (\<lambda>code_length.
     vbind (allot_code_block h code_length ty) (\<lambda>compiled.
     vthen (fill_code_block compiled code labels owner relocation parameters code_length)
     (vthen (vcomponent vm_memory (\<lambda>mem vm. vm\<lparr>vm_memory := mem\<rparr>)
        (\<lambda>mem. map_option (\<lambda>mem'. (mem', ())) (set_stack_frame_size mem compiled frame_size)))
     (vbind (root_value_at literals) (\<lambda>l.
      vthen (code_heap_modify (\<lambda>ch. ch\<lparr>uninitialized_blocks := map_insert compiled l (uninitialized_blocks ch),
        all_blocks := set_insert compiled (all_blocks ch)\<rparr>))
      (vreturn compiled))))))))))))"

section \<open>The generator\<close>

record jit =
  jit_owner :: nat
  jit_code :: nat
  code_count :: cell
  jit_relocation :: nat
  relocation_count :: cell
  jit_parameters :: nat
  parameters_count :: cell
  jit_literals :: nat
  literals_count :: cell
  computing_offset_p :: bool
  jit_position :: fixnum
  jit_offset :: cell

definition with_growable_bytes :: "host \<Rightarrow> (nat \<Rightarrow> (factor_vm, 'a) visit) \<Rightarrow> (factor_vm, 'a) visit" where
  "with_growable_bytes h body = vbind (allot_byte_array h 40) (\<lambda>a. with_data_root (tag_pointer BYTE_ARRAY_TYPE a) body)"

definition with_growable_array :: "host \<Rightarrow> (nat \<Rightarrow> (factor_vm, 'a) visit) \<Rightarrow> (factor_vm, 'a) visit" where
  "with_growable_array h body = vbind (allot_array h 10 false_object) (\<lambda>a. with_data_root (tag_pointer ARRAY_TYPE a) body)"

text \<open>The number of generators at work is a counter, adjusted by constructor and destructor.\<close>

definition adjust_jit_count :: "fixnum \<Rightarrow> fixnum \<Rightarrow> (factor_vm, unit) visit" where
  "adjust_jit_count least d =
     vbind (vget current_jit_count) (\<lambda>old_count.
     vthen (vmodify (\<lambda>vm. vm\<lparr>current_jit_count := fx (old_count + d)\<rparr>)) (vassert (old_count \<ge> least)))"

definition with_jit :: "host \<Rightarrow> cell \<Rightarrow> (jit \<Rightarrow> (factor_vm, 'a) visit) \<Rightarrow> (factor_vm, 'a) visit" where
  "with_jit h owner0 body =
     with_data_root owner0 (\<lambda>owner.
     with_growable_bytes h (\<lambda>code. with_growable_bytes h (\<lambda>relocation.
     with_growable_array h (\<lambda>parameters. with_growable_array h (\<lambda>literals.
     vthen (adjust_jit_count 0 1)
     (vbind (body \<lparr>jit_owner = owner, jit_code = code, code_count = 0, jit_relocation = relocation, relocation_count = 0,
        jit_parameters = parameters, parameters_count = 0, jit_literals = literals, literals_count = 0,
        computing_offset_p = False, jit_position = 0, jit_offset = 0\<rparr>) (\<lambda>x.
      vthen (adjust_jit_count 1 (- 1)) (vreturn x))))))))"

definition u32_bytes :: "32 word \<Rightarrow> 8 word list" where
  "u32_bytes v = map (\<lambda>k. ucast (drop_bit (8 * k) v)) [0..<4]"

text \<open>The entries are read through a pointer taken before the first of them is appended.\<close>

primrec emit_relocation_loop :: "host \<Rightarrow> cell \<Rightarrow> nat \<Rightarrow> cell \<Rightarrow> jit \<Rightarrow> (factor_vm, jit) visit" where
  "emit_relocation_loop h relocations 0 i j = vreturn j"
| "emit_relocation_loop h relocations (Suc n) i j =
     vbind (vget (\<lambda>vm. load_u32 (vm_memory vm) (relocations + 4 * i))) (\<lambda>entry.
     vbind (vlift (rel_klass entry)) (\<lambda>cl.
     vbind (append_bytes h (jit_relocation j) (relocation_count j)
       (u32_bytes (new_relocation_entry (rel_type entry) cl (rel_offset entry + code_count j)))) (\<lambda>k.
     emit_relocation_loop h relocations n (i + 1) (j\<lparr>relocation_count := k\<rparr>))))"

definition emit_relocation :: "host \<Rightarrow> jit \<Rightarrow> cell \<Rightarrow> (factor_vm, jit) visit" where
  "emit_relocation h j relocation_template0 =
     with_data_root relocation_template0 (\<lambda>relocation_template.
     vbind (vm_array_capacity BYTE_ARRAY_TYPE (UNTAG relocation_template0)) (\<lambda>n.
     emit_relocation_loop h (array_data (UNTAG relocation_template0)) (unat (n div 4)) 0 j))"

text \<open>The search for the position of an offset, as the code grows by \<open>sz\<close> bytes.\<close>

definition advance_position :: "cell \<Rightarrow> jit \<Rightarrow> jit" where
  "advance_position sz j =
     (if \<not> computing_offset_p j then j
      else if jit_offset j = 0 then j\<lparr>jit_position := fx (jit_position j - 1), computing_offset_p := False\<rparr>
      else if jit_offset j < sz then j\<lparr>jit_position := fx (jit_position j + 1), computing_offset_p := False\<rparr>
      else j\<lparr>jit_offset := jit_offset j - sz\<rparr>)"

definition emit :: "host \<Rightarrow> jit \<Rightarrow> cell \<Rightarrow> (factor_vm, jit) visit" where
  "emit h j code_template0 =
     with_data_root code_template0 (\<lambda>code_template.
     vbind (vm_array_nth (UNTAG code_template0) 0) (\<lambda>r. vbind (emit_relocation h j r) (\<lambda>j1.
     vbind (root_value_at code_template) (\<lambda>v. vbind (vm_array_nth (UNTAG v) 1) (\<lambda>insns0.
     with_data_root insns0 (\<lambda>insns.
     vbind (vm_array_capacity BYTE_ARRAY_TYPE (UNTAG insns0)) (\<lambda>sz.
     vbind (append_byte_array h (jit_code j1) (code_count j1) insns0) (\<lambda>k.
     vreturn ((advance_position sz j1)\<lparr>code_count := k\<rparr>)))))))))"

definition parameter :: "host \<Rightarrow> jit \<Rightarrow> cell \<Rightarrow> (factor_vm, jit) visit" where
  "parameter h j v =
     vbind (growable_array_add h (jit_parameters j) (parameters_count j) v) (\<lambda>k. vreturn (j\<lparr>parameters_count := k\<rparr>))"

definition literal :: "host \<Rightarrow> jit \<Rightarrow> cell \<Rightarrow> (factor_vm, jit) visit" where
  "literal h j v =
     vbind (growable_array_add h (jit_literals j) (literals_count j) v) (\<lambda>k. vreturn (j\<lparr>literals_count := k\<rparr>))"

definition emit_with_literal :: "host \<Rightarrow> jit \<Rightarrow> cell \<Rightarrow> cell \<Rightarrow> (factor_vm, jit) visit" where
  "emit_with_literal h j code_template0 argument0 =
     with_data_root code_template0 (\<lambda>code_template. with_data_root argument0 (\<lambda>argument.
     vbind (literal h j argument0) (\<lambda>j1. vbind (root_value_at code_template) (emit h j1))))"

definition emit_with_parameter :: "host \<Rightarrow> jit \<Rightarrow> cell \<Rightarrow> cell \<Rightarrow> (factor_vm, jit) visit" where
  "emit_with_parameter h j code_template0 argument0 =
     with_data_root code_template0 (\<lambda>code_template. with_data_root argument0 (\<lambda>argument.
     vbind (parameter h j argument0) (\<lambda>j1. vbind (root_value_at code_template) (emit h j1))))"

definition emit_special :: "host \<Rightarrow> special_object \<Rightarrow> jit \<Rightarrow> (factor_vm, jit) visit" where
  "emit_special h obj j = vbind (special obj) (emit h j)"

definition push_literal :: "host \<Rightarrow> jit \<Rightarrow> cell \<Rightarrow> (factor_vm, jit) visit" where
  "push_literal h j v = vbind (special JIT_PUSH_LITERAL) (\<lambda>t. emit_with_literal h j t v)"

definition word_subprimitive_field :: "cell \<Rightarrow> cell" where
  "word_subprimitive_field w = w + 64"

text \<open>The element of the template that a position in it holds now.\<close>

definition root_array_nth :: "nat \<Rightarrow> cell \<Rightarrow> (factor_vm, cell) visit" where
  "root_array_nth root i = vbind (root_value_at root) (\<lambda>v. vm_array_nth (UNTAG v) i)"

definition emit_subprimitive :: "host \<Rightarrow> jit \<Rightarrow> cell \<Rightarrow> bool \<Rightarrow> bool \<Rightarrow> (factor_vm, jit \<times> bool) visit" where
  "emit_subprimitive h j word0 tail_call_p stack_frame_p =
     with_data_root word0 (\<lambda>w. vbind (vm_read (word_subprimitive_field (UNTAG word0))) (\<lambda>s.
     with_data_root s (\<lambda>code_template.
     vbind (root_array_nth code_template 0) (\<lambda>p.
     vbind (growable_array_append h (jit_parameters j) (parameters_count j) (UNTAG p)) (\<lambda>np.
     vbind (root_array_nth code_template 1) (\<lambda>l.
     vbind (growable_array_append h (jit_literals j) (literals_count j) (UNTAG l)) (\<lambda>nl.
     vbind (root_array_nth code_template 2) (\<lambda>t.
     vbind (emit h (j\<lparr>parameters_count := np, literals_count := nl\<rparr>) t) (\<lambda>j1.
     vbind (vbind (root_value_at code_template) (\<lambda>v. vm_array_capacity ARRAY_TYPE (UNTAG v))) (\<lambda>n.
     if n = 5 then
       if tail_call_p then
         vbind (if stack_frame_p then emit_special h JIT_EPILOG j1 else vreturn j1) (\<lambda>j2.
         vbind (root_array_nth code_template 4) (\<lambda>t'. vbind (emit h j2 t') (\<lambda>j3. vreturn (j3, True))))
       else vbind (root_array_nth code_template 3) (\<lambda>t'. vbind (emit h j1 t') (\<lambda>j2. vreturn (j2, False)))
     else vreturn (j1, False)))))))))))"

definition compute_position :: "cell \<Rightarrow> jit \<Rightarrow> jit" where
  "compute_position offset j = j\<lparr>computing_offset_p := True, jit_position := 0, jit_offset := offset\<rparr>"

definition get_position :: "jit \<Rightarrow> fixnum" where
  "get_position j = (if computing_offset_p j then - 1 else jit_position j)"

definition set_position :: "fixnum \<Rightarrow> jit \<Rightarrow> jit" where
  "set_position n j = (if computing_offset_p j then j\<lparr>jit_position := n\<rparr> else j)"

definition to_code_block :: "host \<Rightarrow> jit \<Rightarrow> code_block_type \<Rightarrow> cell \<Rightarrow> (factor_vm, cell) visit" where
  "to_code_block h j ty frame_size =
     vbind (grow_bytes h (jit_code j) (code_count j) (alignment_for (code_count j + 4) data_alignment)) (\<lambda>k.
     vbind (append_bytes h (jit_code j) k (u32_bytes 0)) (\<lambda>k'.
     vthen (growable_reallot h BYTE_ARRAY_TYPE (jit_code j) k')
     (vthen (growable_reallot h BYTE_ARRAY_TYPE (jit_relocation j) (relocation_count j))
     (vthen (growable_reallot h ARRAY_TYPE (jit_parameters j) (parameters_count j))
     (vthen (growable_reallot h ARRAY_TYPE (jit_literals j) (literals_count j))
     (vbind (root_value_at (jit_code j)) (\<lambda>c. vbind (root_value_at (jit_owner j)) (\<lambda>w.
      vbind (root_value_at (jit_relocation j)) (\<lambda>r. vbind (root_value_at (jit_parameters j)) (\<lambda>p.
      vbind (root_value_at (jit_literals j)) (\<lambda>l.
      add_code_block h ty c false_object w r p l frame_size)))))))))))"

end
