(* ===== verification/Quotation_Compiler.thy ===== *)
theory Quotation_Compiler
  imports Code_Generation
begin

text \<open>
  The non-optimising compiler (\<open>vm/quotations.hpp\<close>, \<open>vm/quotations.cpp\<close>, \<open>vm/words.cpp\<close>),
  the primitives that define words and walk the code heap (\<open>vm/code_heap.cpp\<close>) and the
  primitives on callstacks (\<open>vm/callstack.cpp\<close>), which ask the compiler where in a quotation
  a return address is.

  Compiling a quotation compiles the quotations it refers to. The functions below take the
  compiler of nested quotations as an argument; the knot is tied by a partial function, so
  that a quotation that contains itself has no result.
\<close>

unbundle bit_operations_syntax

section \<open>Shapes of code\<close>

record quotation_jit =
  quot_elements :: nat
  compiling :: bool
  relocate :: bool

definition nth_element :: "quotation_jit \<Rightarrow> cell \<Rightarrow> (factor_vm, cell) visit" where
  "nth_element q index = root_array_nth (quot_elements q) index"

definition init_quotation :: "quotation_jit \<Rightarrow> cell \<Rightarrow> (factor_vm, unit) visit" where
  "init_quotation q quot = vbind (vm_read (quotation_array_field (UNTAG quot))) (set_root (quot_elements q))"

text \<open>Conjunction that evaluates its second argument only where the first holds.\<close>

definition vand :: "(factor_vm, bool) visit \<Rightarrow> (factor_vm, bool) visit \<Rightarrow> (factor_vm, bool) visit" where
  "vand m n = vbind m (\<lambda>b. if b then n else vreturn False)"

definition element_is :: "quotation_jit \<Rightarrow> cell \<Rightarrow> special_object \<Rightarrow> (factor_vm, bool) visit" where
  "element_is q i obj = vbind (nth_element q i) (\<lambda>x. vbind (special obj) (\<lambda>y. vreturn (x = y)))"

definition element_tagged :: "quotation_jit \<Rightarrow> cell \<Rightarrow> vm_type \<Rightarrow> (factor_vm, bool) visit" where
  "element_tagged q i ty = vbind (nth_element q i) (\<lambda>x. vreturn (TAG x = type_number ty))"

definition fast_if_p :: "quotation_jit \<Rightarrow> cell \<Rightarrow> cell \<Rightarrow> (factor_vm, bool) visit" where
  "fast_if_p q i len =
     vand (vreturn (i + 3 = len)) (vand (element_tagged q (i + 1) QUOTATION_TYPE) (element_is q (i + 2) JIT_IF_WORD))"

definition primitive_call_p :: "quotation_jit \<Rightarrow> cell \<Rightarrow> cell \<Rightarrow> (factor_vm, bool) visit" where
  "primitive_call_p q i len = vand (vreturn (i + 2 \<le> len)) (element_is q (i + 1) JIT_PRIMITIVE_WORD)"

definition fast_dip_p :: "quotation_jit \<Rightarrow> cell \<Rightarrow> cell \<Rightarrow> (factor_vm, bool) visit" where
  "fast_dip_p q i len = vand (vreturn (i + 2 \<le> len)) (element_is q (i + 1) JIT_DIP_WORD)"

definition fast_2dip_p :: "quotation_jit \<Rightarrow> cell \<Rightarrow> cell \<Rightarrow> (factor_vm, bool) visit" where
  "fast_2dip_p q i len = vand (vreturn (i + 2 \<le> len)) (element_is q (i + 1) JIT_2DIP_WORD)"

definition fast_3dip_p :: "quotation_jit \<Rightarrow> cell \<Rightarrow> cell \<Rightarrow> (factor_vm, bool) visit" where
  "fast_3dip_p q i len = vand (vreturn (i + 2 \<le> len)) (element_is q (i + 1) JIT_3DIP_WORD)"

definition declare_p :: "quotation_jit \<Rightarrow> cell \<Rightarrow> cell \<Rightarrow> (factor_vm, bool) visit" where
  "declare_p q i len = vand (vreturn (i + 2 \<le> len)) (element_is q (i + 1) JIT_DECLARE_WORD)"

definition mega_lookup_p :: "quotation_jit \<Rightarrow> cell \<Rightarrow> cell \<Rightarrow> (factor_vm, bool) visit" where
  "mega_lookup_p q i len =
     vand (vreturn (i + 4 \<le> len)) (vand (element_tagged q (i + 1) FIXNUM_TYPE)
       (vand (element_tagged q (i + 2) ARRAY_TYPE) (element_is q (i + 3) MEGA_LOOKUP_WORD)))"

definition special_subprimitive_p :: "cell \<Rightarrow> (factor_vm, bool) visit" where
  "special_subprimitive_p obj =
     vbind (special SIGNAL_HANDLER_WORD) (\<lambda>a. vbind (special LEAF_SIGNAL_HANDLER_WORD) (\<lambda>b.
     vbind (special UNWIND_NATIVE_FRAMES_WORD) (\<lambda>c. vreturn (obj = a \<or> obj = b \<or> obj = c))))"

primrec stack_frame_scan :: "quotation_jit \<Rightarrow> cell \<Rightarrow> nat \<Rightarrow> cell \<Rightarrow> (factor_vm, bool) visit" where
  "stack_frame_scan q len 0 i = vreturn True"
| "stack_frame_scan q len (Suc n) i =
     vbind (nth_element q i) (\<lambda>obj.
     vbind (if TAG obj = type_number WORD_TYPE then special_subprimitive_p obj
            else if TAG obj = type_number ARRAY_TYPE then mega_lookup_p q i len
            else vreturn False) (\<lambda>found.
     if found then vreturn False else stack_frame_scan q len n (i + 1)))"

definition elements_length :: "quotation_jit \<Rightarrow> (factor_vm, cell) visit" where
  "elements_length q = vbind (root_value_at (quot_elements q)) (\<lambda>v. vm_array_capacity ARRAY_TYPE (UNTAG v))"

definition stack_frame_p :: "quotation_jit \<Rightarrow> (factor_vm, bool) visit" where
  "stack_frame_p q = vbind (elements_length q) (\<lambda>len. stack_frame_scan q len (unat len) 0)"

definition trivial_quotation_p :: "cell \<Rightarrow> (factor_vm, bool) visit" where
  "trivial_quotation_p elements =
     vand (vbind (vm_array_capacity ARRAY_TYPE elements) (\<lambda>n. vreturn (n = 1)))
       (vbind (vm_array_nth elements 0) (\<lambda>x. vreturn (TAG x = type_number WORD_TYPE)))"

section \<open>Emitting code\<close>

definition emit_epilog :: "host \<Rightarrow> bool \<Rightarrow> jit \<Rightarrow> (factor_vm, jit) visit" where
  "emit_epilog h needed j =
     (if needed then vbind (emit_special h JIT_SAFEPOINT j) (emit_special h JIT_EPILOG) else vreturn j)"

definition word_call :: "host \<Rightarrow> jit \<Rightarrow> cell \<Rightarrow> (factor_vm, jit) visit" where
  "word_call h j w = vbind (special JIT_WORD_CALL) (\<lambda>t. emit_with_literal h j t w)"

definition word_jump :: "host \<Rightarrow> jit \<Rightarrow> cell \<Rightarrow> (factor_vm, jit) visit" where
  "word_jump h j word0 = with_data_root word0 (\<lambda>w. vbind (literal h j word0) (emit_special h JIT_WORD_JUMP))"

type_synonym quotation_compiler = "cell \<Rightarrow> bool \<Rightarrow> (factor_vm, unit) visit"

definition emit_quotation :: "host \<Rightarrow> quotation_compiler \<Rightarrow> quotation_jit \<Rightarrow> cell \<Rightarrow> jit \<Rightarrow> (factor_vm, jit) visit" where
  "emit_quotation h compile q quot0 j =
     with_data_root quot0 (\<lambda>quot.
     vbind (vm_read (quotation_array_field (UNTAG quot0))) (\<lambda>a. let elements = UNTAG a in
     vbind (trivial_quotation_p elements) (\<lambda>trivial.
     if trivial then vbind (vm_array_nth elements 0) (literal h j)
     else vthen (vwhen (compiling q) (compile quot0 (relocate q))) (vbind (root_value_at quot) (literal h j)))))"

definition emit_mega_cache_lookup :: "host \<Rightarrow> cell \<Rightarrow> fixnum \<Rightarrow> cell \<Rightarrow> jit \<Rightarrow> (factor_vm, jit) visit" where
  "emit_mega_cache_lookup h methods0 index cache0 j =
     with_data_root methods0 (\<lambda>methods. with_data_root cache0 (\<lambda>cache.
     vbind (vbind (special PIC_LOAD) (\<lambda>t. emit_with_literal h j t (tag_fixnum (sint (word_of_int (- index) * sizeof_cell))))) (\<lambda>j1.
     vbind (vbind (special MEGA_LOOKUP) (\<lambda>t. vbind (root_value_at cache) (emit_with_literal h j1 t))) (\<lambda>j2.
     vbind (emit_special h JIT_PROLOG j2) (\<lambda>j3.
     vbind (vbind (root_value_at methods) (push_literal h j3)) (\<lambda>j4.
     vbind (push_literal h j4 (tag_fixnum index)) (\<lambda>j5.
     vbind (vbind (root_value_at cache) (push_literal h j5)) (\<lambda>j6.
     vbind (vbind (special MEGA_MISS_WORD) (word_call h j6)) (\<lambda>j7.
     vbind (emit_special h JIT_EPILOG j7) (emit_special h JIT_EXECUTE))))))))))"

text \<open>
  One element: the state of the generator, whether the code emitted last left the quotation,
  and how many of the following elements have been dealt with.
\<close>

type_synonym element_result = "jit \<times> bool \<times> nat"

definition compile_word :: "host \<Rightarrow> bool \<Rightarrow> cell \<Rightarrow> cell \<Rightarrow> nat \<Rightarrow> bool \<Rightarrow> jit \<Rightarrow> (factor_vm, element_result) visit" where
  "compile_word h stack_frame len i obj tail_call j =
     vbind (root_value_at obj) (\<lambda>w. vbind (vm_read (word_subprimitive_field (UNTAG w))) (\<lambda>s.
     if to_boolean s then
       vbind (emit_subprimitive h j w (i = len - 1) stack_frame) (\<lambda>(j', tail). vreturn (j', tail, 0))
     else if i = len - 1 then
       vbind (emit_epilog h stack_frame j) (\<lambda>j1. vbind (root_value_at obj) (\<lambda>w'.
       vbind (word_jump h j1 w') (\<lambda>j2. vreturn (j2, True, 0))))
     else vbind (word_call h j w) (\<lambda>j1. vreturn (j1, tail_call, 0))))"

definition compile_push :: "host \<Rightarrow> nat \<Rightarrow> bool \<Rightarrow> jit \<Rightarrow> (factor_vm, element_result) visit" where
  "compile_push h obj tail_call j =
     vbind (root_value_at obj) (\<lambda>v. vbind (push_literal h j v) (\<lambda>j1. vreturn (j1, tail_call, 0)))"

definition compile_primitive :: "host \<Rightarrow> nat \<Rightarrow> bool \<Rightarrow> jit \<Rightarrow> (factor_vm, element_result) visit" where
  "compile_primitive h obj tail_call j =
     vbind (root_value_at obj) (\<lambda>v. vbind (parameter h j v) (\<lambda>j1.
     vbind (parameter h j1 false_object) (\<lambda>j2. vbind (emit_special h JIT_PRIMITIVE j2) (\<lambda>j3. vreturn (j3, tail_call, 1)))))"

definition compile_if :: "host \<Rightarrow> quotation_compiler \<Rightarrow> quotation_jit \<Rightarrow> bool \<Rightarrow> cell \<Rightarrow> jit \<Rightarrow> (factor_vm, element_result) visit" where
  "compile_if h compile q stack_frame i j =
     vbind (emit_epilog h stack_frame j) (\<lambda>j1.
     vbind (vbind (nth_element q i) (\<lambda>x. emit_quotation h compile q x j1)) (\<lambda>j2.
     vbind (vbind (nth_element q (i + 1)) (\<lambda>x. emit_quotation h compile q x j2)) (\<lambda>j3.
     vbind (emit_special h JIT_IF j3) (\<lambda>j4. vreturn (j4, True, 2)))))"

definition compile_dip :: "host \<Rightarrow> quotation_compiler \<Rightarrow> quotation_jit \<Rightarrow> nat \<Rightarrow> special_object \<Rightarrow> bool \<Rightarrow> jit \<Rightarrow> (factor_vm, element_result) visit" where
  "compile_dip h compile q obj template tail_call j =
     vbind (vbind (root_value_at obj) (\<lambda>x. emit_quotation h compile q x j)) (\<lambda>j1.
     vbind (emit_special h template j1) (\<lambda>j2. vreturn (j2, tail_call, 1)))"

definition compile_nested :: "host \<Rightarrow> quotation_compiler \<Rightarrow> quotation_jit \<Rightarrow> bool \<Rightarrow> cell \<Rightarrow> cell \<Rightarrow> nat \<Rightarrow> bool \<Rightarrow> jit \<Rightarrow>
    (factor_vm, element_result) visit" where
  "compile_nested h compile q stack_frame len i obj tail_call j =
     vbind (fast_if_p q i len) (\<lambda>is_if. if is_if then compile_if h compile q stack_frame i j else
     vbind (fast_dip_p q i len) (\<lambda>dip. if dip then compile_dip h compile q obj JIT_DIP tail_call j else
     vbind (fast_2dip_p q i len) (\<lambda>dip2. if dip2 then compile_dip h compile q obj JIT_2DIP tail_call j else
     vbind (fast_3dip_p q i len) (\<lambda>dip3. if dip3 then compile_dip h compile q obj JIT_3DIP tail_call j else
     compile_push h obj tail_call j))))"

definition compile_array :: "host \<Rightarrow> quotation_jit \<Rightarrow> cell \<Rightarrow> cell \<Rightarrow> nat \<Rightarrow> bool \<Rightarrow> jit \<Rightarrow> (factor_vm, element_result) visit" where
  "compile_array h q len i obj tail_call j =
     vbind (mega_lookup_p q i len) (\<lambda>mega.
     if mega then
       vbind (nth_element q i) (\<lambda>methods. vbind (nth_element q (i + 1)) (\<lambda>x. vbind (vlift (untag_fixnum x)) (\<lambda>index.
       vbind (nth_element q (i + 2)) (\<lambda>cache.
       vbind (emit_mega_cache_lookup h methods index cache j) (\<lambda>j1. vreturn (j1, True, 3))))))
     else
       vbind (declare_p q i len) (\<lambda>decl.
       if decl then vreturn (j, tail_call, 1) else compile_push h obj tail_call j))"

definition compile_element :: "host \<Rightarrow> quotation_compiler \<Rightarrow> quotation_jit \<Rightarrow> bool \<Rightarrow> cell \<Rightarrow> cell \<Rightarrow> bool \<Rightarrow> jit \<Rightarrow>
    (factor_vm, element_result) visit" where
  "compile_element h compile q stack_frame len i tail_call j =
     vbind (nth_element q i) (\<lambda>x. with_data_root x (\<lambda>obj.
     let t = TAG x in
     if t = type_number WORD_TYPE then compile_word h stack_frame len i obj tail_call j
     else if t = type_number WRAPPER_TYPE then
       vbind (vm_read (wrapper_object_field (UNTAG x))) (\<lambda>v. vbind (push_literal h j v) (\<lambda>j1. vreturn (j1, tail_call, 0)))
     else if t = type_number BYTE_ARRAY_TYPE then
       vbind (primitive_call_p q i len) (\<lambda>p. if p then compile_primitive h obj tail_call j else compile_push h obj tail_call j)
     else if t = type_number QUOTATION_TYPE then compile_nested h compile q stack_frame len i obj tail_call j
     else if t = type_number ARRAY_TYPE then compile_array h q len i obj tail_call j
     else compile_push h obj tail_call j))"

text \<open>
  The loop over the elements; an element that has been dealt with together with an earlier
  one is passed over.
\<close>

primrec compile_elements :: "host \<Rightarrow> quotation_compiler \<Rightarrow> quotation_jit \<Rightarrow> bool \<Rightarrow> cell \<Rightarrow> nat \<Rightarrow> cell \<Rightarrow> nat \<Rightarrow> bool \<Rightarrow> jit \<Rightarrow>
    (factor_vm, jit \<times> bool) visit" where
  "compile_elements h compile q stack_frame len 0 i skip tail_call j = vreturn (j, tail_call)"
| "compile_elements h compile q stack_frame len (Suc n) i skip tail_call j =
     (if skip > 0 then compile_elements h compile q stack_frame len n (i + 1) (skip - 1) tail_call j
      else
        vbind (compile_element h compile q stack_frame len i tail_call (set_position (sint i) j)) (\<lambda>(j', tail', skip').
        compile_elements h compile q stack_frame len n (i + 1) skip' tail' j'))"

definition iterate_quotation :: "host \<Rightarrow> quotation_compiler \<Rightarrow> quotation_jit \<Rightarrow> jit \<Rightarrow> (factor_vm, jit) visit" where
  "iterate_quotation h compile q j0 =
     vbind (stack_frame_p q) (\<lambda>stack_frame.
     let j = set_position 0 j0 in
     vbind (if stack_frame then vbind (emit_special h JIT_SAFEPOINT j) (emit_special h JIT_PROLOG) else vreturn j) (\<lambda>j1.
     vbind (elements_length q) (\<lambda>len.
     vbind (compile_elements h compile q stack_frame len (unat len) 0 0 False j1) (\<lambda>(j2, tail_call).
     if tail_call then vreturn j2
     else vbind (emit_epilog h stack_frame (set_position (sint len) j2)) (emit_special h JIT_RETURN)))))"

section \<open>Compiling\<close>

definition SIGNAL_HANDLER_STACK_FRAME_SIZE :: cell where
  "SIGNAL_HANDLER_STACK_FRAME_SIZE = 192"

definition JIT_FRAME_SIZE :: cell where
  "JIT_FRAME_SIZE = 32"

definition word_stack_frame_size :: "cell \<Rightarrow> (factor_vm, cell) visit" where
  "word_stack_frame_size obj =
     vbind (special_subprimitive_p obj) (\<lambda>b. vreturn (if b then SIGNAL_HANDLER_STACK_FRAME_SIZE else JIT_FRAME_SIZE))"

definition with_quotation_jit :: "host \<Rightarrow> cell \<Rightarrow> bool \<Rightarrow> bool \<Rightarrow> (quotation_jit \<Rightarrow> jit \<Rightarrow> (factor_vm, 'a) visit) \<Rightarrow> (factor_vm, 'a) visit" where
  "with_quotation_jit h owner compiling_p relocating body =
     with_jit h owner (\<lambda>j. with_data_root false_object (\<lambda>es.
     body \<lparr>quot_elements = es, compiling = compiling_p, relocate = relocating\<rparr> j))"

text \<open>
  Compiling for an owner. The frame size is chosen by the owner as it was passed, not by the
  root that follows it through collections.
\<close>

definition compile_for_owner :: "host \<Rightarrow> quotation_compiler \<Rightarrow> cell \<Rightarrow> cell \<Rightarrow> bool \<Rightarrow> (factor_vm, cell) visit" where
  "compile_for_owner h compile owner0 quot0 relocating =
     with_data_root owner0 (\<lambda>owner. with_data_root quot0 (\<lambda>quot.
     with_quotation_jit h owner0 True relocating (\<lambda>q j.
     vthen (vbind (root_value_at quot) (init_quotation q))
     (vbind (iterate_quotation h compile q j) (\<lambda>j1.
      vbind (word_stack_frame_size owner0) (\<lambda>frame_size.
      vbind (to_code_block h j1 CODE_BLOCK_UNOPTIMIZED frame_size) (\<lambda>compiled.
      vthen (vwhen relocating (initialize_code_block h compiled)) (vreturn compiled))))))))"

lemma with_data_root_mono [partial_function_mono]:
  assumes "\<And>i t. mono_option (\<lambda>f. B i f t)"
  shows "mono_option (\<lambda>f. with_data_root v (\<lambda>i. B i f) s)"
proof -
  have "with_data_root v (\<lambda>i. B i f) s =
      Option.bind (B (length (data_roots s)) f (s\<lparr>data_roots := data_roots s @ [v]\<rparr>))
        (\<lambda>(vm', r). Some (vm'\<lparr>data_roots := butlast (data_roots vm')\<rparr>, r))" for f
    by (auto simp: with_data_root_def map_option_case split: option.split)
  then show ?thesis using assms by (simp add: bind_mono option.const_mono split: prod.split)
qed

lemma vwhen_mono [partial_function_mono]:
  "mono_option (\<lambda>f. B f s) \<Longrightarrow> mono_option (\<lambda>f. vwhen b (B f) s)"
  unfolding vwhen_def by (intro vif_mono option.const_mono)

lemmas visit_mono = vbind_mono vthen_mono vif_mono vwhen_mono with_data_root_mono option.const_mono

lemma emit_quotation_mono:
  assumes "\<And>x r t. mono_option (\<lambda>f. C f x r t)"
  shows "mono_option (\<lambda>f. emit_quotation h (C f) q x j s)"
  unfolding emit_quotation_def Let_def by (intro visit_mono assms)

lemma compile_element_mono:
  assumes "\<And>x r t. mono_option (\<lambda>f. C f x r t)"
  shows "mono_option (\<lambda>f. compile_element h (C f) q stack_frame len i tail_call j s)"
  unfolding compile_element_def compile_nested_def compile_if_def compile_dip_def Let_def
  by (intro visit_mono emit_quotation_mono assms)

lemma compile_elements_mono:
  assumes "\<And>x r t. mono_option (\<lambda>f. C f x r t)"
  shows "mono_option (\<lambda>f. compile_elements h (C f) q stack_frame len n i skip tail_call j s)"
proof (induction n arbitrary: i skip tail_call j s)
  case (Suc n)
  have "mono_option (\<lambda>f. (case y of (j', tail', skip') \<Rightarrow> compile_elements h (C f) q stack_frame len n (i + 1) skip' tail' j') t)" for y t
    by (cases y) (simp add: Suc)
  then show ?case by (auto intro!: visit_mono compile_element_mono assms Suc)
qed (auto intro!: visit_mono)

lemma compile_for_owner_mono [partial_function_mono]:
  assumes "\<And>x r t. mono_option (\<lambda>f. C f x r t)"
  shows "mono_option (\<lambda>f. compile_for_owner h (C f) owner quot relocating s)"
proof -
  have "mono_option (\<lambda>f. iterate_quotation h (C f) q j t)" for q j t
  proof -
    have "mono_option (\<lambda>f. (case y of (j2, tail_call) \<Rightarrow> if tail_call then vreturn j2
        else vbind (emit_epilog h b (set_position n j2)) (emit_special h JIT_RETURN)) u)" for y b n u
      by (cases y) (auto intro!: visit_mono)
    then show ?thesis unfolding iterate_quotation_def Let_def by (intro visit_mono compile_elements_mono assms)
  qed
  then show ?thesis
    unfolding compile_for_owner_def with_quotation_jit_def with_jit_def with_growable_bytes_def with_growable_array_def
    by (intro visit_mono)
qed

partial_function (option) jit_compile_quotation ::
  "host \<Rightarrow> cell \<Rightarrow> bool \<Rightarrow> factor_vm \<Rightarrow> (factor_vm \<times> (vm_exception + unit)) option" where
  "jit_compile_quotation h quot0 relocating s =
     with_data_root quot0 (\<lambda>quot.
     vbind (quotation_compiled_p (UNTAG quot0)) (\<lambda>compiled_p.
     if compiled_p then vreturn ()
     else
       vbind (compile_for_owner h (jit_compile_quotation h) quot0 quot0 relocating) (\<lambda>compiled.
       vbind (root_value_at quot) (\<lambda>v. vm_write (quotation_entry_point_field (UNTAG v)) (block_entry_point compiled))))) s"

declare jit_compile_quotation.simps [simp del]

abbreviation jit_compile_for :: "host \<Rightarrow> cell \<Rightarrow> cell \<Rightarrow> bool \<Rightarrow> (factor_vm, cell) visit" where
  "jit_compile_for h \<equiv> compile_for_owner h (jit_compile_quotation h)"

definition primitive_jit_compile :: "host \<Rightarrow> (factor_vm, unit) visit" where
  "primitive_jit_compile h = vbind ctx_pop (\<lambda>quot. jit_compile_quotation h quot True)"

definition lazy_jit_compile :: "host \<Rightarrow> cell \<Rightarrow> (factor_vm, cell) visit" where
  "lazy_jit_compile h quot0 =
     with_data_root quot0 (\<lambda>quot.
     vbind (quotation_compiled_p (UNTAG quot0)) (\<lambda>compiled_p. vthen (vassert (\<not> compiled_p))
     (vbind (jit_compile_for h quot0 quot0 True) (\<lambda>compiled.
      vbind (root_value_at quot) (\<lambda>v.
      vthen (vm_write (quotation_entry_point_field (UNTAG v)) (block_entry_point compiled)) (vreturn v))))))"

definition quot_code_offset_to_scan :: "host \<Rightarrow> cell \<Rightarrow> cell \<Rightarrow> (factor_vm, fixnum) visit" where
  "quot_code_offset_to_scan h quot0 offset =
     with_data_root quot0 (\<lambda>quot. vbind (vm_read (quotation_array_field (UNTAG quot0))) (\<lambda>a.
     with_data_root a (\<lambda>arr.
     with_quotation_jit h quot0 False False (\<lambda>q j.
     vthen (vbind (root_value_at quot) (init_quotation q))
     (vbind (iterate_quotation h (jit_compile_quotation h) q (compute_position offset j)) (\<lambda>j1. vreturn (get_position j1)))))))"

definition block_scan :: "host \<Rightarrow> cell \<Rightarrow> cell \<Rightarrow> (factor_vm, cell) visit" where
  "block_scan h compiled addr =
     vbind (vget (\<lambda>vm. block_type (vm_memory vm) compiled)) (\<lambda>t.
     if t \<noteq> code_block_type_number CODE_BLOCK_UNOPTIMIZED then vreturn (tag_fixnum (- 1))
     else
       vbind (vm_read (block_owner_field compiled)) (\<lambda>owner.
       vbind (if TAG owner = type_number WORD_TYPE then vm_read (word_def_field (UNTAG owner)) else vreturn owner) (\<lambda>ptr.
       if TAG ptr \<noteq> type_number QUOTATION_TYPE then vreturn (tag_fixnum (- 1))
       else vbind (quot_code_offset_to_scan h ptr (block_offset compiled addr)) (\<lambda>n. vreturn (tag_fixnum n)))))"

section \<open>Words\<close>

definition jit_compile_word :: "host \<Rightarrow> cell \<Rightarrow> cell \<Rightarrow> bool \<Rightarrow> (factor_vm, unit) visit" where
  "jit_compile_word h word0 def0 relocating =
     with_data_root word0 (\<lambda>w. with_data_root def0 (\<lambda>def.
     vbind (vm_read (word_entry_point_field (UNTAG word0))) (\<lambda>entry_point.
     vbind (special LAZY_JIT_COMPILE_WORD) (\<lambda>lazy.
     if entry_point \<noteq> 0 \<and> word0 = lazy then vreturn ()
     else
       vbind (jit_compile_for h word0 def0 relocating) (\<lambda>compiled.
       vthen (vbind (root_value_at w) (\<lambda>v. vm_write (word_entry_point_field (UNTAG v)) (block_entry_point compiled)))
       (let compile_field = (\<lambda>field.
          vbind (root_value_at w) (\<lambda>v. vbind (vm_read (field (UNTAG v))) (\<lambda>quot.
          vwhen (to_boolean quot) (jit_compile_quotation h quot relocating)))) in
        vthen (compile_field word_pic_def_field) (compile_field word_pic_tail_def_field)))))))"

text \<open>The hash code is a fixnum and is kept as it is; the other two arguments are roots.\<close>

definition allot_word :: "host \<Rightarrow> cell \<Rightarrow> cell \<Rightarrow> cell \<Rightarrow> (factor_vm, cell) visit" where
  "allot_word h name0 vocab0 hash =
     with_data_root vocab0 (\<lambda>vocab. with_data_root name0 (\<lambda>name.
     vbind (allot_type h WORD_TYPE sizeof_word) (\<lambda>w0.
     with_data_root (tag_pointer WORD_TYPE w0) (\<lambda>new_word.
     vthen (vm_write (w0 + 8) hash)
     (vbind (root_value_at vocab) (\<lambda>v. vthen (vm_write (w0 + 24) v)
     (vbind (root_value_at name) (\<lambda>n. vthen (vm_write (w0 + 16) n)
     (vbind (special OBJ_UNDEFINED) (\<lambda>undefined_def. vthen (vm_write (word_def_field w0) undefined_def)
     (vthen (vfor_each (\<lambda>a. vm_write a false_object)
        [w0 + 40, word_pic_def_field w0, word_pic_tail_def_field w0, word_subprimitive_field w0])
     (vthen (vm_write (word_entry_point_field w0) 0)
     (vthen (jit_compile_word h (tag_pointer WORD_TYPE w0) undefined_def True)
     (vbind (root_value_at new_word) (\<lambda>r. vreturn (UNTAG r))))))))))))))))"

definition primitive_word :: "host \<Rightarrow> (factor_vm, unit) visit" where
  "primitive_word h =
     vbind ctx_pop (\<lambda>hash. vbind ctx_pop (\<lambda>vocab. vbind ctx_pop (\<lambda>name.
     vbind (allot_word h name vocab hash) (\<lambda>w. ctx_push (tag_pointer WORD_TYPE w)))))"

section \<open>The code heap\<close>

definition update_code_heap_words :: "host \<Rightarrow> bool \<Rightarrow> (factor_vm, unit) visit" where
  "update_code_heap_words h reset_inline_caches =
     each_code_block (\<lambda>block sz. update_word_references h block reset_inline_caches)"

definition install_compiled_word :: "host \<Rightarrow> nat \<Rightarrow> cell \<Rightarrow> (factor_vm, unit) visit" where
  "install_compiled_word h w compiled_data =
     vbind (vm_array_nth compiled_data 0) (\<lambda>parameters. vbind (vm_array_nth compiled_data 1) (\<lambda>literals.
     vbind (vm_array_nth compiled_data 2) (\<lambda>relocation. vbind (vm_array_nth compiled_data 3) (\<lambda>labels.
     vbind (vm_array_nth compiled_data 4) (\<lambda>code. vbind (vm_array_nth compiled_data 5) (\<lambda>x.
     vbind (vlift (untag_fixnum x)) (\<lambda>frame_size. vbind (root_value_at w) (\<lambda>owner.
     vbind (add_code_block h CODE_BLOCK_OPTIMIZED code labels owner relocation parameters literals (word_of_int frame_size)) (\<lambda>compiled.
     vbind (root_value_at w) (\<lambda>v. vm_write (word_entry_point_field (UNTAG v)) (block_entry_point compiled)))))))))))"

definition modify_code_heap_pair :: "host \<Rightarrow> nat \<Rightarrow> cell \<Rightarrow> (factor_vm, unit) visit" where
  "modify_code_heap_pair h alist i =
     vbind (root_array_nth alist i) (\<lambda>pair0. with_data_root pair0 (\<lambda>pair.
     vbind (vm_array_nth (UNTAG pair0) 0) (\<lambda>word0. with_data_root word0 (\<lambda>w.
     vbind (vm_array_nth (UNTAG pair0) 1) (\<lambda>data0. with_data_root data0 (\<lambda>data.
     if TAG data0 = type_number QUOTATION_TYPE then jit_compile_word h word0 data0 False
     else if TAG data0 = type_number ARRAY_TYPE then install_compiled_word h w (UNTAG data0)
     else vlift None))))))"

definition primitive_modify_code_heap :: "host \<Rightarrow> (factor_vm, unit) visit" where
  "primitive_modify_code_heap h =
     vbind ctx_pop (\<lambda>r. vbind ctx_pop (\<lambda>u. vbind ctx_pop (\<lambda>a.
     with_data_root a (\<lambda>alist.
     vbind (vm_array_capacity ARRAY_TYPE (UNTAG a)) (\<lambda>n.
     if n = 0 then vreturn ()
     else
       vthen (vfor_each (\<lambda>i. modify_code_heap_pair h alist (of_nat i)) [0..<unat n])
       (vthen (if to_boolean u then update_code_heap_words h (to_boolean r)
               else
                 vthen (vbind (vget (\<lambda>vm. uninitialized_blocks (vm_code vm)))
                   (vfor_each (\<lambda>(compiled, literals). initialize_code_block_with h compiled literals)))
                 (code_heap_modify (\<lambda>ch. ch\<lparr>uninitialized_blocks := []\<rparr>)))
       (vbind (vget (\<lambda>vm. uninitialized_blocks (vm_code vm))) (\<lambda>bs. vassert (bs = [])))))))))"

definition primitive_strip_stack_traces :: "(factor_vm, unit) visit" where
  "primitive_strip_stack_traces = each_code_block (\<lambda>block sz. vm_write (block_owner_field block) false_object)"

text \<open>The entry point is pushed as if it were a tagged fixnum, which its alignment allows.\<close>

definition describe_block :: "memory \<Rightarrow> cell \<Rightarrow> cell list option" where
  "describe_block mem block =
     (let entry_point = block_entry_point block in do {
        sz \<leftarrow> block_size mem block;
        if entry_point AND (data_alignment - 1) = 0 \<and> TAG entry_point = type_number FIXNUM_TYPE
        then Some [mem (block_owner_field block), mem (block_parameters_field block), mem (block_relocation_field block),
          tag_fixnum (uint (block_type mem block)), tag_fixnum (sint sz), entry_point]
        else None })"

definition primitive_code_blocks :: "host \<Rightarrow> (factor_vm, unit) visit" where
  "primitive_code_blocks h =
     vbind (vbind (vget (\<lambda>vm. iterate (\<lambda>(mem, _). block_size mem)
         (\<lambda>block sz (mem, objects). map_option (\<lambda>xs. (mem, objects @ xs)) (describe_block mem block))
         (ch_allocator (vm_code vm)) (vm_memory vm, []))) vlift) (\<lambda>(mem, objects).
     vbind (std_vector_to_array h objects) ctx_push)"

section \<open>Callstacks\<close>

definition allot_callstack :: "host \<Rightarrow> cell \<Rightarrow> (factor_vm, cell) visit" where
  "allot_callstack h sz =
     vbind (allot_type h CALLSTACK_TYPE (callstack_object_size sz)) (\<lambda>stack.
     vthen (vm_write (callstack_length_field stack) (tag_fixnum (sint sz))) (vreturn stack))"

primrec skip_frames :: "nat \<Rightarrow> cell \<Rightarrow> cell \<Rightarrow> (factor_vm, cell) visit" where
  "skip_frames 0 bottom frame_top = vreturn frame_top"
| "skip_frames (Suc n) bottom frame_top =
     vbind (vbind (vget (\<lambda>vm. frame_predecessor (vm_memory vm) (vm_code vm) frame_top)) vlift) (\<lambda>pred.
     if pred \<ge> bottom then vreturn frame_top else skip_frames n bottom pred)"

definition second_from_top_stack_frame :: "cell \<Rightarrow> (factor_vm, cell) visit" where
  "second_from_top_stack_frame c =
     vbind (vget (\<lambda>vm. contexts vm c)) (\<lambda>x. skip_frames 2 (callstack_bottom x) (callstack_top x))"

text \<open>The clamp is on unsigned cells and has no effect.\<close>

definition capture_callstack :: "host \<Rightarrow> cell \<Rightarrow> (factor_vm, cell) visit" where
  "capture_callstack h c =
     vbind (second_from_top_stack_frame c) (\<lambda>top_ptr.
     vbind (vget (\<lambda>vm. callstack_bottom (contexts vm c))) (\<lambda>bottom.
     let sz = max 0 (bottom - top_ptr) in
     vbind (allot_callstack h sz) (\<lambda>stack.
     vthen (memory_step (memmove (frame_top_at stack 0) top_ptr sz)) (vreturn (tag_pointer CALLSTACK_TYPE stack)))))"

definition primitive_callstack_for :: "host \<Rightarrow> (factor_vm, unit) visit" where
  "primitive_callstack_for h =
     vbind ctx_peek (\<lambda>a. vbind (pinned_alien_offset a) (\<lambda>other. vbind (capture_callstack h other) ctx_replace))"

definition stack_frame_accumulator :: "host \<Rightarrow> nat \<Rightarrow> cell frame_fold" where
  "stack_frame_accumulator h frames frame_top sz owner addr used =
     vbind (owner_quot owner) (\<lambda>q. with_data_root q (\<lambda>executing_quot.
     vbind (vm_read (block_owner_field owner)) (\<lambda>w. with_data_root w (\<lambda>executing.
     vbind (block_scan h owner addr) (\<lambda>n. with_data_root n (\<lambda>scan.
     vbind (vbind (root_value_at executing) (growable_array_add h frames used)) (\<lambda>used1.
     vbind (vbind (root_value_at executing_quot) (growable_array_add h frames used1)) (\<lambda>used2.
     vbind (root_value_at scan) (growable_array_add h frames used2)))))))))"

definition primitive_callstack_to_array :: "host \<Rightarrow> (factor_vm, unit) visit" where
  "primitive_callstack_to_array h =
     vbind ctx_peek (\<lambda>v. with_data_root v (\<lambda>stack.
     with_growable_array h (\<lambda>frames.
     vbind (root_value_at stack) (\<lambda>v'.
     vbind (fold_callstack_object no_fixup (stack_frame_accumulator h frames) (UNTAG v') 0) (\<lambda>used.
     vthen (growable_reallot h ARRAY_TYPE frames used) (vbind (root_value_at frames) ctx_replace))))))"

definition innermost_return_address :: "cell \<Rightarrow> (factor_vm, cell) visit" where
  "innermost_return_address stack = vm_read (frame_top_at stack 0)"

definition primitive_innermost_stack_frame_executing :: "(factor_vm, unit) visit" where
  "primitive_innermost_stack_frame_executing =
     vbind ctx_peek (\<lambda>v. vbind (untag_check CALLSTACK_TYPE v) (\<lambda>stack.
     vbind (innermost_return_address stack) (\<lambda>addr. vbind (vm_block_for_address addr) (\<lambda>block.
     vbind (owner_quot block) ctx_replace))))"

definition primitive_innermost_stack_frame_scan :: "host \<Rightarrow> (factor_vm, unit) visit" where
  "primitive_innermost_stack_frame_scan h =
     vbind ctx_peek (\<lambda>v. vbind (untag_check CALLSTACK_TYPE v) (\<lambda>stack.
     vbind (innermost_return_address stack) (\<lambda>addr. vbind (vm_block_for_address addr) (\<lambda>block.
     vbind (block_scan h block addr) ctx_replace))))"

definition primitive_set_innermost_stack_frame_quotation :: "host \<Rightarrow> (factor_vm, unit) visit" where
  "primitive_set_innermost_stack_frame_quotation h =
     vbind ctx_pop (\<lambda>s. with_data_root s (\<lambda>stack. vbind ctx_pop (\<lambda>q. with_data_root q (\<lambda>quot.
     vthen (check_tagged CALLSTACK_TYPE s) (vthen (check_tagged QUOTATION_TYPE q)
     (vthen (jit_compile_quotation h q True)
     (vbind (root_value_at stack) (\<lambda>s'. vbind (innermost_return_address (UNTAG s')) (\<lambda>addr.
      vbind (vm_block_for_address addr) (\<lambda>block. vbind (root_value_at quot) (\<lambda>q'.
      vbind (vm_read (quotation_entry_point_field (UNTAG q'))) (\<lambda>entry_point.
      vm_write (frame_top_at (UNTAG s') 0) (entry_point + block_offset block addr)))))))))))))"

definition primitive_callstack_bounds :: "host \<Rightarrow> (factor_vm, unit) visit" where
  "primitive_callstack_bounds h =
     vbind current_ctx (\<lambda>c. vbind (vget (\<lambda>vm. callstack_seg (contexts vm c))) (\<lambda>seg.
     vthen (vbind (allot_alien h (seg_start seg)) ctx_push) (vbind (allot_alien h (seg_end seg)) ctx_push)))"

end
