(* ===== verification/Signals.thy ===== *)
theory Signals
  imports Quotation_Compiler
begin

text \<open>
  Errors and signals (\<open>vm/errors.cpp\<close>, \<open>vm/cpu-x86.cpp\<close>), safepoints (\<open>vm/safepoints.cpp\<close>)
  and the sampling profiler (\<open>vm/sampling_profiler.cpp\<close>).

  A signal handler runs on the stack pointer and program counter of the interrupted code and
  returns new ones. Fatal errors and failed assertions abort. Leaving the C++ code for the
  error handler is a result: the quotation and the callstack pointer to unwind to. Timers and
  output belong to the operating system; the low-level debugger is an argument.
\<close>

unbundle bit_operations_syntax

section \<open>Errors\<close>

definition KERNEL_ERROR :: fixnum where
  "KERNEL_ERROR = 0xfac7"

definition vm_error_types :: "vm_error_type list" where
  "vm_error_types =
     [ERROR_EXPIRED, ERROR_IO, ERROR_UNUSED, ERROR_TYPE, ERROR_DIVIDE_BY_ZERO, ERROR_SIGNAL, ERROR_ARRAY_SIZE,
      ERROR_OUT_OF_FIXNUM_RANGE, ERROR_FFI, ERROR_UNDEFINED_SYMBOL, ERROR_DATASTACK_UNDERFLOW, ERROR_DATASTACK_OVERFLOW,
      ERROR_RETAINSTACK_UNDERFLOW, ERROR_RETAINSTACK_OVERFLOW, ERROR_CALLSTACK_UNDERFLOW, ERROR_CALLSTACK_OVERFLOW,
      ERROR_MEMORY, ERROR_FP_TRAP, ERROR_INTERRUPT, ERROR_CALLBACK_SPACE_OVERFLOW]"

definition error_number :: "vm_error_type \<Rightarrow> fixnum" where
  "error_number e = int (position e vm_error_types)"

definition vm_fix_stacks :: "host \<Rightarrow> (factor_vm, unit) visit" where
  "vm_fix_stacks h = vbind current_ctx (\<lambda>c. vm_ctx_step c (\<lambda>s. (fix_stacks (host_debug h) s, ())))"

text \<open>
  Passing an error to the handler. The arguments become roots; none of the roots is left,
  because no destructor runs any more.
\<close>

definition raise_error :: "host \<Rightarrow> vm_error_type \<Rightarrow> cell \<Rightarrow> cell \<Rightarrow> (factor_vm, cell \<times> cell) visit" where
  "raise_error h error arg1 arg2 =
     vbind (vget (\<lambda>vm. length (data_roots vm))) (\<lambda>k.
     vthen (vmodify (\<lambda>vm. vm\<lparr>data_roots := data_roots vm @ [arg1, arg2], faulting_p := True\<rparr>))
     (vthen (vm_fix_stacks h)
     (vthen (vmodify (\<lambda>vm. vm\<lparr>gc_off := False\<rparr>))
     (vbind (vget current_gc) (\<lambda>running. vbind (special ERROR_HANDLER_QUOT) (\<lambda>handler.
      vthen (vassert (running = None \<and> to_boolean handler))
      (vthen (vwhen (host_debug h) (primitive_compact_gc h))
      (vbind (root_value_at k) (\<lambda>a1. vbind (root_value_at (k + 1)) (\<lambda>a2.
       vbind (allot_array_4 h (tag_fixnum KERNEL_ERROR) (tag_fixnum (error_number error)) a1 a2) (\<lambda>error_object.
       vthen (ctx_push error_object)
       (vthen (vmodify (\<lambda>vm. vm\<lparr>data_roots := []\<rparr>))
       (vbind (special ERROR_HANDLER_QUOT) (\<lambda>quot. vbind current_ctx (\<lambda>c.
        vget (\<lambda>vm. (quot, callstack_top (contexts vm c))))))))))))))))))"

text \<open>A primitive that fails is left through the handler.\<close>

definition run_primitive :: "host \<Rightarrow> (factor_vm, 'a) visit \<Rightarrow> (factor_vm, 'a + cell \<times> cell) visit" where
  "run_primitive h m vm =
     (case m vm of
        None \<Rightarrow> None
      | Some (vm', Inr x) \<Rightarrow> Some (vm', Inr (Inl x))
      | Some (vm', Inl (general_error error arg1 arg2)) \<Rightarrow>
          vbind (raise_error h error arg1 arg2) (\<lambda>t. vreturn (Inr t)) vm'
      | Some (vm', Inl must_start_gc_again) \<Rightarrow> None)"

definition divide_by_zero_error :: "(factor_vm, 'a) visit" where
  "divide_by_zero_error = vthrow (general_error ERROR_DIVIDE_BY_ZERO false_object false_object)"

definition set_memory_protection_error :: "host \<Rightarrow> cell \<Rightarrow> cell \<Rightarrow> (factor_vm, unit) visit" where
  "set_memory_protection_error h fault_addr fault_pc =
     vbind (vget id) (\<lambda>vm.
     vthen (vassert (\<not> (faulting_p vm \<and> \<not> safepoint_p (host_pagesize h) (vm_code vm) fault_addr) \<and> \<not> fep_p vm \<and> current_gc vm = None))
     (vmodify (\<lambda>vm. vm\<lparr>signal_fault_addr := fault_addr, signal_fault_pc := fault_pc\<rparr>)))"

section \<open>The sampling profiler\<close>

text \<open>A growable array that lives on the heap: its length and its contents.\<close>

definition growarr_capacity :: "memory \<Rightarrow> cell \<Rightarrow> cell option" where
  "growarr_capacity mem growarr = map_option word_of_int (untag_fixnum (mem (array_data growarr)))"

definition growarr_nth :: "memory \<Rightarrow> cell \<Rightarrow> cell \<Rightarrow> cell option" where
  "growarr_nth mem growarr slot = array_nth mem (UNTAG (mem (array_data growarr + sizeof_cell))) slot"

definition allot_growarr :: "host \<Rightarrow> (factor_vm, cell) visit" where
  "allot_growarr h =
     vbind (allot_array h 10 false_object) (\<lambda>c. with_data_root (tag_pointer ARRAY_TYPE c) (\<lambda>contents.
     vbind (allot_uninitialized_array h ARRAY_TYPE 2) (\<lambda>growarr.
     vthen (set_array_nth growarr 0 (tag_fixnum 0))
     (vthen (vbind (root_value_at contents) (set_array_nth growarr 1)) (vreturn growarr)))))"

definition growarr_add :: "host \<Rightarrow> cell \<Rightarrow> cell \<Rightarrow> (factor_vm, unit) visit" where
  "growarr_add h growarr0 elt0 =
     with_data_root (tag_pointer ARRAY_TYPE growarr0) (\<lambda>growarr. with_data_root elt0 (\<lambda>elt.
     vbind (vm_read (array_data growarr0 + sizeof_cell)) (\<lambda>c0. with_data_root c0 (\<lambda>contents.
     vbind (vbind vm_mem (\<lambda>mem. vlift (growarr_capacity mem growarr0))) (\<lambda>n.
     vbind (vm_array_capacity ARRAY_TYPE (UNTAG c0)) (\<lambda>capacity.
     vthen (vwhen (n = capacity)
       (vbind (reallot_array h ARRAY_TYPE (UNTAG c0) (2 * n)) (\<lambda>c1.
        vthen (set_root contents (tag_pointer ARRAY_TYPE c1))
        (vbind (root_value_at growarr) (\<lambda>g. set_array_nth (UNTAG g) 1 (tag_pointer ARRAY_TYPE c1))))))
     (vbind (root_value_at contents) (\<lambda>c. vbind (root_value_at elt) (\<lambda>e.
      vthen (set_array_nth (UNTAG c) n e)
      (vbind (root_value_at growarr) (\<lambda>g. set_array_nth (UNTAG g) 0 (tag_fixnum (sint (n + 1))))))))))))))"

definition new_sample :: "fixnum \<Rightarrow> fixnum \<Rightarrow> fixnum \<Rightarrow> fixnum \<Rightarrow> fixnum \<Rightarrow> profiling_sample" where
  "new_sample n n_gc n_jit n_foreign n_thread =
     \<lparr>sample_thread = 0, callstack_begin = 0, callstack_end = 0, sample_count = n, gc_sample_count = n_gc,
      jit_sample_count = n_jit, foreign_sample_count = n_foreign, foreign_thread_sample_count = n_thread\<rparr>"

definition read_counts :: "profiling_sample \<Rightarrow> profiling_sample" where
  "read_counts s =
     new_sample (sample_count s) (gc_sample_count s) (jit_sample_count s) (foreign_sample_count s) (foreign_thread_sample_count s)"

text \<open>The counters, each updated atomically.\<close>

datatype counter = Samples | Gc_samples | Jit_samples | Foreign_samples | Foreign_thread_samples

fun get_counter :: "counter \<Rightarrow> profiling_sample \<Rightarrow> fixnum" where
  "get_counter Samples s = sample_count s"
| "get_counter Gc_samples s = gc_sample_count s"
| "get_counter Jit_samples s = jit_sample_count s"
| "get_counter Foreign_samples s = foreign_sample_count s"
| "get_counter Foreign_thread_samples s = foreign_thread_sample_count s"

fun add_counter :: "counter \<Rightarrow> fixnum \<Rightarrow> profiling_sample \<Rightarrow> profiling_sample" where
  "add_counter Samples n s = s\<lparr>sample_count := fx (sample_count s + n)\<rparr>"
| "add_counter Gc_samples n s = s\<lparr>gc_sample_count := fx (gc_sample_count s + n)\<rparr>"
| "add_counter Jit_samples n s = s\<lparr>jit_sample_count := fx (jit_sample_count s + n)\<rparr>"
| "add_counter Foreign_samples n s = s\<lparr>foreign_sample_count := fx (foreign_sample_count s + n)\<rparr>"
| "add_counter Foreign_thread_samples n s = s\<lparr>foreign_thread_sample_count := fx (foreign_thread_sample_count s + n)\<rparr>"

text \<open>What \<open>record_counts\<close> subtracts, one atomic operation after the other.\<close>

definition subtractions :: "profiling_sample \<Rightarrow> (counter \<times> fixnum) list" where
  "subtractions counts =
     [(Samples, - sample_count counts), (Gc_samples, - gc_sample_count counts), (Jit_samples, - jit_sample_count counts),
      (Foreign_samples, - foreign_sample_count counts), (Foreign_thread_samples, - foreign_thread_sample_count counts)]"

definition add_counters :: "(counter \<times> fixnum) list \<Rightarrow> profiling_sample \<Rightarrow> profiling_sample" where
  "add_counters steps s = fold (\<lambda>(c, n). add_counter c n) steps s"

definition record_counts :: "(factor_vm, profiling_sample) visit" where
  "record_counts =
     vbind (vget (\<lambda>vm. read_counts (current_sample vm))) (\<lambda>counts.
     vthen (vmodify (\<lambda>vm. vm\<lparr>current_sample := add_counters (subtractions counts) (current_sample vm)\<rparr>)) (vreturn counts))"

definition clear_counts :: "profiling_sample \<Rightarrow> profiling_sample" where
  "clear_counts s =
     s\<lparr>sample_count := 0, gc_sample_count := 0, jit_sample_count := 0, foreign_sample_count := 0, foreign_thread_sample_count := 0\<rparr>"

definition empty_sample :: "profiling_sample \<Rightarrow> bool" where
  "empty_sample s \<longleftrightarrow>
     fx (sample_count s + gc_sample_count s + jit_sample_count s + foreign_sample_count s + foreign_thread_sample_count s) = 0"

definition vm_growarr_capacity :: "nat \<Rightarrow> (factor_vm, cell) visit" where
  "vm_growarr_capacity root = vbind (root_value_at root) (\<lambda>v. vbind vm_mem (\<lambda>mem. vlift (growarr_capacity mem (UNTAG v))))"

definition sample_recorder :: "host \<Rightarrow> nat \<Rightarrow> bool frame_fold" where
  "sample_recorder h callstacks frame_top sz owner addr skip =
     (if skip then vreturn False
      else
        vbind (root_value_at callstacks) (\<lambda>v. vbind (vm_read (block_owner_field owner)) (\<lambda>w.
        vthen (growarr_add h (UNTAG v) w) (vreturn False))))"

definition record_sample :: "host \<Rightarrow> bool \<Rightarrow> (factor_vm, unit) visit" where
  "record_sample h prolog_p =
     vbind record_counts (\<lambda>result.
     if empty_sample result then vreturn ()
     else
       vbind (special OBJ_SAMPLE_CALLSTACKS) (\<lambda>v. with_data_root v (\<lambda>callstacks.
       vbind (vm_growarr_capacity callstacks) (\<lambda>first.
       vbind current_ctx (\<lambda>c.
       vthen (fold_callstack no_fixup (sample_recorder h callstacks) c prolog_p)
       (vbind (vm_growarr_capacity callstacks) (\<lambda>limit.
        vbind (special OBJ_CURRENT_THREAD) (\<lambda>thread.
        vmodify (\<lambda>vm. vm\<lparr>samples := samples vm @
          [result\<lparr>sample_thread := thread, callstack_begin := first, callstack_end := limit\<rparr>]\<rparr>)))))))))"

definition start_sampling_profiler :: "host \<Rightarrow> fixnum \<Rightarrow> (factor_vm, unit) visit" where
  "start_sampling_profiler h rate =
     vbind (allot_growarr h) (\<lambda>g.
     vthen (set_special_object_at (special_object_index OBJ_SAMPLE_CALLSTACKS) (tag_pointer ARRAY_TYPE g))
     (vmodify (\<lambda>vm. vm\<lparr>samples_per_second := rate, current_sample := clear_counts (current_sample vm), samples := [],
        sampling_profiler_p := True\<rparr>)))"

definition end_sampling_profiler :: "host \<Rightarrow> (factor_vm, unit) visit" where
  "end_sampling_profiler h = vthen (vmodify (\<lambda>vm. vm\<lparr>sampling_profiler_p := False\<rparr>)) (record_sample h False)"

definition set_sampling_profiler :: "host \<Rightarrow> fixnum \<Rightarrow> (factor_vm, unit) visit" where
  "set_sampling_profiler h rate =
     vbind (vget sampling_profiler_p) (\<lambda>running_p.
     if rate > 0 \<and> \<not> running_p then start_sampling_profiler h rate
     else if rate = 0 \<and> running_p then end_sampling_profiler h
     else vreturn ())"

definition primitive_sampling_profiler :: "host \<Rightarrow> (factor_vm, unit) visit" where
  "primitive_sampling_profiler h = vbind ctx_pop (\<lambda>v. vbind (vm_to_fixnum v) (set_sampling_profiler h))"

definition copy_callstack :: "nat \<Rightarrow> nat \<Rightarrow> cell \<Rightarrow> nat \<Rightarrow> (factor_vm, unit) visit" where
  "copy_callstack callstacks target first n =
     vfor_each (\<lambda>i.
       vbind (root_value_at callstacks) (\<lambda>v. vbind (vbind vm_mem (\<lambda>mem. vlift (growarr_nth mem (UNTAG v) (first + of_nat i)))) (\<lambda>owner.
       vbind (root_value_at target) (\<lambda>t. set_array_nth (UNTAG t) (of_nat i) owner)))) [0..<n]"

definition sample_to_array :: "host \<Rightarrow> nat \<Rightarrow> nat \<Rightarrow> nat \<Rightarrow> (factor_vm, unit) visit" where
  "sample_to_array h samples_array callstacks k =
     vbind (allot_array h 7 false_object) (\<lambda>a. with_data_root (tag_pointer ARRAY_TYPE a) (\<lambda>sample.
     vbind (vget (\<lambda>vm. samples vm ! k)) (\<lambda>s.
     vthen (vfor_each (\<lambda>(i, v). set_array_nth a i v)
       [(0, tag_fixnum (sample_count s)), (1, tag_fixnum (gc_sample_count s)), (2, tag_fixnum (jit_sample_count s)),
        (3, tag_fixnum (foreign_sample_count s)), (4, tag_fixnum (foreign_thread_sample_count s)), (5, sample_thread s)])
     (let n = callstack_end s - callstack_begin s in
      vbind (allot_array h n false_object) (\<lambda>b. with_data_root (tag_pointer ARRAY_TYPE b) (\<lambda>stack.
      vthen (copy_callstack callstacks stack (callstack_begin s) (unat n))
      (vbind (root_value_at sample) (\<lambda>v. vbind (root_value_at stack) (\<lambda>c. vthen (set_array_nth (UNTAG v) 6 c)
      (vbind (root_value_at samples_array) (\<lambda>t. set_array_nth (UNTAG t) (of_nat k) v)))))))))))"

definition primitive_get_samples :: "host \<Rightarrow> (factor_vm, unit) visit" where
  "primitive_get_samples h =
     vbind (vget sampling_profiler_p) (\<lambda>running_p. vbind (vget samples) (\<lambda>ss.
     if running_p \<or> ss = [] then ctx_push false_object
     else
       vbind (allot_array h (of_nat (length ss)) false_object) (\<lambda>a. with_data_root (tag_pointer ARRAY_TYPE a) (\<lambda>samples_array.
       vbind (special OBJ_SAMPLE_CALLSTACKS) (\<lambda>v. with_data_root v (\<lambda>callstacks.
       vthen (vfor_each (sample_to_array h samples_array callstacks) [0..<length ss])
       (vbind (root_value_at samples_array) ctx_push)))))))"

section \<open>Safepoints\<close>

definition set_safepoint_guard :: "bool \<Rightarrow> (factor_vm, unit) visit" where
  "set_safepoint_guard locked = vmodify (\<lambda>vm. vm\<lparr>safepoint_guard := locked\<rparr>)"

definition enqueue_fep :: "(factor_vm, unit) visit" where
  "enqueue_fep =
     vbind (vget fep_p) (\<lambda>p. vthen (vassert (\<not> p))
     (vthen (vmodify (\<lambda>vm. vm\<lparr>safepoint_fep_p := True\<rparr>)) (set_safepoint_guard True)))"

text \<open>The counters a signal adds to.\<close>

definition enqueued :: "factor_vm \<Rightarrow> fixnum \<Rightarrow> cell \<Rightarrow> bool \<Rightarrow> (counter \<times> fixnum) list" where
  "enqueued vm n pc foreign_thread_p =
     (Samples, n) #
     (if foreign_thread_p then [(Foreign_thread_samples, n)]
      else (if current_gc vm \<noteq> None then [(Gc_samples, n)] else []) @
           (if current_jit_count vm > 0 then [(Jit_samples, n)] else []) @
           (if \<not> in_segment_p (ch_seg (vm_code vm)) pc then [(Foreign_samples, n)] else []))"

definition enqueue_samples :: "fixnum \<Rightarrow> cell \<Rightarrow> bool \<Rightarrow> (factor_vm, unit) visit" where
  "enqueue_samples n pc foreign_thread_p =
     vbind (vget sampling_profiler_p) (\<lambda>p.
     if \<not> p then vreturn ()
     else
       vthen (vmodify (\<lambda>vm. vm\<lparr>current_sample := add_counters (enqueued vm n pc foreign_thread_p) (current_sample vm)\<rparr>))
       (set_safepoint_guard True))"

definition handle_safepoint :: "host \<Rightarrow> (factor_vm, unit) visit \<Rightarrow> cell \<Rightarrow> (factor_vm, unit) visit" where
  "handle_safepoint h factorbug pc =
     vthen (set_safepoint_guard False)
     (vthen (vmodify (\<lambda>vm. vm\<lparr>faulting_p := False\<rparr>))
     (vbind (vget id) (\<lambda>vm.
      if safepoint_fep_p vm then
        vthen (vwhen (sampling_profiler_p vm) (end_sampling_profiler h))
        (vthen (vwhen (stop_on_ctrl_break vm)
          (vthen (vmodify (\<lambda>vm. vm\<lparr>safepoint_fep_p := False\<rparr>)) (vthrow (general_error ERROR_INTERRUPT false_object false_object))))
        (vthen factorbug (vmodify (\<lambda>vm. vm\<lparr>safepoint_fep_p := False\<rparr>))))
      else if sampling_profiler_p vm then
        vthen (vassert (in_segment_p (ch_seg (vm_code vm)) pc))
        (vbind (vm_block_for_address pc) (\<lambda>block. record_sample h (block_entry_point block = pc)))
      else vreturn ())))"

definition memory_signal_handler_impl :: "host \<Rightarrow> (factor_vm, unit) visit \<Rightarrow> (factor_vm, unit) visit" where
  "memory_signal_handler_impl h factorbug =
     vbind (vget id) (\<lambda>vm.
     vthen (if safepoint_p (host_pagesize h) (vm_code vm) (signal_fault_addr vm) then handle_safepoint h factorbug (signal_fault_pc vm)
            else
              vbind current_ctx (\<lambda>c.
              vbind (vm_from_unsigned_cell h (signal_fault_addr vm)) (\<lambda>number.
              vthrow (general_error (address_to_error (host_pagesize h) (contexts vm c) (signal_fault_addr vm)) number false_object))))
     (vbind (vget signal_resumable) (\<lambda>resumable.
      vwhen (\<not> resumable) (vthrow (general_error ERROR_CALLSTACK_OVERFLOW false_object false_object)))))"

definition synchronous_signal_handler_impl :: "host \<Rightarrow> (factor_vm, unit) visit" where
  "synchronous_signal_handler_impl h =
     vbind (vget signal_number) (\<lambda>n. vbind (vm_from_unsigned_cell h n) (\<lambda>number.
     vthrow (general_error ERROR_SIGNAL number false_object)))"

text \<open>Clearing the exceptions of the floating-point unit has no effect on this state.\<close>

definition fp_signal_handler_impl :: "(factor_vm, unit) visit" where
  "fp_signal_handler_impl =
     vbind (vget signal_fpu_status) (\<lambda>st. vthrow (general_error ERROR_FP_TRAP (tag_fixnum (uint st)) false_object))"

section \<open>Dispatching a signal\<close>

partial_function (option) cut_frames :: "cell \<Rightarrow> cell \<Rightarrow> cell \<Rightarrow> factor_vm \<Rightarrow> (factor_vm \<times> (vm_exception + cell)) option" where
  "cut_frames bottom limit frame_top s =
     (if frame_top < bottom \<and> frame_top < limit then
        vbind (vbind (vget (\<lambda>vm. frame_predecessor (vm_memory vm) (vm_code vm) frame_top)) vlift) (cut_frames bottom limit)
      else vreturn frame_top) s"

definition dispatch_non_resumable_signal :: "cell \<Rightarrow> cell \<Rightarrow> cell \<Rightarrow> (factor_vm, cell \<times> cell) visit" where
  "dispatch_non_resumable_signal pc handler limit =
     vbind current_ctx (\<lambda>c. vbind (vget (\<lambda>vm. contexts vm c)) (\<lambda>x.
     let start = seg_start (callstack_seg x) in
     vbind (if callstack_top x < start
            then vbind (vm_block_for_address pc) (\<lambda>block.
              vget (\<lambda>vm. callstack_top x + stack_frame_size_for_address (vm_memory vm) block pc))
            else vreturn (callstack_top x)) (\<lambda>frame_top.
     vthen (vassert (start \<le> frame_top))
     (vbind (cut_frames (callstack_bottom x) limit frame_top) (\<lambda>frame_top'.
      vthen (vm_ctx_update c (\<lambda>x. x\<lparr>callstack_top := frame_top'\<rparr>)) (vreturn (frame_top', handler)))))))"

definition dispatch_resumable_signal :: "cell \<Rightarrow> cell \<Rightarrow> cell \<Rightarrow> (factor_vm, cell \<times> cell) visit" where
  "dispatch_resumable_signal sp pc handler =
     (let offset = sp mod 16 in
      vthen (vmodify (\<lambda>vm. vm\<lparr>signal_handler_addr := handler\<rparr>))
      (vbind (if offset = 0 then vreturn (sizeof_cell, SIGNAL_HANDLER_WORD)
              else if offset = 16 - sizeof_cell then vthen (vm_block_for_address pc) (vreturn (LEAF_FRAME_SIZE, LEAF_SIGNAL_HANDLER_WORD))
              else vlift None) (\<lambda>(delta, index).
       let new_sp = sp - delta in
       vthen (vm_write new_sp pc)
       (vbind (special index) (\<lambda>w. vbind (vm_read (word_entry_point_field (UNTAG w))) (\<lambda>e. vreturn (new_sp, e)))))))"

definition dispatch_signal_handler :: "cell \<Rightarrow> cell \<Rightarrow> cell \<Rightarrow> (factor_vm, cell \<times> cell) visit" where
  "dispatch_signal_handler sp pc handler =
     vbind current_ctx (\<lambda>c. vbind (vget id) (\<lambda>vm.
     let in_code_seg = in_segment_p (ch_seg (vm_code vm)) pc;
         cs_limit = seg_start (callstack_seg (contexts vm c)) + stack_reserved;
         resumable = (in_code_seg \<and> sp \<ge> cs_limit) in
     vthen (vmodify (\<lambda>vm. vm\<lparr>signal_resumable := resumable\<rparr>))
     (vbind (if resumable then dispatch_resumable_signal sp pc handler else dispatch_non_resumable_signal pc handler cs_limit) (\<lambda>r.
      vthen (vmodify (\<lambda>vm. vm\<lparr>data_roots := [], code_roots := []\<rparr>)) (vreturn r)))))"

end
