(* ===== verification/Inline_Caches.thy ===== *)
theory Inline_Caches
  imports Quotation_Compiler
begin

text \<open>
  Method dispatch (\<open>vm/dispatch.hpp\<close>, \<open>vm/dispatch.cpp\<close>) and polymorphic inline caches
  (\<open>vm/inline_cache.cpp\<close>).

  A generic word looks a method up by the type of an object and, for tuples, by the classes
  of its layout from the most specific one on. Megamorphic caches keep results in a hash
  table; inline caches are code blocks generated for a call site.
\<close>

unbundle bit_operations_syntax

section \<open>Looking up methods\<close>

text \<open>
  The table is searched from its end in steps of two; an odd number of elements leaves out
  the first one.
\<close>

function search_lookup_alist :: "memory \<Rightarrow> cell \<Rightarrow> cell \<Rightarrow> fixnum \<Rightarrow> cell option" where
  "search_lookup_alist mem elements klass index =
     (if index \<ge> 0 then do {
        k \<leftarrow> array_nth mem elements (word_of_int index);
        if k = klass then array_nth mem elements (word_of_int (index + 1))
        else search_lookup_alist mem elements klass (index - 2) }
      else Some false_object)"
  by pat_completeness auto

termination by (relation "measure (\<lambda>(mem, elements, klass, index). nat (index + 1))") auto

declare search_lookup_alist.simps [simp del]

definition search_lookup_table :: "memory \<Rightarrow> cell \<Rightarrow> cell \<Rightarrow> cell option" where
  "search_lookup_table mem table klass = do {
     n \<leftarrow> array_capacity ARRAY_TYPE mem (UNTAG table);
     search_lookup_alist mem (UNTAG table) klass (fx (sint n - 2)) }"

definition search_lookup_hash :: "memory \<Rightarrow> cell \<Rightarrow> cell \<Rightarrow> cell \<Rightarrow> cell option" where
  "search_lookup_hash mem table klass hash =
     (let buckets = UNTAG table in do {
        n \<leftarrow> array_capacity ARRAY_TYPE mem buckets;
        bucket \<leftarrow> array_nth mem buckets (hash AND (n - 1));
        if TAG bucket = type_number ARRAY_TYPE then search_lookup_table mem bucket klass else Some bucket })"

definition sizeof_tuple_layout :: cell where
  "sizeof_tuple_layout = 40"

definition tuple_layout_echelon_field :: "cell \<Rightarrow> cell" where
  "tuple_layout_echelon_field layout = layout + 32"

definition nth_superclass :: "memory \<Rightarrow> cell \<Rightarrow> fixnum \<Rightarrow> cell" where
  "nth_superclass mem layout echelon = mem (layout + sizeof_tuple_layout + sizeof_cell * word_of_int (echelon * 2))"

definition nth_hashcode :: "memory \<Rightarrow> cell \<Rightarrow> fixnum \<Rightarrow> cell" where
  "nth_hashcode mem layout echelon = mem (layout + sizeof_tuple_layout + sizeof_cell * word_of_int (echelon * 2 + 1))"

text \<open>What one level of the class hierarchy contributes: a method, or nothing.\<close>

definition echelon_method :: "memory \<Rightarrow> cell \<Rightarrow> cell \<Rightarrow> fixnum \<Rightarrow> cell option option" where
  "echelon_method mem layout echelons echelon = do {
     methods \<leftarrow> array_nth mem echelons (word_of_int echelon);
     if TAG methods = type_number WORD_TYPE then Some (Some methods)
     else if to_boolean methods then do {
       hash \<leftarrow> untag_fixnum (nth_hashcode mem layout echelon);
       result \<leftarrow> search_lookup_hash mem methods (nth_superclass mem layout echelon) (word_of_int hash);
       Some (if to_boolean result then Some result else None) }
     else Some None }"

function lookup_echelons :: "memory \<Rightarrow> cell \<Rightarrow> cell \<Rightarrow> fixnum \<Rightarrow> cell option" where
  "lookup_echelons mem layout echelons echelon =
     (if echelon \<ge> 0 then do {
        found \<leftarrow> echelon_method mem layout echelons echelon;
        case found of Some m \<Rightarrow> Some m | None \<Rightarrow> lookup_echelons mem layout echelons (echelon - 1) }
      else None)"
  by pat_completeness auto

termination by (relation "measure (\<lambda>(mem, layout, echelons, echelon). nat (echelon + 1))") auto

declare lookup_echelons.simps [simp del]

definition lookup_tuple_method :: "memory \<Rightarrow> cell \<Rightarrow> cell \<Rightarrow> cell option" where
  "lookup_tuple_method mem obj methods =
     (let layout = UNTAG (mem (tuple_layout_field (UNTAG obj))); echelons = UNTAG methods in do {
        e \<leftarrow> untag_fixnum (mem (tuple_layout_echelon_field layout));
        n \<leftarrow> array_capacity ARRAY_TYPE mem echelons;
        lookup_echelons mem layout echelons (min e (fx (sint n - 1))) })"

definition lookup_method :: "memory \<Rightarrow> cell \<Rightarrow> cell \<Rightarrow> cell option" where
  "lookup_method mem obj methods =
     (let tag = TAG obj in do {
        m \<leftarrow> array_nth mem (UNTAG methods) tag;
        if tag = type_number TUPLE_TYPE \<and> TAG m = type_number ARRAY_TYPE then lookup_tuple_method mem obj m else Some m })"

definition vm_lookup_method :: "cell \<Rightarrow> cell \<Rightarrow> (factor_vm, cell) visit" where
  "vm_lookup_method obj methods = vbind vm_mem (\<lambda>mem. vlift (lookup_method mem obj methods))"

definition primitive_lookup_method :: "(factor_vm, unit) visit" where
  "primitive_lookup_method =
     vbind ctx_pop (\<lambda>methods. vbind ctx_pop (\<lambda>obj. vbind (vm_lookup_method obj methods) ctx_push))"

definition object_class :: "memory \<Rightarrow> cell \<Rightarrow> cell" where
  "object_class mem obj =
     (if TAG obj = type_number TUPLE_TYPE then mem (tuple_layout_field (UNTAG obj)) else tag_fixnum (uint (TAG obj)))"

section \<open>Megamorphic caches\<close>

definition method_cache_hashcode :: "memory \<Rightarrow> cell \<Rightarrow> cell \<Rightarrow> cell option" where
  "method_cache_hashcode mem klass elements =
     map_option (\<lambda>n. let capacity = drop_bit 1 n - 1 in push_bit 1 (drop_bit TAG_BITS klass AND capacity))
       (array_capacity ARRAY_TYPE mem elements)"

definition update_method_cache :: "cell \<Rightarrow> cell \<Rightarrow> cell \<Rightarrow> (factor_vm, unit) visit" where
  "update_method_cache cache klass method =
     (let cache_elements = UNTAG cache in
      vbind (vbind vm_mem (\<lambda>mem. vlift (method_cache_hashcode mem klass cache_elements))) (\<lambda>hash.
      vthen (set_array_nth cache_elements hash klass) (set_array_nth cache_elements (hash + 1) method)))"

definition stats_step :: "(dispatch_statistics \<Rightarrow> dispatch_statistics) \<Rightarrow> (factor_vm, unit) visit" where
  "stats_step f = vmodify (\<lambda>vm. vm\<lparr>dispatch_stats := f (dispatch_stats vm)\<rparr>)"

definition stack_item :: "fixnum \<Rightarrow> (factor_vm, cell) visit" where
  "stack_item index =
     vbind current_ctx (\<lambda>c. vbind (vget (\<lambda>vm. datastack (contexts vm c))) (\<lambda>ds. vm_read (ds - sizeof_cell * word_of_int index)))"

definition primitive_mega_cache_miss :: "(factor_vm, unit) visit" where
  "primitive_mega_cache_miss =
     vthen (stats_step (\<lambda>d. d\<lparr>megamorphic_cache_misses := megamorphic_cache_misses d + 1\<rparr>))
     (vbind ctx_pop (\<lambda>cache. vbind ctx_pop (\<lambda>x. vbind (vlift (untag_fixnum x)) (\<lambda>index. vbind ctx_pop (\<lambda>methods.
      vbind (stack_item index) (\<lambda>obj.
      vbind (vget (\<lambda>vm. object_class (vm_memory vm) obj)) (\<lambda>klass.
      vbind (vm_lookup_method obj methods) (\<lambda>method.
      vthen (update_method_cache cache klass method) (ctx_push method)))))))))"

definition primitive_reset_dispatch_stats :: "(factor_vm, unit) visit" where
  "primitive_reset_dispatch_stats =
     stats_step (\<lambda>_. \<lparr>megamorphic_cache_hits = 0, megamorphic_cache_misses = 0, cold_call_to_ic_transitions = 0,
       ic_to_pic_transitions = 0, pic_to_mega_transitions = 0, pic_tag_count = 0, pic_tuple_count = 0\<rparr>)"

definition primitive_dispatch_stats :: "host \<Rightarrow> (factor_vm, unit) visit" where
  "primitive_dispatch_stats h =
     vbind (vget dispatch_stats) (\<lambda>d.
     vbind (byte_array_from_value h [megamorphic_cache_hits d, megamorphic_cache_misses d, cold_call_to_ic_transitions d,
       ic_to_pic_transitions d, pic_to_mega_transitions d, pic_tag_count d, pic_tuple_count d]) (\<lambda>a.
     ctx_push (tag_pointer BYTE_ARRAY_TYPE a)))"

section \<open>Inline caches\<close>

definition deallocate_inline_cache :: "cell \<Rightarrow> (factor_vm, unit) visit" where
  "deallocate_inline_cache return_address =
     vbind (vbind vm_mem (\<lambda>mem. vlift (get_call_target mem return_address))) (\<lambda>old_entry_point.
     let old_block = old_entry_point - sizeof_code_block in
     vbind (vm_pic_p old_block) (\<lambda>pic. vwhen pic (vm_code_step (\<lambda>s. code_free s old_block))))"

primrec cache_type_scan :: "memory \<Rightarrow> cell \<Rightarrow> nat \<Rightarrow> cell \<Rightarrow> special_object option" where
  "cache_type_scan mem entries 0 i = Some PIC_TAG"
| "cache_type_scan mem entries (Suc n) i = do {
     k \<leftarrow> array_nth mem entries i;
     if TAG k = type_number ARRAY_TYPE then Some PIC_TUPLE else cache_type_scan mem entries n (i + 2) }"

definition determine_inline_cache_type :: "memory \<Rightarrow> cell \<Rightarrow> special_object option" where
  "determine_inline_cache_type mem entries = do {
     n \<leftarrow> array_capacity ARRAY_TYPE mem entries;
     cache_type_scan mem entries ((unat n + 1) div 2) 0 }"

definition update_pic_count :: "special_object \<Rightarrow> (factor_vm, unit) visit" where
  "update_pic_count ty =
     stats_step (\<lambda>d. if ty = PIC_TAG then d\<lparr>pic_tag_count := pic_tag_count d + 1\<rparr> else d\<lparr>pic_tuple_count := pic_tuple_count d + 1\<rparr>)"

text \<open>
  The class and the method are plain values here: the method is emitted after the code that
  checks the class.
\<close>

definition emit_check_and_jump :: "host \<Rightarrow> special_object \<Rightarrow> cell \<Rightarrow> cell \<Rightarrow> cell \<Rightarrow> jit \<Rightarrow> (factor_vm, jit) visit" where
  "emit_check_and_jump h ic_type i klass method j =
     (let check_type = (if TAG klass \<noteq> type_number FIXNUM_TYPE then PIC_CHECK_TUPLE else PIC_CHECK_TAG) in
      vbind (if \<not> (i = 0 \<and> ic_type = PIC_TAG \<and> klass = 0)
             then vbind (special check_type) (\<lambda>t. emit_with_literal h j t klass) else vreturn j) (\<lambda>j1.
      vbind (special PIC_HIT) (\<lambda>t. emit_with_literal h j1 t method)))"

primrec emit_cache_entries :: "host \<Rightarrow> special_object \<Rightarrow> nat \<Rightarrow> nat \<Rightarrow> cell \<Rightarrow> jit \<Rightarrow> (factor_vm, jit) visit" where
  "emit_cache_entries h ic_type cache_entries 0 i j = vreturn j"
| "emit_cache_entries h ic_type cache_entries (Suc n) i j =
     vbind (root_array_nth cache_entries i) (\<lambda>klass. vbind (root_array_nth cache_entries (i + 1)) (\<lambda>method.
     vbind (emit_check_and_jump h ic_type i klass method j) (emit_cache_entries h ic_type cache_entries n (i + 2))))"

definition emit_inline_cache :: "host \<Rightarrow> fixnum \<Rightarrow> cell \<Rightarrow> cell \<Rightarrow> cell \<Rightarrow> bool \<Rightarrow> jit \<Rightarrow> (factor_vm, jit) visit" where
  "emit_inline_cache h index generic_word0 methods0 cache_entries0 tail_call_p j =
     with_data_root generic_word0 (\<lambda>generic_word. with_data_root methods0 (\<lambda>methods. with_data_root cache_entries0 (\<lambda>cache_entries.
     vbind (vbind vm_mem (\<lambda>mem. vlift (determine_inline_cache_type mem (UNTAG cache_entries0)))) (\<lambda>ic_type.
     vthen (update_pic_count ic_type)
     (vbind (vbind (special PIC_LOAD) (\<lambda>t. emit_with_literal h j t (tag_fixnum (sint (word_of_int (- index) * sizeof_cell))))) (\<lambda>j1.
     vbind (emit_special h ic_type j1) (\<lambda>j2.
     vbind (vbind (root_value_at cache_entries) (\<lambda>v. vm_array_capacity ARRAY_TYPE (UNTAG v))) (\<lambda>n.
     vbind (emit_cache_entries h ic_type cache_entries ((unat n + 1) div 2) 0 j2) (\<lambda>j3.
     vbind (emit_special h JIT_PROLOG j3) (\<lambda>j4.
     vbind (vbind (root_value_at generic_word) (push_literal h j4)) (\<lambda>j5.
     vbind (vbind (root_value_at methods) (push_literal h j5)) (\<lambda>j6.
     vbind (push_literal h j6 (tag_fixnum index)) (\<lambda>j7.
     vbind (vbind (root_value_at cache_entries) (push_literal h j7)) (\<lambda>j8.
     vbind (special (if tail_call_p then PIC_MISS_TAIL_WORD else PIC_MISS_WORD)) (\<lambda>w.
     vbind (emit_subprimitive h j8 w True True) (\<lambda>(j9, _). vreturn j9))))))))))))))))"

definition add_inline_cache_entry :: "host \<Rightarrow> cell \<Rightarrow> cell \<Rightarrow> cell \<Rightarrow> (factor_vm, cell) visit" where
  "add_inline_cache_entry h cache_entries0 klass0 method0 =
     with_data_root cache_entries0 (\<lambda>cache_entries. with_data_root klass0 (\<lambda>klass. with_data_root method0 (\<lambda>method.
     vbind (vm_array_capacity ARRAY_TYPE (UNTAG cache_entries0)) (\<lambda>pic_size.
     vbind (reallot_array h ARRAY_TYPE (UNTAG cache_entries0) (pic_size + 2)) (\<lambda>new_cache_entries.
     vthen (vbind (root_value_at klass) (set_array_nth new_cache_entries pic_size))
     (vthen (vbind (root_value_at method) (set_array_nth new_cache_entries (pic_size + 1)))
     (vreturn (tag_pointer ARRAY_TYPE new_cache_entries))))))))"

definition update_pic_transitions :: "cell \<Rightarrow> (factor_vm, unit) visit" where
  "update_pic_transitions pic_size =
     vbind (vget max_pic_size) (\<lambda>n.
     stats_step (\<lambda>d.
       if pic_size = n then d\<lparr>pic_to_mega_transitions := pic_to_mega_transitions d + 1\<rparr>
       else if pic_size = 0 then d\<lparr>cold_call_to_ic_transitions := cold_call_to_ic_transitions d + 1\<rparr>
       else if pic_size = 1 then d\<lparr>ic_to_pic_transitions := ic_to_pic_transitions d + 1\<rparr>
       else d))"

text \<open>A return address registered as a root of the code heap.\<close>

definition with_code_root :: "cell \<Rightarrow> (nat \<Rightarrow> (factor_vm, 'a) visit) \<Rightarrow> (factor_vm, 'a) visit" where
  "with_code_root v body vm =
     map_option (\<lambda>(vm', r). (vm'\<lparr>code_roots := butlast (code_roots vm')\<rparr>, r))
       (body (length (code_roots vm)) (vm\<lparr>code_roots := code_roots vm @ [\<lparr>root_value = v, root_valid = True\<rparr>]\<rparr>))"

definition code_root_at :: "nat \<Rightarrow> (factor_vm, code_root) visit" where
  "code_root_at i = vbind (vget code_roots) (\<lambda>roots. vlift (if i < length roots then Some (roots ! i) else None))"

definition compile_inline_cache :: "host \<Rightarrow> fixnum \<Rightarrow> nat \<Rightarrow> nat \<Rightarrow> nat \<Rightarrow> nat \<Rightarrow> bool \<Rightarrow> (factor_vm, cell) visit" where
  "compile_inline_cache h index generic_word methods cache_entries obj tail_call_site =
     vbind (root_value_at obj) (\<lambda>x. vbind (root_value_at methods) (\<lambda>m.
     vbind (vget (\<lambda>vm. object_class (vm_memory vm) x)) (\<lambda>klass.
     vbind (vm_lookup_method x m) (\<lambda>method.
     vbind (root_value_at cache_entries) (\<lambda>e.
     vbind (add_inline_cache_entry h e klass method) (\<lambda>e'.
     with_data_root e' (\<lambda>new_cache_entries.
     vbind (root_value_at generic_word) (\<lambda>w.
     with_jit h w (\<lambda>j.
     vbind (root_value_at generic_word) (\<lambda>w'. vbind (root_value_at methods) (\<lambda>m'. vbind (root_value_at new_cache_entries) (\<lambda>n.
     vbind (emit_inline_cache h index w' m' n tail_call_site j) (\<lambda>j1.
     vbind (to_code_block h j1 CODE_BLOCK_PIC JIT_FRAME_SIZE) (\<lambda>code.
     vthen (initialize_code_block h code) (vreturn (block_entry_point code))))))))))))))))"

definition inline_cache_miss :: "host \<Rightarrow> cell \<Rightarrow> (factor_vm, cell) visit" where
  "inline_cache_miss h return_address0 =
     with_code_root return_address0 (\<lambda>return_address.
     vbind (vbind vm_mem (\<lambda>mem. vlift (tail_call_site_p mem return_address0))) (\<lambda>tail_call_site.
     vbind ctx_pop (\<lambda>e. with_data_root e (\<lambda>cache_entries.
     vbind ctx_pop (\<lambda>x. vbind (vlift (untag_fixnum x)) (\<lambda>index.
     vbind ctx_pop (\<lambda>m. with_data_root m (\<lambda>methods.
     vbind ctx_pop (\<lambda>w. with_data_root w (\<lambda>generic_word.
     vbind (stack_item index) (\<lambda>o0. with_data_root o0 (\<lambda>obj.
     vbind (vm_array_capacity ARRAY_TYPE (UNTAG e)) (\<lambda>n.
     let pic_size = n div 2 in
     vthen (update_pic_transitions pic_size)
     (vbind (vm_read (word_entry_point_field (UNTAG w))) (\<lambda>generic_xt.
     vbind (vget max_pic_size) (\<lambda>max_size.
     vbind (if pic_size < max_size then compile_inline_cache h index generic_word methods cache_entries obj tail_call_site
            else vreturn generic_xt) (\<lambda>xt.
     vbind (code_root_at return_address) (\<lambda>r.
     vthen (vwhen (root_valid r)
       (vthen (deallocate_inline_cache (root_value r))
       (vcomponent vm_memory (\<lambda>mem vm. vm\<lparr>vm_memory := mem\<rparr>)
          (\<lambda>mem. map_option (\<lambda>mem'. (mem', ())) (set_call_target mem (root_value r) xt)))))
     (vreturn xt)))))))))))))))))))"

end
