(* ===== verification/Copying.thy ===== *)
theory Copying
  imports Collectors
begin

text \<open>
  What copying an object does: the copy has the contents of the original, the original
  forwards to the copy, nothing else changes, and visiting the object again finds the copy.
  This holds for every allocator that keeps the contract of \<open>block_allocator\<close>.
\<close>

unbundle bit_operations_syntax

section \<open>Copying into an allocator\<close>

lemma unat_offset:
  fixes a sz :: cell
  assumes "i < unat sz" "unat a + unat sz \<le> 2 ^ 64"
  shows "unat (a + of_nat i) = unat a + i"
proof -
  have "unat sz < 2 ^ LENGTH(64)" by (rule unsigned_less)
  then have "unat (of_nat i :: cell) = i" using assms by (simp add: unat_of_nat)
  then show ?thesis using assms by (simp add: unat_word_ariths)
qed

lemma memmove_inside:
  "i < unat sz \<Longrightarrow> unat new + unat sz \<le> 2 ^ 64 \<Longrightarrow> memmove new obj sz mem (new + of_nat i) = mem (obj + of_nat i)"
  by (simp add: memmove_def unat_offset)

locale copy_target = block_allocator invar free_region contents allot_op
  for invar :: "'s \<Rightarrow> bool" and free_region contents allot_op +
  fixes get :: "factor_vm \<Rightarrow> 's" and put :: "'s \<Rightarrow> factor_vm \<Rightarrow> factor_vm" and alloc :: "cell \<Rightarrow> (factor_vm, cell option) visit"
  assumes alloc: "alloc sz = vcomponent get put (\<lambda>s. allot_op s sz)"
    and get_memory: "contents (get vm) = vm_memory vm"
    and put_memory: "vm_memory (put s vm) = contents s"
begin

lemma copied:
  assumes wf: "invar (get vm)" and obj: "object_size (vm_memory vm) obj = Some sz" "request_ok sz"
    and room: "allot_op (get vm) sz = Some (s', Some new)"
    and apart: "unat obj + unat sz \<le> 2 ^ 64" "block_bytes obj sz \<inter> free_region (get vm) = {}" "free_region (get vm) \<subseteq> {..<2 ^ 64}"
  shows "\<exists>vm'. copy_object alloc obj vm = Some (vm', Inr new) \<and> vm_data vm' = vm_data (put s' vm) \<and>
    (\<forall>i<unat sz. vm_memory vm' (new + of_nat i) = vm_memory vm (obj + of_nat i)) \<and>
    forwarding_pointer_p (vm_memory vm' obj) \<and> forwarding_pointer (vm_memory vm' obj) = new \<and>
    (\<forall>a. a \<noteq> obj \<and> unat a \<notin> free_region (get vm) \<longrightarrow> vm_memory vm' a = vm_memory vm a) \<and>
    block_bytes new sz \<subseteq> free_region (get vm)"
proof -
  define mem' where "mem' = (memmove new obj sz (contents s'))(obj := forward_to new)"
  define vm' where "vm' = (put s' vm)\<lparr>vm_memory := mem'\<rparr>"
  note b = allot_block [OF wf obj(2) room]
  have frame: "contents s' a = vm_memory vm a" if "unat a \<notin> free_region (get vm)" for a
    using allot_frame [OF wf obj(2) room that] by (simp add: get_memory)
  have sz: "0 < unat sz" using obj(2) by (simp add: request_ok_def)
  have "unat new + unat sz - 1 \<in> block_bytes new sz" using sz by (simp add: block_bytes_def)
  then have "unat new + unat sz - 1 < 2 ^ 64" using b apart(3) by blast
  then have fits: "unat new + unat sz \<le> 2 ^ 64" using sz by linarith
  have run: "copy_object alloc obj vm = Some (vm', Inr new)"
    by (simp add: copy_object_def vm_object_size_def visit_simps obj(1) alloc vcomponent_def room vm_write_def vm'_def mem'_def put_memory)
  have in_obj: "unat (obj + of_nat i) \<in> block_bytes obj sz" if "i < unat sz" for i
    using that unat_offset [OF that apart(1)] by (simp add: block_bytes_def)
  have in_new: "unat (new + of_nat i) \<in> block_bytes new sz" if "i < unat sz" for i
    using that unat_offset [OF that fits] by (simp add: block_bytes_def)
  have obj_new: "obj \<noteq> new + of_nat i" if "i < unat sz" for i
    using in_obj [of 0] in_new [OF that] sz apart(2) b by auto
  have copy: "vm_memory vm' (new + of_nat i) = vm_memory vm (obj + of_nat i)" if "i < unat sz" for i
  proof -
    have "unat (obj + of_nat i) \<notin> free_region (get vm)" using in_obj [OF that] apart(2) by blast
    then show ?thesis
      using obj_new [OF that] memmove_inside [OF that fits, of obj "contents s'"] frame by (simp add: vm'_def mem'_def)
  qed
  have "16 dvd unat new" using b by (simp add: mod_eq_0_iff_dvd)
  note fw = forward_to_header [OF this]
  have other: "vm_memory vm' a = vm_memory vm a" if "a \<noteq> obj" "unat a \<notin> free_region (get vm)" for a
  proof -
    have "unat a \<notin> block_bytes new sz" using that(2) b by blast
    then have "memmove new obj sz (contents s') a = contents s' a" by (auto simp: memmove_def block_bytes_def)
    then show ?thesis using that frame by (simp add: vm'_def mem'_def)
  qed
  have "vm_memory vm' obj = forward_to new" "vm_data vm' = vm_data (put s' vm)" by (simp_all add: vm'_def mem'_def)
  then show ?thesis using run copy other b fw(1,2) by (intro exI [of _ vm']) simp
qed

end

interpretation aging_target: copy_target "\<lambda>h. aging_wf (snd h)" "\<lambda>h. bump_free (as_bump (snd h))" fst as_allot_op
  "\<lambda>vm. (vm_memory vm, aging (vm_data vm))" "\<lambda>(mem, as) vm. vm\<lparr>vm_memory := mem, vm_data := (vm_data vm)\<lparr>aging := as\<rparr>\<rparr>" aging_alloc
proof unfold_locales
  fix sz
  show "aging_alloc sz = vcomponent (\<lambda>vm. (vm_memory vm, aging (vm_data vm)))
      (\<lambda>(mem, as) vm. vm\<lparr>vm_memory := mem, vm_data := (vm_data vm)\<lparr>aging := as\<rparr>\<rparr>) (\<lambda>s. as_allot_op s sz)"
    by (rule ext) (auto simp: aging_alloc_def vcomponent_def as_allot_op_def option.map_comp intro!: option.map_cong)
qed auto

interpretation tenured_target: copy_target tenured_wf tenured_free fst ts_allot
  "\<lambda>vm. (vm_memory vm, tenured (vm_data vm))" "\<lambda>(mem, ts) vm. vm\<lparr>vm_memory := mem, vm_data := (vm_data vm)\<lparr>tenured := ts\<rparr>\<rparr>" tenured_alloc
  by unfold_locales (auto simp: tenured_alloc_def)

section \<open>The nursery copier\<close>

lemma follow_forwarding_stop: "\<not> forwarding_pointer_p (mem obj) \<Longrightarrow> follow_forwarding mem obj = Some obj"
  by (subst follow_forwarding.simps) simp

lemma follow_forwarding_once:
  "forwarding_pointer_p (mem obj) \<Longrightarrow> \<not> forwarding_pointer_p (mem (forwarding_pointer (mem obj))) \<Longrightarrow>
   follow_forwarding mem obj = Some (forwarding_pointer (mem obj))"
  by (subst follow_forwarding.simps) (simp add: follow_forwarding_stop)

lemma bump_free_bounds:
  assumes "bump_wf ba"
  shows "bump_free ba \<subseteq> {unat (ba_start ba) ..< unat (ba_end ba)}"
  using assms by (auto simp: bump_wf_def bump_free_def)

lemma nursery_fixup_copies:
  assumes wf: "heap_wf (vm_memory vm, vm_data vm)"
    and obj: "in_nursery obj vm" "unat obj + unat sz \<le> unat (ba_end (nursery (vm_data vm)))" "\<not> forwarding_pointer_p (vm_memory vm obj)"
      "object_size (vm_memory vm) obj = Some sz" "request_ok sz"
    and room: "as_allot (aging (vm_data vm)) sz = Some (as', Some new)"
  shows "\<exists>vm'. nursery_fixup_data obj vm = Some (vm', Inr new) \<and> heap_wf (vm_memory vm', vm_data vm') \<and>
    vm_data vm' = (vm_data vm)\<lparr>aging := as'\<rparr> \<and> in_aging new vm' \<and>
    (\<forall>i<unat sz. vm_memory vm' (new + of_nat i) = vm_memory vm (obj + of_nat i)) \<and>
    (\<forall>a. a \<noteq> obj \<and> unat a \<notin> bump_free (as_bump (aging (vm_data vm))) \<longrightarrow> vm_memory vm' a = vm_memory vm a) \<and>
    nursery_fixup_data obj vm' = Some (vm', Inr new)"
proof -
  let ?d = "vm_data vm"
  note l = heap_wf_layout [OF wf]
  have ag: "aging_wf (aging ?d)" "bump_wf (as_bump (aging ?d))" using l(5) by (simp_all add: aging_wf_def)
  have ae: "unat (ba_end (as_bump (aging ?d))) \<le> unat (ba_start (nursery ?d))"
    using bump_wf_end(1) [OF ag(2)] l by auto
  have al: "aging_wf as'" "ba_start (as_bump as') = ba_start (as_bump (aging ?d))" "ba_end (as_bump as') = ba_end (as_bump (aging ?d))"
    using as_allot_wf [OF ag(1) obj(5)] room by auto
  have nb: "unat (ba_start (nursery ?d)) \<le> unat obj" "unat (ba_end (nursery ?d)) < 2 ^ 63"
    using obj(1) bump_wf_end(2) [OF l(8)] by (simp_all add: ba_contains_p_def word_le_nat_alt)
  have fr: "bump_free (as_bump (aging ?d)) \<subseteq> {unat (ba_start (as_bump (aging ?d))) ..< unat (ba_start (nursery ?d))}"
    using bump_free_bounds [OF ag(2)] ae by auto
  have op: "as_allot_op (vm_memory vm, aging ?d) sz = Some ((vm_memory vm, as'), Some new)" by (simp add: as_allot_op_def room)
  have d1: "unat obj + unat sz \<le> 2 ^ 64" using obj(2) nb(2) by simp
  have d2: "block_bytes obj sz \<inter> bump_free (as_bump (aging ?d)) = {}" using fr nb(1) by (auto simp: block_bytes_def)
  have d3: "bump_free (as_bump (aging ?d)) \<subseteq> {..<2 ^ 64}"
  proof -
    have "unat (ba_start (nursery ?d)) < 2 ^ 64" using unsigned_less [of "ba_start (nursery ?d)"] by simp
    then show ?thesis using fr by (meson atLeastLessThan_iff dual_order.strict_trans lessThan_iff subset_iff)
  qed
  obtain vm' where vm': "copy_object aging_alloc obj vm = Some (vm', Inr new)" "vm_data vm' = ?d\<lparr>aging := as'\<rparr>"
    "\<forall>i<unat sz. vm_memory vm' (new + of_nat i) = vm_memory vm (obj + of_nat i)"
    "forwarding_pointer_p (vm_memory vm' obj)" "forwarding_pointer (vm_memory vm' obj) = new"
    "\<forall>a. a \<noteq> obj \<and> unat a \<notin> bump_free (as_bump (aging ?d)) \<longrightarrow> vm_memory vm' a = vm_memory vm a"
    "block_bytes new sz \<subseteq> bump_free (as_bump (aging ?d))"
    using aging_target.copied [of vm obj sz "(vm_memory vm, as')" new] ag(1) obj(4,5) op d1 d2 d3 by auto
  have sz: "0 < unat sz" using obj(5) by (simp add: request_ok_def)
  then have "unat new \<in> block_bytes new sz" by (simp add: block_bytes_def)
  then have new: "unat (ba_start (as_bump (aging ?d))) \<le> unat new" "unat new < unat (ba_end (as_bump (aging ?d)))"
    using vm'(7) bump_free_bounds [OF ag(2)] by (auto dest!: subsetD)
  have n1: "\<not> in_nursery new vm" "\<not> in_nursery new vm'" using new(2) ae by (auto simp: ba_contains_p_def word_le_nat_alt vm'(2))
  have n2: "in_nursery obj vm'" using obj(1) by (simp add: vm'(2))
  have n3: "in_aging new vm'" using new al by (simp add: ba_contains_p_def word_le_nat_alt word_less_nat_alt vm'(2))
  have h: "vm_memory vm' new = vm_memory vm obj" using vm'(3) sz by (auto dest: spec [of _ 0])
  have "heap_wf (vm_memory vm', ?d\<lparr>aging := as'\<rparr>)"
  proof (rule heap_wf_aging [OF wf al(1,2)])
    have "bump_wf (as_bump as')" using al(1) by (simp add: aging_wf_def)
    then have "unat (ba_size (as_bump as')) = unat (ba_size (as_bump (aging ?d)))"
      using bump_wf_end(1) [of "as_bump as'"] bump_wf_end(1) [OF ag(2)] al(2,3) by simp
    then show "ba_size (as_bump as') = ba_size (as_bump (aging ?d))" by (simp only: word_unat_eq_iff)
    show "\<forall>a. unat a < unat (ba_start (as_bump as')) \<longrightarrow> vm_memory vm' a = vm_memory vm a"
    proof (intro allI impI)
      fix a :: cell
      assume "unat a < unat (ba_start (as_bump as'))"
      then have "a \<noteq> obj" "unat a \<notin> bump_free (as_bump (aging ?d))" using fr new nb(1) ae al(2) by auto
      then show "vm_memory vm' a = vm_memory vm a" using vm'(6) by blast
    qed
  qed
  moreover have "nursery_fixup_data obj vm = Some (vm', Inr new)"
    using obj(1,3) vm'(1) by (simp add: nursery_fixup_data_def vm_follow_forwarding_def visit_simps follow_forwarding_stop)
  moreover have "nursery_fixup_data obj vm' = Some (vm', Inr new)"
    using n1(2) n2 follow_forwarding_once [of "vm_memory vm'" obj] vm'(4,5) h obj(3)
    by (simp add: nursery_fixup_data_def vm_follow_forwarding_def visit_simps)
  ultimately show ?thesis using vm'(2) n3 vm'(3,6) by (intro exI [of _ vm']) auto
qed

end
