(* ===== verification/Visit_Logic.thy ===== *)
theory Visit_Logic
  imports VM_State
begin

text \<open>
  Reasoning about computations: which invariants a computation preserves, also where it
  leaves through an exception, and what holds when it returns. The rules follow the
  combinators, so that a proof about an operation is a run of the rules over its definition.
\<close>

section \<open>Invariants\<close>

definition preserves :: "('s \<Rightarrow> bool) \<Rightarrow> ('s, 'a) visit \<Rightarrow> bool" where
  "preserves P m \<longleftrightarrow> (\<forall>s s' r. m s = Some (s', r) \<longrightarrow> P s \<longrightarrow> P s')"

named_theorems preserves_rules "how the combinators preserve an invariant"

lemma preservesI: "(\<And>s s' r. m s = Some (s', r) \<Longrightarrow> P s \<Longrightarrow> P s') \<Longrightarrow> preserves P m"
  by (auto simp: preserves_def)

lemma preservesD: "preserves P m \<Longrightarrow> m s = Some (s', r) \<Longrightarrow> P s \<Longrightarrow> P s'"
  by (auto simp: preserves_def)

lemma preserves_vreturn [preserves_rules]: "preserves P (vreturn x)"
  and preserves_vthrow [preserves_rules]: "preserves P (vthrow e)"
  and preserves_vget [preserves_rules]: "preserves P (vget f)"
  by (auto simp: preserves_def vreturn_def vthrow_def vget_def)

lemma preserves_vlift [preserves_rules]: "preserves P (vlift y)"
  by (cases y) (auto simp: preserves_def vlift_def)

lemma preserves_vassert [preserves_rules]: "preserves P (vassert b)"
  unfolding vassert_def by (rule preserves_vlift)

lemma preserves_vmodify: "(\<And>s. P s \<Longrightarrow> P (f s)) \<Longrightarrow> preserves P (vmodify f)"
  by (auto simp: preserves_def vmodify_def)

lemma preserves_vcomponent: "(\<And>c s x. P s \<Longrightarrow> f (get s) = Some (c, x) \<Longrightarrow> P (put c s)) \<Longrightarrow> preserves P (vcomponent get put f)"
  by (auto simp: preserves_def vcomponent_def)

lemma preserves_vbind [preserves_rules]: "preserves P m \<Longrightarrow> (\<And>x. preserves P (f x)) \<Longrightarrow> preserves P (vbind m f)"
proof (rule preservesI)
  fix s s' r
  assume m: "preserves P m" and f: "\<And>x. preserves P (f x)" and run: "vbind m f s = Some (s', r)" and P: "P s"
  obtain t q where t: "m s = Some (t, q)" using run by (auto simp: vbind_def split: Option.bind_splits)
  show "P s'" using run preservesD [OF m t P] preservesD [OF f, of _ t s' r] by (cases q) (auto simp: vbind_def t)
qed

lemma preserves_vthen [preserves_rules]: "preserves P m \<Longrightarrow> preserves P n \<Longrightarrow> preserves P (vthen m n)"
  unfolding vthen_def by (rule preserves_vbind)

lemma preserves_if [preserves_rules]: "preserves P m \<Longrightarrow> preserves P n \<Longrightarrow> preserves P (if b then m else n)"
  by simp

lemma preserves_let [preserves_rules]: "(\<And>x. preserves P (f x)) \<Longrightarrow> preserves P (let x = y in f x)"
  by simp

lemma preserves_option [preserves_rules]: "preserves P m \<Longrightarrow> (\<And>x. preserves P (f x)) \<Longrightarrow> preserves P (case y of None \<Rightarrow> m | Some x \<Rightarrow> f x)"
  by (cases y) auto

lemma preserves_prod [preserves_rules]: "(\<And>a b. preserves P (f a b)) \<Longrightarrow> preserves P (case y of (a, b) \<Rightarrow> f a b)"
  by (cases y) auto

lemma preserves_vwhen [preserves_rules]: "preserves P m \<Longrightarrow> preserves P (vwhen b m)"
  unfolding vwhen_def by (intro preserves_rules)

lemma preserves_vfor_each [preserves_rules]: "(\<And>x. preserves P (f x)) \<Longrightarrow> preserves P (vfor_each f xs)"
  by (induction xs) (auto intro: preserves_rules)

lemma preserves_vmap [preserves_rules]: "(\<And>x. preserves P (f x)) \<Longrightarrow> preserves P (vmap f xs)"
  by (induction xs) (auto intro!: preserves_rules)

text \<open>For inductions over the runs of a loop.\<close>

lemma preserves_raw: "(\<And>s y. m s = Some y \<Longrightarrow> P s \<longrightarrow> P (fst y)) \<Longrightarrow> preserves P m"
  by (fastforce simp: preserves_def)

lemma preserves_step: "m s = Some y \<Longrightarrow> preserves P m \<Longrightarrow> P s \<longrightarrow> P (fst y)"
  by (cases y) (auto simp: preserves_def)

section \<open>Results\<close>

text \<open>Reading the state, where the value may be a constant of type bool.\<close>

lemma vbind_reads:
  "vbind (vget g) f s = f (g s) s"
  "vbind (vbind (vget g') vlift) f' s = (case g' s of None \<Rightarrow> None | Some y \<Rightarrow> f' y s)"
  "vbind (vreturn y) f'' s = f'' y s"
  by (auto simp: vbind_def vget_def vlift_def vreturn_def split: option.splits)

text \<open>What holds of the state and the value when a computation returns.\<close>

definition returns :: "('s, 'a) visit \<Rightarrow> ('s \<Rightarrow> 'a \<Rightarrow> bool) \<Rightarrow> bool" where
  "returns m Q \<longleftrightarrow> (\<forall>s s' x. m s = Some (s', Inr x) \<longrightarrow> Q s' x)"

lemma returns_vthen: "returns n Q \<Longrightarrow> returns (vthen m n) Q"
  by (auto simp: returns_def vthen_def vbind_def split: Option.bind_splits sum.splits)

lemma returns_vbind: "(\<And>x. returns (f x) Q) \<Longrightarrow> returns (vbind m f) Q"
  unfolding returns_def vbind_def by (auto split: Option.bind_splits sum.splits)

text \<open>A result that the next step keeps.\<close>

lemma returns_vthen_preserves:
  assumes "returns m (\<lambda>s x. P s)" "preserves P n" "returns n Q"
  shows "returns (vthen m n) (\<lambda>s x. P s \<and> Q s x)"
  unfolding returns_def
proof (intro allI impI)
  fix s s' x
  assume run: "vthen m n s = Some (s', Inr x)"
  obtain t y where t: "m s = Some (t, Inr y)" "n t = Some (s', Inr x)"
    using run by (auto simp: vthen_def vbind_def split: Option.bind_splits sum.splits)
  have "P t" using assms(1) t(1) by (auto simp: returns_def)
  then show "P s' \<and> Q s' x" using preservesD [OF assms(2) t(2)] assms(3) t(2) by (auto simp: returns_def)
qed

lemma returnsD: "returns m Q \<Longrightarrow> m s = Some (s', Inr x) \<Longrightarrow> Q s' x"
  by (auto simp: returns_def)

end
