(* ===== verification/Collector_Control.thy ===== *)
theory Collector_Control
  imports Collectors Visit_Logic
begin

text \<open>
  What a collection leaves alone, and why the driver stops: the visitor changes no control
  state whatever its fix-up object, as long as the fix-up does not; every attempt of the
  driver that fails moves on to a collector of a higher generation, and there are three.
\<close>

section \<open>Control state\<close>

definition control :: "factor_vm \<Rightarrow> gc_op option \<times> bool \<times> cell option \<times> cell option \<times> cell list \<times> cell list \<times> fixnum list \<times> fixnum" where
  "control vm = (current_gc vm, gc_off vm, ctx vm, spare_ctx vm, unused_contexts vm, active_contexts vm, callback_ids vm, callback_id vm)"

abbreviation control_is :: "gc_op option \<times> bool \<times> cell option \<times> cell option \<times> cell list \<times> cell list \<times> fixnum list \<times> fixnum \<Rightarrow> factor_vm \<Rightarrow> bool" where
  "control_is c \<equiv> \<lambda>vm. control vm = c"

named_theorems control_rules "operations that keep the control state"

lemma control_steps [control_rules]:
  "preserves (control_is c) (vm_read a)" "preserves (control_is c) (vm_write a v)"
  "preserves (control_is c) (vm_store_value op v)" "preserves (control_is c) (vm_load_value op v)"
  "preserves (control_is c) (vm_load_code_block op)" "preserves (control_is c) (vm_array_nth a v)"
  "preserves (control_is c) (vm_translate_code fu a)" "preserves (control_is c) (vm_slot_count fu a)"
  "preserves (control_is c) (vm_object_size a)" "preserves (control_is c) (vm_object_type a)"
  "preserves (control_is c) (vm_block_for_address a)" "preserves (control_is c) (root_value_at i)"
  "preserves (control_is c) (code_heap_modify f)" "preserves (control_is c) (vm_data_step g)"
  "preserves (control_is c) (vm_code_step k)" "preserves (control_is c) (special_object_at n)"
  unfolding vm_read_def vm_write_def vm_store_value_def vm_load_value_def vm_load_code_block_def vm_array_nth_def
    vm_translate_code_def vm_slot_count_def vm_object_size_def vm_object_type_def vm_block_for_address_def
    root_value_at_def code_heap_modify_def vm_data_step_def vm_code_step_def special_object_at_def
  by (intro preserves_rules preserves_vmodify preserves_vcomponent; simp add: control_def split: prod.splits)+

lemma control_vm_data [control_rules]: "preserves (control_is c) (vmodify (\<lambda>vm. vm\<lparr>vm_data := f vm\<rparr>))"
  by (rule preserves_vmodify) (simp add: control_def)

lemma control_with_data_root [control_rules]:
  assumes "\<And>root. preserves (control_is c) (body root)"
  shows "preserves (control_is c) (with_data_root v body)"
proof (rule preservesI)
  fix s s' r
  assume run: "with_data_root v body s = Some (s', r)" and c: "control s = c"
  let ?s = "s\<lparr>data_roots := data_roots s @ [v]\<rparr>"
  obtain t where t: "body (length (data_roots s)) ?s = Some (t, r)" "s' = t\<lparr>data_roots := butlast (data_roots t)\<rparr>"
    using run by (auto simp: with_data_root_def)
  have "control t = c" using preservesD [OF assms t(1)] c by (simp add: control_def)
  then show "control s' = c" by (simp add: t(2) control_def)
qed

lemma control_visit_list [control_rules]:
  assumes "\<And>e. preserves (control_is c) (f e)" "\<And>xs vm. control (put xs vm) = control vm"
  shows "preserves (control_is c) (visit_list get put f)"
  unfolding visit_list_def using assms by (intro preserves_rules preserves_vmodify) simp_all

lemma control_each_operand:
  assumes "\<And>op x. preserves (control_is c) (iter op x)"
  shows "preserves (control_is c) (each_operand_loop iter rels compiled n i index x)"
  by (induction n arbitrary: i index x) (auto intro!: preserves_rules assms)

lemma control_fold_operands [control_rules]:
  "(\<And>op x. preserves (control_is c) (iter op x)) \<Longrightarrow> preserves (control_is c) (fold_instruction_operands iter compiled x)"
  unfolding fold_instruction_operands_def by (intro preserves_rules control_rules control_each_operand) simp_all

lemma control_each_instruction_operand [control_rules]:
  "(\<And>op. preserves (control_is c) (iter op)) \<Longrightarrow> preserves (control_is c) (each_instruction_operand iter compiled)"
  unfolding each_instruction_operand_def by (intro control_rules) simp

lemma control_callstack_object_loop:
  assumes "\<And>a sz b addr x. preserves (control_is c) (iterator a sz b addr x)"
  shows "preserves (control_is c) (callstack_object_loop fu iterator root n k x)"
proof (rule preserves_raw)
  fix s y
  assume run: "callstack_object_loop fu iterator root n k x s = Some y"
  have "(\<forall>a sz b addr x. preserves (control_is c) (iterator a sz b addr x)) \<longrightarrow> control s = c \<longrightarrow> control (fst y) = c"
    by (rule callstack_object_loop.raw_induct [where P = "\<lambda>fu it root n k x s y.
        (\<forall>a sz b addr x. preserves (control_is c) (it a sz b addr x)) \<longrightarrow> control s = c \<longrightarrow> control (fst y) = c", OF _ run])
      (rule impI, erule preserves_step, intro preserves_rules control_rules, blast, rule preserves_raw, blast)
  then show "control s = c \<longrightarrow> control (fst y) = c" using assms by blast
qed

lemma control_fold_callstack_object [control_rules]:
  "(\<And>a sz b addr x. preserves (control_is c) (iterator a sz b addr x)) \<Longrightarrow> preserves (control_is c) (fold_callstack_object fu iterator stack x)"
  unfolding fold_callstack_object_def by (intro preserves_rules control_rules control_callstack_object_loop)

lemma control_iterate_callstack_object [control_rules]:
  "(\<And>a sz b addr. preserves (control_is c) (iterator a sz b addr)) \<Longrightarrow> preserves (control_is c) (iterate_callstack_object fu iterator stack)"
  unfolding iterate_callstack_object_def by (intro control_rules)

lemma control_callstack_loop:
  assumes "\<And>a sz b addr x. preserves (control_is c) (iterator a sz b addr x)"
  shows "preserves (control_is c) (callstack_loop fu iterator bottom frame x)"
proof (rule preserves_raw)
  fix s y
  assume run: "callstack_loop fu iterator bottom frame x s = Some y"
  have "(\<forall>a sz b addr x. preserves (control_is c) (iterator a sz b addr x)) \<longrightarrow> control s = c \<longrightarrow> control (fst y) = c"
    by (rule callstack_loop.raw_induct [where P = "\<lambda>fu it bottom frame x s y.
        (\<forall>a sz b addr x. preserves (control_is c) (it a sz b addr x)) \<longrightarrow> control s = c \<longrightarrow> control (fst y) = c", OF _ run])
      (rule impI, erule preserves_step, intro preserves_rules control_rules, blast, rule preserves_raw, blast)
  then show "control s = c \<longrightarrow> control (fst y) = c" using assms by blast
qed

lemma control_fold_callstack [control_rules]:
  "(\<And>a sz b addr x. preserves (control_is c) (iterator a sz b addr x)) \<Longrightarrow> preserves (control_is c) (fold_callstack fu iterator stack x)"
  unfolding fold_callstack_def by (intro preserves_rules control_rules control_callstack_loop)

lemma control_iterate_callstack [control_rules]:
  "(\<And>a sz b addr. preserves (control_is c) (iterator a sz b addr)) \<Longrightarrow> preserves (control_is c) (iterate_callstack fu iterator stack)"
  unfolding iterate_callstack_def by (intro control_rules)

lemma control_iterate_blocks:
  assumes "\<And>b sz. preserves (control_is c) (iter b sz)"
  shows "preserves (control_is c) (iterate_blocks size_of iter until scan)"
proof (rule preserves_raw)
  fix s y
  assume run: "iterate_blocks size_of iter until scan s = Some y"
  have "(\<forall>b sz. preserves (control_is c) (iter b sz)) \<longrightarrow> control s = c \<longrightarrow> control (fst y) = c"
    by (rule iterate_blocks.raw_induct [where P = "\<lambda>size_of iter until scan s y.
        (\<forall>b sz. preserves (control_is c) (iter b sz)) \<longrightarrow> control s = c \<longrightarrow> control (fst y) = c", OF _ run])
      (rule impI, erule preserves_step, intro preserves_rules control_rules, blast, rule preserves_raw, blast)
  then show "control s = c \<longrightarrow> control (fst y) = c" using assms by blast
qed

lemma control_each_block [control_rules]:
  "(\<And>b sz. preserves (control_is c) (iter b sz)) \<Longrightarrow> preserves (control_is c) (each_block allocator iter)"
  unfolding each_block_def by (intro preserves_rules control_iterate_blocks)

section \<open>The visitor\<close>

text \<open>
  The interface of a fix-up object, as far as control state goes: moving data or code keeps
  it. Then everything the visitor does keeps it.
\<close>

locale quiet_fixup =
  fixes fu :: fixup and c :: "gc_op option \<times> bool \<times> cell option \<times> cell option \<times> cell list \<times> cell list \<times> fixnum list \<times> fixnum"
  assumes data: "preserves (control_is c) (fixup_data fu a)"
    and code: "preserves (control_is c) (fixup_code fu a)"
begin

lemma pointer: "preserves (control_is c) (visit_pointer fu p)"
  unfolding visit_pointer_def by (intro preserves_rules data)

lemma handle: "preserves (control_is c) (visit_handle fu a)" and handle_value: "preserves (control_is c) (visit_value fu v)"
  unfolding visit_handle_def visit_value_def by (intro preserves_rules control_rules pointer)+

lemma object_array: "preserves (control_is c) (visit_object_array fu start limit)"
  unfolding visit_object_array_def by (intro preserves_rules handle)

lemma slot_frame: "preserves (control_is c) (call_frame_slot_visitor fu a sz b addr)"
  unfolding call_frame_slot_visitor_def adjust_derived_def by (intro preserves_rules control_rules handle)

lemma code_frame: "preserves (control_is c) (call_frame_code_block_visitor fu a sz b addr)"
  unfolding call_frame_code_block_visitor_def by (intro preserves_rules control_rules code)

lemma slots: "preserves (control_is c) (visit_slots fu obj)"
  unfolding visit_slots_def visit_callstack_object_def by (intro preserves_rules control_rules slot_frame object_array)

lemma whole_object: "preserves (control_is c) (visit_object fu obj)"
  unfolding visit_object_def by (intro preserves_rules control_rules slots preserves_vmodify) (simp add: control_def)

lemma partial_objects: "preserves (control_is c) (visit_partial_objects fu a b e)"
  unfolding visit_partial_objects_def by (intro preserves_rules control_rules object_array)

lemma context_roots: "preserves (control_is c) (visit_context h fu cx)"
  unfolding visit_context_def visit_callstack_def visit_stack_elements_def Let_def
  by (intro preserves_rules control_rules object_array handle_value slot_frame preserves_vmodify) (simp_all add: control_def)

lemma all_roots: "preserves (control_is c) (visit_all_roots h fu)"
  unfolding visit_all_roots_def
  by (intro preserves_rules control_rules handle handle_value pointer context_roots) (simp_all add: control_def)

lemma code_block_objects: "preserves (control_is c) (visit_code_block_objects fu b)"
  unfolding visit_code_block_objects_def by (intro preserves_rules handle)

lemma embedded_literals: "preserves (control_is c) (visit_embedded_literals fu b)"
  unfolding visit_embedded_literals_def unless_uninitialized_def by (intro preserves_rules control_rules pointer)

lemma embedded_code_pointers: "preserves (control_is c) (visit_embedded_code_pointers fu b)"
  unfolding visit_embedded_code_pointers_def unless_uninitialized_def by (intro preserves_rules control_rules code)

lemma object_code_block: "preserves (control_is c) (visit_object_code_block fu obj)"
  unfolding visit_object_code_block_def fixup_entry_point_def by (intro preserves_rules control_rules code code_frame)

lemma context_code_blocks: "preserves (control_is c) (visit_context_code_blocks fu)"
  unfolding visit_context_code_blocks_def by (intro preserves_rules control_rules code_frame)

lemma uninitialized_code_blocks: "preserves (control_is c) (visit_uninitialized_code_blocks fu)"
  unfolding visit_uninitialized_code_blocks_def by (intro preserves_rules control_rules code)

lemma code_heap_roots: "preserves (control_is c) (visit_code_heap_roots fu bs)"
  unfolding visit_code_heap_roots_def by (intro preserves_rules code_block_objects embedded_literals)

lemma marked: "preserves (control_is c) (visit_marked fu ptr)"
  unfolding visit_marked_def
  by (intro preserves_rules code_block_objects embedded_literals embedded_code_pointers whole_object object_code_block)

lemma card_loop: "preserves (control_is c) (visit_card_loop fu gen a e start)"
proof (rule preserves_raw)
  fix s y
  assume run: "visit_card_loop fu gen a e start s = Some y"
  have "fu = fu \<longrightarrow> control s = c \<longrightarrow> control (fst y) = c"
    by (rule visit_card_loop.raw_induct [where P = "\<lambda>fu' gen a e start s y. fu' = fu \<longrightarrow> control s = c \<longrightarrow> control (fst y) = c", OF _ run])
      (rule impI, hypsubst, erule preserves_step, intro preserves_rules control_rules partial_objects, rule preserves_raw, blast)
  then show "control s = c \<longrightarrow> control (fst y) = c" by simp
qed

lemma cards: "preserves (control_is c) (visit_cards fu gen msk unmsk)"
proof -
  have card: "preserves (control_is c) (visit_card fu gen i start)" for i start
    unfolding visit_card_def card_first_object_def by (intro preserves_rules control_rules card_loop)
  have cards: "preserves (control_is c) (visit_cards_loop fu gen msk unmsk cis start)" for cis start
    by (induction cis arbitrary: start)
      (auto intro!: preserves_rules control_rules card)
  have "preserves (control_is c) (visit_decks_loop fu gen msk unmsk dis start)" for dis start
    by (induction dis arbitrary: start)
      (auto intro!: preserves_rules control_rules cards simp: Let_def)
  then show ?thesis unfolding visit_cards_def by (intro preserves_rules)
qed

lemma mark_stack: "preserves (control_is c) (visit_mark_stack fu)"
proof (rule preserves_raw)
  fix s y
  assume run: "visit_mark_stack fu s = Some y"
  have "fu = fu \<longrightarrow> control s = c \<longrightarrow> control (fst y) = c"
    by (rule visit_mark_stack.raw_induct [where P = "\<lambda>fu' s y. fu' = fu \<longrightarrow> control s = c \<longrightarrow> control (fst y) = c", OF _ run])
      (rule impI, hypsubst, erule preserves_step, intro preserves_rules control_rules marked preserves_vmodify,
        simp add: control_def, rule preserves_raw, blast)
  then show "control s = c \<longrightarrow> control (fst y) = c" by simp
qed

lemma cheney: "preserves (control_is c) (cheneys_algorithm fu scan)"
proof (rule preserves_raw)
  fix s y
  assume run: "cheneys_algorithm fu scan s = Some y"
  have "fu = fu \<longrightarrow> control s = c \<longrightarrow> control (fst y) = c"
    by (rule cheneys_algorithm.raw_induct [where P = "\<lambda>fu' scan s y. fu' = fu \<longrightarrow> control s = c \<longrightarrow> control (fst y) = c", OF _ run])
      (rule impI, hypsubst, erule preserves_step, intro preserves_rules control_rules whole_object, rule preserves_raw, blast)
  then show "control s = c \<longrightarrow> control (fst y) = c" by simp
qed

end

section \<open>The fix-ups of the collectors\<close>

lemma control_copy [control_rules]:
  "preserves (control_is c) (vm_follow_forwarding a)" "preserves (control_is c) (aging_alloc sz)" "preserves (control_is c) (tenured_alloc sz)"
  "preserves (control_is c) (push_mark_stack a)" "preserves (control_is c) (tenured_state_step f)" "preserves (control_is c) (code_state_step f)"
  "preserves (control_is c) (tenured_marked_p a)"
  unfolding vm_follow_forwarding_def aging_alloc_def tenured_alloc_def push_mark_stack_def tenured_state_step_def code_state_step_def
    tenured_marked_p_def
  by (intro preserves_rules preserves_vmodify preserves_vcomponent; simp add: control_def split: prod.splits)+

lemma control_copy_object [control_rules]:
  "(\<And>sz. preserves (control_is c) (alloc sz)) \<Longrightarrow> preserves (control_is c) (copy_object alloc obj)"
  unfolding copy_object_def by (intro preserves_rules control_rules preserves_vmodify) (simp_all add: control_def)

lemma control_mark_tenured [control_rules]: "preserves (control_is c) (mark_tenured obj)"
  unfolding mark_tenured_def by (intro preserves_rules control_rules)

interpretation nursery_quiet: quiet_fixup nursery_copier c for c
  by unfold_locales (simp_all add: nursery_copier_def no_fixup_def nursery_fixup_data_def, (intro preserves_rules control_rules)+)

interpretation from_tenured_quiet: quiet_fixup from_tenured_refs_copier c for c
  by unfold_locales (simp_all add: from_tenured_refs_copier_def no_fixup_def from_tenured_fixup_data_def, (intro preserves_rules control_rules)+)

interpretation to_aging_quiet: quiet_fixup to_aging_copier c for c
  by unfold_locales (simp_all add: to_aging_copier_def no_fixup_def to_aging_fixup_data_def, (intro preserves_rules control_rules)+)

interpretation full_quiet: quiet_fixup full_collection_copier c for c
  by unfold_locales
    (simp_all add: full_collection_copier_def no_fixup_def full_fixup_data_def full_fixup_code_def, (intro preserves_rules control_rules)+)

interpretation compaction_quiet: quiet_fixup compaction_fixup c for c
  by unfold_locales (simp_all add: compaction_fixup_def, (intro preserves_rules)+)

section \<open>The collectors\<close>

lemma iterate_invariant:
  assumes "\<And>b sz ms ms'. iter b sz ms = Some ms' \<Longrightarrow> P ms \<Longrightarrow> P ms'" "iterate size_of iter fl ms = Some ms'" "P ms"
  shows "P ms'"
proof -
  have "iterate_loop size_of iter (fl_end fl) (fl_start fl) ms = Some ms'" using assms(2) by (simp add: iterate_def)
  then have "(\<forall>b sz ms ms'. iter b sz ms = Some ms' \<longrightarrow> P ms \<longrightarrow> P ms') \<longrightarrow> P ms \<longrightarrow> P ms'"
  proof (rule iterate_loop.raw_induct [where P = "\<lambda>size_of it until scan ms ms'.
      (\<forall>b sz ms ms'. it b sz ms = Some ms' \<longrightarrow> P ms \<longrightarrow> P ms') \<longrightarrow> P ms \<longrightarrow> P ms'", rotated])
    fix loop size_of it until scan ms ms'
    assume IH: "\<And>size_of it until scan ms ms'. loop size_of it until scan ms = Some ms' \<Longrightarrow>
        (\<forall>b sz ms ms'. it b sz ms = Some ms' \<longrightarrow> P ms \<longrightarrow> P ms') \<longrightarrow> P ms \<longrightarrow> P ms'"
      and run: "(if scan \<noteq> until then do {
        sz \<leftarrow> size_of ms scan;
        ms' \<leftarrow> (if \<not> free_block_p (fst ms) scan then it scan sz ms else Some ms);
        loop size_of it until (scan + sz) ms' } else Some ms) = Some ms'"
    show "(\<forall>b sz ms ms'. it b sz ms = Some ms' \<longrightarrow> P ms \<longrightarrow> P ms') \<longrightarrow> P ms \<longrightarrow> P ms'"
    proof (cases "scan = until")
      case False
      then obtain sz ms1 where "(if \<not> free_block_p (fst ms) scan then it scan sz ms else Some ms) = Some ms1"
        "loop size_of it until (scan + sz) ms1 = Some ms'" using run by (auto simp: Option.bind_eq_Some_conv)
      then show ?thesis using IH [of size_of it until "scan + sz" ms1 ms'] by (metis option.inject)
    qed (use run in simp)
  qed
  then show ?thesis using assms(1,3) by blast
qed

lemma compact_invariant:
  assumes iter: "\<And>old new sz ms ms'. iter old new sz ms = Some ms' \<Longrightarrow> P (caller (snd ms)) \<Longrightarrow> P (caller (snd ms'))"
    and run: "compact size_of iter fin0 (mem, fl) x = Some (h', fin, x')" and P: "P x"
  shows "P x'"
proof -
  let ?ms = "(mem, \<lparr>dest_addr = fl_start fl, finger = fin0, caller = x\<rparr>)"
  obtain ms where ms: "iterate size_of (compact_block_func (fl_state fl) iter) fl ?ms = Some ms" "x' = caller (snd ms)"
    using run by (auto simp: compact_def split: Option.bind_splits prod.splits)
  have "P (caller (snd ms'))" if "compact_block_func st iter b sz ms = Some ms'" "P (caller (snd ms))" for st b sz ms ms'
    using that iter [of b "dest_addr (snd ms)" sz] by (cases ms) (fastforce simp: compact_block_func_def Let_def split: Option.bind_splits if_splits)
  then have "P (caller (snd ms))" using P by (intro iterate_invariant [OF _ ms(1), of "\<lambda>ms. P (caller (snd ms))"]) auto
  then show ?thesis by (simp add: ms(2))
qed

lemma in_compaction_control:
  assumes "in_compaction set_finger m ms = Some ms'" "control (caller (snd ms)) = c" "preserves (control_is c) m"
    "\<And>a vm. control (set_finger a vm) = control vm"
  shows "control (caller (snd ms')) = c"
proof -
  let ?s = "set_finger (finger (snd ms)) ((caller (snd ms))\<lparr>vm_memory := fst ms\<rparr>)"
  obtain vm' x where run: "m ?s = Some (vm', Inr x)" "ms' = (vm_memory vm', (snd ms)\<lparr>caller := vm'\<rparr>)"
    using assms(1) by (auto simp: in_compaction_def split: option.splits sum.splits prod.splits)
  have "control ?s = c" using assms(2,4) by (simp add: control_def)
  then have "control vm' = c" using preservesD [OF assms(3) run(1)] by simp
  then show ?thesis by (simp add: run(2))
qed

lemma control_compact_data: "preserves (control_is c) compact_data"
proof (rule preservesI)
  fix s s' r
  assume run: "compact_data s = Some (s', r)" and c: "control s = c"
  have "preserves (control_is c) (compact_object_func a)" for a
    unfolding compact_object_func_def
    by (intro preserves_rules compaction_quiet.slots compaction_quiet.object_code_block preserves_vcomponent) (simp add: control_def)
  then have it: "control (caller (snd ms')) = c"
    if "in_compaction set_data_finger (compact_object_func a) ms = Some ms'" "control (caller (snd ms)) = c" for a ms ms'
    using that by (intro in_compaction_control [OF that]) (simp_all add: set_data_finger_def control_def)
  obtain h' fin vm' where k: "compact (\<lambda>(mem, cs) obj. compaction_object_size (set_data_finger (finger cs) ((caller cs)\<lparr>vm_memory := mem\<rparr>)) obj)
      (\<lambda>old_addr new_addr sz. in_compaction set_data_finger (compact_object_func new_addr))
      (data_finger s) (vm_memory s, ts_free (tenured (vm_data s))) s = Some (h', fin, vm')"
    "control s' = control vm'"
    using run by (auto simp: compact_data_def control_def)
  then show "control s' = c" using compact_invariant [OF _ k(1), of "control_is c"] it c by simp
qed

lemma control_compute_external [control_rules]: "preserves (control_is c) (compute_external_address h op)"
  unfolding compute_external_address_def lookup_external_address_def compute_dlsym_address_def Let_def
  by (cases "rel_type (op_rel op)"; simp; intro preserves_rules control_rules)

lemma control_compact_code: "preserves (control_is c) (compact_code h)"
proof (rule preservesI)
  fix s s' r
  assume run: "compact_code h s = Some (s', r)" and c: "control s = c"
  have "preserves (control_is c) (compact_code_func h a b)" for a b
    unfolding compact_code_func_def visit_instruction_operands_def unless_uninitialized_def visit_instruction_operand_def
    by (intro preserves_rules control_rules compaction_quiet.code_block_objects compaction_quiet.pointer compaction_quiet.code)
  then have it: "control (caller (snd ms')) = c"
    if "in_compaction set_code_finger (compact_code_func h a b) ms = Some ms'" "control (caller (snd ms)) = c" for a b ms ms'
    using that by (intro in_compaction_control [OF that]) (simp_all add: set_code_finger_def control_def)
  obtain h' fin vm' where k: "compact (\<lambda>(mem, cs) b. compaction_block_size (set_code_finger (finger cs) ((caller cs)\<lparr>vm_memory := mem\<rparr>)) b)
      (\<lambda>old_addr new_addr sz. in_compaction set_code_finger (compact_code_func h old_addr new_addr))
      (code_finger s) (vm_memory s, ch_allocator (vm_code s)) s = Some (h', fin, vm')"
    "control s' = control vm'"
    using run by (auto simp: compact_code_def control_def)
  then show "control s' = c" using compact_invariant [OF _ k(1), of "control_is c"] it c by simp
qed

lemma control_resets [control_rules]:
  "preserves (control_is c) (vm_reset_nursery h)" "preserves (control_is c) (vm_reset_aging h)" "preserves (control_is c) vm_reset_tenured"
  "preserves (control_is c) vm_high_fragmentation_p" "preserves (control_is c) (grow_data_heap h n)" "preserves (control_is c) (code_roots_step g)"
  unfolding vm_reset_nursery_def vm_reset_aging_def vm_reset_tenured_def vm_high_fragmentation_p_def grow_data_heap_def code_roots_step_def
  by (intro preserves_rules control_rules preserves_vcomponent; simp add: control_def)+

lemma control_collect_nursery: "preserves (control_is c) (collect_nursery h)"
  unfolding collect_nursery_def
  by (intro preserves_rules control_rules nursery_quiet.all_roots nursery_quiet.cards nursery_quiet.code_heap_roots nursery_quiet.cheney)

lemma control_mark_impl: "preserves (control_is c) (collect_mark_impl h)"
  unfolding collect_mark_impl_def
  by (intro preserves_rules control_rules full_quiet.all_roots full_quiet.context_code_blocks full_quiet.uninitialized_code_blocks
      full_quiet.mark_stack preserves_vmodify) (simp add: control_def)

lemma control_sweep_impl: "preserves (control_is c) (collect_sweep_impl h)"
  unfolding collect_sweep_impl_def by (intro preserves_rules control_rules preserves_vcomponent) (auto simp: control_def)

lemma control_collect_to_tenured: "preserves (control_is c) (collect_to_tenured h)"
  unfolding collect_to_tenured_def
  by (intro preserves_rules control_rules from_tenured_quiet.all_roots from_tenured_quiet.cards from_tenured_quiet.code_heap_roots
      from_tenured_quiet.mark_stack preserves_vmodify) (simp add: control_def)

lemma control_compact_impl: "preserves (control_is c) (collect_compact_impl h)"
  unfolding collect_compact_impl_def callback_update_def store_callback_operand_def callback_operand_def
  by (intro preserves_rules control_rules compaction_quiet.uninitialized_code_blocks control_compact_data control_compact_code
      compaction_quiet.all_roots compaction_quiet.context_code_blocks preserves_vmodify) (simp_all add: control_def)

section \<open>Escalation\<close>

text \<open>
  How often the driver can still start again. A collector that fails leaves the operation
  at the same rank or below; starting again lowers the rank, or reports a critical error at
  rank zero.
\<close>

fun gc_rank :: "gc_op option \<Rightarrow> nat" where
  "gc_rank (Some COLLECT_NURSERY_OP) = 2"
| "gc_rank (Some COLLECT_AGING_OP) = 1"
| "gc_rank _ = 0"

abbreviation rank_le :: "nat \<Rightarrow> factor_vm \<Rightarrow> bool" where
  "rank_le k \<equiv> \<lambda>vm. gc_rank (current_gc vm) \<le> k"

lemma control_preserves: "(\<And>c. preserves (control_is c) m) \<Longrightarrow> preserves (\<lambda>vm. P (control vm)) m"
  unfolding preserves_def by metis

lemma rank_control: "(\<And>c. preserves (control_is c) m) \<Longrightarrow> preserves (rank_le k) m"
  using control_preserves [of m "\<lambda>c. gc_rank (fst c) \<le> k"] by (simp add: control_def)

lemma rank_set_gc_op: "gc_rank (Some op) \<le> k \<Longrightarrow> preserves (rank_le k) (set_gc_op op)"
  unfolding set_gc_op_def by (rule preserves_vmodify) simp

lemma rank_growing: "preserves (rank_le k) (collect_growing_data_heap h n)"
  unfolding collect_growing_data_heap_def
  by (intro preserves_rules rank_control control_rules control_mark_impl control_compact_impl)

lemma rank_full: "preserves (rank_le k) (collect_full h)"
  unfolding collect_full_def
  by (intro preserves_rules rank_growing rank_set_gc_op rank_control [OF control_mark_impl] rank_control [OF control_sweep_impl]
      rank_control [OF control_compact_impl] rank_control [OF control_resets(4)]) simp_all

lemma rank_compact: "preserves (rank_le k) (collect_compact h)"
  unfolding collect_compact_def
  by (intro preserves_rules rank_growing rank_set_gc_op rank_control [OF control_mark_impl] rank_control [OF control_compact_impl]
      rank_control [OF control_resets(4)]) simp_all

lemma rank_full_if_fragmented: "preserves (rank_le k) (full_if_fragmented h)"
  unfolding full_if_fragmented_def
  by (intro preserves_rules rank_full rank_set_gc_op rank_control [OF control_resets(4)]) simp_all

lemma rank_aging: "1 \<le> k \<Longrightarrow> preserves (rank_le k) (collect_aging h)"
  unfolding collect_aging_def
  by (intro preserves_rules rank_set_gc_op rank_control [OF from_tenured_quiet.cards] rank_control [OF from_tenured_quiet.code_heap_roots]
      rank_control [OF from_tenured_quiet.mark_stack] rank_control [OF to_aging_quiet.all_roots] rank_control [OF to_aging_quiet.cheney]
      rank_control [OF control_vm_data] rank_control [OF control_resets(1)] rank_control [OF control_resets(2)]
      rank_control [OF control_steps(13)]) simp_all

lemma gc_attempt_rank:
  assumes "gc_attempt h n s = Some (s', r)"
  shows "gc_rank (current_gc s') \<le> gc_rank (current_gc s)"
proof -
  define k where "k = gc_rank (current_gc s)"
  have nursery: "preserves (rank_le k) (collect_nursery h)" and to_tenured: "preserves (rank_le k) (collect_to_tenured h)"
    by (intro rank_control control_collect_nursery control_collect_to_tenured)+
  obtain op where op: "current_gc s = Some op" using assms by (cases "current_gc s") (auto simp: gc_attempt_def visit_simps)
  have aging: "preserves (rank_le k) (collect_aging h)" if "op = COLLECT_AGING_OP" using that by (intro rank_aging) (simp add: k_def op)
  obtain m where "m s = Some (s', r)" "preserves (rank_le k) m"
  proof (cases op)
    case COLLECT_NURSERY_OP
    then show thesis using that [OF _ nursery] assms by (simp add: gc_attempt_def visit_simps op)
  next
    case COLLECT_AGING_OP
    then show thesis using that [OF _ preserves_vthen [OF aging rank_full_if_fragmented]] assms by (simp add: gc_attempt_def vbind_simps(3) vget_def op)
  next
    case COLLECT_TO_TENURED_OP
    then show thesis using that [OF _ preserves_vthen [OF to_tenured rank_full_if_fragmented]] assms by (simp add: gc_attempt_def vbind_simps(3) vget_def op)
  next
    case COLLECT_FULL_OP
    then show thesis using that [OF _ rank_full] assms by (simp add: gc_attempt_def visit_simps op)
  next
    case COLLECT_COMPACT_OP
    then show thesis using that [OF _ rank_compact] assms by (simp add: gc_attempt_def visit_simps op)
  next
    case COLLECT_GROWING_DATA_HEAP_OP
    then show thesis using that [OF _ rank_growing] assms by (simp add: gc_attempt_def visit_simps op)
  qed
  then have "gc_rank (current_gc s') \<le> k" using preservesD [of "rank_le k" m s s' r] by (simp add: k_def)
  then show ?thesis by (simp add: k_def)
qed

lemma start_gc_again_rank:
  "start_gc_again s = Some (s', r) \<Longrightarrow> gc_rank (current_gc s') < gc_rank (current_gc s) \<and> r = Inr ()"
  "gc_rank (current_gc s) = 0 \<Longrightarrow> start_gc_again s = None"
  by (auto simp: start_gc_again_def set_gc_op_def visit_simps split: if_splits)

text \<open>The loop with a bound on the number of attempts.\<close>

primrec gc_attempts :: "host \<Rightarrow> cell \<Rightarrow> nat \<Rightarrow> (factor_vm, unit) visit" where
  "gc_attempts h n 0 = vlift None"
| "gc_attempts h n (Suc k) = vcatch (gc_attempt h n) (vthen start_gc_again (gc_attempts h n k))"

lemma gc_loop_bounded: "gc_rank (current_gc s) < k \<Longrightarrow> gc_loop h n s = gc_attempts h n k s"
proof (induction k arbitrary: s)
  case (Suc k)
  have "vthen start_gc_again (gc_loop h n) s' = vthen start_gc_again (gc_attempts h n k) s'"
    if "gc_attempt h n s = Some (s', r)" for s' r
  proof (cases "start_gc_again s'")
    case None
    then show ?thesis by (simp add: visit_simps)
  next
    case (Some p)
    then obtain t where t: "start_gc_again s' = Some (t, Inr ())" using start_gc_again_rank(1) by (cases p) auto
    have "gc_rank (current_gc t) < gc_rank (current_gc s')" using start_gc_again_rank(1) [OF t] by simp
    also have "\<dots> \<le> gc_rank (current_gc s)" using gc_attempt_rank [OF that] .
    finally have "gc_loop h n t = gc_attempts h n k t" using Suc.prems by (intro Suc.IH) simp
    then show ?thesis by (simp add: vthen_def vbind_simps(3) t)
  qed
  then show ?case by (subst gc_loop.simps) (auto simp: vcatch_def split: Option.bind_splits)
qed simp

end
