(* ===== verification/Sample_State.thy ===== *)
theory Sample_State
  imports Pure_Fixup Heap_Checker Signals Inline_Caches Copying Collector_Control Memory_Properties
begin

text \<open>
  A small concrete state: a data heap as its constructor lays it out, no code, no callbacks
  and no contexts. The concrete inputs of the properties of the running machine are variants
  of it.
\<close>

unbundle bit_operations_syntax

definition sample_heap :: data_heap where
  "sample_heap =
     \<lparr>dh_start = 0x100000, young_size = 0x40000, aging_size = 0x40000, tenured_size = 0x100000,
      dh_seg = \<lparr>seg_start = 0x100000, seg_size = 0x200000, seg_end = 0x300000\<rparr>,
      nursery = new_bump_allocator 0x40000 0x280000,
      aging = \<lparr>as_bump = new_bump_allocator 0x40000 0x200000, as_starts = new_object_start_map 0 0x40000 0x200000\<rparr>,
      aging_semispace = \<lparr>as_bump = new_bump_allocator 0x40000 0x240000, as_starts = new_object_start_map 0 0x40000 0x240000\<rparr>,
      tenured = \<lparr>ts_free = \<lparr>fl_start = 0x100000, fl_end = 0x200000, fl_size = 0x100000, small_blocks = replicate 32 [],
        large_blocks = [0x100000], free_block_count = 1, free_space = 0x100000,
        fl_state = new_mark_bits 0x100000 0x100000\<rparr>, ts_starts = new_object_start_map 0 0x100000 0x100000\<rparr>,
      cards = replicate 8192 0, decks = replicate 8 0\<rparr>"

definition sample_memory :: memory where
  "sample_memory = (\<lambda>_. 0)(0x100000 := 0x100001)"

lemma sample_constructed:
  "new_data_heap (\<lambda>_. 0x100000) 0 (\<lambda>_. 0) 1 1 1000000 = Some (sample_memory, sample_heap)"
  by (simp add: new_data_heap_def align_def new_tenured_space_def new_free_list_allocator_def initial_free_list_def
    new_aging_space_def new_bump_allocator_def make_free_def add_to_free_list_def clear_free_list_def free_list_count_def
    free_block_size_def allocation_page_size_def deck_size_exp card_size_def large_insert_def header_size_def data_alignment_def
    sample_heap_def sample_memory_def Let_def)

lemma sample_heap_wf: "heap_wf (sample_memory, sample_heap)"
proof -
  have "segment_ok (\<lambda>_. 0x100000)" by (simp add: segment_ok_def)
  then show ?thesis using new_data_heap_wf [of "\<lambda>_. 0x100000" 1 1 1000000 0 "\<lambda>_. 0"] sample_constructed by simp
qed

definition sample_host :: host where
  "sample_host =
     \<lparr>host_debug = False, host_pagesize = 0x1000, host_alloc_segment = \<lambda>_. 0x100000, host_garbage = 0, host_vm_address = 0x10,
      host_cache_hits = 0x20, host_undefined_symbol = 0x30, host_inline_cache_miss = 0x40, host_cards = \<lambda>_. 0x1000,
      host_decks = \<lambda>_. 0x4000, host_dlsym = \<lambda>_ _ _. 0\<rparr>"

text \<open>Code and callbacks are in segments at \<open>0x400000\<close> and \<open>0x500000\<close>, without any blocks.\<close>

definition sample_segment :: "cell \<Rightarrow> cell \<Rightarrow> segment" where
  "sample_segment start sz = \<lparr>seg_start = start, seg_size = sz, seg_end = start + sz\<rparr>"

definition no_blocks :: "cell \<Rightarrow> free_list" where
  "no_blocks start =
     \<lparr>fl_start = start, fl_end = start, fl_size = 0, small_blocks = replicate 32 [], large_blocks = [], free_block_count = 0,
      free_space = 0, fl_state = new_mark_bits 0 start\<rparr>"

definition sample_context :: vm_context where
  "sample_context =
     \<lparr>callstack_top = 0xa7fd8, callstack_bottom = 0xa7fd8, datastack = 0x7fff8, retainstack = 0x8fff8, callstack_save = 0,
      datastack_seg = sample_segment 0x80000 0x8000, retainstack_seg = sample_segment 0x90000 0x8000,
      callstack_seg = sample_segment 0xa0000 0x8000, context_objects = replicate 4 false_object\<rparr>"

definition sample_vm :: factor_vm where
  "sample_vm =
     \<lparr>vm_memory = sample_memory, ctx = Some 0x60, spare_ctx = None, contexts = \<lambda>_. sample_context, signal_handler_addr = 0,
      special_objects = replicate special_object_count false_object, datastack_size = 0x8000, retainstack_size = 0x8000, callstack_size = 0x8000,
      callback_ids = [], callback_id = 0, unused_contexts = [], active_contexts = [], signal_resumable = False, samples = [],
      gc_off = False, vm_data = sample_heap,
      vm_code = \<lparr>ch_seg = sample_segment 0x400000 0x10000, safepoint_page = 0x400000, ch_allocator = no_blocks 0x401000,
        all_blocks = [], uninitialized_blocks = [], points_to_nursery = [], points_to_aging = []\<rparr>,
      callbacks = \<lparr>cb_seg = sample_segment 0x500000 0x1000, cb_allocator = no_blocks 0x500000\<rparr>,
      current_gc = None, mark_stack = [], data_roots = [], code_roots = [], max_pic_size = 3, object_counter = 0,
      dispatch_stats = \<lparr>megamorphic_cache_hits = 0, megamorphic_cache_misses = 0, cold_call_to_ic_transitions = 0,
        ic_to_pic_transitions = 0, pic_to_mega_transitions = 0, pic_tag_count = 0, pic_tuple_count = 0\<rparr>,
      current_jit_count = 0, faulting_p = False, signal_number = 0, signal_fault_addr = 0, signal_fault_pc = 0,
      signal_fpu_status = 0, sampling_profiler_p = False, samples_per_second = 0,
      current_sample = new_sample 0 0 0 0 0, safepoint_guard = False, safepoint_fep_p = False, fep_p = False,
      stop_on_ctrl_break = False, data_finger = 0, code_finger = 0\<rparr>"

end
