(* ===== verification/Spec2Isabelle.thy ===== *)
theory Spec2Isabelle
  imports Arithmetic_Properties Heap_Properties Memory_Properties Sample_State
begin

text \<open>
  Verification library for the Factor virtual machine (\<open>src/vm\<close>): the C++ program that runs
  compiled Factor code, with its arithmetic, its memory management, its code generator and
  its images.

  \<^bold>\<open>The parts and how they interact.\<close> Objects are blocks of 8-byte cells with a header;
  a cell is a tagged value, whose low four bits say what it is. Objects live in a data heap of
  three generations (nursery, aging and tenured space) and code blocks in a code heap.
  Primitives take their arguments from the data stack of the current context, allocate in
  the nursery, and pass errors to a handler written in Factor. An allocation that finds no
  room runs a collection: a visitor goes over the roots and over the marked cards with a
  fix-up that copies, marks or forwards, and the driver escalates from the nursery collector
  up to growing the heap. Generated code is patched when code or the objects it mentions
  move, when a word is redefined, and when an inline cache is extended. An image is the
  contents of both heaps; loading it relocates every pointer.

  \<^bold>\<open>Theories and the code they model\<close> (file names are those of \<open>src/vm\<close>).

  \<^item> \<open>VM_Prelude\<close>: words, lists and options, the collections of simplification rules.
  \<^item> \<open>Bignum_Rep\<close>, \<open>Bignum_Add\<close>, \<open>Bignum_Mul\<close>, \<open>Bignum_Digit_Div\<close>, \<open>Bignum_Div\<close>,
    \<open>Bignum_Bits\<close>, \<open>Bignum_Conv\<close>: \<open>bignum.cpp\<close>, \<open>bignumint.hpp\<close>, function by function on lists
    of 62-bit digits; \<open>bignum_val\<close> is the integer denoted, \<open>bignum_wf\<close> the invariant.
  \<^item> \<open>Layouts\<close>, \<open>Heap_Objects\<close>: \<open>layouts.hpp\<close>, \<open>tagged.hpp\<close>, \<open>objects.hpp\<close>; tags, headers, fields,
    sizes and slot counts.
  \<^item> \<open>Math_Primitives\<close>: the integer primitives of \<open>math.cpp\<close> and \<open>math.hpp\<close>.
  \<^item> \<open>Bitwise_Hacks\<close>, \<open>Mark_Bits\<close>, \<open>Object_Starts\<close>: \<open>bitwise_hacks.hpp\<close>, \<open>mark_bits.hpp\<close>,
    \<open>object_start_map.cpp\<close>, \<open>write_barrier.hpp\<close>.
  \<^item> \<open>Allocator\<close>: the interface \<open>block_allocator\<close>. \<open>Free_List\<close>, \<open>Free_List_Inv\<close>,
    \<open>Free_List_Compact\<close>: \<open>free_list.hpp\<close>, its invariant, sweeping and compaction.
  \<^item> \<open>Spaces\<close>, \<open>Data_Heap\<close>: \<open>bump_allocator.hpp\<close>, \<open>aging_space.hpp\<close>, \<open>tenured_space.hpp\<close>,
    \<open>data_heap.cpp\<close>, \<open>segments.hpp\<close>; the invariant is \<open>heap_wf\<close>.
  \<^item> \<open>Byte_Memory\<close>, \<open>Instruction_Operands\<close>, \<open>Code_Heap\<close>, \<open>Relocation\<close>: \<open>instruction_operands.cpp\<close>,
    \<open>code_heap.cpp\<close>, \<open>code_blocks.cpp\<close>, \<open>callbacks.cpp\<close>, \<open>cpu-x86.hpp\<close>.
  \<^item> \<open>VM_State\<close>, \<open>Visit_Logic\<close>: the state (\<open>vm.hpp\<close>) and computations on it.
    \<open>Special_Objects\<close>, \<open>Contexts\<close>: \<open>objects.hpp\<close>, \<open>contexts.cpp\<close>.
  \<^item> \<open>Slot_Visitor\<close>, \<open>Collectors\<close>, \<open>Copying\<close>, \<open>Collector_Control\<close>, \<open>Pure_Fixup\<close>: \<open>slot_visitor.hpp\<close>,
    \<open>gc_info.hpp\<close>, the collectors, \<open>compaction.cpp\<close>, \<open>gc.cpp\<close>.
  \<^item> \<open>Allocation\<close>, \<open>VM_Primitives\<close>: \<open>allot.hpp\<close>, \<open>arrays.cpp\<close>, \<open>byte_arrays.cpp\<close>, \<open>strings.cpp\<close>,
    \<open>tuples.cpp\<close>, \<open>objects.cpp\<close>, \<open>alien.cpp\<close> and the other primitives that allocate.
  \<^item> \<open>Code_Generation\<close>, \<open>Quotation_Compiler\<close>, \<open>Inline_Caches\<close>: \<open>jit.cpp\<close>, \<open>quotations.cpp\<close>,
    \<open>words.cpp\<close>, \<open>callstack.cpp\<close>, \<open>dispatch.cpp\<close>, \<open>inline_cache.cpp\<close>.
  \<^item> \<open>Signals\<close>, \<open>Image\<close>, \<open>Heap_Checker\<close>: \<open>errors.cpp\<close>, \<open>cpu-x86.cpp\<close>, \<open>safepoints.cpp\<close>,
    \<open>sampling_profiler.cpp\<close>; \<open>io.cpp\<close>, \<open>image.cpp\<close>; \<open>data_heap_checker.cpp\<close>.
  \<^item> \<open>Sample_State\<close>: a concrete state for examples. The properties are in
    \<open>Arithmetic_Properties\<close>, \<open>Heap_Properties\<close>, \<open>Memory_Properties\<close> and below.

  \<^bold>\<open>Conventions.\<close> The machine is 64-bit x86, little-endian, not Windows. A \<open>cell\<close> is a
  64-bit word and its arithmetic wraps; a \<open>fixnum\<close> is an integer with the wrap-around
  written out (\<open>fx\<close>). Memory is a function from cell-aligned addresses to cells, from which
  access to bytes is derived. A computation on the state (\<open>visit\<close>) returns \<open>None\<close> when an
  assertion fails, a critical error is reported or it does not return; otherwise the next
  state with a value or with the exception the source throws. Assertions count in every
  build, as they do in a debug build; fill patterns depend on \<open>host_debug\<close>. What comes from
  the surroundings of the program (segments, page size, symbols, addresses of the virtual
  machine's own fields) is the record \<open>host\<close>; the low-level debugger, the library loader and the
  file system are arguments where they occur.

  \<^bold>\<open>Loops.\<close> A loop over a list or a counter is a \<open>fun\<close> or \<open>primrec\<close>; one with another
  measure is a \<open>function\<close> with its termination proof; a loop whose end depends on the
  contents of memory is a \<open>partial_function (option)\<close>, where \<open>None\<close> includes that it does not
  return, and no fuel is used. Returning is then part of what is proved: sweeping, compaction and the walk
  over the heap return on every well-formed heap, and the driver of the collectors is equal
  to a bounded number of attempts (\<open>gc_loop_bounded\<close>).

  \<^bold>\<open>What the lemmas show.\<close> For bignums, that every operation keeps the invariant and computes the
  integer function, with the one exception of exclusive or, whose failing inputs are
  characterised. For the allocators, the contract of \<open>block_allocator\<close>: a block that is handed
  out was free, has the right size and overlaps nothing; freeing, sweeping and compaction
  restore exactly the free bytes. For the data heap, that all operations keep \<open>heap_wf\<close>, that
  the write barrier marks the card, and that walking enumerates the objects. For the
  collectors, what copying does to memory (\<open>copy_target\<close>), that visitors change only what their
  fix-up changes (\<open>quiet_fixup\<close>, \<open>pure_fixup\<close>), and that the driver stops. For code, round trips of
  operands and lookup of blocks by address. For contexts, that an error leaves the stacks in
  bounds and that the pool never hands out a context twice.

  \<^bold>\<open>Interfaces.\<close> \<open>block_allocator\<close> is interpreted on the free list, aging and tenured space;
  \<open>copy_target\<close> on the last two; \<open>quiet_fixup\<close> on the five fix-ups of the collectors;
  \<open>pure_fixup\<close> on those of \<open>become\<close> and of image loading.

  \<^bold>\<open>Not modelled.\<close> Floating-point arithmetic and formatting (calls of the C++ library on doubles), the
  greatest common divisor of bignums (Lehmer's algorithm) and conversion from doubles; the
  low-level debugger (\<open>debug.cpp\<close>: printing only); the log of collection events; command line
  options, embedded images and process startup (\<open>factor.cpp\<close>, \<open>vm.cpp\<close>); the operating system
  layers (\<open>os-*.cpp\<close>, \<open>mach_signal.cpp\<close>, \<open>mvm-*.cpp\<close>), guard pages and timers; the primitives of \<open>io.cpp\<close>
  that wrap a single call; the entry into generated machine code and its execution; other
  processors than x86-64, apart from the classes of instruction operands; the primitives that
  report sizes to the program.
\<close>

subsection \<open>Arbitrary-precision arithmetic\<close>

text \<open>
  C1. Division of bignums is truncated division: for well-formed operands and a non-zero
  denominator \<open>bignum_divide\<close> returns, its quotient and remainder are well formed, they
  satisfy the division equation, the remainder is smaller than the denominator in
  magnitude and is zero or has the sign of the numerator.
\<close>

theorem bignum_divide_correct:
  assumes "bignum_wf n" "bignum_wf d" "bignum_val d \<noteq> 0"
  shows "\<exists>q r. bignum_divide mem n d = Some (Inr (q, r)) \<and> bignum_wf q \<and> bignum_wf r \<and>
    bignum_val n = bignum_val q * bignum_val d + bignum_val r \<and>
    \<bar>bignum_val r\<bar> < \<bar>bignum_val d\<bar> \<and> (bignum_val r = 0 \<or> sgn (bignum_val r) = sgn (bignum_val n))"
proof -
  obtain q r where r: "bignum_divide mem n d = Some (Inr (q, r))" "bignum_wf q" "bignum_wf r"
      "bignum_val q = bignum_val n sdiv bignum_val d" "bignum_val r = bignum_val n smod bignum_val d"
    using bignum_divide_val [OF assms] by blast
  moreover have "\<bar>bignum_val r\<bar> < \<bar>bignum_val d\<bar>"
    using smod_int_range [OF assms(3), of "bignum_val n"] by (simp add: r(5) abs_less_iff)
  moreover have "bignum_val r = 0 \<or> sgn (bignum_val r) = sgn (bignum_val n)"
    unfolding r(5) by (rule smod_sign [OF assms(3)])
  ultimately show ?thesis by (auto simp: sdiv_mult_smod_eq)
qed

theorem bignum_divide_correct_witness:
  "\<exists>q r. bignum_divide (\<lambda>_. 0) (mk_bignum True [5, 7, 3]) (mk_bignum False [9, 2]) = Some (Inr (q, r)) \<and>
    \<bar>bignum_val r\<bar> < \<bar>bignum_val (mk_bignum False [9, 2])\<bar>"
  using bignum_divide_correct [of "mk_bignum True [5, 7, 3]" "mk_bignum False [9, 2]" "\<lambda>_. 0"]
  by (auto simp: bignum_wf_def digit_ok_def signed_val_def bignum_num)

end
